(* ===== verification/Prelude.thy ===== *)
theory Prelude
  imports Main "HOL-Library.Word" "HOL-Library.List_Lexorder" "HOL-Library.Sublist"
begin

text \<open>
  What every component of the development shares: the machine integers, the error type of
  \<^verbatim>\<open>src/src/error.rs\<close>, Rust's \<open>Result\<close> with panics made explicit, stateful operations that may
  fail, and the facts on the lexicographic order of byte strings that the key encoding and the
  storage engines rest on.

  A format string of the source is kept as the message of the error it builds, with its
  placeholders in place: the interpolated text is not modelled.  Integer arithmetic that Rust
  checks (\<^verbatim>\<open>+\<close> on a \<open>u64\<close> with overflow checks on, as in test builds) panics on
  overflow; casts with \<^verbatim>\<open>as\<close> truncate.
\<close>

section \<open>Machine types\<close>

type_synonym u8 = "8 word"
type_synonym u32 = "32 word"
type_synonym u64 = "64 word"
type_synonym bytes = "u8 list"

section \<open>Errors and results\<close>

datatype error =
    Abort
  | Config string
  | Internal string
  | Parse string
  | ReadOnly
  | Serialization
  | Value string

datatype 'a result = Ok 'a | Err error | Panic string

named_theorems monad_simps \<open>evaluation of results and of stateful operations\<close>

fun bind_r :: "'a result \<Rightarrow> ('a \<Rightarrow> 'b result) \<Rightarrow> 'b result" where
  "bind_r (Ok a) f = f a"
| "bind_r (Err e) f = Err e"
| "bind_r (Panic p) f = Panic p"

fun map_result :: "('a \<Rightarrow> 'b) \<Rightarrow> 'a result \<Rightarrow> 'b result" where
  "map_result f (Ok a) = Ok (f a)"
| "map_result f (Err e) = Err e"
| "map_result f (Panic p) = Panic p"

text \<open>Collecting an iterator of results stops at the first failure, as Rust's
  \<^verbatim>\<open>collect::<Result<Vec<_>>>()\<close> does.\<close>

fun collect_results :: "'a result list \<Rightarrow> 'a list result" where
  "collect_results [] = Ok []"
| "collect_results (r # rs) = bind_r r (\<lambda>a. bind_r (collect_results rs) (\<lambda>as. Ok (a # as)))"

text \<open>A method with a \<^verbatim>\<open>&mut self\<close> receiver: the state it runs on and the state it leaves,
  kept also where the method fails.\<close>

type_synonym ('s, 'a) op = "'s \<Rightarrow> 'a result \<times> 's"

definition return_op :: "'a \<Rightarrow> ('s, 'a) op" where
  [monad_simps]: "return_op a = (\<lambda>s. (Ok a, s))"

definition lift_op :: "'a result \<Rightarrow> ('s, 'a) op" where
  [monad_simps]: "lift_op r = (\<lambda>s. (r, s))"

definition bind_op :: "('s, 'a) op \<Rightarrow> ('a \<Rightarrow> ('s, 'b) op) \<Rightarrow> ('s, 'b) op" where
  "bind_op m f = (\<lambda>s. case m s of
      (Ok a, s') \<Rightarrow> f a s'
    | (Err e, s') \<Rightarrow> (Err e, s')
    | (Panic p, s') \<Rightarrow> (Panic p, s'))"

text \<open>Reading and updating the fields of the receiver.\<close>

definition gets_op :: "('s \<Rightarrow> 'a) \<Rightarrow> ('s, 'a) op" where
  "gets_op f = (\<lambda>s. (Ok (f s), s))"

definition modify_op :: "('s \<Rightarrow> 's) \<Rightarrow> ('s, unit) op" where
  "modify_op f = (\<lambda>s. (Ok (), f s))"

fun for_each :: "('a \<Rightarrow> ('s, unit) op) \<Rightarrow> 'a list \<Rightarrow> ('s, unit) op" where
  "for_each f [] = return_op ()"
| "for_each f (x # xs) = bind_op (f x) (\<lambda>_. for_each f xs)"

definition add_u64 :: "u64 \<Rightarrow> u64 \<Rightarrow> u64 result" where
  "add_u64 a b = (if unat a + unat b < 2 ^ 64 then Ok (a + b)
                  else Panic ''attempt to add with overflow'')"

lemma bind_op_Ok [monad_simps]: "m s = (Ok a, s') \<Longrightarrow> bind_op m f s = f a s'"
  and bind_op_Err [monad_simps]: "m s = (Err e, s') \<Longrightarrow> bind_op m f s = (Err e, s')"
  and bind_op_Panic [monad_simps]: "m s = (Panic p, s') \<Longrightarrow> bind_op m f s = (Panic p, s')"
  by (simp_all add: bind_op_def)

lemma op_apply [simp]:
  "return_op a s = (Ok a, s)" "lift_op r s = (r, s)" "gets_op f s = (Ok (f s), s)"
  "modify_op g s = (Ok (), g s)"
  by (simp_all add: return_op_def lift_op_def gets_op_def modify_op_def)

lemma bind_op_fields [simp]:
  "bind_op (gets_op f) m s = m (f s) s" "bind_op (modify_op g) n s = n () (g s)"
  by (simp_all add: bind_op_def)

lemma bind_op_return [simp]: "bind_op (return_op a) f = f a"
  by (simp add: bind_op_def return_op_def)

lemma bind_op_lift [simp]:
  "bind_op (lift_op (Ok a)) f = f a"
  "bind_op (lift_op (Err e)) f = lift_op (Err e)"
  "bind_op (lift_op (Panic p)) f = lift_op (Panic p)"
  by (simp_all add: bind_op_def lift_op_def)

lemma bind_op_eq_Ok:
  "bind_op m f s = (Ok b, s'') \<longleftrightarrow> (\<exists>a s'. m s = (Ok a, s') \<and> f a s' = (Ok b, s''))"
  by (auto simp: bind_op_def split: prod.splits result.splits)

lemma bind_r_eq_Ok: "bind_r m f = Ok b \<longleftrightarrow> (\<exists>a. m = Ok a \<and> f a = Ok b)"
  by (cases m) auto

lemma collect_results_Ok [simp]: "collect_results (map Ok xs) = Ok xs"
  by (induction xs) auto

lemma collect_results_map_Ok [simp]: "collect_results (map (\<lambda>x. Ok (f x)) xs) = Ok (map f xs)"
  by (induction xs) auto

lemma add_u64_Ok: "add_u64 a b = Ok c \<longleftrightarrow> c = a + b \<and> unat a + unat b < 2 ^ 64"
  by (auto simp: add_u64_def)

lemma add_u64_unat: "add_u64 a b = Ok c \<Longrightarrow> unat c = unat a + unat b"
  by (auto simp: add_u64_def unat_word_ariths split: if_splits)

lemma add_u64_one_less: "add_u64 a 1 = Ok c \<Longrightarrow> (x < c) = (x \<le> a)"
  by (auto dest!: add_u64_unat simp: word_less_nat_alt word_le_nat_alt)

section \<open>Lexicographic order of byte strings\<close>

lemma lex_append_same [simp]:
  fixes xs ys :: "'a::linorder list"
  shows "p @ xs < p @ ys \<longleftrightarrow> xs < ys"
  by (induction p) auto

lemma lex_append_le_same [simp]:
  fixes xs ys :: "'a::linorder list"
  shows "p @ xs \<le> p @ ys \<longleftrightarrow> xs \<le> ys"
  by (simp add: le_less)

lemma lex_append_less:
  fixes xs ys :: "'a::linorder list"
  shows "length xs = length ys \<Longrightarrow> xs < ys \<Longrightarrow> xs @ r < ys @ s"
  by (induction xs ys rule: list_induct2) auto

lemma lex_prefix_le:
  fixes xs :: "'a::linorder list"
  shows "xs \<le> xs @ ys"
  by (induction xs) auto

lemma lex_not_less_prefix [simp]:
  fixes xs :: "'a::linorder list"
  shows "\<not> xs @ ys < xs"
  using lex_prefix_le [of xs ys] by (simp add: not_less)

end
