(* ===== verification/Keycode.thy ===== *)
theory Keycode
  imports Prelude
begin

text \<open>
  The order-preserving key encoding of \<^verbatim>\<open>src/src/encoding/keycode.rs\<close>.  A Rust value reaches the
  serializer through the calls of the serde data model; \<open>serde\<close> has one constructor per call, so
  that \<open>serialize_into\<close> is the whole \<^verbatim>\<open>impl serde::Serializer\<close>, its
  \<^verbatim>\<open>unimplemented!()\<close> methods included.  A decoder is an operation on the remaining input.
  The interface the storage layers rely on is the locale \<open>order_codec\<close>: an encoding that can be
  decoded in front of any suffix and that keeps the order of the values whatever follows.

  A \<open>u64\<close> and an \<open>i64\<close> are 64-bit words (the latter read with \<open>sint\<close>), an \<open>f64\<close> is
  its IEEE 754 bit pattern, a \<open>String\<close> its UTF-8 bytes.
\<close>

unbundle bit_operations_syntax

section \<open>Big-endian bytes\<close>

fun to_be :: "nat \<Rightarrow> nat \<Rightarrow> bytes" where
  "to_be 0 n = []"
| "to_be (Suc k) n = of_nat (n div 256 ^ k) # to_be k (n mod 256 ^ k)"

definition from_be :: "bytes \<Rightarrow> nat" where
  "from_be bs = foldl (\<lambda>a b. a * 256 + unat b) 0 bs"

definition to_be_bytes :: "'a::len word \<Rightarrow> bytes" where
  "to_be_bytes w = to_be (LENGTH('a) div 8) (unat w)"

definition from_be_bytes :: "bytes \<Rightarrow> 'a::len word" where
  "from_be_bytes bs = of_nat (from_be bs)"

section \<open>The serializer\<close>

datatype serde =
    S_bool bool | S_i8 | S_i16 | S_i32 | S_i64 u64 | S_u8 | S_u16 | S_u32 | S_u64 u64
  | S_f32 | S_f64 u64 | S_char | S_str bytes | S_bytes bytes | S_none | S_some | S_unit
  | S_unit_struct | S_unit_variant u32 | S_newtype_struct | S_newtype_variant u32 serde
  | S_seq "serde list" | S_tuple "serde list" | S_tuple_struct
  | S_tuple_variant u32 "serde list" | S_map | S_struct | S_struct_variant

type_synonym serializer = bytes

definition flip_sign :: "bytes \<Rightarrow> bytes" where
  "flip_sign bs = (case bs of [] \<Rightarrow> [] | b # bs' \<Rightarrow> (b XOR push_bit 7 1) # bs')"

definition serialize_bool :: "bool \<Rightarrow> (serializer, unit) op" where
  "serialize_bool v = (\<lambda>output. (Ok (), output @ [if v then 1 else 0]))"

definition serialize_i64 :: "u64 \<Rightarrow> (serializer, unit) op" where
  "serialize_i64 v = (\<lambda>output. (Ok (), output @ flip_sign (to_be_bytes v)))"

definition serialize_u64 :: "u64 \<Rightarrow> (serializer, unit) op" where
  "serialize_u64 v = (\<lambda>output. (Ok (), output @ to_be_bytes v))"

definition serialize_f64 :: "u64 \<Rightarrow> (serializer, unit) op" where
  "serialize_f64 v = (\<lambda>output.
     let bytes = to_be_bytes v in
     (Ok (), output @ (if hd bytes AND push_bit 7 1 = 0 then flip_sign bytes
                       else map (\<lambda>b. NOT b) bytes)))"

definition escape :: "u8 \<Rightarrow> bytes" where
  "escape b = (if b = 0x00 then [0x00, 0xff] else [b])"

definition serialize_bytes :: "bytes \<Rightarrow> (serializer, unit) op" where
  "serialize_bytes v = (\<lambda>output. (Ok (), output @ concat (map escape v) @ [0x00, 0x00]))"

definition serialize_str :: "bytes \<Rightarrow> (serializer, unit) op" where
  "serialize_str v = serialize_bytes v"

definition serialize_unit_variant :: "u32 \<Rightarrow> (serializer, unit) op" where
  "serialize_unit_variant index = (\<lambda>output.
     if unat index < 256 then (Ok (), output @ [ucast index])
     else (Err (Value ''out of range integral type conversion attempted''), output))"

definition unimplemented_op :: "('s, 'a) op" where
  "unimplemented_op = lift_op (Panic ''not implemented'')"

fun serialize_into :: "serde \<Rightarrow> (serializer, unit) op"
  and serialize_elements :: "serde list \<Rightarrow> (serializer, unit) op" where
  "serialize_into (S_bool v) = serialize_bool v"
| "serialize_into (S_i64 v) = serialize_i64 v"
| "serialize_into (S_u64 v) = serialize_u64 v"
| "serialize_into (S_f64 v) = serialize_f64 v"
| "serialize_into (S_str v) = serialize_str v"
| "serialize_into (S_bytes v) = serialize_bytes v"
| "serialize_into (S_unit_variant index) = serialize_unit_variant index"
| "serialize_into (S_newtype_variant index value) =
     bind_op (serialize_unit_variant index) (\<lambda>_. serialize_into value)"
| "serialize_into (S_seq values) = serialize_elements values"
| "serialize_into (S_tuple values) = serialize_elements values"
| "serialize_into (S_tuple_variant index values) =
     bind_op (serialize_unit_variant index) (\<lambda>_. serialize_elements values)"
| "serialize_into S_i8 = unimplemented_op"
| "serialize_into S_i16 = unimplemented_op"
| "serialize_into S_i32 = unimplemented_op"
| "serialize_into S_u8 = unimplemented_op"
| "serialize_into S_u16 = unimplemented_op"
| "serialize_into S_u32 = unimplemented_op"
| "serialize_into S_f32 = unimplemented_op"
| "serialize_into S_char = unimplemented_op"
| "serialize_into S_none = unimplemented_op"
| "serialize_into S_some = unimplemented_op"
| "serialize_into S_unit = unimplemented_op"
| "serialize_into S_unit_struct = unimplemented_op"
| "serialize_into S_newtype_struct = unimplemented_op"
| "serialize_into S_tuple_struct = unimplemented_op"
| "serialize_into S_map = unimplemented_op"
| "serialize_into S_struct = unimplemented_op"
| "serialize_into S_struct_variant = unimplemented_op"
| "serialize_elements [] = return_op ()"
| "serialize_elements (value # values) =
     bind_op (serialize_into value) (\<lambda>_. serialize_elements values)"

definition keycode_serialize :: "serde \<Rightarrow> bytes result" where
  "keycode_serialize key = (case serialize_into key [] of
      (Ok _, output) \<Rightarrow> Ok output
    | (Err e, _) \<Rightarrow> Err e
    | (Panic p, _) \<Rightarrow> Panic p)"

section \<open>The deserializer\<close>

type_synonym deserializer = bytes

definition take_bytes :: "nat \<Rightarrow> (deserializer, bytes) op" where
  "take_bytes len = (\<lambda>input.
     if length input < len
     then (Err (Internal ''Insufficient bytes, expected {} bytes for {:x?}''), input)
     else (Ok (take len input), drop len input))"

fun decode_loop :: "bytes \<Rightarrow> nat \<Rightarrow> bytes \<Rightarrow> (bytes \<times> nat) result" where
  "decode_loop [] i decoded = Err (Value ''Unexpected end of input'')"
| "decode_loop (b # rest) i decoded =
     (if b = 0x00 then
        (case rest of
           [] \<Rightarrow> Err (Value ''Invalid escape sequence'')
         | b' # rest' \<Rightarrow>
             if b' = 0x00 then Ok (decoded, i + 2)
             else if b' = 0xff then decode_loop rest' (i + 2) (decoded @ [0x00])
             else Err (Value ''Invalid escape sequence''))
      else decode_loop rest (i + 1) (decoded @ [b]))"

definition decode_next_bytes :: "(deserializer, bytes) op" where
  "decode_next_bytes = (\<lambda>input. case decode_loop input 0 [] of
      Ok (decoded, taken) \<Rightarrow> (Ok decoded, drop taken input)
    | Err e \<Rightarrow> (Err e, input)
    | Panic p \<Rightarrow> (Panic p, input))"

definition deserialize_bool :: "(deserializer, bool) op" where
  "deserialize_bool = bind_op (take_bytes 1) (\<lambda>bs.
     if bs ! 0 = 0x00 then return_op False
     else if bs ! 0 = 0x01 then return_op True
     else lift_op (Err (Internal ''Invalid boolean value {:?}'')))"

definition deserialize_i64 :: "(deserializer, u64) op" where
  "deserialize_i64 = bind_op (take_bytes 8) (\<lambda>bytes.
     return_op (from_be_bytes (flip_sign bytes)))"

definition deserialize_u64 :: "(deserializer, u64) op" where
  "deserialize_u64 = bind_op (take_bytes 8) (\<lambda>bytes. return_op (from_be_bytes bytes))"

definition deserialize_f64 :: "(deserializer, u64) op" where
  "deserialize_f64 = bind_op (take_bytes 8) (\<lambda>bytes.
     return_op (from_be_bytes (if drop_bit 7 (hd bytes) AND 1 = 1 then flip_sign bytes
                               else map (\<lambda>b. NOT b) bytes)))"

definition utf8_tail :: "u8 \<Rightarrow> bool" where
  "utf8_tail b \<longleftrightarrow> 0x80 \<le> b \<and> b \<le> 0xbf"

fun utf8_valid :: "bytes \<Rightarrow> bool" where
  "utf8_valid [] = True"
| "utf8_valid (a # r) =
     (if a \<le> 0x7f then utf8_valid r
      else if 0xc2 \<le> a \<and> a \<le> 0xdf then
        (case r of b # r1 \<Rightarrow> utf8_tail b \<and> utf8_valid r1 | [] \<Rightarrow> False)
      else if 0xe0 \<le> a \<and> a \<le> 0xef then
        (case r of b # c # r2 \<Rightarrow>
           utf8_tail b \<and> (a = 0xe0 \<longrightarrow> 0xa0 \<le> b) \<and> (a = 0xed \<longrightarrow> b \<le> 0x9f) \<and> utf8_tail c \<and>
           utf8_valid r2
         | _ \<Rightarrow> False)
      else if 0xf0 \<le> a \<and> a \<le> 0xf4 then
        (case r of b # c # d # r3 \<Rightarrow>
           utf8_tail b \<and> (a = 0xf0 \<longrightarrow> 0x90 \<le> b) \<and> (a = 0xf4 \<longrightarrow> b \<le> 0x8f) \<and> utf8_tail c \<and>
           utf8_tail d \<and> utf8_valid r3
         | _ \<Rightarrow> False)
      else False)"

definition from_utf8 :: "bytes \<Rightarrow> bytes result" where
  "from_utf8 bs = (if utf8_valid bs then Ok bs else Err (Internal ''invalid utf-8 sequence''))"

definition deserialize_string :: "(deserializer, bytes) op" where
  "deserialize_string = bind_op decode_next_bytes (\<lambda>bytes. lift_op (from_utf8 bytes))"

definition deserialize_bytes :: "(deserializer, bytes) op" where
  "deserialize_bytes = decode_next_bytes"

definition next_element_seed :: "(deserializer, 'a) op \<Rightarrow> (deserializer, 'a option) op" where
  "next_element_seed seed = (\<lambda>input.
     if input = [] then (Ok None, input)
     else bind_op seed (\<lambda>a. return_op (Some a)) input)"

text \<open>The visitor that serde derives for a tuple variant asks for each field in turn and reports
  a missing one.\<close>

definition next_field :: "(deserializer, 'a) op \<Rightarrow> (deserializer, 'a) op" where
  "next_field seed = bind_op (next_element_seed seed) (\<lambda>a. case a of
      Some a \<Rightarrow> return_op a
    | None \<Rightarrow> lift_op (Err (Internal ''invalid length {}, expected {}'')))"

definition variant_seed :: "nat \<Rightarrow> (deserializer, nat) op" where
  "variant_seed variants = bind_op (take_bytes 1) (\<lambda>bs.
     if unat (bs ! 0) < variants then return_op (unat (bs ! 0))
     else lift_op (Err (Internal ''invalid value: integer, expected variant index'')))"

definition keycode_deserialize :: "(deserializer, 'a) op \<Rightarrow> bytes \<Rightarrow> 'a result" where
  "keycode_deserialize deserialize_t input = (case deserialize_t input of
      (Ok t, rest) \<Rightarrow>
        if rest \<noteq> []
        then Err (Internal ''Unexpected trailing bytes {:x?} at end of key {:x?}'')
        else Ok t
    | (Err e, _) \<Rightarrow> Err e
    | (Panic p, _) \<Rightarrow> Panic p)"

section \<open>Big-endian bytes keep numbers and their order\<close>

lemma length_to_be [simp]: "length (to_be k n) = k"
  by (induction k arbitrary: n) auto

lemma from_be_foldl: "foldl (\<lambda>a b. a * 256 + unat b) a bs = a * 256 ^ length bs + from_be bs"
proof (induction bs arbitrary: a)
  case Nil
  then show ?case by (simp add: from_be_def)
next
  case (Cons b bs)
  from Cons [of "a * 256 + unat b"] Cons [of "unat b"] show ?case
    by (simp add: from_be_def algebra_simps)
qed

lemma from_be_Nil [simp]: "from_be [] = 0"
  by (simp add: from_be_def)

lemma from_be_Cons [simp]: "from_be (b # bs) = unat b * 256 ^ length bs + from_be bs"
  using from_be_foldl [of "unat b" bs] by (simp add: from_be_def)

lemma unat_u8_less: "unat (b :: u8) < 256"
  using unsigned_less [of b] by simp

lemma from_be_bound: "from_be bs < 256 ^ length bs"
proof (induction bs)
  case (Cons b bs)
  have "unat b * 256 ^ length bs + from_be bs < (unat b + 1) * 256 ^ length bs"
    using Cons by simp
  also have "\<dots> \<le> 256 * 256 ^ length bs"
    using unat_u8_less [of b] by (intro mult_le_mono1) simp
  finally show ?case by simp
qed simp

lemma unat_of_nat_u8: "n < 256 \<Longrightarrow> unat (of_nat n :: u8) = n"
  by (simp add: unat_of_nat)

lemma top_digit_less: "n < 256 ^ Suc k \<Longrightarrow> n div 256 ^ k < (256 :: nat)"
  by (simp add: div_less_iff_less_mult mult.commute)

lemma from_to_be: "n < 256 ^ k \<Longrightarrow> from_be (to_be k n) = n"
proof (induction k arbitrary: n)
  case (Suc k)
  then show ?case
    using top_digit_less [OF Suc.prems] by (simp add: unat_of_nat_u8 div_mult_mod_eq)
qed simp

lemma to_from_be: "to_be (length bs) (from_be bs) = bs"
proof (induction bs)
  case (Cons b bs)
  have "(unat b * 256 ^ length bs + from_be bs) div 256 ^ length bs = unat b"
    and "(unat b * 256 ^ length bs + from_be bs) mod 256 ^ length bs = from_be bs"
    using from_be_bound [of bs] by simp_all
  with Cons show ?case by simp
qed simp

lemma div_mod_less_iff:
  fixes n m p :: nat
  assumes "0 < p"
  shows "n < m \<longleftrightarrow> n div p < m div p \<or> n div p = m div p \<and> n mod p < m mod p"
proof (cases "n div p" "m div p" rule: linorder_cases)
  case equal
  then show ?thesis
    by (metis div_mult_mod_eq less_irrefl nat_add_left_cancel_less)
next
  case less
  then have "\<not> m \<le> n" by (meson div_le_mono leD)
  with less show ?thesis by simp
next
  case greater
  then have "\<not> n \<le> m" by (meson div_le_mono leD)
  with greater show ?thesis by simp
qed

lemma to_be_less_iff:
  "n < 256 ^ k \<Longrightarrow> m < 256 ^ k \<Longrightarrow> to_be k n < to_be k m \<longleftrightarrow> n < m"
proof (induction k arbitrary: n m)
  case (Suc k)
  let ?p = "256 ^ k :: nat"
  have d: "n div ?p < 256" "m div ?p < 256"
    using Suc.prems by (auto intro: top_digit_less)
  have "(of_nat (n div ?p) :: u8) < of_nat (m div ?p) \<longleftrightarrow> n div ?p < m div ?p"
    and "(of_nat (n div ?p) :: u8) = of_nat (m div ?p) \<longleftrightarrow> n div ?p = m div ?p"
    using d by (auto simp: word_less_nat_alt unat_of_nat_u8 dest: arg_cong [where f = unat])
  moreover note div_mod_less_iff [of ?p n m]
  ultimately show ?case
    using Suc.IH [of "n mod ?p" "m mod ?p"] by simp
qed simp

lemma unat_u64_less: "unat (w :: u64) < 256 ^ 8"
  using unsigned_less [of w] by simp

lemma to_be_bytes_u64: "to_be_bytes (w :: u64) = to_be 8 (unat w)"
  by (simp add: to_be_bytes_def)

lemma length_to_be_bytes_u64 [simp]: "length (to_be_bytes (w :: u64)) = 8"
  by (simp add: to_be_bytes_u64)

lemma from_to_be_bytes_u64 [simp]: "from_be_bytes (to_be_bytes (w :: u64)) = w"
  using unat_u64_less [of w] by (simp add: to_be_bytes_u64 from_be_bytes_def from_to_be)

lemma to_be_bytes_u64_less: "to_be_bytes (v :: u64) < to_be_bytes w \<longleftrightarrow> v < w"
  using to_be_less_iff [OF unat_u64_less unat_u64_less, of v w]
  by (simp add: to_be_bytes_u64 word_less_nat_alt)

section \<open>The codec interface\<close>

definition encoded :: "('a \<Rightarrow> (serializer, unit) op) \<Rightarrow> 'a \<Rightarrow> bytes" where
  "encoded ser x = snd (ser x [])"

locale order_codec =
  fixes ser :: "'a \<Rightarrow> (serializer, unit) op"
    and dec :: "(deserializer, 'a) op"
    and lt :: "'a \<Rightarrow> 'a \<Rightarrow> bool"
    and dom :: "'a \<Rightarrow> bool"
  assumes appends: "ser x output = (Ok (), output @ encoded ser x)"
    and nonempty: "encoded ser x \<noteq> []"
    and total: "lt x y \<or> x = y \<or> lt y x"
    and mono: "lt x y \<Longrightarrow> encoded ser x @ r < encoded ser y @ s"
    and decodes: "dom x \<Longrightarrow> dec (encoded ser x @ r) = (Ok x, r)"
begin

lemma enc_inject: "encoded ser x @ r = encoded ser y @ s \<longleftrightarrow> x = y \<and> r = s"
  using total [of x y] mono [of x y r s] mono [of y x s r] by auto

lemma lt_irrefl: "\<not> lt x x"
  using mono [of x x "[]" "[]"] by auto

lemma enc_less_iff: "encoded ser x @ r < encoded ser y @ s \<longleftrightarrow> lt x y \<or> x = y \<and> r < s"
  using total [of x y] mono [of x y r s] mono [of y x s r] lt_irrefl
  by (metis lex_append_same less_asym)

lemma next_field_decodes: "dom x \<Longrightarrow> next_field dec (encoded ser x @ r) = (Ok x, r)"
  using nonempty [of x] decodes [of x r]
  by (simp add: next_field_def next_element_seed_def monad_simps)

end

section \<open>The primitive encodings\<close>

text \<open>The order that the encoding of an \<open>f64\<close> follows: sign and magnitude of the bit pattern, so
  that a negative zero stands right below the positive one and a positive NaN above infinity.\<close>

definition f64_rank :: "u64 \<Rightarrow> int" where
  "f64_rank w = (if unat w < 2 ^ 63 then int (unat w) else - 1 - (int (unat w) - 2 ^ 63))"

definition i64_less :: "u64 \<Rightarrow> u64 \<Rightarrow> bool" where
  "i64_less a b \<longleftrightarrow> sint a < sint b"

definition f64_less :: "u64 \<Rightarrow> u64 \<Rightarrow> bool" where
  "f64_less a b \<longleftrightarrow> f64_rank a < f64_rank b"

lemma u8_bit_7: "bit (b :: u8) 7 \<longleftrightarrow> 128 \<le> unat b"
proof -
  have "bit b 7 \<longleftrightarrow> bit (unat b) 7" by (simp add: bit_unsigned_iff)
  also have "\<dots> \<longleftrightarrow> odd (unat b div 2 ^ 7)" by (rule bit_iff_odd)
  finally have "bit b 7 \<longleftrightarrow> odd (unat b div 2 ^ 7)" .
  moreover have "unat b div 2 ^ 7 = (if 128 \<le> unat b then 1 else 0)"
    using unat_u8_less [of b] by (auto intro: div_nat_eqI)
  ultimately show ?thesis by simp
qed

lemma u8_sign_bit: "(b :: u8) AND 128 = 0 \<longleftrightarrow> unat b < 128"
  using and_exp_eq_0_iff_not_bit [of b 7] by (simp add: u8_bit_7 not_le)

lemma u8_xor_sign: "(b :: u8) XOR 128 = b + 128"
proof (cases "b AND 128 = 0")
  case True
  then show ?thesis by (simp add: disjunctive_add_eq_xor)
next
  case False
  let ?c = "b XOR 128"
  have "\<not> bit ?c 7"
    using False and_exp_eq_0_iff_not_bit [of b 7] by (simp add: bit_xor_iff)
  then have "?c AND 128 = 0"
    using and_exp_eq_0_iff_not_bit [of ?c 7] by simp
  then have "?c + 128 = ?c XOR 128" by (rule disjunctive_add_eq_xor)
  then have "?c + 128 = b" by (simp add: xor.assoc)
  then have "?c = b - 128" by (simp only: eq_diff_eq)
  also have "\<dots> = b + - 128" by (rule diff_conv_add_uminus)
  also have "(- 128 :: u8) = 128" by simp
  finally show ?thesis .
qed

lemma u8_shifted_sign_bit: "drop_bit 7 (b :: u8) AND 1 = 1 \<longleftrightarrow> 128 \<le> unat b"
  using u8_bit_7 [of b] by (simp add: and_one_eq bit_iff_odd_drop_bit odd_iff_mod_2_eq_one)

lemma u8_not: "unat (NOT (b :: u8)) = 255 - unat b"
proof -
  have "NOT b = 255 - b" by (simp add: not_eq_complement)
  moreover have "b \<le> 255" using unat_u8_less [of b] by (simp add: word_le_nat_alt)
  ultimately show ?thesis by (simp add: unat_sub)
qed

lemma to_be_8: "to_be 8 n = of_nat (n div 2 ^ 56) # to_be 7 (n mod 2 ^ 56)"
  using to_be.simps(2) [of 7 n] by simp

lemma of_nat_u8_shift: "(of_nat (n + 256) :: u8) = of_nat n"
  by simp

lemma shift_digit:
  fixes m p :: nat
  assumes "0 < p"
  shows "(m + 128 * p) div p = m div p + 128" and "(m + 128 * p) mod p = m mod p"
  using assms by simp_all

lemma flip_sign_to_be:
  assumes "n < 2 ^ 64"
  shows "flip_sign (to_be 8 n) = to_be 8 ((n + 2 ^ 63) mod 2 ^ 64)"
proof -
  have p: "(2 :: nat) ^ 63 = 128 * 2 ^ 56" by simp
  have shift: "(m + 2 ^ 63) div 2 ^ 56 = m div 2 ^ 56 + 128"
    "(m + 2 ^ 63) mod 2 ^ 56 = m mod 2 ^ 56" for m :: nat
    unfolding p by (rule shift_digit; simp)+
  have flip: "flip_sign (to_be 8 m) = (of_nat (m div 2 ^ 56) + 128) # to_be 7 (m mod 2 ^ 56)" for m
    by (simp add: flip_sign_def to_be_8 u8_xor_sign)
  show ?thesis
  proof (cases "n < 2 ^ 63")
    case True
    then have "(n + 2 ^ 63) mod 2 ^ 64 = n + 2 ^ 63" by simp
    then show ?thesis
      by (simp only: flip to_be_8 [of "n + 2 ^ 63"] shift of_nat_add) simp
  next
    case False
    define m where "m = n - 2 ^ 63"
    from False assms have n: "n = m + 2 ^ 63" and "m < 2 ^ 63" by (simp_all add: m_def)
    then have "(n + 2 ^ 63) mod 2 ^ 64 = m" by (simp add: mod_if)
    moreover have "(of_nat (n div 2 ^ 56) + 128 :: u8) = of_nat (m div 2 ^ 56)"
      unfolding n shift by simp
    moreover have "n mod 2 ^ 56 = m mod 2 ^ 56" unfolding n by (rule shift)
    ultimately show ?thesis by (simp only: flip to_be_8 [of m])
  qed
qed

lemma map_not_to_be: "n < 256 ^ k \<Longrightarrow> map (\<lambda>b. NOT b) (to_be k n) = to_be k (256 ^ k - 1 - n)"
proof (induction k arbitrary: n)
  case (Suc k)
  let ?p = "256 ^ k :: nat"
  define d r where "d = n div ?p" and "r = n mod ?p"
  have n: "n = d * ?p + r" and r: "r < ?p" by (simp_all add: d_def r_def div_mult_mod_eq)
  have d: "d < 256" using Suc.prems by (simp add: d_def top_digit_less)
  have "256 * ?p - 1 - n = (255 - d) * ?p + (?p - 1 - r)"
    using d r by (simp add: n algebra_simps diff_mult_distrib)
  moreover have "?p - 1 - r < ?p" using r by simp
  ultimately have q: "(256 * ?p - 1 - n) div ?p = 255 - d" "(256 * ?p - 1 - n) mod ?p = ?p - 1 - r"
    by (metis div_mult_self3 div_less add.right_neutral less_zeroE mod_mult_self3 mod_less)+
  have digit: "NOT (of_nat d :: u8) = of_nat (255 - d)"
    using d unat_of_nat_u8 [of d] unat_of_nat_u8 [of "255 - d"]
    by (simp only: word_unat_eq_iff u8_not)
  show ?case
    unfolding to_be.simps list.map power_Suc q d_def [symmetric] r_def [symmetric]
    by (simp only: digit Suc.IH [OF r])
qed simp

lemma sint_u64: "sint (w :: u64) = int ((unat w + 2 ^ 63) mod 2 ^ 64) - 2 ^ 63"
  by (simp add: sint_uint signed_take_bit_eq_take_bit_shift take_bit_eq_mod zmod_int)

definition i64_code :: "u64 \<Rightarrow> nat" where
  "i64_code w = (unat w + 2 ^ 63) mod 2 ^ 64"

definition f64_code :: "u64 \<Rightarrow> nat" where
  "f64_code w = nat (f64_rank w + 2 ^ 63)"

lemma u64_bound: "unat (w :: u64) < 2 ^ 64"
  using unsigned_less [of w] by simp

lemma encoded_i64: "encoded serialize_i64 w = to_be 8 (i64_code w)"
  using flip_sign_to_be [OF u64_bound, of w]
  by (simp only: encoded_def serialize_i64_def to_be_bytes_u64 i64_code_def snd_conv append_Nil)

lemma hd_sign_bit: "n < 2 ^ 64 \<Longrightarrow> hd (to_be 8 n) AND 128 = 0 \<longleftrightarrow> n < 2 ^ 63"
proof -
  assume n: "n < 2 ^ 64"
  then have "n div 2 ^ 56 < 256" using top_digit_less [of n 7] by simp
  then have "hd (to_be 8 n) AND 128 = 0 \<longleftrightarrow> n div 2 ^ 56 < 128"
    by (simp only: to_be_8 list.sel u8_sign_bit unat_of_nat_u8)
  also have "\<dots> \<longleftrightarrow> n < 128 * 2 ^ 56" by (rule div_less_iff_less_mult) simp
  finally show ?thesis by simp
qed

lemma f64_code_cases:
  "unat w < 2 ^ 63 \<Longrightarrow> f64_code w = unat w + 2 ^ 63"
  "\<not> unat w < 2 ^ 63 \<Longrightarrow> f64_code w = 2 ^ 64 - 1 - unat w"
proof -
  define n where "n = unat w"
  have "n < 2 ^ 64" using u64_bound [of w] by (simp add: n_def)
  then show "unat w < 2 ^ 63 \<Longrightarrow> f64_code w = unat w + 2 ^ 63"
    and "\<not> unat w < 2 ^ 63 \<Longrightarrow> f64_code w = 2 ^ 64 - 1 - unat w"
    unfolding f64_code_def f64_rank_def n_def [symmetric] by (simp_all add: nat_diff_distrib)
qed

lemma f64_code_bound: "f64_code w < 2 ^ 64"
  using u64_bound [of w] f64_code_cases [of w] by (cases "unat w < 2 ^ 63") auto

lemma serialize_f64_cases:
  "encoded serialize_f64 w =
     (if hd (to_be 8 (unat w)) AND 128 = 0 then flip_sign (to_be 8 (unat w))
      else map (\<lambda>b. NOT b) (to_be 8 (unat w)))"
  by (simp add: encoded_def serialize_f64_def to_be_bytes_u64)

lemma encoded_f64: "encoded serialize_f64 w = to_be 8 (f64_code w)"
proof (cases "unat w < 2 ^ 63")
  case True
  then have "(unat w + 2 ^ 63) mod 2 ^ 64 = f64_code w"
    by (simp add: f64_code_cases)
  with True show ?thesis
    by (simp only: serialize_f64_cases hd_sign_bit [OF u64_bound] flip_sign_to_be [OF u64_bound] if_True)
next
  case False
  have "unat w < 256 ^ 8" using u64_bound [of w] by simp
  moreover have "256 ^ 8 - 1 - unat w = f64_code w"
    using f64_code_cases(2) [OF False] by simp
  ultimately show ?thesis
    using False map_not_to_be [of "unat w" 8]
    by (simp only: serialize_f64_cases hd_sign_bit [OF u64_bound] if_False)
qed

lemma i64_code_less: "i64_code v < i64_code w \<longleftrightarrow> i64_less v w"
  unfolding i64_less_def i64_code_def sint_u64 by simp

lemma f64_code_less: "f64_code v < f64_code w \<longleftrightarrow> f64_less v w"
proof -
  have "0 \<le> f64_rank w + 2 ^ 63" for w
  proof -
    define n where "n = unat w"
    have "n < 2 ^ 64" using u64_bound [of w] by (simp add: n_def)
    then show ?thesis unfolding f64_rank_def n_def [symmetric] by simp
  qed
  then show ?thesis unfolding f64_code_def f64_less_def by (simp only: nat_less_eq_zless add_less_cancel_right)
qed

lemma i64_code_inj: "i64_code v = i64_code w \<Longrightarrow> v = w"
proof -
  assume "i64_code v = i64_code w"
  then have "sint v = sint w" unfolding i64_code_def sint_u64 by simp
  then show "v = w" by (rule injD [OF inj_signed, rotated])
qed

lemma sign_magnitude_inj:
  fixes n m p :: nat
  assumes "(if n < p then n + p else 2 * p - 1 - n) = (if m < p then m + p else 2 * p - 1 - m)"
    and "n < 2 * p" and "m < 2 * p"
  shows "n = m"
  using assms by (auto split: if_splits)

lemma f64_code_inj:
  assumes eq: "f64_code v = f64_code w"
  shows "v = w"
proof -
  have code: "f64_code w = (if unat w < 2 ^ 63 then unat w + 2 ^ 63 else 2 * 2 ^ 63 - 1 - unat w)" for w
    using f64_code_cases [of w] by (cases "unat w < 2 ^ 63") simp_all
  have "unat v = unat w"
  proof (rule sign_magnitude_inj [of _ "2 ^ 63"])
    show "unat v < 2 * 2 ^ 63" "unat w < 2 * 2 ^ 63"
      using u64_bound [of v] u64_bound [of w] by simp_all
  qed (use eq in \<open>simp only: code\<close>)
  then show ?thesis by (simp only: word_unat_eq_iff)
qed

interpretation u64_codec: order_codec serialize_u64 deserialize_u64 "(<)" "\<lambda>_. True"
proof
  have enc: "encoded serialize_u64 w = to_be_bytes w" for w
    by (simp add: encoded_def serialize_u64_def)
  show "serialize_u64 x out = (Ok (), out @ encoded serialize_u64 x)" for x out
    by (simp add: enc serialize_u64_def)
  show "encoded serialize_u64 x \<noteq> []" for x
    by (simp add: enc flip: length_0_conv)
  show "x < y \<or> x = y \<or> y < x" for x y :: u64 by auto
  show "encoded serialize_u64 x @ r < encoded serialize_u64 y @ s" if "x < y" for x y r s
    using that unfolding enc by (intro lex_append_less) (simp_all add: to_be_bytes_u64_less)
  show "deserialize_u64 (encoded serialize_u64 x @ r) = (Ok x, r)" for x r
    by (simp add: enc deserialize_u64_def take_bytes_def monad_simps)
qed

lemma decode_8: "length bs = 8 \<Longrightarrow> bind_op (take_bytes 8) f (bs @ r) = f bs r"
  by (simp add: take_bytes_def monad_simps)

lemma flip_sign_twice: "flip_sign (flip_sign bs) = bs"
  by (cases bs) (auto simp: flip_sign_def xor.assoc)

interpretation i64_codec: order_codec serialize_i64 deserialize_i64 i64_less "\<lambda>_. True"
proof
  show "serialize_i64 x out = (Ok (), out @ encoded serialize_i64 x)" for x out
    by (simp add: encoded_def serialize_i64_def)
  show "encoded serialize_i64 x \<noteq> []" for x
    by (simp add: encoded_i64 flip: length_0_conv)
  show "i64_less x y \<or> x = y \<or> i64_less y x" for x y
    using i64_code_inj [of x y] by (auto simp flip: i64_code_less)
  show "encoded serialize_i64 x @ r < encoded serialize_i64 y @ s" if "i64_less x y" for x y r s
  proof -
    have "i64_code w < 256 ^ 8" for w by (simp add: i64_code_def)
    with that show ?thesis unfolding encoded_i64
      by (intro lex_append_less) (simp_all add: to_be_less_iff i64_code_less)
  qed
  show "deserialize_i64 (encoded serialize_i64 x @ r) = (Ok x, r)" for x r
  proof -
    have "encoded serialize_i64 x = flip_sign (to_be_bytes x)"
      by (simp add: encoded_def serialize_i64_def)
    moreover have "length (flip_sign (to_be_bytes x)) = 8"
      by (metis calculation encoded_i64 length_to_be)
    ultimately show ?thesis
      by (simp add: deserialize_i64_def decode_8 flip_sign_twice return_op_def)
  qed
qed

lemma serialize_f64_sign:
  "drop_bit 7 (hd (encoded serialize_f64 x)) AND 1 = 1 \<longleftrightarrow> hd (to_be_bytes x) AND 128 = 0"
proof -
  obtain b bs where x: "to_be_bytes x = b # bs"
    using length_to_be_bytes_u64 [of x] by (cases "to_be_bytes x") auto
  have "unat (b + 128) = (unat b + 128) mod 256" by (simp add: unat_word_ariths)
  then show ?thesis
    using unat_u8_less [of b]
    by (auto simp: encoded_def serialize_f64_def Let_def x flip_sign_def u8_shifted_sign_bit
        u8_sign_bit u8_xor_sign u8_not)
qed

interpretation f64_codec: order_codec serialize_f64 deserialize_f64 f64_less "\<lambda>_. True"
proof
  show "serialize_f64 x out = (Ok (), out @ encoded serialize_f64 x)" for x out
    by (simp add: encoded_def serialize_f64_def Let_def)
  show "encoded serialize_f64 x \<noteq> []" for x
    by (simp add: encoded_f64 flip: length_0_conv)
  show "f64_less x y \<or> x = y \<or> f64_less y x" for x y
    using f64_code_inj [of x y] by (auto simp flip: f64_code_less)
  show "encoded serialize_f64 x @ r < encoded serialize_f64 y @ s" if "f64_less x y" for x y r s
  proof -
    have "f64_code w < 256 ^ 8" for w using f64_code_bound [of w] by simp
    with that show ?thesis unfolding encoded_f64
      by (intro lex_append_less) (simp_all add: to_be_less_iff f64_code_less)
  qed
  show "deserialize_f64 (encoded serialize_f64 x @ r) = (Ok x, r)" for x r
  proof -
    let ?e = "encoded serialize_f64 x"
    have "(if drop_bit 7 (hd ?e) AND 1 = 1 then flip_sign ?e else map (\<lambda>b. NOT b) ?e) = to_be_bytes x"
      unfolding serialize_f64_sign
      by (simp add: encoded_def serialize_f64_def Let_def flip_sign_twice comp_def)
    moreover have "length ?e = 8" by (simp add: encoded_f64)
    ultimately show ?thesis
      by (simp add: deserialize_f64_def decode_8 return_op_def)
  qed
qed

lemma encoded_bytes: "encoded serialize_bytes v = concat (map escape v) @ [0, 0]"
  by (simp add: encoded_def serialize_bytes_def)

lemma escape_less: "a < b \<Longrightarrow> escape a @ r < escape b @ s"
  by (auto simp: escape_def word_gt_0)

lemma encoded_bytes_less: "x < y \<Longrightarrow> encoded serialize_bytes x @ r < encoded serialize_bytes y @ s"
proof (induction x arbitrary: y)
  case Nil
  then obtain b y' where "y = b # y'" by (cases y) auto
  then show ?case by (auto simp: encoded_bytes escape_def word_gt_0)
next
  case (Cons a x)
  then obtain b y' where y: "y = b # y'" by (cases y) auto
  from Cons.prems y have "a < b \<or> a = b \<and> x < y'" by auto
  then show ?case
  proof
    assume "a < b"
    then show ?thesis by (simp add: encoded_bytes y escape_less)
  next
    assume "a = b \<and> x < y'"
    with Cons.IH [of y'] show ?thesis by (simp add: encoded_bytes y)
  qed
qed

lemma decode_loop_escaped:
  "decode_loop (concat (map escape v) @ 0 # 0 # r) i d =
     Ok (d @ v, i + length (concat (map escape v)) + 2)"
  by (induction v arbitrary: i d) (auto simp: escape_def)

lemma decode_next_bytes_encoded: "decode_next_bytes (encoded serialize_bytes v @ r) = (Ok v, r)"
  by (simp add: decode_next_bytes_def encoded_bytes decode_loop_escaped)

interpretation bytes_codec: order_codec serialize_bytes deserialize_bytes "(<)" "\<lambda>_. True"
proof
  show "serialize_bytes x out = (Ok (), out @ encoded serialize_bytes x)" for x out
    by (simp add: encoded_def serialize_bytes_def)
  show "encoded serialize_bytes x \<noteq> []" for x
    by (simp add: encoded_bytes)
  show "x < y \<or> x = y \<or> y < x" for x y :: bytes by auto
  show "encoded serialize_bytes x @ r < encoded serialize_bytes y @ s" if "x < y" for x y r s
    using that by (rule encoded_bytes_less)
  show "deserialize_bytes (encoded serialize_bytes x @ r) = (Ok x, r)" for x r
    by (simp add: deserialize_bytes_def decode_next_bytes_encoded)
qed

interpretation str_codec: order_codec serialize_str deserialize_string "(<)" utf8_valid
proof
  have enc: "encoded serialize_str = encoded serialize_bytes"
    by (rule ext) (simp add: encoded_def serialize_str_def)
  show "serialize_str x out = (Ok (), out @ encoded serialize_str x)" for x out
    by (simp add: enc serialize_str_def bytes_codec.appends)
  show "encoded serialize_str x \<noteq> []" for x
    by (simp add: enc bytes_codec.nonempty)
  show "x < y \<or> x = y \<or> y < x" for x y :: bytes by auto
  show "encoded serialize_str x @ r < encoded serialize_str y @ s" if "x < y" for x y r s
    using that unfolding enc by (rule encoded_bytes_less)
  show "deserialize_string (encoded serialize_str x @ r) = (Ok x, r)" if "utf8_valid x" for x r
    using that
    by (simp add: enc deserialize_string_def decode_next_bytes_encoded from_utf8_def monad_simps)
qed

interpretation bool_codec: order_codec serialize_bool deserialize_bool "(<)" "\<lambda>_. True"
proof
  have enc: "encoded serialize_bool x = [if x then 1 else 0]" for x
    by (simp add: encoded_def serialize_bool_def)
  show "serialize_bool x out = (Ok (), out @ encoded serialize_bool x)" for x out
    by (simp add: enc serialize_bool_def)
  show "encoded serialize_bool x \<noteq> []" for x
    by (simp add: enc)
  show "x < y \<or> x = y \<or> y < x" for x y :: bool by auto
  show "encoded serialize_bool x @ r < encoded serialize_bool y @ s" if "x < y" for x y r s
    using that by (auto simp: enc)
  show "deserialize_bool (encoded serialize_bool x @ r) = (Ok x, r)" for x r
    by (simp add: enc deserialize_bool_def take_bytes_def monad_simps)
qed

section \<open>Pairs of fields\<close>

definition serialize_pair ::
  "('a \<Rightarrow> (serializer, unit) op) \<Rightarrow> ('b \<Rightarrow> (serializer, unit) op) \<Rightarrow> 'a \<times> 'b \<Rightarrow> (serializer, unit) op"
where
  "serialize_pair ser1 ser2 = (\<lambda>(a, b). bind_op (ser1 a) (\<lambda>_. ser2 b))"

definition deserialize_pair ::
  "(deserializer, 'a) op \<Rightarrow> (deserializer, 'b) op \<Rightarrow> (deserializer, 'a \<times> 'b) op"
where
  "deserialize_pair dec1 dec2 =
     bind_op (next_field dec1) (\<lambda>a. bind_op (next_field dec2) (\<lambda>b. return_op (a, b)))"

definition pair_less :: "('a \<Rightarrow> 'a \<Rightarrow> bool) \<Rightarrow> ('b \<Rightarrow> 'b \<Rightarrow> bool) \<Rightarrow> 'a \<times> 'b \<Rightarrow> 'a \<times> 'b \<Rightarrow> bool" where
  "pair_less lt1 lt2 x y \<longleftrightarrow> lt1 (fst x) (fst y) \<or> fst x = fst y \<and> lt2 (snd x) (snd y)"

locale order_codec_pair =
  first: order_codec ser1 dec1 lt1 dom1 + second: order_codec ser2 dec2 lt2 dom2
  for ser1 :: "'a \<Rightarrow> (serializer, unit) op" and dec1 lt1 dom1
    and ser2 :: "'b \<Rightarrow> (serializer, unit) op" and dec2 lt2 dom2
begin

lemma serialize_pair_appends:
  "serialize_pair ser1 ser2 x out = (Ok (), out @ encoded ser1 (fst x) @ encoded ser2 (snd x))"
  by (simp add: serialize_pair_def split_beta bind_op_def first.appends second.appends)

lemma encoded_pair: "encoded (serialize_pair ser1 ser2) x = encoded ser1 (fst x) @ encoded ser2 (snd x)"
  by (simp add: encoded_def [of "serialize_pair ser1 ser2"] serialize_pair_appends)

sublocale pair: order_codec "serialize_pair ser1 ser2" "deserialize_pair dec1 dec2"
  "pair_less lt1 lt2" "\<lambda>x. dom1 (fst x) \<and> dom2 (snd x)"
proof
  show "serialize_pair ser1 ser2 x out = (Ok (), out @ encoded (serialize_pair ser1 ser2) x)" for x out
    by (simp add: encoded_pair serialize_pair_appends)
  show "encoded (serialize_pair ser1 ser2) x \<noteq> []" for x
    by (simp add: encoded_pair first.nonempty)
  show "pair_less lt1 lt2 x y \<or> x = y \<or> pair_less lt1 lt2 y x" for x y
    using first.total [of "fst x" "fst y"] second.total [of "snd x" "snd y"]
    by (auto simp: pair_less_def prod_eq_iff)
  show "encoded (serialize_pair ser1 ser2) x @ r < encoded (serialize_pair ser1 ser2) y @ s"
    if "pair_less lt1 lt2 x y" for x y r s
    using that by (auto simp: pair_less_def encoded_pair intro: first.mono second.mono)
  show "deserialize_pair dec1 dec2 (encoded (serialize_pair ser1 ser2) x @ r) = (Ok x, r)"
    if "dom1 (fst x) \<and> dom2 (snd x)" for x r
    using that first.next_field_decodes [of "fst x" "encoded ser2 (snd x) @ r"]
      second.next_field_decodes [of "snd x" r]
    by (simp add: encoded_pair deserialize_pair_def bind_op_def return_op_def)
qed

end

interpretation u64_bytes: order_codec_pair serialize_u64 deserialize_u64 "(<)" "\<lambda>_. True"
    serialize_bytes deserialize_bytes "(<)" "\<lambda>_. True" ..

interpretation bytes_u64: order_codec_pair serialize_bytes deserialize_bytes "(<)" "\<lambda>_. True"
    serialize_u64 deserialize_u64 "(<)" "\<lambda>_. True" ..

section \<open>What a key's encoding promises\<close>

text \<open>Integers: a signed 64-bit key always serializes, deserializes to itself, and the byte order of
  two encoded keys is the numeric order of the keys, negative numbers included.\<close>

theorem keycode_i64_correct:
  "\<exists>a b. keycode_serialize (S_i64 v) = Ok a \<and> keycode_serialize (S_i64 w) = Ok b \<and>
     keycode_deserialize deserialize_i64 a = Ok v \<and> (a < b \<longleftrightarrow> sint v < sint w)"
  using i64_codec.enc_less_iff [of v "[]" w "[]"] i64_codec.decodes [of v "[]"]
  by (simp add: keycode_serialize_def keycode_deserialize_def i64_codec.appends i64_less_def)


text \<open>(C36) Byte strings in composite keys: whatever bytes follow (here the fields \<open>r\<close> and \<open>s\<close>), the
  escaped and terminated encoding sorts first by the byte string and then by what follows it, so
  that no string's encoding is a prefix of another's; and decoding consumes exactly the string.\<close>

theorem keycode_bytes_composite:
  "(encoded serialize_bytes x @ r < encoded serialize_bytes y @ s \<longleftrightarrow> x < y \<or> x = y \<and> r < s) \<and>
   (encoded serialize_bytes x @ r = encoded serialize_bytes y @ s \<longleftrightarrow> x = y \<and> r = s) \<and>
   deserialize_bytes (encoded serialize_bytes x @ r) = (Ok x, r)"
  using bytes_codec.enc_less_iff bytes_codec.enc_inject bytes_codec.decodes by blast

section \<open>Components of enum keys\<close>

abbreviation enc_u64 :: "u64 \<Rightarrow> bytes" where
  "enc_u64 \<equiv> encoded serialize_u64"

abbreviation enc_bytes :: "bytes \<Rightarrow> bytes" where
  "enc_bytes \<equiv> encoded serialize_bytes"

lemma serialize_index [simp]:
  "unat i < 256 \<Longrightarrow> serialize_unit_variant i out = (Ok (), out @ [ucast i])"
  by (simp add: serialize_unit_variant_def)

lemma variant_seed_index [simp]:
  "unat b < n \<Longrightarrow> variant_seed n (b # r) = (Ok (unat b), r)"
  by (simp add: variant_seed_def take_bytes_def monad_simps)

lemma decode_u64_end [simp]: "deserialize_u64 (enc_u64 v) = (Ok v, [])"
  using u64_codec.decodes [of v "[]"] by simp

lemma decode_bytes_end [simp]: "deserialize_bytes (enc_bytes k) = (Ok k, [])"
  using bytes_codec.decodes [of k "[]"] by simp

lemma field_u64_end [simp]: "next_field deserialize_u64 (enc_u64 v) = (Ok v, [])"
  using u64_codec.next_field_decodes [of v "[]"] by simp

lemma field_bytes_end [simp]: "next_field deserialize_bytes (enc_bytes k) = (Ok k, [])"
  using bytes_codec.next_field_decodes [of k "[]"] by simp

end
