(* ===== verification/Ordered_Map.thy ===== *)
theory Ordered_Map
  imports Prelude
begin

text \<open>
  Rust's \<^verbatim>\<open>std::collections::BTreeMap\<close>, as far as the storage engines use it: a list of
  key/value pairs in strictly ascending key order, with \<open>insert\<close>, \<open>remove\<close>, lookup and
  \<open>range\<close>.  Ranges are pairs of \<^verbatim>\<open>std::ops::Bound\<close>s; \<open>range\<close> panics where the library
  documents it (the start above the end, or both excluded and equal).
\<close>

section \<open>Bounds\<close>

datatype 'a bound = Included 'a | Excluded 'a | Unbounded

type_synonym 'a bounds = "'a bound \<times> 'a bound"

fun above_start :: "'a::linorder bound \<Rightarrow> 'a \<Rightarrow> bool" where
  "above_start (Included a) x \<longleftrightarrow> a \<le> x"
| "above_start (Excluded a) x \<longleftrightarrow> a < x"
| "above_start Unbounded x \<longleftrightarrow> True"

fun below_end :: "'a::linorder bound \<Rightarrow> 'a \<Rightarrow> bool" where
  "below_end (Included b) x \<longleftrightarrow> x \<le> b"
| "below_end (Excluded b) x \<longleftrightarrow> x < b"
| "below_end Unbounded x \<longleftrightarrow> True"

definition in_range :: "'a::linorder bounds \<Rightarrow> 'a \<Rightarrow> bool" where
  "in_range r x \<longleftrightarrow> above_start (fst r) x \<and> below_end (snd r) x"

fun range_panics :: "'a::linorder bounds \<Rightarrow> bool" where
  "range_panics (Included a, Included b) \<longleftrightarrow> b < a"
| "range_panics (Included a, Excluded b) \<longleftrightarrow> b < a"
| "range_panics (Excluded a, Included b) \<longleftrightarrow> b < a"
| "range_panics (Excluded a, Excluded b) \<longleftrightarrow> b \<le> a"
| "range_panics (_, _) \<longleftrightarrow> False"

section \<open>The map\<close>

type_synonym ('k, 'v) btree_map = "('k \<times> 'v) list"

abbreviation ordered :: "('k::linorder, 'v) btree_map \<Rightarrow> bool" where
  "ordered m \<equiv> sorted_wrt (<) (map fst m)"

fun btree_insert :: "'k::linorder \<Rightarrow> 'v \<Rightarrow> ('k, 'v) btree_map \<Rightarrow> ('k, 'v) btree_map" where
  "btree_insert k v [] = [(k, v)]"
| "btree_insert k v (e # m) =
     (if fst e < k then e # btree_insert k v m
      else if fst e = k then (k, v) # m
      else (k, v) # e # m)"

definition btree_remove :: "'k::linorder \<Rightarrow> ('k, 'v) btree_map \<Rightarrow> ('k, 'v) btree_map" where
  "btree_remove k m = filter (\<lambda>e. fst e \<noteq> k) m"

definition btree_range :: "'k::linorder bounds \<Rightarrow> ('k, 'v) btree_map \<Rightarrow> ('k \<times> 'v) list result" where
  "btree_range r m =
     (if range_panics r then Panic ''range start is greater than range end in BTreeMap''
      else Ok (filter (\<lambda>e. in_range r (fst e)) m))"

section \<open>Laws\<close>

lemma ordered_distinct: "ordered m \<Longrightarrow> distinct (map fst m)"
  by (simp add: strict_sorted_iff)

lemma set_btree_insert:
  "ordered m \<Longrightarrow> set (btree_insert k v m) = insert (k, v) {e \<in> set m. fst e \<noteq> k}"
  by (induction m) auto

lemma ordered_insert [simp, intro]: "ordered m \<Longrightarrow> ordered (btree_insert k v m)"
proof (induction m)
  case (Cons e m)
  then show ?case using set_btree_insert [of m k v] by (fastforce simp: not_less)
qed simp

lemma ordered_remove [simp, intro]: "ordered m \<Longrightarrow> ordered (btree_remove k m)"
  by (induction m) (auto simp: btree_remove_def)

lemma ordered_filter [simp, intro]: "ordered m \<Longrightarrow> ordered (filter P m)"
  by (induction m) auto

lemma map_of_btree_insert [simp]: "map_of (btree_insert k v m) = (map_of m)(k \<mapsto> v)"
  by (induction m) (auto simp: fun_eq_iff)

lemma map_of_btree_remove [simp]: "map_of (btree_remove k m) = (map_of m)(k := None)"
  by (induction m) (auto simp: btree_remove_def fun_eq_iff)

lemma in_set_map_of: "ordered m \<Longrightarrow> (k, v) \<in> set m \<longleftrightarrow> map_of m k = Some v"
  by (simp add: ordered_distinct)

lemma map_of_keys: "ordered m \<Longrightarrow> map (\<lambda>k. (k, the (map_of m k))) (map fst m) = m"
  by (auto simp: in_set_map_of intro!: map_idI)

lemma ordered_map_of_inject:
  fixes m1 m2 :: "('k::linorder, 'v) btree_map"
  assumes "ordered m1" "ordered m2" "map_of m1 = map_of m2"
  shows "m1 = m2"
proof -
  have "set m1 = set m2"
    using assms by (auto simp: in_set_map_of)
  then have "set (map fst m1) = set (map fst m2)" by simp
  with assms have keys: "map fst m1 = map fst m2"
    by (metis strict_sorted_equal)
  have "m1 = map (\<lambda>k. (k, the (map_of m2 k))) (map fst m2)"
    using map_of_keys [OF assms(1)] by (simp only: assms(3) keys)
  with map_of_keys [OF assms(2)] show ?thesis by simp
qed

end
