(* ===== verification/Engine.thy ===== *)
theory Engine
  imports Ordered_Map
begin

text \<open>
  The storage engine interface of \<^verbatim>\<open>src/src/storage/engine.rs\<close>.  The \<^verbatim>\<open>Engine\<close> trait is a
  record of its required methods, passed to generic code the way Rust passes a trait's vtable;
  \<open>scan_prefix\<close> is the trait's default method.  \<^verbatim>\<open>scan\<close> and \<^verbatim>\<open>scan_dyn\<close> differ in dispatch
  only and are one field; a scan iterator is the list of the items it yields, since the engine
  stays borrowed while the iterator lives.

  The locale \<open>storage_engine\<close> is the contract: \<open>view\<close> is the ordered content, \<open>fits\<close> the pairs
  an engine can store, and every method acts on the content as the trait's documentation says.
\<close>

record engine_status =
  st_name :: string
  st_keys :: nat
  st_size :: nat
  st_total_disk_size :: nat
  st_live_disk_size :: nat
  st_garbage_disk_size :: nat

record 'e engine =
  e_delete :: "bytes \<Rightarrow> ('e, unit) op"
  e_flush :: "('e, unit) op"
  e_get :: "bytes \<Rightarrow> ('e, bytes option) op"
  e_scan :: "bytes bounds \<Rightarrow> ('e, (bytes \<times> bytes) result list) op"
  e_set :: "bytes \<Rightarrow> bytes \<Rightarrow> ('e, unit) op"
  e_status :: "('e, engine_status) op"

fun rposition :: "('a \<Rightarrow> bool) \<Rightarrow> 'a list \<Rightarrow> nat option" where
  "rposition p [] = None"
| "rposition p (x # xs) = (case rposition p xs of
      Some i \<Rightarrow> Some (Suc i)
    | None \<Rightarrow> if p x then Some 0 else None)"

definition prefix_bounds :: "bytes \<Rightarrow> bytes bounds" where
  "prefix_bounds pfx =
     (Included pfx,
      (case rposition (\<lambda>b. b \<noteq> 0xff) pfx of
         Some i \<Rightarrow> Excluded (take i pfx @ [pfx ! i + 1])
       | None \<Rightarrow> Unbounded))"

definition scan_prefix :: "'e engine \<Rightarrow> bytes \<Rightarrow> ('e, (bytes \<times> bytes) result list) op" where
  "scan_prefix E pfx = e_scan E (prefix_bounds pfx)"

section \<open>Prefix bounds\<close>

lemma u8_top: "(b :: u8) \<le> 0xff"
proof -
  have "unat b < 256" using unsigned_less [of b] by simp
  then show ?thesis by (simp add: word_le_nat_alt)
qed

lemma u8_less_succ: "b \<noteq> 0xff \<Longrightarrow> (c :: u8) < b + 1 \<longleftrightarrow> c \<le> b"
proof -
  assume "b \<noteq> 0xff"
  with u8_top [of b] have "b < 0xff" by simp
  then show ?thesis by (simp add: word_le_nat_alt word_less_nat_alt unat_word_ariths less_Suc_eq_le)
qed

lemma u8_succ_neq: "(b :: u8) + 1 \<noteq> b"
  by simp

lemma in_prefix_bounds_Cons:
  "in_range (prefix_bounds (b # p)) (c # k) \<longleftrightarrow> b = c \<and> in_range (prefix_bounds p) k"
proof (cases "rposition (\<lambda>b. b \<noteq> 0xff) p")
  case (Some i)
  then show ?thesis by (auto simp: in_range_def prefix_bounds_def)
next
  case None
  then show ?thesis
    using u8_top [of c] by (auto simp: in_range_def prefix_bounds_def u8_less_succ)
qed

lemma in_prefix_bounds [simp]: "in_range (prefix_bounds p) k \<longleftrightarrow> prefix p k"
proof (induction p arbitrary: k)
  case Nil
  show ?case by (simp add: in_range_def prefix_bounds_def)
next
  case (Cons b p)
  show ?case
  proof (cases k)
    case Nil
    then show ?thesis by (simp add: in_range_def prefix_bounds_def)
  next
    case (Cons c k')
    with Cons.IH [of k'] show ?thesis
      by (simp add: in_prefix_bounds_Cons)
  qed
qed

lemma prefix_bounds_no_panic [simp]: "\<not> range_panics (prefix_bounds p)"
proof -
  have "in_range (prefix_bounds p) p" by simp
  then show ?thesis
    by (auto simp: prefix_bounds_def in_range_def split: option.splits)
qed

section \<open>The contract\<close>

locale storage_engine =
  fixes E :: "'e engine"
    and inv :: "'e \<Rightarrow> bool"
    and view :: "'e \<Rightarrow> (bytes \<times> bytes) list"
    and fits :: "bytes \<Rightarrow> bytes \<Rightarrow> bool"
  assumes view_ordered: "inv e \<Longrightarrow> ordered (view e)"
    and get_law: "inv e \<Longrightarrow> e_get E k e = (Ok (map_of (view e) k), e)"
    and set_law: "inv e \<Longrightarrow> fits k v \<Longrightarrow>
      \<exists>e'. e_set E k v e = (Ok (), e') \<and> inv e' \<and> view e' = btree_insert k v (view e)"
    and delete_law: "inv e \<Longrightarrow> fits k [] \<Longrightarrow>
      \<exists>e'. e_delete E k e = (Ok (), e') \<and> inv e' \<and> view e' = btree_remove k (view e)"
    and scan_law: "inv e \<Longrightarrow> \<not> range_panics r \<Longrightarrow>
      e_scan E r e = (Ok (map Ok (filter (\<lambda>p. in_range r (fst p)) (view e))), e)"
    and flush_law: "inv e \<Longrightarrow> \<exists>e'. e_flush E e = (Ok (), e') \<and> inv e' \<and> view e' = view e"
    and status_law: "inv e \<Longrightarrow> \<exists>st. e_status E e = (Ok st, e) \<and> st_keys st = length (view e) \<and>
      st_size st = sum_list (map (\<lambda>p. length (fst p) + length (snd p)) (view e))"
    and view_fits: "inv e \<Longrightarrow> map_of (view e) k = Some v \<Longrightarrow> fits k v"
    and fits_empty: "fits k v \<Longrightarrow> fits k []"
begin

lemma scan_prefix_law:
  "inv e \<Longrightarrow> scan_prefix E p e = (Ok (map Ok (filter (\<lambda>kv. prefix p (fst kv)) (view e))), e)"
  by (simp add: scan_prefix_def scan_law)

lemma delete_present:
  assumes "inv e" and "map_of (view e) k \<noteq> None"
  shows "\<exists>e'. e_delete E k e = (Ok (), e') \<and> inv e' \<and> view e' = btree_remove k (view e)"
  using assms view_fits fits_empty delete_law by blast

lemma set_then_get:
  assumes "inv e" and "fits k v"
  shows "bind_op (e_set E k v) (\<lambda>_. e_get E k) e = (Ok (Some v), snd (e_set E k v e))"
  using set_law [OF assms] get_law by (auto simp: bind_op_def)

end

end
