(* ===== verification/Memory.thy ===== *)
theory Memory
  imports Engine
begin

text \<open>
  The in-memory storage engine of \<^verbatim>\<open>src/src/storage/memory.rs\<close>: a B-tree map and nothing else.
  It provides the engine contract for every key and value.
\<close>

record memory =
  mem_data :: "(bytes, bytes) btree_map"

definition memory_new :: memory where
  "memory_new = \<lparr>mem_data = []\<rparr>"

definition memory_fmt :: string where
  "memory_fmt = ''memory''"

definition memory_flush :: "(memory, unit) op" where
  "memory_flush = return_op ()"

definition memory_delete :: "bytes \<Rightarrow> (memory, unit) op" where
  "memory_delete key = (\<lambda>m. (Ok (), m\<lparr>mem_data := btree_remove key (mem_data m)\<rparr>))"

definition memory_get :: "bytes \<Rightarrow> (memory, bytes option) op" where
  "memory_get key = (\<lambda>m. (Ok (map_of (mem_data m) key), m))"

definition memory_scan_item :: "bytes \<times> bytes \<Rightarrow> (bytes \<times> bytes) result" where
  "memory_scan_item item = Ok item"

definition memory_scan :: "bytes bounds \<Rightarrow> (memory, (bytes \<times> bytes) result list) op" where
  "memory_scan rng = (\<lambda>m. (map_result (map memory_scan_item) (btree_range rng (mem_data m)), m))"

definition memory_set :: "bytes \<Rightarrow> bytes \<Rightarrow> (memory, unit) op" where
  "memory_set key value = (\<lambda>m. (Ok (), m\<lparr>mem_data := btree_insert key value (mem_data m)\<rparr>))"

definition memory_status :: "(memory, engine_status) op" where
  "memory_status = (\<lambda>m. (Ok \<lparr>
     st_name = memory_fmt,
     st_keys = length (mem_data m),
     st_size = fold (\<lambda>(k, v) size. size + length k + length v) (mem_data m) 0,
     st_total_disk_size = 0,
     st_live_disk_size = 0,
     st_garbage_disk_size = 0\<rparr>, m))"

definition memory_engine :: "memory engine" where
  "memory_engine = \<lparr>
     e_delete = memory_delete,
     e_flush = memory_flush,
     e_get = memory_get,
     e_scan = memory_scan,
     e_set = memory_set,
     e_status = memory_status\<rparr>"

definition memory_inv :: "memory \<Rightarrow> bool" where
  "memory_inv m \<longleftrightarrow> ordered (mem_data m)"

lemma memory_inv_new [simp]: "memory_inv memory_new" "mem_data memory_new = []"
  by (simp_all add: memory_inv_def memory_new_def)

lemma fold_sizes:
  "fold (\<lambda>(k, v) size. size + length k + length v) m n =
     n + sum_list (map (\<lambda>p. length (fst p) + length (snd p)) m)"
  by (induction m arbitrary: n) auto

interpretation memory_kv: storage_engine memory_engine memory_inv mem_data "\<lambda>_ _. True"
proof
  show "memory_inv e \<Longrightarrow> ordered (mem_data e)" for e
    by (simp add: memory_inv_def)
  show "memory_inv e \<Longrightarrow> e_get memory_engine k e = (Ok (map_of (mem_data e) k), e)" for e k
    by (simp add: memory_engine_def memory_get_def)
  show "memory_inv e \<Longrightarrow> True \<Longrightarrow> \<exists>e'. e_set memory_engine k v e = (Ok (), e') \<and> memory_inv e' \<and>
      mem_data e' = btree_insert k v (mem_data e)" for e k v
    by (simp add: memory_engine_def memory_set_def memory_inv_def)
  show "memory_inv e \<Longrightarrow> True \<Longrightarrow> \<exists>e'. e_delete memory_engine k e = (Ok (), e') \<and> memory_inv e' \<and>
      mem_data e' = btree_remove k (mem_data e)" for e k
    by (simp add: memory_engine_def memory_delete_def memory_inv_def)
  show "memory_inv e \<Longrightarrow> \<not> range_panics r \<Longrightarrow> e_scan memory_engine r e =
      (Ok (map Ok (filter (\<lambda>p. in_range r (fst p)) (mem_data e))), e)" for e r
    by (simp add: memory_engine_def memory_scan_def btree_range_def memory_scan_item_def)
  show "memory_inv e \<Longrightarrow> \<exists>e'. e_flush memory_engine e = (Ok (), e') \<and> memory_inv e' \<and>
      mem_data e' = mem_data e" for e
    by (simp add: memory_engine_def memory_flush_def return_op_def)
  show "memory_inv e \<Longrightarrow> \<exists>st. e_status memory_engine e = (Ok st, e) \<and>
      st_keys st = length (mem_data e) \<and>
      st_size st = sum_list (map (\<lambda>p. length (fst p) + length (snd p)) (mem_data e))" for e
    by (simp add: memory_engine_def memory_status_def fold_sizes)
qed simp_all

end
