(* ===== verification/Bitcask.thy ===== *)
theory Bitcask
  imports Engine Keycode
begin

text \<open>
  The log-structured storage engine of \<^verbatim>\<open>src/src/storage/bitcask.rs\<close>.  The log file is its
  content, a byte string; the key directory maps a key to the position and length of its value
  in the file.  The widths of the entry header are kept: the lengths are cast to 32 bits the way
  the source casts them, and the length of an entry is a checked \<open>u32\<close> sum.  File offsets
  (\<open>u64\<close>) are natural numbers.  The end of the file is the one I/O error the model has
  (\<^verbatim>\<open>read_exact\<close>); paths, file locking and the durability of \<^verbatim>\<open>sync_all\<close> are outside it.
\<close>

section \<open>The log file\<close>

type_synonym keydir = "(bytes, nat \<times> u32) btree_map"

record bitcask =
  bc_log :: bytes
  bc_keydir :: keydir

definition add_u32 :: "u32 \<Rightarrow> u32 \<Rightarrow> u32 result" where
  "add_u32 a b = (if unat a + unat b < 2 ^ 32 then Ok (a + b)
                  else Panic ''attempt to add with overflow'')"

definition write_entry :: "bytes \<Rightarrow> bytes option \<Rightarrow> (bytes, nat \<times> u32) op" where
  "write_entry key value = (\<lambda>file.
     let key_len = (of_nat (length key) :: u32);
         value_len = (case value of None \<Rightarrow> 0 | Some v \<Rightarrow> (of_nat (length v) :: u32));
         value_len_or_tombstone = (case value of None \<Rightarrow> - 1 | Some v \<Rightarrow> (of_nat (length v) :: 32 word))
     in case bind_r (add_u32 (4 + 4) key_len) (\<lambda>l. add_u32 l value_len) of
          Ok len \<Rightarrow>
            (Ok (length file, len),
             file @ to_be_bytes key_len @ to_be_bytes value_len_or_tombstone @ key @
               (case value of None \<Rightarrow> [] | Some v \<Rightarrow> v))
        | Err e \<Rightarrow> (Err e, file)
        | Panic p \<Rightarrow> (Panic p, file))"

definition read_value :: "nat \<Rightarrow> u32 \<Rightarrow> bytes \<Rightarrow> bytes result" where
  "read_value value_pos value_len file =
     (let value = take (unat value_len) (drop value_pos file)
      in if length value = unat value_len then Ok value
         else Err (Internal ''failed to fill whole buffer''))"

text \<open>One entry read at \<open>pos\<close>: the key, the position of the value and its length, or no length
  for a tombstone.  \<open>None\<close> is the \<^verbatim>\<open>UnexpectedEof\<close> of an incomplete entry.\<close>

definition read_entry :: "bytes \<Rightarrow> nat \<Rightarrow> (bytes \<times> nat \<times> u32 option) option" where
  "read_entry file pos =
     (let r = drop pos file in
      if length r < 4 then None
      else let key_len = (from_be_bytes (take 4 r) :: u32); r = drop 4 r in
      if length r < 4 then None
      else let value_len = (from_be_bytes (take 4 r) :: 32 word); r = drop 4 r;
               value_len_or_tombstone = (if 0 \<le> sint value_len then Some value_len else None);
               value_pos = pos + 4 + 4 + unat key_len in
      if length r < unat key_len then None
      else let key = take (unat key_len) r in
      case value_len_or_tombstone of
        Some value_len \<Rightarrow>
          if length file < value_pos + unat value_len then None
          else Some (key, value_pos, Some value_len)
      | None \<Rightarrow> Some (key, value_pos, None))"

lemma read_entry_advances:
  "read_entry file pos = Some (key, value_pos, v) \<Longrightarrow> pos < value_pos"
  by (auto simp: read_entry_def Let_def split: if_splits)

function build_loop :: "bytes \<Rightarrow> nat \<Rightarrow> keydir \<Rightarrow> keydir \<times> bytes" where
  "build_loop file pos keydir =
     (if pos < length file then
        (case read_entry file pos of
           Some (key, value_pos, Some value_len) \<Rightarrow>
             build_loop file (value_pos + unat value_len)
               (btree_insert key (value_pos, value_len) keydir)
         | Some (key, value_pos, None) \<Rightarrow>
             build_loop file value_pos (btree_remove key keydir)
         | None \<Rightarrow> (keydir, take pos file))
      else (keydir, file))"
  by pat_completeness auto
termination
  by (relation "measure (\<lambda>(file, pos, keydir). length file - pos)")
    (auto dest!: read_entry_advances)

declare build_loop.simps [simp del]

definition build_keydir :: "(bytes, keydir) op" where
  "build_keydir = (\<lambda>file. case build_loop file 0 [] of (keydir, file') \<Rightarrow> (Ok keydir, file'))"

section \<open>The engine\<close>

definition bitcask_new :: "bytes \<Rightarrow> bitcask result" where
  "bitcask_new file = (case build_keydir file of
      (Ok keydir, file') \<Rightarrow> Ok \<lparr>bc_log = file', bc_keydir = keydir\<rparr>
    | (Err e, _) \<Rightarrow> Err e
    | (Panic p, _) \<Rightarrow> Panic p)"

definition bitcask_fmt :: string where
  "bitcask_fmt = ''bitcask''"

definition bitcask_delete :: "bytes \<Rightarrow> (bitcask, unit) op" where
  "bitcask_delete key = (\<lambda>s. case write_entry key None (bc_log s) of
      (Ok _, log) \<Rightarrow> (Ok (), s\<lparr>bc_log := log, bc_keydir := btree_remove key (bc_keydir s)\<rparr>)
    | (Err e, log) \<Rightarrow> (Err e, s\<lparr>bc_log := log\<rparr>)
    | (Panic p, log) \<Rightarrow> (Panic p, s\<lparr>bc_log := log\<rparr>))"

definition bitcask_flush :: "(bitcask, unit) op" where
  "bitcask_flush = return_op ()"

definition bitcask_get :: "bytes \<Rightarrow> (bitcask, bytes option) op" where
  "bitcask_get key = (\<lambda>s. case map_of (bc_keydir s) key of
      Some (value_pos, value_len) \<Rightarrow>
        (map_result Some (read_value value_pos value_len (bc_log s)), s)
    | None \<Rightarrow> (Ok None, s))"

definition bitcask_scan_item :: "bytes \<Rightarrow> bytes \<times> nat \<times> u32 \<Rightarrow> (bytes \<times> bytes) result" where
  "bitcask_scan_item log = (\<lambda>(key, value_pos, value_len).
     map_result (\<lambda>value. (key, value)) (read_value value_pos value_len log))"

definition bitcask_scan :: "bytes bounds \<Rightarrow> (bitcask, (bytes \<times> bytes) result list) op" where
  "bitcask_scan rng = (\<lambda>s.
     (map_result (map (bitcask_scan_item (bc_log s))) (btree_range rng (bc_keydir s)), s))"

definition bitcask_set :: "bytes \<Rightarrow> bytes \<Rightarrow> (bitcask, unit) op" where
  "bitcask_set key value = (\<lambda>s. case write_entry key (Some value) (bc_log s) of
      (Ok (pos, len), log) \<Rightarrow>
        let value_len = (of_nat (length value) :: u32) in
        (Ok (), s\<lparr>bc_log := log,
                  bc_keydir := btree_insert key (pos + unat len - unat value_len, value_len)
                                 (bc_keydir s)\<rparr>)
    | (Err e, log) \<Rightarrow> (Err e, s\<lparr>bc_log := log\<rparr>)
    | (Panic p, log) \<Rightarrow> (Panic p, s\<lparr>bc_log := log\<rparr>))"

definition bitcask_status :: "(bitcask, engine_status) op" where
  "bitcask_status = (\<lambda>s.
     let keys = length (bc_keydir s);
         size = fold (\<lambda>(key, _, value_len) size. size + length key + unat value_len) (bc_keydir s) 0;
         total_disk_size = length (bc_log s);
         live_disk_size = size + 8 * keys
     in if total_disk_size < live_disk_size
        then (Panic ''attempt to subtract with overflow'', s)
        else (Ok \<lparr>st_name = bitcask_fmt, st_keys = keys, st_size = size,
                  st_total_disk_size = total_disk_size, st_live_disk_size = live_disk_size,
                  st_garbage_disk_size = total_disk_size - live_disk_size\<rparr>, s))"

fun write_log_loop :: "bytes \<Rightarrow> keydir \<Rightarrow> bytes \<Rightarrow> keydir \<Rightarrow> (bytes \<times> keydir) result" where
  "write_log_loop log [] new_log new_keydir = Ok (new_log, new_keydir)"
| "write_log_loop log ((key, value_pos, value_len) # keydir) new_log new_keydir =
     bind_r (read_value value_pos value_len log) (\<lambda>value.
       case write_entry key (Some value) new_log of
         (Ok (pos, len), new_log') \<Rightarrow>
           write_log_loop log keydir new_log'
             (btree_insert key (pos + unat len - unat value_len, value_len) new_keydir)
       | (Err e, _) \<Rightarrow> Err e
       | (Panic p, _) \<Rightarrow> Panic p)"

definition write_log :: "bitcask \<Rightarrow> (bytes \<times> keydir) result" where
  "write_log s = write_log_loop (bc_log s) (bc_keydir s) [] []"

definition bitcask_compact :: "(bitcask, unit) op" where
  "bitcask_compact = (\<lambda>s. case write_log s of
      Ok (new_log, new_keydir) \<Rightarrow> (Ok (), s\<lparr>bc_log := new_log, bc_keydir := new_keydir\<rparr>)
    | Err e \<Rightarrow> (Err e, s)
    | Panic p \<Rightarrow> (Panic p, s))"

text \<open>The comparison \<^verbatim>\<open>garbage_ratio >= garbage_min_ratio\<close> is made on floating-point numbers;
  \<open>ratio_reached\<close> stands for it, as a function of the garbage size and the total size.\<close>

definition bitcask_new_compact :: "(nat \<Rightarrow> nat \<Rightarrow> bool) \<Rightarrow> nat \<Rightarrow> bytes \<Rightarrow> bitcask result" where
  "bitcask_new_compact ratio_reached garbage_min_bytes file =
     bind_r (bitcask_new file) (\<lambda>s.
     case bitcask_status s of
       (Ok status, s) \<Rightarrow>
         if 0 < st_garbage_disk_size status \<and> garbage_min_bytes \<le> st_garbage_disk_size status \<and>
            ratio_reached (st_garbage_disk_size status) (st_total_disk_size status)
         then (case bitcask_compact s of
                 (Ok _, s') \<Rightarrow> Ok s' | (Err e, _) \<Rightarrow> Err e | (Panic p, _) \<Rightarrow> Panic p)
         else Ok s
     | (Err e, _) \<Rightarrow> Err e
     | (Panic p, _) \<Rightarrow> Panic p)"

definition bitcask_engine :: "bitcask engine" where
  "bitcask_engine = \<lparr>
     e_delete = bitcask_delete,
     e_flush = bitcask_flush,
     e_get = bitcask_get,
     e_scan = bitcask_scan,
     e_set = bitcask_set,
     e_status = bitcask_status\<rparr>"

section \<open>Logs as lists of entries\<close>

type_synonym entry = "bytes \<times> bytes option"

definition value_bytes :: "bytes option \<Rightarrow> bytes" where
  "value_bytes v = (case v of None \<Rightarrow> [] | Some b \<Rightarrow> b)"

definition entry_bytes :: "entry \<Rightarrow> bytes" where
  "entry_bytes e =
     to_be_bytes (of_nat (length (fst e)) :: u32) @
     to_be_bytes (case snd e of None \<Rightarrow> - 1 | Some b \<Rightarrow> (of_nat (length b) :: 32 word)) @
     fst e @ value_bytes (snd e)"

definition fits_entry :: "bytes \<Rightarrow> bytes \<Rightarrow> bool" where
  "fits_entry k v \<longleftrightarrow> length v < 2 ^ 31 \<and> 8 + length k + length v < 2 ^ 32"

definition wf_entry :: "entry \<Rightarrow> bool" where
  "wf_entry e \<longleftrightarrow> fits_entry (fst e) (value_bytes (snd e))"

definition file_of :: "entry list \<Rightarrow> bytes" where
  "file_of es = concat (map entry_bytes es)"

definition replay_entry :: "nat \<Rightarrow> entry \<Rightarrow> keydir \<Rightarrow> keydir" where
  "replay_entry pos e kd = (case snd e of
      None \<Rightarrow> btree_remove (fst e) kd
    | Some b \<Rightarrow> btree_insert (fst e) (pos + 8 + length (fst e), of_nat (length b)) kd)"

fun replay :: "nat \<Rightarrow> entry list \<Rightarrow> keydir \<Rightarrow> keydir" where
  "replay pos [] kd = kd"
| "replay pos (e # es) kd = replay (pos + length (entry_bytes e)) es (replay_entry pos e kd)"

definition apply_entry :: "entry \<Rightarrow> (bytes, bytes) btree_map \<Rightarrow> (bytes, bytes) btree_map" where
  "apply_entry e m = (case snd e of None \<Rightarrow> btree_remove (fst e) m | Some b \<Rightarrow> btree_insert (fst e) b m)"

definition read_back :: "bytes \<Rightarrow> keydir \<Rightarrow> (bytes \<times> bytes) list" where
  "read_back file kd = map (\<lambda>(k, p, l). (k, take (unat l) (drop p file))) kd"

definition bitcask_view :: "bitcask \<Rightarrow> (bytes \<times> bytes) list" where
  "bitcask_view s = read_back (bc_log s) (bc_keydir s)"

definition bitcask_inv :: "bitcask \<Rightarrow> bool" where
  "bitcask_inv s \<longleftrightarrow> (\<exists>es. list_all wf_entry es \<and> bc_log s = file_of es \<and> bc_keydir s = replay 0 es [])"

lemma length_be_u32 [simp]: "length (to_be_bytes (w :: 32 word)) = 4"
  by (simp add: to_be_bytes_def)

lemma from_to_be_bytes_u32 [simp]: "from_be_bytes (to_be_bytes (w :: 32 word)) = w"
proof -
  have "unat w < 256 ^ 4" using unsigned_less [of w] by simp
  then show ?thesis by (simp add: to_be_bytes_def from_be_bytes_def from_to_be)
qed

lemma length_entry_bytes: "length (entry_bytes e) = 8 + length (fst e) + length (value_bytes (snd e))"
  by (simp add: entry_bytes_def)

lemma unat_of_nat_u32: "n < 2 ^ 32 \<Longrightarrow> unat (of_nat n :: u32) = n"
  by (simp add: unat_of_nat)

lemma sint_of_nat_u32: "n < 2 ^ 31 \<Longrightarrow> sint (of_nat n :: 32 word) = int n"
  by (simp add: sint_uint unsigned_of_nat signed_take_bit_eq_take_bit_shift take_bit_eq_mod)

lemma write_entry_fits:
  assumes "wf_entry (k, v)"
  shows "write_entry k v file =
    (Ok (length file, of_nat (length (entry_bytes (k, v)))), file @ entry_bytes (k, v))"
proof -
  have l: "8 + length k + length (value_bytes v) < 2 ^ 32"
    using assms by (simp add: wf_entry_def fits_entry_def)
  have vl: "(case v of None \<Rightarrow> 0 | Some b \<Rightarrow> (of_nat (length b) :: u32)) = of_nat (length (value_bytes v))"
    by (simp add: value_bytes_def split: option.splits)
  have 1: "add_u32 (4 + 4) (of_nat (length k)) = Ok (of_nat (8 + length k))"
    using l by (simp add: add_u32_def unat_of_nat_u32)
  have 2: "add_u32 (of_nat (8 + length k)) (of_nat (length (value_bytes v))) =
      Ok (of_nat (length (entry_bytes (k, v))))"
    using l by (simp only: add_u32_def unat_of_nat_u32 length_entry_bytes) simp
  show ?thesis
    unfolding write_entry_def Let_def vl 1 bind_r.simps 2
    by (simp add: entry_bytes_def value_bytes_def)
qed


lemma read_entry_header:
  assumes "drop pos file = to_be_bytes (kl :: u32) @ to_be_bytes (vl :: 32 word) @ rest"
  shows "read_entry file pos =
    (if length rest < unat kl then None
     else if 0 \<le> sint vl then
       (if length file < pos + 8 + unat kl + unat vl then None
        else Some (take (unat kl) rest, pos + 8 + unat kl, Some vl))
     else Some (take (unat kl) rest, pos + 8 + unat kl, None))"
  unfolding read_entry_def Let_def assms by (simp add: add.commute add.left_commute)

lemma read_entry_whole:
  assumes "wf_entry (k, v)"
  shows "read_entry (pre @ entry_bytes (k, v) @ post) (length pre) =
    Some (k, length pre + 8 + length k, map_option (\<lambda>b. of_nat (length b)) v)"
proof -
  have "length k < 2 ^ 32" "length (value_bytes v) < 2 ^ 31"
    using assms by (simp_all add: wf_entry_def fits_entry_def)
  then show ?thesis
    by (subst read_entry_header)
      (auto simp: entry_bytes_def value_bytes_def unat_of_nat_u32 sint_of_nat_u32 split: option.splits)
qed

lemma take_entry_bytes:
  "8 \<le> n \<Longrightarrow> take n (entry_bytes (k, v)) =
     to_be_bytes (of_nat (length k) :: u32) @
     to_be_bytes (case v of None \<Rightarrow> - 1 | Some b \<Rightarrow> (of_nat (length b) :: 32 word)) @
     take (n - 8) (k @ value_bytes v)"
  by (simp add: entry_bytes_def)

lemma read_entry_torn:
  assumes wf: "wf_entry (k, v)" and n: "n < length (entry_bytes (k, v))"
  shows "read_entry (pre @ take n (entry_bytes (k, v))) (length pre) = None"
proof (cases "8 \<le> n")
  case False
  with n show ?thesis
    by (auto simp: read_entry_def Let_def)
next
  case True
  have "length k < 2 ^ 32" "length (value_bytes v) < 2 ^ 31"
    using wf by (simp_all add: wf_entry_def fits_entry_def)
  with True n show ?thesis
    by (subst read_entry_header, simp add: take_entry_bytes)
      (auto simp: take_entry_bytes length_entry_bytes value_bytes_def unat_of_nat_u32 sint_of_nat_u32
        split: option.splits)
qed

lemma file_of_simps [simp]:
  "file_of [] = []" "file_of (e # es) = entry_bytes e @ file_of es"
  "file_of (es @ fs) = file_of es @ file_of fs"
  by (simp_all add: file_of_def)

lemma build_loop_entry:
  assumes "wf_entry e"
  shows "build_loop (pre @ entry_bytes e @ post) (length pre) kd =
    build_loop (pre @ entry_bytes e @ post) (length pre + length (entry_bytes e))
      (replay_entry (length pre) e kd)"
proof -
  obtain k v where e: "e = (k, v)" by (cases e)
  have "length (value_bytes v) < 2 ^ 32"
    using assms by (simp add: e wf_entry_def fits_entry_def)
  moreover have "length pre < length (pre @ entry_bytes e @ post)"
    by (simp add: length_entry_bytes)
  ultimately show ?thesis
    using read_entry_whole [of k v pre post] assms
    by (subst build_loop.simps)
      (auto simp: e replay_entry_def length_entry_bytes value_bytes_def unat_of_nat_u32 add.assoc
        split: option.splits)
qed

lemma build_loop_entries:
  "list_all wf_entry es \<Longrightarrow>
   build_loop (pre @ file_of es @ post) (length pre) kd =
   build_loop (pre @ file_of es @ post) (length pre + length (file_of es)) (replay (length pre) es kd)"
proof (induction es arbitrary: pre kd)
  case (Cons e es)
  have "build_loop (pre @ file_of (e # es) @ post) (length pre) kd =
    build_loop ((pre @ entry_bytes e) @ file_of es @ post) (length (pre @ entry_bytes e))
      (replay_entry (length pre) e kd)"
    using build_loop_entry [of e pre "file_of es @ post" kd] Cons.prems by simp
  also have "\<dots> = build_loop ((pre @ entry_bytes e) @ file_of es @ post)
      (length (pre @ entry_bytes e) + length (file_of es))
      (replay (length (pre @ entry_bytes e)) es (replay_entry (length pre) e kd))"
    using Cons.prems by (intro Cons.IH) simp
  finally show ?case by (simp add: add.assoc)
qed simp

lemma build_keydir_entries:
  "list_all wf_entry es \<Longrightarrow> build_keydir (file_of es) = (Ok (replay 0 es []), file_of es)"
  using build_loop_entries [of es "[]" "[]" "[]"]
  by (simp add: build_keydir_def build_loop.simps [of _ "length (file_of es)"])

lemma build_keydir_torn:
  assumes "list_all wf_entry es" "wf_entry e" "n < length (entry_bytes e)"
  shows "build_keydir (file_of es @ take n (entry_bytes e)) = (Ok (replay 0 es []), file_of es)"
proof (cases "n = 0")
  case True
  then show ?thesis using build_keydir_entries [OF assms(1)] by simp
next
  case False
  let ?f = "file_of es @ take n (entry_bytes e)"
  have "read_entry ?f (length (file_of es)) = None"
    using read_entry_torn [of "fst e" "snd e" n "file_of es"] assms(2,3) by simp
  then have "build_loop ?f (length (file_of es)) (replay 0 es []) = (replay 0 es [], file_of es)"
    using False assms(3) by (subst build_loop.simps) auto
  then show ?thesis
    using build_loop_entries [OF assms(1), of "[]" "take n (entry_bytes e)" "[]"]
    by (simp add: build_keydir_def)
qed


section \<open>The content of the key directory\<close>

definition in_file :: "bytes \<Rightarrow> keydir \<Rightarrow> bool" where
  "in_file file kd \<longleftrightarrow> (\<forall>(k, p, l) \<in> set kd. p + unat l \<le> length file)"

lemma replay_append:
  "replay pos (es @ fs) kd = replay (pos + length (file_of es)) fs (replay pos es kd)"
  by (induction es arbitrary: pos kd) (auto simp: add.assoc)

lemma map_fst_read_back [simp]: "map fst (read_back file kd) = map fst kd"
  by (simp add: read_back_def comp_def split_def)

lemma read_back_append: "in_file file kd \<Longrightarrow> read_back (file @ x) kd = read_back file kd"
  by (auto simp: read_back_def in_file_def)

lemma read_back_insert:
  "read_back file (btree_insert k (p, l) kd) =
   btree_insert k (take (unat l) (drop p file)) (read_back file kd)"
  by (induction kd) (auto simp: read_back_def split_def)

lemma read_back_remove: "read_back file (btree_remove k kd) = btree_remove k (read_back file kd)"
  by (induction kd) (auto simp: read_back_def btree_remove_def split_def)

lemma set_btree_insert_subset: "set (btree_insert k v m) \<subseteq> insert (k, v) (set m)"
  by (induction m) auto

lemma replay_entry_step:
  assumes wf: "wf_entry e" and inf: "in_file file kd" and ord: "ordered kd"
  shows "in_file (file @ entry_bytes e) (replay_entry (length file) e kd)"
    and "ordered (replay_entry (length file) e kd)"
    and "read_back (file @ entry_bytes e) (replay_entry (length file) e kd) =
           apply_entry e (read_back file kd)"
proof -
  obtain k v where e: "e = (k, v)" by (cases e)
  have l: "length (value_bytes v) < 2 ^ 32"
    using wf by (simp add: e wf_entry_def fits_entry_def)
  have inf': "in_file (file @ entry_bytes e) kd"
    using inf by (fastforce simp: in_file_def)
  show "in_file (file @ entry_bytes e) (replay_entry (length file) e kd)"
  proof (cases v)
    case None
    with inf' show ?thesis by (auto simp: e replay_entry_def in_file_def btree_remove_def)
  next
    case (Some b)
    with inf' l set_btree_insert_subset [of k "(length file + 8 + length k, of_nat (length b))" kd]
    show ?thesis
      by (auto simp: e replay_entry_def in_file_def length_entry_bytes value_bytes_def unat_of_nat_u32
          dest!: subsetD)
  qed
  show "ordered (replay_entry (length file) e kd)"
    using ord by (auto simp: replay_entry_def split: option.splits)
  show "read_back (file @ entry_bytes e) (replay_entry (length file) e kd) =
      apply_entry e (read_back file kd)"
    using l read_back_append [OF inf, of "entry_bytes e"]
    by (auto simp: e replay_entry_def apply_entry_def read_back_insert read_back_remove
        unat_of_nat_u32 value_bytes_def entry_bytes_def split: option.splits)
qed

lemma replay_content:
  assumes "list_all wf_entry es"
  shows "in_file (file_of es) (replay 0 es [])"
    and "ordered (replay 0 es [])"
    and "read_back (file_of es) (replay 0 es []) = fold apply_entry es []"
proof -
  from assms have "in_file (file_of es) (replay 0 es []) \<and> ordered (replay 0 es []) \<and>
    read_back (file_of es) (replay 0 es []) = fold apply_entry es []"
  proof (induction es rule: rev_induct)
    case Nil
    then show ?case by (simp add: in_file_def read_back_def)
  next
    case (snoc e es)
    then show ?case
      using replay_entry_step [of e "file_of es" "replay 0 es []"]
      by (simp add: replay_append)
  qed
  then show "in_file (file_of es) (replay 0 es [])" "ordered (replay 0 es [])"
    "read_back (file_of es) (replay 0 es []) = fold apply_entry es []" by auto
qed

definition live_size :: "keydir \<Rightarrow> nat" where
  "live_size kd = sum_list (map (\<lambda>(k, p, l). 8 + length k + unat l) kd)"

lemma live_size_insert: "live_size (btree_insert k (p, l) kd) \<le> live_size kd + (8 + length k + unat l)"
  by (induction kd) (auto simp: live_size_def)

lemma live_size_remove: "live_size (btree_remove k kd) \<le> live_size kd"
  by (induction kd) (auto simp: live_size_def btree_remove_def)

lemma live_size_replay: "list_all wf_entry es \<Longrightarrow> live_size (replay 0 es []) \<le> length (file_of es)"
proof (induction es rule: rev_induct)
  case Nil
  then show ?case by (simp add: live_size_def)
next
  case (snoc e es)
  obtain k v where e: "e = (k, v)" by (cases e)
  have l: "length (value_bytes v) < 2 ^ 32"
    using snoc.prems by (simp add: e wf_entry_def fits_entry_def)
  have "live_size (replay_entry (length (file_of es)) e (replay 0 es [])) \<le>
      live_size (replay 0 es []) + length (entry_bytes e)"
  proof (cases v)
    case None
    with live_size_remove [of k "replay 0 es []"] show ?thesis
      by (simp add: e replay_entry_def)
  next
    case (Some b)
    with l live_size_insert [of k "length (file_of es) + 8 + length k" "of_nat (length b)" "replay 0 es []"]
    show ?thesis
      by (simp add: e replay_entry_def length_entry_bytes value_bytes_def unat_of_nat_u32)
  qed
  with snoc show ?case by (simp add: replay_append)
qed


section \<open>The engine's operations on well-formed logs\<close>

lemma bitcask_invE:
  assumes "bitcask_inv s"
  obtains es where "list_all wf_entry es" "bc_log s = file_of es" "bc_keydir s = replay 0 es []"
  using assms by (auto simp: bitcask_inv_def)

lemma bitcask_view_entries:
  "list_all wf_entry es \<Longrightarrow> bitcask_view \<lparr>bc_log = file_of es, bc_keydir = replay 0 es []\<rparr> =
     fold apply_entry es []"
  by (simp add: bitcask_view_def replay_content)

lemma bitcask_view_ordered: "bitcask_inv s \<Longrightarrow> ordered (bitcask_view s)"
  by (erule bitcask_invE) (simp only: bitcask_view_def map_fst_read_back replay_content(2))

lemma read_value_in_file:
  "p + unat l \<le> length file \<Longrightarrow> read_value p l file = Ok (take (unat l) (drop p file))"
  by (simp add: read_value_def Let_def)

lemma bitcask_in_file: "bitcask_inv s \<Longrightarrow> in_file (bc_log s) (bc_keydir s)"
  by (erule bitcask_invE) (simp add: replay_content)

lemma map_of_read_back:
  "map_of (read_back file kd) k = map_option (\<lambda>(p, l). take (unat l) (drop p file)) (map_of kd k)"
  by (induction kd) (auto simp: read_back_def)

lemma bitcask_get_view:
  assumes "bitcask_inv s"
  shows "bitcask_get k s = (Ok (map_of (bitcask_view s) k), s)"
proof (cases "map_of (bc_keydir s) k")
  case None
  then show ?thesis by (simp add: bitcask_get_def bitcask_view_def map_of_read_back)
next
  case (Some v)
  obtain p l where v: "v = (p, l)" by (cases v)
  have "p + unat l \<le> length (bc_log s)"
    using bitcask_in_file [OF assms] map_of_SomeD [OF Some] by (auto simp: in_file_def v)
  with Some show ?thesis
    by (simp add: bitcask_get_def bitcask_view_def map_of_read_back v read_value_in_file)
qed

lemma bitcask_write:
  assumes inv: "bitcask_inv s" and wf: "wf_entry e"
  defines "s' \<equiv> s\<lparr>bc_log := bc_log s @ entry_bytes e,
                  bc_keydir := replay_entry (length (bc_log s)) e (bc_keydir s)\<rparr>"
  shows "bitcask_inv s'" and "bitcask_view s' = apply_entry e (bitcask_view s)"
proof -
  obtain es where es: "list_all wf_entry es" "bc_log s = file_of es" "bc_keydir s = replay 0 es []"
    using inv by (rule bitcask_invE)
  show "bitcask_inv s'"
    unfolding bitcask_inv_def s'_def
    by (rule exI [where x = "es @ [e]"]) (use es wf in \<open>simp add: replay_append\<close>)
  show "bitcask_view s' = apply_entry e (bitcask_view s)"
    using replay_entry_step(3) [OF wf] replay_content [OF es(1)] es
    by (simp add: s'_def bitcask_view_def)
qed

lemma bitcask_set_write:
  assumes "fits_entry k v"
  shows "bitcask_set k v s = (Ok (), s\<lparr>bc_log := bc_log s @ entry_bytes (k, Some v),
    bc_keydir := replay_entry (length (bc_log s)) (k, Some v) (bc_keydir s)\<rparr>)"
proof -
  have wf: "wf_entry (k, Some v)" using assms by (simp add: wf_entry_def value_bytes_def)
  have l: "8 + length k + length v < 2 ^ 32" using assms by (simp add: fits_entry_def)
  have v: "unat (of_nat (length v) :: u32) = length v" using l by (intro unat_of_nat_u32) simp
  have len: "unat (of_nat (length (entry_bytes (k, Some v))) :: u32) = 8 + length k + length v"
    using unat_of_nat_u32 [OF l] by (simp only: length_entry_bytes) (simp add: value_bytes_def)
  show ?thesis
    unfolding bitcask_set_def write_entry_fits [OF wf] replay_entry_def
    by (simp add: len v add.assoc)
qed

lemma bitcask_delete_write:
  assumes "fits_entry k []"
  shows "bitcask_delete k s = (Ok (), s\<lparr>bc_log := bc_log s @ entry_bytes (k, None),
    bc_keydir := replay_entry (length (bc_log s)) (k, None) (bc_keydir s)\<rparr>)"
proof -
  have wf: "wf_entry (k, None)" using assms by (simp add: wf_entry_def value_bytes_def)
  show ?thesis
    unfolding bitcask_delete_def write_entry_fits [OF wf] replay_entry_def by simp
qed

lemma bitcask_set_view:
  assumes "bitcask_inv s" "fits_entry k v"
  shows "\<exists>s'. bitcask_set k v s = (Ok (), s') \<and> bitcask_inv s' \<and>
    bitcask_view s' = btree_insert k v (bitcask_view s)"
  using bitcask_write [OF assms(1), of "(k, Some v)"] assms(2)
  by (simp add: bitcask_set_write wf_entry_def value_bytes_def apply_entry_def)

lemma bitcask_delete_view:
  assumes "bitcask_inv s" "fits_entry k []"
  shows "\<exists>s'. bitcask_delete k s = (Ok (), s') \<and> bitcask_inv s' \<and>
    bitcask_view s' = btree_remove k (bitcask_view s)"
  using bitcask_write [OF assms(1), of "(k, None)"] assms(2)
  by (simp add: bitcask_delete_write wf_entry_def value_bytes_def apply_entry_def)

lemma bitcask_scan_items:
  assumes "in_file log kd"
  shows "map (bitcask_scan_item log) (filter (\<lambda>e. P (fst e)) kd) =
    map Ok (filter (\<lambda>e. P (fst e)) (read_back log kd))"
  using assms
  by (induction kd)
    (auto simp: in_file_def read_back_def bitcask_scan_item_def read_value_in_file)

lemma bitcask_scan_view:
  assumes "bitcask_inv s" "\<not> range_panics r"
  shows "bitcask_scan r s = (Ok (map Ok (filter (\<lambda>e. in_range r (fst e)) (bitcask_view s))), s)"
  using assms(2) bitcask_scan_items [OF bitcask_in_file [OF assms(1)], of "in_range r"]
  by (simp add: bitcask_scan_def btree_range_def bitcask_view_def)

lemma fold_keydir_sizes:
  "fold (\<lambda>(key, p, value_len) size. size + length key + unat value_len) kd n =
     n + sum_list (map (\<lambda>(k, p, l). length k + unat l) kd)"
  by (induction kd arbitrary: n) auto

lemma live_size_sum: "live_size kd = sum_list (map (\<lambda>(k, p, l). length k + unat l) kd) + 8 * length kd"
  by (induction kd) (auto simp: live_size_def)

lemma sizes_read_back:
  "in_file file kd \<Longrightarrow> sum_list (map (\<lambda>(k, p, l). length k + unat l) kd) =
     sum_list (map (\<lambda>p. length (fst p) + length (snd p)) (read_back file kd))"
  by (induction kd) (auto simp: in_file_def read_back_def)

lemma bitcask_status_view:
  assumes "bitcask_inv s"
  shows "\<exists>st. bitcask_status s = (Ok st, s) \<and> st_keys st = length (bitcask_view s) \<and>
    st_size st = sum_list (map (\<lambda>p. length (fst p) + length (snd p)) (bitcask_view s)) \<and>
    st_total_disk_size st = length (bc_log s) \<and> st_live_disk_size st = live_size (bc_keydir s) \<and>
    st_garbage_disk_size st = length (bc_log s) - live_size (bc_keydir s)"
proof -
  have "live_size (bc_keydir s) \<le> length (bc_log s)"
    using assms by (elim bitcask_invE) (simp add: live_size_replay)
  moreover have "length (bitcask_view s) = length (bc_keydir s)"
    by (simp add: bitcask_view_def read_back_def)
  ultimately show ?thesis
    using sizes_read_back [OF bitcask_in_file [OF assms]]
    by (simp add: bitcask_status_def fold_keydir_sizes live_size_sum bitcask_view_def Let_def)
qed

lemma fold_apply_fits:
  assumes "list_all wf_entry es" "list_all (\<lambda>(k, v). fits_entry k v) m"
  shows "list_all (\<lambda>(k, v). fits_entry k v) (fold apply_entry es m)"
  using assms
proof (induction es arbitrary: m)
  case (Cons e es)
  have "set (apply_entry e m) \<subseteq> set m \<union> (case snd e of None \<Rightarrow> {} | Some v \<Rightarrow> {(fst e, v)})"
    using set_btree_insert_subset [of "fst e" _ m]
    by (auto simp: apply_entry_def btree_remove_def split: option.splits)
  with Cons.prems have "list_all (\<lambda>(k, v). fits_entry k v) (apply_entry e m)"
    by (fastforce simp: list_all_iff wf_entry_def value_bytes_def split: option.splits)
  with Cons show ?case by simp
qed simp

lemma bitcask_view_fits: "bitcask_inv s \<Longrightarrow> list_all (\<lambda>(k, v). fits_entry k v) (bitcask_view s)"
  by (elim bitcask_invE) (simp add: bitcask_view_def replay_content fold_apply_fits)

lemma bitcask_stored_fits:
  assumes "bitcask_inv s" "map_of (bitcask_view s) k = Some v"
  shows "fits_entry k v"
  using bitcask_view_fits [OF assms(1)] map_of_SomeD [OF assms(2)] by (auto simp: list_all_iff)

lemma fits_entry_empty: "fits_entry k v \<Longrightarrow> fits_entry k []"
  by (simp add: fits_entry_def)

interpretation bitcask_kv: storage_engine bitcask_engine bitcask_inv bitcask_view fits_entry
proof
  show "bitcask_inv e \<Longrightarrow> \<exists>st. e_status bitcask_engine e = (Ok st, e) \<and>
      st_keys st = length (bitcask_view e) \<and>
      st_size st = sum_list (map (\<lambda>p. length (fst p) + length (snd p)) (bitcask_view e))" for e
    using bitcask_status_view [of e] by (auto simp: bitcask_engine_def)
qed (simp_all add: bitcask_engine_def bitcask_view_ordered bitcask_get_view bitcask_set_view
    bitcask_delete_view bitcask_scan_view bitcask_flush_def return_op_def bitcask_stored_fits
    fits_entry_empty)

section \<open>Opening, recovery and compaction\<close>

lemma bitcask_inv_empty [simp]: "bitcask_inv \<lparr>bc_log = [], bc_keydir = []\<rparr>"
  by (auto simp: bitcask_inv_def intro: exI [of _ "[]"])

lemma bitcask_new_entries:
  "list_all wf_entry es \<Longrightarrow>
   bitcask_new (file_of es) = Ok \<lparr>bc_log = file_of es, bc_keydir = replay 0 es []\<rparr>"
  by (simp add: bitcask_new_def build_keydir_entries)

lemma bitcask_new_reopens: "bitcask_inv s \<Longrightarrow> bitcask_new (bc_log s) = Ok s"
  by (erule bitcask_invE) (simp add: bitcask_new_entries)

lemma write_entry_live:
  assumes "length v < 2 ^ 31" "8 + length k + length v < 2 ^ 32"
  shows "write_entry k (Some v) file =
    (Ok (length file, of_nat (length (entry_bytes (k, Some v)))), file @ entry_bytes (k, Some v))"
  using assms by (intro write_entry_fits) (simp add: wf_entry_def fits_entry_def value_bytes_def)

definition live_entries :: "(bytes \<times> bytes) list \<Rightarrow> entry list" where
  "live_entries m = map (\<lambda>(k, v). (k, Some v)) m"

lemma replay_snoc_live:
  "fits_entry k v \<Longrightarrow> replay 0 (es @ [(k, Some v)]) [] =
     btree_insert k (length (file_of es) + 8 + length k, of_nat (length v)) (replay 0 es [])"
  by (simp add: replay_append replay_entry_def)

lemma write_log_loop_live:
  assumes "in_file log kd" "list_all (\<lambda>(k, v). fits_entry k v) (read_back log kd)"
  shows "write_log_loop log kd (file_of es) (replay 0 es []) =
    Ok (file_of (es @ live_entries (read_back log kd)), replay 0 (es @ live_entries (read_back log kd)) [])"
  using assms
proof (induction kd arbitrary: es)
  case Nil
  then show ?case by (simp add: read_back_def live_entries_def)
next
  case (Cons x kd)
  obtain k p l where x: "x = (k, p, l)" by (cases x)
  define v where "v = take (unat l) (drop p log)"
  have pl: "p + unat l \<le> length log" using Cons.prems by (simp add: in_file_def x)
  then have lv: "length v = unat l" by (simp add: v_def)
  have rb: "read_back log (x # kd) = (k, v) # read_back log kd" by (simp add: read_back_def x v_def)
  have fits: "fits_entry k v" using Cons.prems by (simp add: rb)
  then have wf: "wf_entry (k, Some v)" by (simp add: wf_entry_def value_bytes_def)
  have n: "unat (of_nat (length (entry_bytes (k, Some v))) :: u32) = 8 + length k + unat l"
    using fits lv unat_of_nat_u32 [of "8 + length k + length v"]
    by (simp only: length_entry_bytes) (simp add: value_bytes_def fits_entry_def)
  have l: "l = of_nat (length v)" by (simp add: lv)
  have "write_log_loop log (x # kd) (file_of es) (replay 0 es []) =
      write_log_loop log kd (file_of (es @ [(k, Some v)])) (replay 0 (es @ [(k, Some v)]) [])"
    unfolding x write_log_loop.simps read_value_in_file [OF pl] v_def [symmetric] bind_r.simps
      write_entry_fits [OF wf] replay_snoc_live [OF fits]
    by (simp add: n l add.assoc)
  also have "\<dots> = Ok (file_of ((es @ [(k, Some v)]) @ live_entries (read_back log kd)),
      replay 0 ((es @ [(k, Some v)]) @ live_entries (read_back log kd)) [])"
    using Cons.prems by (intro Cons.IH) (auto simp: in_file_def rb)
  finally show ?case by (simp add: rb live_entries_def)
qed

lemma btree_insert_last:
  "\<forall>e \<in> set m. fst e < k \<Longrightarrow> btree_insert k v m = m @ [(k, v)]"
  by (induction m) auto

lemma fold_apply_live: "ordered m \<Longrightarrow> fold apply_entry (live_entries m) [] = m"
proof (induction m rule: rev_induct)
  case Nil
  then show ?case by (simp add: live_entries_def)
next
  case (snoc x m)
  then show ?case
    by (cases x) (simp add: live_entries_def apply_entry_def sorted_wrt_append btree_insert_last)
qed

lemma bitcask_compact_live:
  assumes "bitcask_inv s"
  defines "es \<equiv> live_entries (bitcask_view s)"
  shows "bitcask_compact s = (Ok (), \<lparr>bc_log = file_of es, bc_keydir = replay 0 es []\<rparr>)"
    and "list_all wf_entry es"
proof -
  have "write_log s = Ok (file_of es, replay 0 es [])"
    using write_log_loop_live [of "bc_log s" "bc_keydir s" "[]"] bitcask_in_file [OF assms(1)]
      bitcask_view_fits [OF assms(1)]
    by (simp add: write_log_def es_def bitcask_view_def)
  then show "bitcask_compact s = (Ok (), \<lparr>bc_log = file_of es, bc_keydir = replay 0 es []\<rparr>)"
    by (simp add: bitcask_compact_def)
  show "list_all wf_entry es"
    using bitcask_view_fits [OF assms(1)]
    by (auto simp: es_def live_entries_def list_all_iff wf_entry_def value_bytes_def)
qed

lemma length_live_entries:
  "length (file_of (live_entries m)) = sum_list (map (\<lambda>p. length (fst p) + length (snd p)) m) + 8 * length m"
  by (induction m) (auto simp: live_entries_def length_entry_bytes value_bytes_def)

lemma bitcask_compact_view:
  assumes inv: "bitcask_inv s"
  obtains s' where "bitcask_compact s = (Ok (), s')" "bitcask_inv s'" "bitcask_view s' = bitcask_view s"
    "length (bc_log s') = live_size (bc_keydir s')"
proof -
  let ?es = "live_entries (bitcask_view s)"
  let ?s = "\<lparr>bc_log = file_of ?es, bc_keydir = replay 0 ?es []\<rparr>"
  note wf = bitcask_compact_live(2) [OF inv]
  have inv': "bitcask_inv ?s" using wf by (auto simp: bitcask_inv_def)
  have view: "bitcask_view ?s = bitcask_view s"
    using wf bitcask_view_ordered [OF inv] by (simp add: bitcask_view_entries fold_apply_live)
  have "length (bc_keydir ?s) = length (bitcask_view ?s)" by (simp add: bitcask_view_def read_back_def)
  moreover have "live_size (bc_keydir ?s) = sum_list (map (\<lambda>p. length (fst p) + length (snd p)) (bitcask_view ?s))
      + 8 * length (bc_keydir ?s)"
    using sizes_read_back [OF bitcask_in_file [OF inv']] by (simp add: live_size_sum bitcask_view_def)
  ultimately have "length (bc_log ?s) = live_size (bc_keydir ?s)"
    by (simp add: view length_live_entries)
  with inv' view bitcask_compact_live(1) [OF inv] that [of ?s] show thesis by blast
qed


lemma bitcask_torn_write_reopens:
  assumes "bitcask_inv s" "wf_entry e" "n < length (entry_bytes e)"
  shows "bitcask_new (bc_log s @ take n (entry_bytes e)) = Ok s"
  using assms by (elim bitcask_invE) (simp add: bitcask_new_def build_keydir_torn)

text \<open>The state that writing \<open>x\<close> under \<open>k\<close> leaves in an empty engine, where the witnesses below
  evaluate the theorems.\<close>

definition demo_log :: bitcask where
  "demo_log = snd (bitcask_set [2] [9] (snd (bitcask_set [1] [7] (snd (bitcask_set [1] [5]
     \<lparr>bc_log = [], bc_keydir = []\<rparr>)))))"

lemma bitcask_inv_set: "bitcask_inv s \<Longrightarrow> fits_entry k v \<Longrightarrow> bitcask_inv (snd (bitcask_set k v s))"
  using bitcask_set_view [of s k v] by auto

lemma bitcask_view_set: "bitcask_inv s \<Longrightarrow> fits_entry k v \<Longrightarrow>
    bitcask_view (snd (bitcask_set k v s)) = btree_insert k v (bitcask_view s)"
  using bitcask_set_view [of s k v] by auto

lemma demo_log_inv: "bitcask_inv demo_log"
  by (simp add: demo_log_def bitcask_inv_set fits_entry_def)

lemma demo_log_view: "bitcask_view demo_log = [([1], [7]), ([2], [9])]"
proof -
  have "bitcask_view \<lparr>bc_log = [], bc_keydir = []\<rparr> = []" by (simp add: bitcask_view_def read_back_def)
  then show ?thesis
    by (simp add: demo_log_def bitcask_inv_set fits_entry_def bitcask_view_set)
qed

text \<open>(C21) A torn write is recovered.  If a crash leaves any strict prefix of an entry at the end of
  the log of a running engine, reopening the file truncates it and yields exactly the engine state
  from before the write, whichever prefix it is.\<close>

theorem bitcask_recovers_torn_write:
  assumes "bitcask_inv s"
    and "write_entry key value (bc_log s) = (Ok r, file')"
    and "fits_entry key (value_bytes value)"
    and "length (bc_log s) \<le> n" and "n < length file'"
  shows "bitcask_new (take n file') = Ok s"
proof -
  have wf: "wf_entry (key, value)" using assms(3) by (simp add: wf_entry_def)
  have file': "file' = bc_log s @ entry_bytes (key, value)"
    using assms(2) by (simp add: write_entry_fits [OF wf])
  have "bitcask_new (bc_log s @ take (n - length (bc_log s)) (entry_bytes (key, value))) = Ok s"
    by (rule bitcask_torn_write_reopens [OF assms(1) wf]) (use assms(4,5) file' in auto)
  with assms(4) show ?thesis by (simp add: file')
qed

theorem bitcask_recovers_torn_write_witness:
  "bitcask_new (take 10 (snd (write_entry [3] (Some [4, 5]) []))) = Ok \<lparr>bc_log = [], bc_keydir = []\<rparr>"
proof -
  have wf: "wf_entry ([3], Some [4, 5])" by (simp add: wf_entry_def fits_entry_def value_bytes_def)
  show ?thesis
    using bitcask_recovers_torn_write [of "\<lparr>bc_log = [], bc_keydir = []\<rparr>" "[3]" "Some [4, 5]" _ _ 10]
    by (simp add: write_entry_fits [OF wf] fits_entry_def value_bytes_def length_entry_bytes)
qed

text \<open>(C22) Compaction keeps the content and leaves no garbage: \<open>compact\<close> succeeds on every engine
  state, the scanned content is unchanged, the compacted file reopens to the same state, and its
  status reports zero bytes of garbage.\<close>

theorem bitcask_compact_correct:
  assumes "bitcask_inv s"
  shows "\<exists>s' st. bitcask_compact s = (Ok (), s') \<and> bitcask_inv s' \<and>
    bitcask_view s' = bitcask_view s \<and> bitcask_new (bc_log s') = Ok s' \<and>
    bitcask_status s' = (Ok st, s') \<and> st_garbage_disk_size st = 0"
proof -
  obtain s' where s': "bitcask_compact s = (Ok (), s')" "bitcask_inv s'" "bitcask_view s' = bitcask_view s"
    "length (bc_log s') = live_size (bc_keydir s')"
    using bitcask_compact_view [OF assms] by blast
  with bitcask_status_view [OF s'(2)] bitcask_new_reopens [OF s'(2)] show ?thesis by auto
qed

theorem bitcask_compact_correct_witness:
  "\<exists>s'. bitcask_compact demo_log = (Ok (), s') \<and> bitcask_view s' = [([1], [7]), ([2], [9])]"
  using bitcask_compact_correct [OF demo_log_inv] by (auto simp: demo_log_view)

text \<open>(C23) Opening with automatic compaction never loses data: \<open>new_compact\<close> on the log of a running
  engine succeeds for every threshold and every garbage ratio test, and the content it serves is
  the content the log held.\<close>

theorem bitcask_new_compact_keeps_content:
  assumes "bitcask_inv s"
  shows "\<exists>s'. bitcask_new_compact ratio_reached garbage_min_bytes (bc_log s) = Ok s' \<and>
    bitcask_inv s' \<and> bitcask_view s' = bitcask_view s"
proof -
  obtain s' where s': "bitcask_compact s = (Ok (), s')" "bitcask_inv s'" "bitcask_view s' = bitcask_view s"
    using bitcask_compact_view [OF assms] by blast
  obtain st where "bitcask_status s = (Ok st, s)"
    using bitcask_status_view [OF assms] by blast
  with s' assms show ?thesis
    by (simp add: bitcask_new_compact_def bitcask_new_reopens)
qed

theorem bitcask_new_compact_keeps_content_witness:
  "\<exists>s'. bitcask_new_compact (\<lambda>g t. t \<le> 10 * g) 1 (bc_log demo_log) = Ok s' \<and>
    bitcask_view s' = [([1], [7]), ([2], [9])]"
  using bitcask_new_compact_keeps_content [OF demo_log_inv] by (auto simp: demo_log_view)

end
