(* ===== verification/Mvcc_Key.thy ===== *)
theory Mvcc_Key
  imports Keycode Engine
begin

text \<open>
  The keys of the MVCC layer, \<^verbatim>\<open>Key\<close> and \<^verbatim>\<open>KeyPrefix\<close> of \<^verbatim>\<open>src/src/storage/mvcc.rs\<close>, and
  their encoding by the key codec.  \<open>mkey_serde\<close> is the sequence of serializer calls that serde
  derives for the enum, \<open>deserialize_mkey\<close> the derived visitor.  The lemmas show that a key always
  encodes, that decoding inverts encoding, that the versions of one user key are contiguous and in
  version order, and that every prefix selects exactly the keys it stands for.
\<close>

section \<open>Keys\<close>

type_synonym version = u64

datatype mkey =
    NextVersion
  | TxnActive version
  | TxnActiveSnapshot version
  | TxnWrite version bytes
  | Version bytes version
  | Unversioned bytes

fun mkey_serde :: "mkey \<Rightarrow> serde" where
  "mkey_serde NextVersion = S_unit_variant 0"
| "mkey_serde (TxnActive v) = S_newtype_variant 1 (S_u64 v)"
| "mkey_serde (TxnActiveSnapshot v) = S_newtype_variant 2 (S_u64 v)"
| "mkey_serde (TxnWrite v k) = S_tuple_variant 3 [S_u64 v, S_bytes k]"
| "mkey_serde (Version k v) = S_tuple_variant 4 [S_bytes k, S_u64 v]"
| "mkey_serde (Unversioned k) = S_newtype_variant 5 (S_bytes k)"

definition mkey_encode :: "mkey \<Rightarrow> bytes result" where
  "mkey_encode k = keycode_serialize (mkey_serde k)"

definition deserialize_mkey :: "(deserializer, mkey) op" where
  "deserialize_mkey = bind_op (variant_seed 6) (\<lambda>i.
     if i = 0 then return_op NextVersion
     else if i = 1 then bind_op deserialize_u64 (\<lambda>v. return_op (TxnActive v))
     else if i = 2 then bind_op deserialize_u64 (\<lambda>v. return_op (TxnActiveSnapshot v))
     else if i = 3 then bind_op (next_field deserialize_u64) (\<lambda>v.
       bind_op (next_field deserialize_bytes) (\<lambda>k. return_op (TxnWrite v k)))
     else if i = 4 then bind_op (next_field deserialize_bytes) (\<lambda>k.
       bind_op (next_field deserialize_u64) (\<lambda>v. return_op (Version k v)))
     else bind_op deserialize_bytes (\<lambda>k. return_op (Unversioned k)))"

definition mkey_decode :: "bytes \<Rightarrow> mkey result" where
  "mkey_decode bs = keycode_deserialize deserialize_mkey bs"

datatype mprefix =
    P_NextVersion
  | P_TxnActive
  | P_TxnActiveSnapshot
  | P_TxnWrite version
  | P_Version bytes
  | P_Unversioned

fun mprefix_serde :: "mprefix \<Rightarrow> serde" where
  "mprefix_serde P_NextVersion = S_unit_variant 0"
| "mprefix_serde P_TxnActive = S_unit_variant 1"
| "mprefix_serde P_TxnActiveSnapshot = S_unit_variant 2"
| "mprefix_serde (P_TxnWrite v) = S_newtype_variant 3 (S_u64 v)"
| "mprefix_serde (P_Version k) = S_newtype_variant 4 (S_bytes k)"
| "mprefix_serde P_Unversioned = S_unit_variant 5"

definition mprefix_encode :: "mprefix \<Rightarrow> bytes result" where
  "mprefix_encode p = keycode_serialize (mprefix_serde p)"

section \<open>Encoded keys\<close>

fun mkey_bytes :: "mkey \<Rightarrow> bytes" where
  "mkey_bytes NextVersion = [0]"
| "mkey_bytes (TxnActive v) = 1 # enc_u64 v"
| "mkey_bytes (TxnActiveSnapshot v) = 2 # enc_u64 v"
| "mkey_bytes (TxnWrite v k) = 3 # enc_u64 v @ enc_bytes k"
| "mkey_bytes (Version k v) = 4 # enc_bytes k @ enc_u64 v"
| "mkey_bytes (Unversioned k) = 5 # enc_bytes k"

lemma mkey_encode_bytes [simp]: "mkey_encode k = Ok (mkey_bytes k)"
  by (cases k)
    (simp_all add: mkey_encode_def keycode_serialize_def u64_codec.appends bytes_codec.appends
      bind_op_Ok return_op_def)

lemma mprefix_encode_bytes [simp]:
  "mprefix_encode P_NextVersion = Ok [0]"
  "mprefix_encode P_TxnActive = Ok [1]"
  "mprefix_encode P_TxnActiveSnapshot = Ok [2]"
  "mprefix_encode (P_TxnWrite v) = Ok (3 # enc_u64 v)"
  "mprefix_encode (P_Version k) = Ok (4 # enc_bytes k)"
  "mprefix_encode P_Unversioned = Ok [5]"
  by (simp_all add: mprefix_encode_def keycode_serialize_def u64_codec.appends bytes_codec.appends
      bind_op_Ok return_op_def)

lemma mkey_decode_bytes [simp]: "mkey_decode (mkey_bytes k) = Ok k"
  by (cases k)
    (simp_all add: mkey_decode_def keycode_deserialize_def deserialize_mkey_def bind_op_Ok
      return_op_def u64_codec.next_field_decodes bytes_codec.next_field_decodes)

lemma mkey_bytes_inject [simp]: "mkey_bytes k = mkey_bytes l \<longleftrightarrow> k = l"
  by (metis mkey_decode_bytes result.inject(1))

lemma Version_bytes_less:
  "mkey_bytes (Version k v) < mkey_bytes (Version l w) \<longleftrightarrow> k < l \<or> k = l \<and> v < w"
  using bytes_codec.enc_less_iff [of k "enc_u64 v" l "enc_u64 w"] u64_codec.enc_less_iff [of v "[]" w "[]"]
  by simp

lemma Version_bytes_le:
  "mkey_bytes (Version k v) \<le> mkey_bytes (Version l w) \<longleftrightarrow> k < l \<or> k = l \<and> v \<le> w"
  by (auto simp: le_less Version_bytes_less simp del: mkey_bytes.simps)

lemma TxnActive_bytes_less: "mkey_bytes (TxnActive v) < mkey_bytes (TxnActive w) \<longleftrightarrow> v < w"
  using u64_codec.enc_less_iff [of v "[]" w "[]"] by simp

lemma TxnWrite_bytes_less: "mkey_bytes (TxnWrite v k) < mkey_bytes (TxnWrite v l) \<longleftrightarrow> k < l"
  using bytes_codec.enc_less_iff [of k "[]" l "[]"] by simp

text \<open>Between two versions of a key there are only versions of that key.\<close>

lemma between_versions:
  assumes "mkey_bytes (Version k v) \<le> mkey_bytes x" "mkey_bytes x \<le> mkey_bytes (Version k w)"
  obtains u where "x = Version k u" "v \<le> u" "u \<le> w"
proof (cases x)
  case (Version l u)
  with assms have "k = l" "v \<le> u" "u \<le> w"
    unfolding Version Version_bytes_le by auto
  with that Version show ?thesis by blast
qed (use assms in auto)

lemma in_version_range:
  "in_range (Included (mkey_bytes (Version k v)), Included (mkey_bytes (Version k w))) (mkey_bytes x) \<longleftrightarrow>
     (\<exists>u. x = Version k u \<and> v \<le> u \<and> u \<le> w)"
  by (auto simp: in_range_def Version_bytes_le elim: between_versions simp del: mkey_bytes.simps)

section \<open>Prefixes\<close>

lemma prefix_TxnActive [simp]: "prefix [1] (mkey_bytes x) \<longleftrightarrow> (\<exists>v. x = TxnActive v)"
  by (cases x) auto

lemma prefix_TxnWrite [simp]: "prefix (3 # enc_u64 v) (mkey_bytes x) \<longleftrightarrow> (\<exists>k. x = TxnWrite v k)"
proof (cases x)
  case (TxnWrite w k)
  then show ?thesis
    using u64_codec.enc_inject [of w "enc_bytes k" v] by (auto simp: prefix_def)
qed auto

lemma prefix_exact:
  "prefix [0] (mkey_bytes x) \<longleftrightarrow> x = NextVersion"
  "prefix [2] (mkey_bytes x) \<longleftrightarrow> (\<exists>v. x = TxnActiveSnapshot v)"
  "prefix [5] (mkey_bytes x) \<longleftrightarrow> (\<exists>k. x = Unversioned k)"
  "prefix (4 # enc_bytes k) (mkey_bytes x) \<longleftrightarrow> (\<exists>v. x = Version k v)"
proof -
  show "prefix (4 # enc_bytes k) (mkey_bytes x) \<longleftrightarrow> (\<exists>v. x = Version k v)"
  proof (cases x)
    case (Version l v)
    then show ?thesis using bytes_codec.enc_inject [of l "enc_u64 v" k] by (auto simp: prefix_def)
  qed auto
qed (cases x; auto)+

lemma escape_split:
  "escape a @ r = escape b @ s \<Longrightarrow> a = b \<and> r = s"
  by (auto simp: escape_def split: if_splits)

lemma prefix_escape_Cons: "prefix (escape a @ r) (escape b @ s) \<longleftrightarrow> a = b \<and> prefix r s"
  by (auto simp: escape_def prefix_def split: if_splits)

lemma prefix_escaped:
  "prefix (concat (map escape p)) (concat (map escape k) @ 0 # 0 # r) \<longleftrightarrow> prefix p k"
proof (induction p arbitrary: k)
  case (Cons a p)
  show ?case
  proof (cases k)
    case Nil
    then show ?thesis by (auto simp: escape_def split: if_splits)
  next
    case (Cons b l)
    with Cons.IH [of l] show ?thesis by (simp add: prefix_escape_Cons)
  qed
qed simp

lemma enc_bytes_truncated: "take (length (4 # enc_bytes p) - 2) (4 # enc_bytes p) = 4 # concat (map escape p)"
  by (simp add: encoded_bytes)

lemma prefix_Version [simp]:
  "prefix (4 # concat (map escape p)) (mkey_bytes x) \<longleftrightarrow> (\<exists>k v. x = Version k v \<and> prefix p k)"
  by (cases x) (auto simp: encoded_bytes prefix_escaped)

text \<open>(C24) Keys of the MVCC layer: every key encodes, decoding gives back the same key, distinct keys
  have distinct encodings, and the encodings of versioned keys sort by user key and then by
  version, so that a range scan visits the versions of a key together and in order.\<close>

theorem mkey_encoding_correct:
  "(\<exists>b. mkey_encode k = Ok b \<and> mkey_decode b = Ok k) \<and>
   (mkey_encode k = mkey_encode l \<longleftrightarrow> k = l) \<and>
   (\<exists>a b. mkey_encode (Version x v) = Ok a \<and> mkey_encode (Version y w) = Ok b \<and>
      (a < b \<longleftrightarrow> x < y \<or> x = y \<and> v < w))"
  using Version_bytes_less by (simp del: mkey_bytes.simps)

text \<open>(C25) Key prefixes select what they stand for: for every kind of prefix, its bytes begin the bytes of a key
  exactly when the key is of the kind that the prefix names and has the fields that the prefix gives.  The
  bytes of \<open>KeyPrefix::Version\<close> with the terminator chopped off, as prefix scans use them, begin exactly the
  versions of the keys that start with the given bytes.\<close>

theorem mprefix_selects:
  "\<exists>b p q. mkey_encode x = Ok b \<and> mprefix_encode P = Ok p \<and> mprefix_encode (P_Version y) = Ok q \<and>
     (prefix p b \<longleftrightarrow> (case P of
         P_NextVersion \<Rightarrow> x = NextVersion
       | P_TxnActive \<Rightarrow> (\<exists>v. x = TxnActive v)
       | P_TxnActiveSnapshot \<Rightarrow> (\<exists>v. x = TxnActiveSnapshot v)
       | P_TxnWrite v \<Rightarrow> (\<exists>k. x = TxnWrite v k)
       | P_Version k \<Rightarrow> (\<exists>v. x = Version k v)
       | P_Unversioned \<Rightarrow> (\<exists>k. x = Unversioned k))) \<and>
     (prefix (take (length q - 2) q) b \<longleftrightarrow> (\<exists>k v. x = Version k v \<and> prefix y k))"
  using enc_bytes_truncated [of y] by (cases P) (simp_all add: prefix_exact del: mkey_bytes.simps)

end
