(* ===== verification/Mvcc.thy ===== *)
theory Mvcc
  imports Mvcc_Key
begin

text \<open>
  The transactional layer of \<^verbatim>\<open>src/src/storage/mvcc.rs\<close>, generic in the storage engine as the
  source is: an operation takes the engine's methods \<open>E\<close> and runs on the engine's state, which the
  mutex of the source makes every operation's own while it runs.  A \<^verbatim>\<open>Transaction\<close> is its
  \<^verbatim>\<open>TransactionState\<close>, since the engine handle is shared.

  \<^verbatim>\<open>bincode\<close> is third-party code: the three encodings used here are a parameter \<open>B\<close>, a pair of
  functions each, and \<open>bincode_ok\<close> states the documented round trip.
\<close>

section \<open>Parameters and state\<close>

record bincode =
  ser_u64 :: "u64 \<Rightarrow> bytes result"
  de_u64 :: "bytes \<Rightarrow> u64 result"
  ser_set :: "u64 set \<Rightarrow> bytes result"
  de_set :: "bytes \<Rightarrow> u64 set result"
  ser_val :: "bytes option \<Rightarrow> bytes result"
  de_val :: "bytes \<Rightarrow> bytes option result"

definition bincode_ok :: "bincode \<Rightarrow> bool" where
  "bincode_ok B \<longleftrightarrow>
     (\<forall>n. \<exists>b. ser_u64 B n = Ok b \<and> de_u64 B b = Ok n) \<and>
     (\<forall>s. \<exists>b. ser_set B s = Ok b \<and> de_set B b = Ok s) \<and>
     (\<forall>x. \<exists>b. ser_val B x = Ok b \<and> de_val B b = Ok x)"

record transaction_state =
  ts_version :: version
  ts_read_only :: bool
  ts_active :: "version set"

record mvcc_status =
  ms_versions :: u64
  ms_active_txns :: nat
  ms_storage :: engine_status

definition is_visible :: "transaction_state \<Rightarrow> version \<Rightarrow> bool" where
  "is_visible st v =
     (if v \<in> ts_active st then False
      else if ts_read_only st then v < ts_version st
      else v \<le> ts_version st)"

section \<open>Beginning, committing and rolling back\<close>

definition get_next_version :: "'e engine \<Rightarrow> bincode \<Rightarrow> ('e, version) op" where
  "get_next_version E B =
     bind_op (lift_op (mkey_encode NextVersion)) (\<lambda>k.
     bind_op (e_get E k) (\<lambda>r. case r of
       Some v \<Rightarrow> lift_op (de_u64 B v)
     | None \<Rightarrow> return_op 1))"

fun scan_active_loop :: "(bytes \<times> bytes) result list \<Rightarrow> version set \<Rightarrow> version set result" where
  "scan_active_loop [] active = Ok active"
| "scan_active_loop (item # scan) active =
     bind_r item (\<lambda>(key, _). bind_r (mkey_decode key) (\<lambda>k. case k of
        TxnActive v \<Rightarrow> scan_active_loop scan (insert v active)
      | _ \<Rightarrow> Err (Internal ''Expected TxnActive key, got {:?}'')))"

definition scan_active :: "'e engine \<Rightarrow> ('e, version set) op" where
  "scan_active E =
     bind_op (lift_op (mprefix_encode P_TxnActive)) (\<lambda>p.
     bind_op (scan_prefix E p) (\<lambda>scan. lift_op (scan_active_loop scan {})))"

definition txn_begin :: "'e engine \<Rightarrow> bincode \<Rightarrow> ('e, transaction_state) op" where
  "txn_begin E B =
     bind_op (get_next_version E B) (\<lambda>version.
     bind_op (lift_op (mkey_encode NextVersion)) (\<lambda>k.
     bind_op (lift_op (add_u64 version 1)) (\<lambda>next.
     bind_op (lift_op (ser_u64 B next)) (\<lambda>v.
     bind_op (e_set E k v) (\<lambda>_.
     bind_op (scan_active E) (\<lambda>active.
     bind_op (if active \<noteq> {} then
                bind_op (lift_op (mkey_encode (TxnActiveSnapshot version))) (\<lambda>k.
                bind_op (lift_op (ser_set B active)) (\<lambda>v. e_set E k v))
              else return_op ()) (\<lambda>_.
     bind_op (lift_op (mkey_encode (TxnActive version))) (\<lambda>k.
     bind_op (e_set E k []) (\<lambda>_.
     return_op \<lparr>ts_version = version, ts_read_only = False, ts_active = active\<rparr>)))))))))"

definition txn_begin_read_only ::
    "'e engine \<Rightarrow> bincode \<Rightarrow> version option \<Rightarrow> ('e, transaction_state) op" where
  "txn_begin_read_only E B as_of =
     bind_op (get_next_version E B) (\<lambda>version. case as_of of
       Some as_of \<Rightarrow>
         if version \<le> as_of then lift_op (Err (Value ''Version {} does not exist''))
         else
           bind_op (lift_op (mkey_encode (TxnActiveSnapshot as_of))) (\<lambda>k.
           bind_op (e_get E k) (\<lambda>r.
           bind_op (case r of Some value \<Rightarrow> lift_op (de_set B value) | None \<Rightarrow> return_op {}) (\<lambda>active.
           return_op \<lparr>ts_version = as_of, ts_read_only = True, ts_active = active\<rparr>)))
     | None \<Rightarrow>
         bind_op (scan_active E) (\<lambda>active.
         return_op \<lparr>ts_version = version, ts_read_only = True, ts_active = active\<rparr>))"

definition txn_resume :: "'e engine \<Rightarrow> transaction_state \<Rightarrow> ('e, transaction_state) op" where
  "txn_resume E s =
     (if \<not> ts_read_only s then
        bind_op (lift_op (mkey_encode (TxnActive (ts_version s)))) (\<lambda>k.
        bind_op (e_get E k) (\<lambda>r.
          if r = None then lift_op (Err (Internal ''No active transaction at version {}''))
          else return_op s))
      else return_op s)"

definition txn_commit :: "'e engine \<Rightarrow> transaction_state \<Rightarrow> ('e, unit) op" where
  "txn_commit E st =
     (if ts_read_only st then return_op ()
      else
        bind_op (lift_op (mprefix_encode (P_TxnWrite (ts_version st)))) (\<lambda>p.
        bind_op (scan_prefix E p) (\<lambda>scan.
        bind_op (lift_op (collect_results (map (map_result fst) scan))) (\<lambda>remove.
        bind_op (for_each (e_delete E) remove) (\<lambda>_.
        bind_op (lift_op (mkey_encode (TxnActive (ts_version st)))) (\<lambda>k.
        e_delete E k))))))"

fun rollback_loop :: "version \<Rightarrow> (bytes \<times> bytes) result list \<Rightarrow> bytes list \<Rightarrow> bytes list result" where
  "rollback_loop version [] rollback = Ok rollback"
| "rollback_loop version (item # scan) rollback =
     bind_r item (\<lambda>(key, _). bind_r (mkey_decode key) (\<lambda>k. case k of
        TxnWrite _ ukey \<Rightarrow>
          bind_r (mkey_encode (Version ukey version)) (\<lambda>vkey.
            rollback_loop version scan (rollback @ [vkey, key]))
      | _ \<Rightarrow> Err (Internal ''Expected TxnWrite, got {:?}'')))"

definition txn_rollback :: "'e engine \<Rightarrow> transaction_state \<Rightarrow> ('e, unit) op" where
  "txn_rollback E st =
     (if ts_read_only st then return_op ()
      else
        bind_op (lift_op (mprefix_encode (P_TxnWrite (ts_version st)))) (\<lambda>p.
        bind_op (scan_prefix E p) (\<lambda>scan.
        bind_op (lift_op (rollback_loop (ts_version st) scan [])) (\<lambda>rollback.
        bind_op (for_each (e_delete E) rollback) (\<lambda>_.
        bind_op (lift_op (mkey_encode (TxnActive (ts_version st)))) (\<lambda>k.
        e_delete E k))))))"

section \<open>Reading and writing\<close>

definition conflict_check :: "transaction_state \<Rightarrow> (bytes \<times> bytes) result list \<Rightarrow> unit result" where
  "conflict_check st scan =
     (if scan = [] then Ok ()
      else bind_r (last scan) (\<lambda>(key, _). bind_r (mkey_decode key) (\<lambda>k. case k of
             Version _ version \<Rightarrow> if \<not> is_visible st version then Err Serialization else Ok ()
           | _ \<Rightarrow> Err (Internal ''Expected Key::Version got {:?}''))))"

definition txn_write_version ::
    "'e engine \<Rightarrow> bincode \<Rightarrow> transaction_state \<Rightarrow> bytes \<Rightarrow> bytes option \<Rightarrow> ('e, unit) op" where
  "txn_write_version E B st key value =
     (if ts_read_only st then lift_op (Err ReadOnly)
      else
        bind_op (lift_op (add_u64 (ts_version st) 1)) (\<lambda>next.
        bind_op (lift_op (mkey_encode (Version key
          (if ts_active st = {} then next else Min (ts_active st))))) (\<lambda>from.
        bind_op (lift_op (mkey_encode (Version key (- 1)))) (\<lambda>to.
        bind_op (e_scan E (Included from, Included to)) (\<lambda>scan.
        bind_op (lift_op (conflict_check st scan)) (\<lambda>_.
        bind_op (lift_op (mkey_encode (TxnWrite (ts_version st) key))) (\<lambda>k.
        bind_op (e_set E k []) (\<lambda>_.
        bind_op (lift_op (mkey_encode (Version key (ts_version st)))) (\<lambda>k.
        bind_op (lift_op (ser_val B value)) (\<lambda>v.
        e_set E k v))))))))))"

definition txn_delete :: "'e engine \<Rightarrow> bincode \<Rightarrow> transaction_state \<Rightarrow> bytes \<Rightarrow> ('e, unit) op" where
  "txn_delete E B st key = txn_write_version E B st key None"

definition txn_set :: "'e engine \<Rightarrow> bincode \<Rightarrow> transaction_state \<Rightarrow> bytes \<Rightarrow> bytes \<Rightarrow> ('e, unit) op" where
  "txn_set E B st key value = txn_write_version E B st key (Some value)"

fun get_loop ::
    "bincode \<Rightarrow> transaction_state \<Rightarrow> (bytes \<times> bytes) result list \<Rightarrow> bytes option result" where
  "get_loop B st [] = Ok None"
| "get_loop B st (item # scan) =
     bind_r item (\<lambda>(key, value). bind_r (mkey_decode key) (\<lambda>k. case k of
        Version _ version \<Rightarrow>
          if is_visible st version then de_val B value else get_loop B st scan
      | _ \<Rightarrow> Err (Internal ''Expected Key::Version got {:?}'')))"

definition txn_get :: "'e engine \<Rightarrow> bincode \<Rightarrow> transaction_state \<Rightarrow> bytes \<Rightarrow> ('e, bytes option) op" where
  "txn_get E B st key =
     bind_op (lift_op (mkey_encode (Version key 0))) (\<lambda>from.
     bind_op (lift_op (mkey_encode (Version key (ts_version st)))) (\<lambda>to.
     bind_op (e_scan E (Included from, Included to)) (\<lambda>scan.
     lift_op (get_loop B st (rev scan)))))"

section \<open>Scans\<close>

datatype scan_type = Range "bytes bounds" | Prefix bytes

definition txn_scan :: "bytes bounds \<Rightarrow> scan_type result" where
  "txn_scan rng =
     bind_r (case fst rng of
         Excluded k \<Rightarrow> map_result Excluded (mkey_encode (Version k (- 1)))
       | Included k \<Rightarrow> map_result Included (mkey_encode (Version k 0))
       | Unbounded \<Rightarrow> map_result Included (mkey_encode (Version [] 0))) (\<lambda>start.
     bind_r (case snd rng of
         Excluded k \<Rightarrow> map_result Excluded (mkey_encode (Version k 0))
       | Included k \<Rightarrow> map_result Included (mkey_encode (Version k (- 1)))
       | Unbounded \<Rightarrow> map_result Excluded (mprefix_encode P_Unversioned)) (\<lambda>end.
     Ok (Range (start, end))))"

definition txn_scan_prefix :: "bytes \<Rightarrow> scan_type result" where
  "txn_scan_prefix pfx =
     bind_r (mprefix_encode (P_Version pfx)) (\<lambda>p. Ok (Prefix (take (length p - 2) p)))"

text \<open>The raw items the engine iterator still holds; both iterators take from either end.\<close>

type_synonym raw_items = "(bytes \<times> bytes) result list"
type_synonym version_item = "bytes \<times> version \<times> bytes"

definition decode_visible :: "transaction_state \<Rightarrow> bytes \<Rightarrow> (bytes \<times> version) option result" where
  "decode_visible txn key =
     bind_r (mkey_decode key) (\<lambda>k. case k of
       Version ukey version \<Rightarrow>
         if is_visible txn version then Ok (Some (ukey, version)) else Ok None
     | _ \<Rightarrow> Err (Internal ''Expected Key::Version got {:?}''))"

fun version_try_next :: "transaction_state \<Rightarrow> (raw_items, version_item option) op" where
  "version_try_next txn [] = (Ok None, [])"
| "version_try_next txn (item # inner) =
     (case bind_r item (\<lambda>(key, value). map_result (map_option (\<lambda>(k, v). (k, v, value)))
             (decode_visible txn key)) of
        Ok None \<Rightarrow> version_try_next txn inner
      | r \<Rightarrow> (r, inner))"

definition version_try_next_back :: "transaction_state \<Rightarrow> (raw_items, version_item option) op" where
  "version_try_next_back txn inner =
     (case version_try_next txn (rev inner) of (r, inner') \<Rightarrow> (r, rev inner'))"

fun transpose_result :: "'a option result \<Rightarrow> 'a result option" where
  "transpose_result (Ok None) = None"
| "transpose_result (Ok (Some a)) = Some (Ok a)"
| "transpose_result (Err e) = Some (Err e)"
| "transpose_result (Panic p) = Some (Panic p)"

text \<open>\<^verbatim>\<open>Peekable<VersionIterator>\<close> and the position \<^verbatim>\<open>last_back\<close>.  A peeked item is kept in front
  of the inner iterator; \<^verbatim>\<open>next_back\<close> returns it once the inner iterator has no more.\<close>

record scan_iterator =
  si_txn :: transaction_state
  si_inner :: raw_items
  si_peeked :: "version_item result option option"
  si_last_back :: "bytes option"

definition peekable_next :: "scan_iterator \<Rightarrow> version_item result option \<times> scan_iterator" where
  "peekable_next it = (case si_peeked it of
      Some item \<Rightarrow> (item, it\<lparr>si_peeked := None\<rparr>)
    | None \<Rightarrow> (case version_try_next (si_txn it) (si_inner it) of
        (r, inner) \<Rightarrow> (transpose_result r, it\<lparr>si_inner := inner\<rparr>)))"

definition peekable_peek :: "scan_iterator \<Rightarrow> version_item result option \<times> scan_iterator" where
  "peekable_peek it = (case si_peeked it of
      Some item \<Rightarrow> (item, it)
    | None \<Rightarrow> (case version_try_next (si_txn it) (si_inner it) of
        (r, inner) \<Rightarrow> (transpose_result r,
                       it\<lparr>si_inner := inner, si_peeked := Some (transpose_result r)\<rparr>)))"

definition peekable_next_back :: "scan_iterator \<Rightarrow> version_item result option \<times> scan_iterator" where
  "peekable_next_back it = (case si_peeked it of
      Some None \<Rightarrow> (None, it)
    | Some (Some item) \<Rightarrow> (case version_try_next_back (si_txn it) (si_inner it) of
        (r, inner) \<Rightarrow> (case transpose_result r of
            Some x \<Rightarrow> (Some x, it\<lparr>si_inner := inner\<rparr>)
          | None \<Rightarrow> (Some item, it\<lparr>si_inner := inner, si_peeked := Some None\<rparr>)))
    | None \<Rightarrow> (case version_try_next_back (si_txn it) (si_inner it) of
        (r, inner) \<Rightarrow> (transpose_result r, it\<lparr>si_inner := inner\<rparr>)))"

definition scan_new :: "transaction_state \<Rightarrow> raw_items \<Rightarrow> scan_iterator" where
  "scan_new txn inner = \<lparr>si_txn = txn, si_inner = inner, si_peeked = None, si_last_back = None\<rparr>"

definition items_left :: "scan_iterator \<Rightarrow> nat" where
  "items_left it = length (si_inner it) + (case si_peeked it of Some (Some _) \<Rightarrow> 1 | _ \<Rightarrow> 0)"

lemma items_left_last_back [simp]: "items_left (it\<lparr>si_last_back := k\<rparr>) = items_left it"
  by (simp add: items_left_def)

lemma version_try_next_shrinks:
  "version_try_next txn inner = (r, inner') \<Longrightarrow>
     length inner' \<le> length inner \<and> (r \<noteq> Ok None \<longrightarrow> length inner' < length inner)"
  by (induction txn inner arbitrary: r inner' rule: version_try_next.induct)
    (fastforce split: result.splits option.splits)+

lemma transpose_result_None [simp]: "transpose_result r = None \<longleftrightarrow> r = Ok None"
  by (cases r rule: transpose_result.cases) auto

lemma transpose_result_Some: "transpose_result r = Some x \<Longrightarrow> r \<noteq> Ok None"
  by auto

lemma peekable_next_shrinks:
  "peekable_next it = (Some x, it') \<Longrightarrow> items_left it' < items_left it"
  by (auto simp: peekable_next_def items_left_def
      dest!: version_try_next_shrinks transpose_result_Some split: option.splits prod.splits)

lemma peekable_peek_shrinks: "peekable_peek it = (x, it') \<Longrightarrow> items_left it' \<le> items_left it"
  by (auto simp: peekable_peek_def items_left_def
      dest!: version_try_next_shrinks transpose_result_Some split: option.splits prod.splits)

lemma peekable_next_back_shrinks:
  "peekable_next_back it = (Some x, it') \<Longrightarrow> items_left it' < items_left it"
  by (auto simp: peekable_next_back_def items_left_def version_try_next_back_def
      dest!: version_try_next_shrinks transpose_result_Some split: option.splits prod.splits)

text \<open>\<^verbatim>\<open>ScanIterator::try_next\<close> and \<^verbatim>\<open>try_next_back\<close>, loops that end because every turn takes an
  item from the inner iterator.\<close>

function scan_try_next :: "bincode \<Rightarrow> scan_iterator \<Rightarrow> (bytes \<times> bytes) option result \<times> scan_iterator" where
  "scan_try_next B it = (case peekable_next it of
      (None, it1) \<Rightarrow> (Ok None, it1)
    | (Some (Err e), it1) \<Rightarrow> (Err e, it1)
    | (Some (Panic p), it1) \<Rightarrow> (Panic p, it1)
    | (Some (Ok (key, version, value)), it1) \<Rightarrow> (case peekable_peek it1 of
          (Some (Err e), it2) \<Rightarrow> (Err e, it2)
        | (Some (Panic p), it2) \<Rightarrow> (Panic p, it2)
        | (peeked, it2) \<Rightarrow>
            if (case peeked of Some (Ok (nxt, _, _)) \<Rightarrow> nxt = key | _ \<Rightarrow> False) then scan_try_next B it2
            else (case de_val B value of
                Ok (Some value) \<Rightarrow> (Ok (Some (key, value)), it2)
              | Ok None \<Rightarrow> scan_try_next B it2
              | Err e \<Rightarrow> (Err e, it2)
              | Panic p \<Rightarrow> (Panic p, it2))))"
  by pat_completeness auto
termination
  by (relation "measure (\<lambda>(B, it). items_left it)")
    (auto dest!: sym [THEN peekable_next_shrinks] sym [THEN peekable_peek_shrinks])

function scan_try_next_back ::
    "bincode \<Rightarrow> scan_iterator \<Rightarrow> (bytes \<times> bytes) option result \<times> scan_iterator" where
  "scan_try_next_back B it = (case peekable_next_back it of
      (None, it1) \<Rightarrow> (Ok None, it1)
    | (Some (Err e), it1) \<Rightarrow> (Err e, it1)
    | (Some (Panic p), it1) \<Rightarrow> (Panic p, it1)
    | (Some (Ok (key, version, value)), it1) \<Rightarrow>
        if si_last_back it1 = Some key then scan_try_next_back B it1
        else (case de_val B value of
            Ok (Some value) \<Rightarrow> (Ok (Some (key, value)), it1\<lparr>si_last_back := Some key\<rparr>)
          | Ok None \<Rightarrow> scan_try_next_back B (it1\<lparr>si_last_back := Some key\<rparr>)
          | Err e \<Rightarrow> (Err e, it1\<lparr>si_last_back := Some key\<rparr>)
          | Panic p \<Rightarrow> (Panic p, it1\<lparr>si_last_back := Some key\<rparr>)))"
  by pat_completeness auto
termination
  by (relation "measure (\<lambda>(B, it). items_left it)")
    (auto dest!: sym [THEN peekable_next_back_shrinks])

declare scan_try_next.simps [simp del] scan_try_next_back.simps [simp del]

lemma scan_try_next_shrinks:
  "scan_try_next B it = (Ok (Some x), it') \<Longrightarrow> items_left it' < items_left it"
proof (induction "items_left it" arbitrary: it rule: less_induct)
  case less
  obtain r it1 where n: "peekable_next it = (r, it1)" by (cases "peekable_next it")
  obtain q it2 where p: "peekable_peek it1 = (q, it2)" by (cases "peekable_peek it1")
  note run = less.prems [unfolded scan_try_next.simps [of B it] n, simplified]
  show ?case
  proof (cases r)
    case None
    then show ?thesis using run by simp
  next
    case (Some y)
    then have "items_left it2 < items_left it"
      using n p peekable_next_shrinks peekable_peek_shrinks by (metis order_le_less_trans)
    moreover have "it' = it2 \<or> scan_try_next B it2 = (Ok (Some x), it')"
      using run Some by (auto simp: p split: result.splits option.splits if_splits)
    ultimately show ?thesis using less.hyps [of it2] by auto
  qed
qed

lemma scan_try_next_back_shrinks:
  "scan_try_next_back B it = (Ok (Some x), it') \<Longrightarrow> items_left it' < items_left it"
proof (induction "items_left it" arbitrary: it rule: less_induct)
  case less
  obtain r it1 where n: "peekable_next_back it = (r, it1)" by (cases "peekable_next_back it")
  note run = less.prems [unfolded scan_try_next_back.simps [of B it] n, simplified]
  show ?case
  proof (cases r)
    case None
    then show ?thesis using run by simp
  next
    case (Some y)
    then have lt: "items_left it1 < items_left it"
      using n peekable_next_back_shrinks by blast
    from run Some consider "items_left it' = items_left it1"
      | "scan_try_next_back B it1 = (Ok (Some x), it')"
      | key where "scan_try_next_back B (it1\<lparr>si_last_back := Some key\<rparr>) = (Ok (Some x), it')"
      by (auto split: result.splits option.splits if_splits)
    then show ?thesis
    proof cases
      case 3
      then show ?thesis using lt less.hyps [of "it1\<lparr>si_last_back := Some key\<rparr>"] by simp
    qed (use lt less.hyps [of it1] in auto)
  qed
qed

text \<open>\<^verbatim>\<open>collect\<close> on the iterator, forwards and on its \<^verbatim>\<open>rev()\<close>; it stops at the first error.\<close>

function collect_next :: "bincode \<Rightarrow> scan_iterator \<Rightarrow> (bytes \<times> bytes) list result" where
  "collect_next B it = (case scan_try_next B it of
      (Ok None, _) \<Rightarrow> Ok []
    | (Ok (Some x), it') \<Rightarrow> map_result (\<lambda>xs. x # xs) (collect_next B it')
    | (Err e, _) \<Rightarrow> Err e
    | (Panic p, _) \<Rightarrow> Panic p)"
  by pat_completeness auto
termination
  by (relation "measure (\<lambda>(B, it). items_left it)")
    (auto dest!: sym [THEN scan_try_next_shrinks])

function collect_next_back :: "bincode \<Rightarrow> scan_iterator \<Rightarrow> (bytes \<times> bytes) list result" where
  "collect_next_back B it = (case scan_try_next_back B it of
      (Ok None, _) \<Rightarrow> Ok []
    | (Ok (Some x), it') \<Rightarrow> map_result (\<lambda>xs. x # xs) (collect_next_back B it')
    | (Err e, _) \<Rightarrow> Err e
    | (Panic p, _) \<Rightarrow> Panic p)"
  by pat_completeness auto
termination
  by (relation "measure (\<lambda>(B, it). items_left it)")
    (auto dest!: sym [THEN scan_try_next_back_shrinks])

declare collect_next.simps [simp del] collect_next_back.simps [simp del]

definition scan_iter :: "'e engine \<Rightarrow> transaction_state \<Rightarrow> scan_type \<Rightarrow> ('e, scan_iterator) op" where
  "scan_iter E txn param =
     bind_op (case param of Range rng \<Rightarrow> e_scan E rng | Prefix pfx \<Rightarrow> scan_prefix E pfx) (\<lambda>inner.
     return_op (scan_new txn inner))"

definition scan_to_vec ::
    "'e engine \<Rightarrow> bincode \<Rightarrow> transaction_state \<Rightarrow> scan_type \<Rightarrow> ('e, (bytes \<times> bytes) list) op" where
  "scan_to_vec E B txn param =
     bind_op (scan_iter E txn param) (\<lambda>it. lift_op (collect_next B it))"

section \<open>The engine handle\<close>

definition mvcc_begin_as_of :: "'e engine \<Rightarrow> bincode \<Rightarrow> version \<Rightarrow> ('e, transaction_state) op" where
  "mvcc_begin_as_of E B version = txn_begin_read_only E B (Some version)"

definition mvcc_begin_read_only :: "'e engine \<Rightarrow> bincode \<Rightarrow> ('e, transaction_state) op" where
  "mvcc_begin_read_only E B = txn_begin_read_only E B None"

definition mvcc_get_unversioned :: "'e engine \<Rightarrow> bytes \<Rightarrow> ('e, bytes option) op" where
  "mvcc_get_unversioned E key =
     bind_op (lift_op (mkey_encode (Unversioned key))) (\<lambda>k. e_get E k)"

definition mvcc_set_unversioned :: "'e engine \<Rightarrow> bytes \<Rightarrow> bytes \<Rightarrow> ('e, unit) op" where
  "mvcc_set_unversioned E key value =
     bind_op (lift_op (mkey_encode (Unversioned key))) (\<lambda>k. e_set E k value)"

definition mvcc_engine_status :: "'e engine \<Rightarrow> bincode \<Rightarrow> ('e, mvcc_status) op" where
  "mvcc_engine_status E B =
     bind_op (lift_op (mkey_encode NextVersion)) (\<lambda>k.
     bind_op (e_get E k) (\<lambda>r.
     bind_op (lift_op (case r of
         Some v \<Rightarrow> bind_r (de_u64 B v) (\<lambda>n.
           if n = 0 then Panic ''attempt to subtract with overflow'' else Ok (n - 1))
       | None \<Rightarrow> Ok 0)) (\<lambda>versions.
     bind_op (lift_op (mprefix_encode P_TxnActive)) (\<lambda>p.
     bind_op (scan_prefix E p) (\<lambda>scan.
     bind_op (e_status E) (\<lambda>storage.
     return_op \<lparr>ms_versions = versions, ms_active_txns = length scan, ms_storage = storage\<rparr>))))))"

end
