(* ===== verification/Mvcc_Spec.thy ===== *)
theory Mvcc_Spec
  imports Mvcc
begin

text \<open>
  The abstract specification of the MVCC layer: what its keys mean, as a state of versions, active
  transactions and snapshots; the effect of every operation on it; and the invariant that every
  interleaving of transactions keeps.  The read of a transaction is its value at the greatest
  visible version.  Nothing here mentions encodings or an engine.
\<close>

section \<open>State and operations\<close>

record mvcc_abs =
  a_next :: version
  a_active :: "version set"
  a_snap :: "version \<Rightarrow> version set"
  a_writes :: "(version \<times> bytes) set"
  a_vers :: "bytes \<Rightarrow> version \<Rightarrow> bytes option option"
  a_unv :: "bytes \<Rightarrow> bytes option"

definition begin_state :: "mvcc_abs \<Rightarrow> transaction_state" where
  "begin_state a = \<lparr>ts_version = a_next a, ts_read_only = False, ts_active = a_active a\<rparr>"

definition a_begin :: "mvcc_abs \<Rightarrow> mvcc_abs" where
  "a_begin a = a\<lparr>
     a_next := a_next a + 1,
     a_snap := (if a_active a = {} then a_snap a else (a_snap a)(a_next a := a_active a)),
     a_active := insert (a_next a) (a_active a)\<rparr>"

definition read_only_state :: "mvcc_abs \<Rightarrow> transaction_state" where
  "read_only_state a = \<lparr>ts_version = a_next a, ts_read_only = True, ts_active = a_active a\<rparr>"

definition as_of_state :: "version \<Rightarrow> mvcc_abs \<Rightarrow> transaction_state" where
  "as_of_state v a = \<lparr>ts_version = v, ts_read_only = True, ts_active = a_snap a v\<rparr>"

definition conflict_from :: "transaction_state \<Rightarrow> version" where
  "conflict_from st = (if ts_active st = {} then ts_version st + 1 else Min (ts_active st))"

definition versions_from :: "version \<Rightarrow> bytes \<Rightarrow> mvcc_abs \<Rightarrow> version set" where
  "versions_from f k a = {v. f \<le> v \<and> a_vers a k v \<noteq> None}"

definition a_conflict :: "transaction_state \<Rightarrow> bytes \<Rightarrow> mvcc_abs \<Rightarrow> bool" where
  "a_conflict st k a \<longleftrightarrow> (let vs = versions_from (conflict_from st) k a in
     vs \<noteq> {} \<and> \<not> is_visible st (Max vs))"

definition a_write :: "transaction_state \<Rightarrow> bytes \<Rightarrow> bytes option \<Rightarrow> mvcc_abs \<Rightarrow> mvcc_abs" where
  "a_write st k x a = a\<lparr>
     a_writes := insert (ts_version st, k) (a_writes a),
     a_vers := (a_vers a)(k := (a_vers a k)(ts_version st \<mapsto> x))\<rparr>"

definition a_commit :: "transaction_state \<Rightarrow> mvcc_abs \<Rightarrow> mvcc_abs" where
  "a_commit st a = a\<lparr>
     a_writes := {w \<in> a_writes a. fst w \<noteq> ts_version st},
     a_active := a_active a - {ts_version st}\<rparr>"

definition a_rollback :: "transaction_state \<Rightarrow> mvcc_abs \<Rightarrow> mvcc_abs" where
  "a_rollback st a = a\<lparr>
     a_writes := {w \<in> a_writes a. fst w \<noteq> ts_version st},
     a_vers := (\<lambda>k v. if v = ts_version st \<and> (v, k) \<in> a_writes a then None else a_vers a k v),
     a_active := a_active a - {ts_version st}\<rparr>"

definition visible_versions :: "transaction_state \<Rightarrow> bytes \<Rightarrow> mvcc_abs \<Rightarrow> version set" where
  "visible_versions st k a = {v. is_visible st v \<and> a_vers a k v \<noteq> None}"

definition a_read :: "transaction_state \<Rightarrow> mvcc_abs \<Rightarrow> bytes \<Rightarrow> bytes option" where
  "a_read st a k = (let vs = visible_versions st k a in
     if vs = {} then None else the (a_vers a k (Max vs)))"

lemma a_write_simps [simp]:
  "a_next (a_write st k x a) = a_next a" "a_active (a_write st k x a) = a_active a"
  "a_snap (a_write st k x a) = a_snap a"
  by (simp_all add: a_write_def)

lemma a_commit_simps [simp]:
  "a_next (a_commit st a) = a_next a" "a_active (a_commit st a) = a_active a - {ts_version st}"
  "a_snap (a_commit st a) = a_snap a" "a_vers (a_commit st a) = a_vers a"
  by (simp_all add: a_commit_def)

lemma a_rollback_simps [simp]:
  "a_next (a_rollback st a) = a_next a" "a_active (a_rollback st a) = a_active a - {ts_version st}"
  "a_snap (a_rollback st a) = a_snap a"
  by (simp_all add: a_rollback_def)

lemma a_begin_simps [simp]:
  "a_next (a_begin a) = a_next a + 1" "a_active (a_begin a) = insert (a_next a) (a_active a)"
  "a_vers (a_begin a) = a_vers a" "a_writes (a_begin a) = a_writes a"
  by (simp_all add: a_begin_def)

lemma begin_state_simps [simp]:
  "ts_version (begin_state a) = a_next a" "\<not> ts_read_only (begin_state a)"
  "ts_active (begin_state a) = a_active a"
  by (simp_all add: begin_state_def)

section \<open>Interleavings\<close>

datatype event =
    Begin transaction_state
  | BeginReadOnly transaction_state
  | Write transaction_state bytes "bytes option"
  | Commit transaction_state
  | Rollback transaction_state
  | SetUnversioned bytes bytes
  | Rejected transaction_state
  | Forget transaction_state

fun ends :: "event \<Rightarrow> transaction_state set" where
  "ends (Commit st) = {st}"
| "ends (Rollback st) = {st}"
| "ends (Forget st) = {st}"
| "ends _ = {}"

fun acts :: "event \<Rightarrow> transaction_state set" where
  "acts (Write st _ _) = {st}"
| "acts ev = ends ev"

type_synonym a_config = "mvcc_abs \<times> transaction_state set"

inductive a_step :: "event \<Rightarrow> a_config \<Rightarrow> a_config \<Rightarrow> bool" where
  a_step_begin: "unat (a_next a) + 1 < 2 ^ 64 \<Longrightarrow>
     a_step (Begin (begin_state a)) (a, T) (a_begin a, insert (begin_state a) T)"
| a_step_read_only:
    "a_step (BeginReadOnly (read_only_state a)) (a, T) (a, insert (read_only_state a) T)"
| a_step_as_of: "v < a_next a \<Longrightarrow>
     a_step (BeginReadOnly (as_of_state v a)) (a, T) (a, insert (as_of_state v a) T)"
| a_step_write: "st \<in> T \<Longrightarrow> \<not> ts_read_only st \<Longrightarrow> \<not> a_conflict st k a \<Longrightarrow>
     a_step (Write st k x) (a, T) (a_write st k x a, T)"
| a_step_rejected: "a_step (Rejected st) c c"
| a_step_commit: "st \<in> T \<Longrightarrow> \<not> ts_read_only st \<Longrightarrow>
     a_step (Commit st) (a, T) (a_commit st a, T - {st})"
| a_step_rollback: "st \<in> T \<Longrightarrow> \<not> ts_read_only st \<Longrightarrow>
     a_step (Rollback st) (a, T) (a_rollback st a, T - {st})"
| a_step_end_read_only: "st \<in> T \<Longrightarrow> ts_read_only st \<Longrightarrow> ends ev = {st} \<Longrightarrow>
     a_step ev (a, T) (a, T - {st})"
| a_step_unversioned:
    "a_step (SetUnversioned k x) (a, T) (a\<lparr>a_unv := (a_unv a)(k \<mapsto> x)\<rparr>, T)"
| a_step_forget: "a_step (Forget st) (a, T) (a, T - {st})"

section \<open>The invariant\<close>

text \<open>A transaction is protected when no version that is active or still to come is visible to it,
  its own apart.\<close>

definition pending :: "mvcc_abs \<Rightarrow> version set" where
  "pending a = a_active a \<union> {v. a_next a \<le> v}"

definition own_version :: "transaction_state \<Rightarrow> version \<Rightarrow> bool" where
  "own_version st v \<longleftrightarrow> \<not> ts_read_only st \<and> v = ts_version st"

definition protected :: "transaction_state \<Rightarrow> mvcc_abs \<Rightarrow> bool" where
  "protected st a \<longleftrightarrow> (\<forall>v \<in> pending a. is_visible st v \<longrightarrow> own_version st v)"

definition open_ok :: "mvcc_abs \<Rightarrow> transaction_state \<Rightarrow> bool" where
  "open_ok a st \<longleftrightarrow> protected st a \<and>
     (\<not> ts_read_only st \<longrightarrow>
        ts_version st \<in> a_active a \<and> ts_active st = a_snap a (ts_version st))"

text \<open>The invariant of the stored state: active versions were handed out; a snapshot holds smaller
  versions only; a transaction that is active, or that a later snapshot holds, is in the snapshot of
  every transaction that began in between; write records are the writes of active
  transactions; and a version of a key was never written over one its transaction could not see.\<close>

definition a_inv :: "mvcc_abs \<Rightarrow> bool" where
  "a_inv a \<longleftrightarrow>
     0 < a_next a \<and>
     (\<forall>v \<in> a_active a. v < a_next a) \<and>
     (\<forall>v u. u \<in> a_snap a v \<longrightarrow> u < v \<and> v < a_next a) \<and>
     (\<forall>u v. u \<in> a_active a \<longrightarrow> u < v \<longrightarrow> v < a_next a \<longrightarrow> u \<in> a_snap a v) \<and>
     (\<forall>u v w. u \<in> a_snap a w \<longrightarrow> u < v \<longrightarrow> v < w \<longrightarrow> u \<in> a_snap a v) \<and>
     (\<forall>k v. a_vers a k v \<noteq> None \<longrightarrow> v < a_next a) \<and>
     (\<forall>k v. (v, k) \<in> a_writes a \<longleftrightarrow> v \<in> a_active a \<and> a_vers a k v \<noteq> None) \<and>
     (\<forall>k u v. a_vers a k u \<noteq> None \<longrightarrow> a_vers a k v \<noteq> None \<longrightarrow> u < v \<longrightarrow> u \<notin> a_snap a v)"

fun config_ok :: "a_config \<Rightarrow> bool" where
  "config_ok (a, T) \<longleftrightarrow> a_inv a \<and> (\<forall>st \<in> T. open_ok a st)"

lemma a_invD:
  assumes "a_inv a"
  shows "v \<in> a_active a \<Longrightarrow> v < a_next a"
    and "u \<in> a_snap a v \<Longrightarrow> u < v"
    and "u \<in> a_snap a v \<Longrightarrow> v < a_next a"
    and "u \<in> a_active a \<Longrightarrow> u < v \<Longrightarrow> v < a_next a \<Longrightarrow> u \<in> a_snap a v"
    and "u \<in> a_snap a w \<Longrightarrow> u < v \<Longrightarrow> v < w \<Longrightarrow> u \<in> a_snap a v"
    and "a_vers a k v \<noteq> None \<Longrightarrow> v < a_next a"
    and "(v, k) \<in> a_writes a \<longleftrightarrow> v \<in> a_active a \<and> a_vers a k v \<noteq> None"
    and "a_vers a k u \<noteq> None \<Longrightarrow> a_vers a k v \<noteq> None \<Longrightarrow> u < v \<Longrightarrow> u \<notin> a_snap a v"
    and "0 < a_next a"
  using assms unfolding a_inv_def by blast+

lemma a_inv_version: "a_inv a \<Longrightarrow> a_vers a k v = Some x \<Longrightarrow> v < a_next a"
  using a_invD(6) [of a k v] by simp

lemma next_succ: "unat (n :: u64) + 1 < 2 ^ 64 \<Longrightarrow> (v < n + 1 \<longleftrightarrow> v \<le> n) \<and> n < n + 1"
  using add_u64_one_less [of n "n + 1"] by (auto simp: add_u64_def)

lemma snap_begin:
  "a_inv a \<Longrightarrow> a_snap (a_begin a) v = (if v = a_next a then a_active a else a_snap a v)"
  using a_invD(3) [of a _ "a_next a"] by (auto simp: a_begin_def)

lemma pending_begin: "unat (a_next a) + 1 < 2 ^ 64 \<Longrightarrow> pending (a_begin a) = pending a"
proof -
  assume lt: "unat (a_next a) + 1 < 2 ^ 64"
  have "v < a_next a + 1 \<longleftrightarrow> v \<le> a_next a" for v
    using next_succ [OF lt] by blast
  then have "a_next a + 1 \<le> v \<longleftrightarrow> a_next a < v" for v
    by (metis not_le)
  then have eq: "{v. a_next a + 1 \<le> v} = {v. a_next a < v}" by simp
  show ?thesis unfolding pending_def a_begin_simps eq by (auto simp: order_le_less)
qed

lemma a_inv_begin:
  assumes inv: "a_inv a" and lt: "unat (a_next a) + 1 < 2 ^ 64"
  shows "a_inv (a_begin a)"
proof -
  note D = a_invD [OF inv] and S = snap_begin [OF inv]
  have less: "v < a_next a + 1 \<longleftrightarrow> v \<le> a_next a" for v
    using next_succ [OF lt] by blast
  show ?thesis
    unfolding a_inv_def a_begin_simps S less
  proof (intro conjI allI impI ballI)
    show "0 \<le> a_next a" by simp
    fix v assume "v \<in> insert (a_next a) (a_active a)"
    then show "v \<le> a_next a" using D(1) by force
  next
    fix v u assume "u \<in> (if v = a_next a then a_active a else a_snap a v)"
    then show "u < v" "v \<le> a_next a" using D(1,2,3) by (auto split: if_splits simp: less_imp_le)
  next
    fix u v assume "u \<in> insert (a_next a) (a_active a)" "u < v" "v \<le> a_next a"
    then show "u \<in> (if v = a_next a then a_active a else a_snap a v)" using D(4) by auto
  next
    fix u v w assume uvw: "u \<in> (if w = a_next a then a_active a else a_snap a w)" "u < v" "v < w"
    then have "w \<le> a_next a" using D(3) [of u w] by (auto split: if_splits)
    with uvw have "v < a_next a" by simp
    with uvw have "u \<in> a_snap a v" using D(4) [of u v] D(5) [of u w v] by (auto split: if_splits)
    with \<open>v < a_next a\<close> show "u \<in> (if v = a_next a then a_active a else a_snap a v)" by auto
  next
    fix k v assume "a_vers a k v \<noteq> None"
    then show "v \<le> a_next a" using D(6) by (simp add: less_imp_le)
  next
    fix k v show "(v, k) \<in> a_writes a \<longleftrightarrow> v \<in> insert (a_next a) (a_active a) \<and> a_vers a k v \<noteq> None"
      using D(6,7) by blast
  next
    fix k u v assume "a_vers a k u \<noteq> None" "a_vers a k v \<noteq> None" "u < v"
    then show "u \<notin> (if v = a_next a then a_active a else a_snap a v)" using D(6,8) by auto
  qed
qed

lemma a_inv_shrink:
  assumes inv: "a_inv a" and same: "a_next a' = a_next a" "a_snap a' = a_snap a"
    and sub: "a_active a' \<subseteq> a_active a" "\<And>k v. a_vers a' k v \<noteq> None \<Longrightarrow> a_vers a k v \<noteq> None"
    and writes: "\<And>k v. (v, k) \<in> a_writes a' \<longleftrightarrow> v \<in> a_active a' \<and> a_vers a' k v \<noteq> None"
  shows "a_inv a'"
  unfolding a_inv_def same
proof (intro conjI allI impI ballI)
  fix k v assume "a_vers a' k v \<noteq> None"
  then show "v < a_next a" using a_invD(6) [OF inv] sub(2) by blast
next
  fix k u v assume "a_vers a' k u \<noteq> None" "a_vers a' k v \<noteq> None" "u < v"
  then show "u \<notin> a_snap a v" using a_invD(8) [OF inv] sub(2) by blast
qed (use sub(1) in \<open>auto simp: writes dest: a_invD(1,2,3) [OF inv] intro: a_invD(4,5,9) [OF inv]\<close>)

lemma a_inv_commit: "a_inv a \<Longrightarrow> a_inv (a_commit st a)"
  by (rule a_inv_shrink [of a]) (auto simp: a_commit_def a_invD(7))

lemma a_inv_rollback: "a_inv a \<Longrightarrow> a_inv (a_rollback st a)"
  by (rule a_inv_shrink [of a]) (auto simp: a_rollback_def a_invD(7) split: if_splits)

section \<open>Write conflicts\<close>

lemma finite_versions [simp]: "finite (versions_from f k a)" "finite (visible_versions st k a)"
  by (rule finite_subset [OF subset_UNIV], simp)+

lemma conflict_from_le:
  assumes "a_inv a" "open_ok a st" "\<not> ts_read_only st"
  shows "u \<in> ts_active st \<Longrightarrow> conflict_from st \<le> u"
    and "ts_version st < v \<Longrightarrow> conflict_from st \<le> v"
proof -
  show "u \<in> ts_active st \<Longrightarrow> conflict_from st \<le> u" by (auto simp: conflict_from_def)
  assume v: "ts_version st < v"
  show "conflict_from st \<le> v"
  proof (cases "ts_active st = {}")
    case True
    have "unat (ts_version st) + 1 < 2 ^ 64"
      using v u64_bound [of v] by (simp add: word_less_nat_alt)
    then have "\<not> v < ts_version st + 1" using v next_succ by fastforce
    then show ?thesis using True by (simp add: conflict_from_def)
  next
    case False
    then obtain u where "u \<in> ts_active st" by blast
    moreover from this have "u < ts_version st"
      using assms a_invD(2) by (auto simp: open_ok_def)
    ultimately show ?thesis using v False by (auto simp: conflict_from_def intro: order_trans [OF Min_le])
  qed
qed

lemma conflict_iff:
  assumes inv: "a_inv a" and st: "open_ok a st" "\<not> ts_read_only st"
  shows "a_conflict st k a \<longleftrightarrow> (\<exists>v. a_vers a k v \<noteq> None \<and> \<not> is_visible st v)"
proof
  let ?vs = "versions_from (conflict_from st) k a"
  assume "a_conflict st k a"
  then have "?vs \<noteq> {}" "\<not> is_visible st (Max ?vs)" by (simp_all add: a_conflict_def Let_def)
  moreover then have "Max ?vs \<in> ?vs" by (intro Max_in) simp_all
  ultimately show "\<exists>v. a_vers a k v \<noteq> None \<and> \<not> is_visible st v" by (auto simp: versions_from_def)
next
  let ?vs = "versions_from (conflict_from st) k a"
  assume "\<exists>v. a_vers a k v \<noteq> None \<and> \<not> is_visible st v"
  then obtain u where u: "a_vers a k u \<noteq> None" "\<not> is_visible st u" by blast
  then have u_cases: "u \<in> ts_active st \<or> ts_version st < u"
    using st(2) by (auto simp: is_visible_def split: if_splits)
  then have "u \<in> ?vs"
    using u conflict_from_le [OF inv st] by (auto simp: versions_from_def)
  then have max: "Max ?vs \<in> ?vs" "u \<le> Max ?vs" by (auto intro: Max_in Max_ge)
  have "\<not> is_visible st (Max ?vs)"
  proof
    assume vis: "is_visible st (Max ?vs)"
    then have le: "Max ?vs \<le> ts_version st" "Max ?vs \<notin> ts_active st"
      using st(2) by (auto simp: is_visible_def split: if_splits)
    with u_cases max have act: "u \<in> ts_active st" by auto
    with le max have "u < Max ?vs" by (metis order_le_less)
    moreover have "u \<in> a_snap a (Max ?vs)"
    proof (cases "Max ?vs = ts_version st")
      case True
      then show ?thesis using act st by (simp add: open_ok_def)
    next
      case False
      with le \<open>u < Max ?vs\<close> act st show ?thesis
        using a_invD(5) [OF inv, of u "ts_version st" "Max ?vs"] by (auto simp: open_ok_def)
    qed
    ultimately show False
      using a_invD(8) [OF inv u(1), of "Max ?vs"] max by (auto simp: versions_from_def)
  qed
  with \<open>u \<in> ?vs\<close> show "a_conflict st k a" by (auto simp: a_conflict_def Let_def)
qed

lemma no_conflict_newest:
  assumes "a_inv a" "open_ok a st" "\<not> ts_read_only st" "\<not> a_conflict st k a" "a_vers a k v \<noteq> None"
  shows "v \<le> ts_version st" and "v \<notin> ts_active st"
proof -
  have "is_visible st v" using assms conflict_iff by blast
  then show "v \<le> ts_version st" "v \<notin> ts_active st"
    using assms(3) by (auto simp: is_visible_def split: if_splits)
qed

lemma a_inv_write:
  assumes inv: "a_inv a" and st: "open_ok a st" "\<not> ts_read_only st" and nc: "\<not> a_conflict st k a"
  shows "a_inv (a_write st k x a)"
proof -
  note D = a_invD [OF inv] and N = no_conflict_newest [OF inv st nc]
  let ?w = "ts_version st"
  have w: "?w \<in> a_active a" "ts_active st = a_snap a ?w" using st by (simp_all add: open_ok_def)
  have vers: "a_vers (a_write st k x a) l v \<noteq> None \<longleftrightarrow> a_vers a l v \<noteq> None \<or> l = k \<and> v = ?w" for l v
    by (auto simp: a_write_def)
  show ?thesis
    unfolding a_inv_def a_write_simps vers
  proof (intro conjI allI impI ballI)
    fix l v show "(v, l) \<in> a_writes (a_write st k x a) \<longleftrightarrow>
        v \<in> a_active a \<and> (a_vers a l v \<noteq> None \<or> l = k \<and> v = ?w)"
      using D(7) w(1) by (auto simp: a_write_def)
  next
    fix l u v
    assume "a_vers a l u \<noteq> None \<or> l = k \<and> u = ?w" "a_vers a l v \<noteq> None \<or> l = k \<and> v = ?w" "u < v"
    then show "u \<notin> a_snap a v"
      using D(8) [of l u v] N [of u] N [of v] w(2) by auto
  qed (use D(1-6,9) w(1) in blast)+
qed

section \<open>Every interleaving keeps the invariant\<close>

lemma protected_mono: "pending a' \<subseteq> pending a \<Longrightarrow> protected st a \<Longrightarrow> protected st a'"
  unfolding protected_def by blast

lemma protected_begin: "a_inv a \<Longrightarrow> protected (begin_state a) a"
  by (auto simp: protected_def pending_def begin_state_def is_visible_def own_version_def)

lemma protected_read_only: "protected (read_only_state a) a"
  by (auto simp: protected_def pending_def read_only_state_def is_visible_def)

lemma protected_as_of: "a_inv a \<Longrightarrow> v < a_next a \<Longrightarrow> protected (as_of_state v a) a"
  using a_invD(4) [of a _ v] by (auto simp: protected_def pending_def as_of_state_def is_visible_def)

lemma pending_simps [simp]:
  "pending (a_write st k x a) = pending a"
  "pending (a\<lparr>a_unv := f\<rparr>) = pending a"
  "pending (a_commit st a) \<subseteq> pending a"
  "pending (a_rollback st a) \<subseteq> pending a"
  by (auto simp: pending_def a_write_def a_commit_def a_rollback_def)

lemma same_version_same_txn:
  assumes "open_ok a st" "open_ok a st'" "\<not> ts_read_only st" "\<not> ts_read_only st'"
    "ts_version st = ts_version st'"
  shows "st = st'"
  using assms by (simp add: open_ok_def)

lemma open_ok_begin:
  assumes inv: "a_inv a" and lt: "unat (a_next a) + 1 < 2 ^ 64" and ok: "open_ok a st"
  shows "open_ok (a_begin a) st"
proof -
  have "protected st (a_begin a)"
    using ok protected_mono [of "a_begin a" a st] pending_begin [OF lt] by (simp add: open_ok_def)
  with ok a_invD(1) [OF inv, of "ts_version st"] show ?thesis
    by (auto simp: open_ok_def snap_begin [OF inv])
qed

lemma open_ok_new:
  assumes inv: "a_inv a" and lt: "unat (a_next a) + 1 < 2 ^ 64"
  shows "open_ok (a_begin a) (begin_state a)"
proof -
  have "protected (begin_state a) (a_begin a)"
    by (rule protected_mono [OF _ protected_begin [OF inv]]) (simp add: pending_begin [OF lt])
  then show ?thesis by (simp add: open_ok_def snap_begin [OF inv])
qed

lemma open_ok_end:
  assumes "open_ok a st" "open_ok a st'" "\<not> ts_read_only st" "st' \<noteq> st"
  shows "open_ok (a_commit st a) st'" and "open_ok (a_rollback st a) st'"
proof -
  have "\<not> ts_read_only st' \<Longrightarrow> ts_version st' \<noteq> ts_version st"
    using same_version_same_txn [OF assms(2,1) _ assms(3)] assms(4) by blast
  moreover have "protected st' (a_commit st a)" "protected st' (a_rollback st a)"
    using assms(2) by (auto simp: open_ok_def intro: protected_mono [OF pending_simps(3)]
        protected_mono [OF pending_simps(4)])
  ultimately show "open_ok (a_commit st a) st'" "open_ok (a_rollback st a) st'"
    using assms(2) by (auto simp: open_ok_def)
qed

lemma open_ok_write: "open_ok (a_write st k x a) st' = open_ok a st'"
  by (simp add: open_ok_def protected_def)

lemma config_ok_step: "a_step ev c c' \<Longrightarrow> config_ok c \<Longrightarrow> config_ok c'"
proof (induction rule: a_step.induct)
  case (a_step_begin a T)
  then show ?case using a_inv_begin open_ok_begin open_ok_new by simp
next
  case (a_step_read_only a T)
  have "open_ok a (read_only_state a)"
    using protected_read_only by (auto simp: open_ok_def read_only_state_def)
  with a_step_read_only show ?case by simp
next
  case (a_step_as_of v a T)
  then have "open_ok a (as_of_state v a)"
    using protected_as_of by (auto simp: open_ok_def as_of_state_def)
  with a_step_as_of show ?case by simp
next
  case (a_step_write st T k a x)
  then show ?case using a_inv_write by (simp add: open_ok_write)
next
  case (a_step_commit st T a)
  then show ?case using a_inv_commit open_ok_end(1) [of a st] by simp
next
  case (a_step_rollback st T a)
  then show ?case using a_inv_rollback open_ok_end(2) [of a st] by simp
next
  case (a_step_unversioned k x a T)
  have "a_inv (a\<lparr>a_unv := f\<rparr>) = a_inv a" "open_ok (a\<lparr>a_unv := f\<rparr>) st = open_ok a st" for f st
    by (simp_all add: a_inv_def open_ok_def protected_def)
  with a_step_unversioned show ?case by simp
qed auto

lemma protected_step:
  assumes "a_step ev (a, T) (a', T')"
  shows "protected st a \<Longrightarrow> protected st a'"
proof (rule protected_mono)
  show "pending a' \<subseteq> pending a"
    using assms by (cases rule: a_step.cases) (simp_all add: pending_begin)
qed

section \<open>What a transaction reads\<close>

lemma a_read_cong:
  assumes "\<And>v. is_visible st v \<Longrightarrow> a_vers a k v = a_vers a' k v"
  shows "a_read st a k = a_read st a' k"
proof -
  have vs: "visible_versions st k a = visible_versions st k a'"
    using assms by (auto simp: visible_versions_def)
  show ?thesis
  proof (cases "visible_versions st k a' = {}")
    case True
    then show ?thesis by (simp add: a_read_def vs)
  next
    case False
    then have "Max (visible_versions st k a') \<in> visible_versions st k a'" by (intro Max_in) simp_all
    then have "is_visible st (Max (visible_versions st k a'))" by (simp add: visible_versions_def)
    then show ?thesis using assms by (simp add: a_read_def vs Let_def)
  qed
qed

text \<open>A step of another transaction changes only versions that a protected reader cannot see.\<close>

lemma a_read_stable:
  assumes step: "a_step ev (a, T) (a', T')" and ok: "config_ok (a, T)" and prot: "protected st a"
    and other: "\<And>st'. st' \<in> T \<Longrightarrow> st' \<in> acts ev \<Longrightarrow> \<not> ts_read_only st' \<Longrightarrow>
      \<not> own_version st (ts_version st')"
  shows "a_read st a' k = a_read st a k"
proof (rule a_read_cong)
  fix v assume vis: "is_visible st v"
  have hidden: "v \<noteq> ts_version st'" if "st' \<in> T" "\<not> ts_read_only st'" "st' \<in> acts ev" for st'
    using that ok prot vis other [of st'] by (auto simp: protected_def pending_def open_ok_def)
  show "a_vers a' k v = a_vers a k v"
    using step
  proof (cases rule: a_step.cases)
    case (a_step_write st' k' x)
    then show ?thesis using hidden [of st'] by (simp add: a_write_def)
  next
    case (a_step_rollback st')
    then show ?thesis using hidden [of st'] by (simp add: a_rollback_def)
  qed simp_all
qed


text \<open>So a transaction that stays open reads the same after every step that is not its own.\<close>

lemma a_read_open:
  assumes step: "a_step ev (a, T) (a', T')" and ok: "config_ok (a, T)" and st: "st \<in> T" "st \<notin> acts ev"
  shows "a_read st a' k = a_read st a k" and "st \<in> T'"
proof -
  have open_st: "open_ok a st" using ok st by simp
  show "a_read st a' k = a_read st a k"
  proof (rule a_read_stable [OF step ok])
    show "protected st a" using open_st by (simp add: open_ok_def)
    fix st' assume st': "st' \<in> T" "st' \<in> acts ev" "\<not> ts_read_only st'"
    then have "open_ok a st'" using ok by simp
    with open_st st' st show "\<not> own_version st (ts_version st')"
      using same_version_same_txn [of a st st'] by (auto simp: own_version_def)
  qed
  show "st \<in> T'"
    using step st by (cases rule: a_step.cases) (auto elim: ends.elims)
qed

section \<open>Time travel and commits\<close>

lemma snap_stable:
  assumes "a_step ev (a, T) (a', T')" "a_inv a" "v < a_next a"
  shows "a_snap a' v = a_snap a v" and "v < a_next a'"
proof -
  have "a_snap a' v = a_snap a v \<and> v < a_next a'"
    using assms(1)
  proof (cases rule: a_step.cases)
    case a_step_begin
    then show ?thesis
      using assms(3) next_succ [of "a_next a" v] by (auto simp: snap_begin [OF assms(2)])
  qed (use assms(3) in auto)
  then show "a_snap a' v = a_snap a v" "v < a_next a'" by auto
qed

text \<open>A past version reads the same whatever happens later.\<close>

lemma as_of_stable:
  assumes step: "a_step ev (a, T) (a', T')" and ok: "config_ok (a, T)" and v: "v < a_next a"
  shows "a_read (as_of_state v a') a' k = a_read (as_of_state v a) a k"
proof -
  have inv: "a_inv a" using ok by simp
  have same: "as_of_state v a' = as_of_state v a"
    using snap_stable(1) [OF step inv v] by (simp add: as_of_state_def)
  have "a_read (as_of_state v a) a' k = a_read (as_of_state v a) a k"
    by (rule a_read_stable [OF step ok protected_as_of [OF inv v]])
      (simp add: own_version_def as_of_state_def)
  then show ?thesis by (simp only: same)
qed

text \<open>A new transaction reads what a time-travel query at its version reads.\<close>

lemma begin_reads_as_of:
  assumes "a_inv a"
  shows "a_read (begin_state a) (a_begin a) k = a_read (as_of_state (a_next a) (a_begin a)) (a_begin a) k"
proof -
  have "visible_versions (begin_state a) k (a_begin a) =
      visible_versions (as_of_state (a_next a) (a_begin a)) k (a_begin a)"
    by (auto simp: visible_versions_def is_visible_def as_of_state_def snap_begin [OF assms]
        dest: a_inv_version [OF assms])
  then show ?thesis by (simp add: a_read_def)
qed

lemma a_read_own_write:
  assumes "\<not> ts_read_only st" "ts_version st \<notin> ts_active st"
  shows "a_read st (a_write st k x a) k = x"
proof -
  let ?a = "a_write st k x a"
  have own: "ts_version st \<in> visible_versions st k ?a"
    using assms by (simp add: visible_versions_def is_visible_def a_write_def)
  then have "Max (visible_versions st k ?a) = ts_version st"
    using assms(1)
    by (intro Max_eqI) (auto simp: visible_versions_def is_visible_def split: if_splits)
  with own show ?thesis by (auto simp: a_read_def a_write_def Let_def)
qed

text \<open>The newest version of a key that an active transaction has written is its own.\<close>

lemma own_write_newest:
  assumes "a_inv a" "v \<in> a_active a" "a_vers a k v \<noteq> None" "a_vers a k u \<noteq> None"
  shows "u \<le> v"
  using a_invD(4) [OF assms(1,2), of u] a_invD(6) [OF assms(1,4)] a_invD(8) [OF assms(1,3,4)]
  by (auto simp: not_less [symmetric])

lemma a_read_newest:
  assumes "is_visible st v" "a_vers a k v = Some x" "\<And>u. a_vers a k u \<noteq> None \<Longrightarrow> u \<le> v"
  shows "a_read st a k = x"
proof -
  have v: "v \<in> visible_versions st k a" using assms by (simp add: visible_versions_def)
  then have "Max (visible_versions st k a) = v"
    using assms(3) by (intro Max_eqI) (auto simp: visible_versions_def)
  with v assms(2) show ?thesis by (auto simp: a_read_def Let_def)
qed

lemma commit_then_begin_reads:
  assumes ok: "a_inv a" "open_ok a st" "\<not> ts_read_only st" and w: "(ts_version st, k) \<in> a_writes a"
    and b: "b = a_commit st a"
  shows "a_read (begin_state b) (a_begin b) k = a_read st a k"
proof -
  let ?v = "ts_version st"
  have act: "?v \<in> a_active a" "ts_active st = a_snap a ?v" using ok by (simp_all add: open_ok_def)
  obtain x where x: "a_vers a k ?v = Some x" using w a_invD(7) [OF ok(1)] by blast
  then have newest: "u \<le> ?v" if "a_vers a k u \<noteq> None" for u
    using own_write_newest [OF ok(1) act(1) _ that] by simp
  have "?v \<notin> ts_active st" using act(2) a_invD(2) [OF ok(1), of ?v ?v] by auto
  then have "a_read st a k = x"
    using ok(3) x newest by (intro a_read_newest [of _ ?v]) (simp_all add: is_visible_def)
  moreover have "a_read (begin_state b) (a_begin b) k = x"
    using x newest a_invD(1) [OF ok(1) act(1)]
    by (intro a_read_newest [of _ ?v]) (simp_all add: is_visible_def b)
  ultimately show ?thesis by simp
qed

end
