(* ===== verification/Typed_Store.thy ===== *)
theory Typed_Store
  imports Engine
begin

text \<open>
  A storage engine seen through a key type.  The MVCC layer and the Raft log both keep values of an
  enum of keys in a byte-string engine; \<open>enc\<close> is the encoding of such an enum.  \<open>kv_of\<close> is the
  partial map that an ordered list of pairs means, \<open>typed_by\<close> says that every stored key is an
  encoding.  The locale \<open>typed_engine\<close> lifts the laws of \<open>storage_engine\<close> to the typed keys once,
  for every client.
\<close>

definition kv_of :: "('k \<Rightarrow> bytes) \<Rightarrow> (bytes \<times> bytes) list \<Rightarrow> 'k \<Rightarrow> bytes option" where
  "kv_of enc m k = map_of m (enc k)"

definition typed_by :: "('k \<Rightarrow> bytes) \<Rightarrow> (bytes \<times> bytes) list \<Rightarrow> bool" where
  "typed_by enc m \<longleftrightarrow> (\<forall>e \<in> set m. \<exists>k. fst e = enc k)"

definition scanned_by :: "('k \<Rightarrow> bytes) \<Rightarrow> (bytes \<times> bytes) list \<Rightarrow> ('a \<Rightarrow> 'k) \<Rightarrow> 'a \<Rightarrow> bytes \<times> bytes" where
  "scanned_by enc m f x = (enc (f x), the (kv_of enc m (f x)))"

lemma kv_of_Nil [simp]: "kv_of enc [] k = None" and typed_by_Nil [simp]: "typed_by enc []"
  by (simp_all add: kv_of_def typed_by_def)

lemma typed_by_insert: "typed_by enc m \<Longrightarrow> ordered m \<Longrightarrow> typed_by enc (btree_insert (enc k) b m)"
  by (auto simp: typed_by_def set_btree_insert)

lemma typed_by_remove: "typed_by enc m \<Longrightarrow> typed_by enc (btree_remove k m)"
  by (auto simp: typed_by_def btree_remove_def)

lemma map_of_filter_key: "map_of (filter (\<lambda>p. P (fst p)) m) k = (if P k then map_of m k else None)"
  by (induction m) auto

lemma strict_mono_inj:
  fixes f :: "'a::linorder \<Rightarrow> 'k"
  assumes "\<And>x y. x < y \<Longrightarrow> enc (f x) < (enc (f y) :: bytes)"
  shows "inj f"
proof (rule injI)
  fix x y assume eq: "f x = f y"
  then show "x = y" using assms [of x y] assms [of y x] by (cases x y rule: linorder_cases) auto
qed

locale key_encoding =
  fixes enc :: "'k \<Rightarrow> bytes"
  assumes enc_inject: "enc k = enc l \<longleftrightarrow> k = l"
begin

lemma kv_of_insert [simp]: "kv_of enc (btree_insert (enc k) b m) = (kv_of enc m)(k \<mapsto> b)"
  by (auto simp: kv_of_def fun_eq_iff enc_inject)

lemma kv_of_remove [simp]: "kv_of enc (btree_remove (enc k) m) = (kv_of enc m)(k := None)"
  by (auto simp: kv_of_def fun_eq_iff enc_inject)

lemma finite_kv: "inj f \<Longrightarrow> finite {x. P x \<and> kv_of enc m (f x) \<noteq> None}"
proof -
  assume inj: "inj f"
  have "{x. P x \<and> kv_of enc m (f x) \<noteq> None} \<subseteq> (enc \<circ> f) -` (fst ` set m)"
    by (force simp: kv_of_def dest!: map_of_SomeD)
  moreover have "inj (enc \<circ> f)" using inj by (auto simp: inj_def enc_inject)
  ultimately show ?thesis by (meson finite_imageI finite_set finite_subset finite_vimageI)
qed

lemma map_of_scanned:
  assumes "inj f"
  shows "map_of (map (scanned_by enc m f) xs) (enc (f x)) =
    (if x \<in> set xs then Some (the (kv_of enc m (f x))) else None)"
  by (induction xs) (auto simp: scanned_by_def injD [OF assms] enc_inject)

lemma map_of_scanned_None:
  "(\<And>x. x \<in> set xs \<Longrightarrow> k \<noteq> enc (f x)) \<Longrightarrow> map_of (map (scanned_by enc m f) xs) k = None"
  by (induction xs) (auto simp: scanned_by_def)

text \<open>The selected part of an ordered list of pairs, where the selection is a family of keys that
  the encoding keeps in order.\<close>

lemma scan_typed:
  fixes f :: "'a::linorder \<Rightarrow> 'k"
  assumes ord: "ordered m" and typed: "typed_by enc m"
    and mono: "\<And>x y. x < y \<Longrightarrow> enc (f x) < enc (f y)"
    and sel: "\<And>k. P (enc k) \<longleftrightarrow> (\<exists>x. k = f x \<and> Q x)"
  shows "filter (\<lambda>p. P (fst p)) m =
    map (scanned_by enc m f) (sorted_list_of_set {x. Q x \<and> kv_of enc m (f x) \<noteq> None})"
proof (rule ordered_map_of_inject)
  let ?S = "{x. Q x \<and> kv_of enc m (f x) \<noteq> None}"
  have inj: "inj f" by (rule strict_mono_inj) (rule mono)
  have fin: "finite ?S" by (rule finite_kv [OF inj])
  show "ordered (filter (\<lambda>p. P (fst p)) m)" using ord by simp
  show "ordered (map (scanned_by enc m f) (sorted_list_of_set ?S))"
    using mono by (auto simp: scanned_by_def sorted_wrt_map comp_def
        intro!: sorted_wrt_mono_rel [OF _ strict_sorted_list_of_set])
  show "map_of (filter (\<lambda>p. P (fst p)) m) = map_of (map (scanned_by enc m f) (sorted_list_of_set ?S))"
  proof
    fix k
    consider x where "k = enc (f x)" "Q x" | "\<forall>x. Q x \<longrightarrow> k \<noteq> enc (f x)" by blast
    then show "map_of (filter (\<lambda>p. P (fst p)) m) k = map_of (map (scanned_by enc m f) (sorted_list_of_set ?S)) k"
    proof cases
      case 1
      then show ?thesis using fin sel by (auto simp: map_of_filter_key map_of_scanned [OF inj] kv_of_def)
    next
      case 2
      have "\<not> P k \<or> map_of m k = None"
      proof (cases "map_of m k")
        case (Some b)
        then obtain x where "k = enc x" using typed map_of_SomeD by (fastforce simp: typed_by_def)
        with 2 sel show ?thesis by auto
      qed simp
      moreover have "map_of (map (scanned_by enc m f) (sorted_list_of_set ?S)) k = None"
        using 2 fin by (intro map_of_scanned_None) auto
      ultimately show ?thesis by (auto simp: map_of_filter_key)
    qed
  qed
qed

end

locale typed_engine = storage_engine E inv view fits + key_encoding enc
  for E :: "'e engine" and inv view fits and enc :: "'k \<Rightarrow> bytes"
begin

lemma kv_get: "inv e \<Longrightarrow> e_get E (enc k) e = (Ok (kv_of enc (view e) k), e)"
  by (simp add: get_law kv_of_def)

lemma kv_set:
  assumes "inv e" "typed_by enc (view e)" "fits (enc k) b"
  shows "\<exists>e'. e_set E (enc k) b e = (Ok (), e') \<and> inv e' \<and> typed_by enc (view e') \<and>
    kv_of enc (view e') = (kv_of enc (view e))(k \<mapsto> b)"
  using set_law [OF assms(1,3)] typed_by_insert [OF assms(2) view_ordered [OF assms(1)]] by auto

lemma kv_delete:
  assumes "inv e" "typed_by enc (view e)" "kv_of enc (view e) k \<noteq> None"
  shows "\<exists>e'. e_delete E (enc k) e = (Ok (), e') \<and> inv e' \<and> typed_by enc (view e') \<and>
    kv_of enc (view e') = (kv_of enc (view e))(k := None)"
  using delete_present [OF assms(1), of "enc k"] assms(3) typed_by_remove [OF assms(2)]
  by (auto simp: kv_of_def [of enc "view e" k])

lemma kv_scan:
  fixes f :: "'a::linorder \<Rightarrow> 'k"
  assumes "inv e" "typed_by enc (view e)" "\<not> range_panics r"
    and "\<And>x y. x < y \<Longrightarrow> enc (f x) < enc (f y)"
    and "\<And>k. in_range r (enc k) \<longleftrightarrow> (\<exists>x. k = f x \<and> Q x)"
  shows "e_scan E r e = (Ok (map (\<lambda>x. Ok (scanned_by enc (view e) f x))
    (sorted_list_of_set {x. Q x \<and> kv_of enc (view e) (f x) \<noteq> None})), e)"
  using scan_law [OF assms(1,3)]
    scan_typed [OF view_ordered [OF assms(1)] assms(2), of f "in_range r" Q] assms(4,5)
  by (simp add: comp_def)

lemma kv_scan_prefix:
  fixes f :: "'a::linorder \<Rightarrow> 'k"
  assumes "inv e" "typed_by enc (view e)"
    and "\<And>x y. x < y \<Longrightarrow> enc (f x) < enc (f y)"
    and "\<And>k. prefix p (enc k) \<longleftrightarrow> (\<exists>x. k = f x)"
  shows "scan_prefix E p e = (Ok (map (\<lambda>x. Ok (scanned_by enc (view e) f x))
    (sorted_list_of_set {x. kv_of enc (view e) (f x) \<noteq> None})), e)"
  using scan_prefix_law [OF assms(1), of p]
    scan_typed [OF view_ordered [OF assms(1)] assms(2), of f "prefix p" "\<lambda>_. True"] assms(3,4)
  by (simp add: comp_def)

end

end
