(* ===== verification/Mvcc_Store.thy ===== *)
theory Mvcc_Store
  imports Mvcc_Spec Typed_Store
begin

text \<open>
  Between the engine's byte strings and the abstract MVCC state: the typed store, a partial map from
  MVCC keys to values, and \<open>mvcc_abs_of\<close>, what a typed store means.  The locale
  \<open>mvcc_store\<close> is a storage engine with a working \<^verbatim>\<open>bincode\<close>; its lemmas lift the engine's laws
  to typed keys and list what the scans of the MVCC layer return.
\<close>

section \<open>The typed store and its meaning\<close>

type_synonym typed_store = "mkey \<Rightarrow> bytes option"

abbreviation store_of :: "(bytes \<times> bytes) list \<Rightarrow> typed_store" where
  "store_of \<equiv> kv_of mkey_bytes"

abbreviation typed_keys :: "(bytes \<times> bytes) list \<Rightarrow> bool" where
  "typed_keys \<equiv> typed_by mkey_bytes"

abbreviation scanned :: "(bytes \<times> bytes) list \<Rightarrow> ('a \<Rightarrow> mkey) \<Rightarrow> 'a \<Rightarrow> bytes \<times> bytes" where
  "scanned \<equiv> scanned_by mkey_bytes"

interpretation mvcc_keys: key_encoding mkey_bytes
  by unfold_locales (simp del: mkey_bytes.simps)

fun is_ok :: "'a result \<Rightarrow> bool" where
  "is_ok (Ok a) = True"
| "is_ok _ = False"

fun from_ok :: "'a result \<Rightarrow> 'a" where
  "from_ok (Ok a) = a"
| "from_ok _ = undefined"

fun value_ok :: "bincode \<Rightarrow> mkey \<Rightarrow> bytes \<Rightarrow> bool" where
  "value_ok B NextVersion b = is_ok (de_u64 B b)"
| "value_ok B (TxnActiveSnapshot v) b = is_ok (de_set B b)"
| "value_ok B (Version k v) b = is_ok (de_val B b)"
| "value_ok B _ b = True"

definition mvcc_abs_of :: "bincode \<Rightarrow> typed_store \<Rightarrow> mvcc_abs" where
  "mvcc_abs_of B s = \<lparr>
     a_next = (case s NextVersion of None \<Rightarrow> 1 | Some b \<Rightarrow> from_ok (de_u64 B b)),
     a_active = {v. s (TxnActive v) \<noteq> None},
     a_snap = (\<lambda>v. case s (TxnActiveSnapshot v) of None \<Rightarrow> {} | Some b \<Rightarrow> from_ok (de_set B b)),
     a_writes = {(v, k). s (TxnWrite v k) \<noteq> None},
     a_vers = (\<lambda>k v. map_option (\<lambda>b. from_ok (de_val B b)) (s (Version k v))),
     a_unv = (\<lambda>k. s (Unversioned k))\<rparr>"

definition mvcc_ok :: "('e \<Rightarrow> bool) \<Rightarrow> ('e \<Rightarrow> (bytes \<times> bytes) list) \<Rightarrow> bincode \<Rightarrow> 'e \<Rightarrow> bool" where
  "mvcc_ok einv view B e \<longleftrightarrow> einv e \<and> typed_keys (view e) \<and>
     (\<forall>k b. store_of (view e) k = Some b \<longrightarrow> value_ok B k b)"

definition mvcc_state :: "('e \<Rightarrow> (bytes \<times> bytes) list) \<Rightarrow> bincode \<Rightarrow> 'e \<Rightarrow> mvcc_abs" where
  "mvcc_state view B e = mvcc_abs_of B (store_of (view e))"

lemma is_ok_cases: "is_ok r \<longleftrightarrow> (\<exists>a. r = Ok a)"
  by (cases r) auto

lemma abs_upd [simp]:
  "mvcc_abs_of B (s(NextVersion \<mapsto> b)) = (mvcc_abs_of B s)\<lparr>a_next := from_ok (de_u64 B b)\<rparr>"
  "mvcc_abs_of B (s(TxnActive v \<mapsto> b)) =
     (mvcc_abs_of B s)\<lparr>a_active := insert v (a_active (mvcc_abs_of B s))\<rparr>"
  "mvcc_abs_of B (s(TxnActive v := None)) =
     (mvcc_abs_of B s)\<lparr>a_active := a_active (mvcc_abs_of B s) - {v}\<rparr>"
  "mvcc_abs_of B (s(TxnActiveSnapshot v \<mapsto> b)) =
     (mvcc_abs_of B s)\<lparr>a_snap := (a_snap (mvcc_abs_of B s))(v := from_ok (de_set B b))\<rparr>"
  "mvcc_abs_of B (s(TxnWrite v k \<mapsto> b)) =
     (mvcc_abs_of B s)\<lparr>a_writes := insert (v, k) (a_writes (mvcc_abs_of B s))\<rparr>"
  "mvcc_abs_of B (s(TxnWrite v k := None)) =
     (mvcc_abs_of B s)\<lparr>a_writes := a_writes (mvcc_abs_of B s) - {(v, k)}\<rparr>"
  "mvcc_abs_of B (s(Version k v \<mapsto> b)) =
     (mvcc_abs_of B s)\<lparr>a_vers := (a_vers (mvcc_abs_of B s))
        (k := (a_vers (mvcc_abs_of B s) k)(v \<mapsto> from_ok (de_val B b)))\<rparr>"
  "mvcc_abs_of B (s(Version k v := None)) =
     (mvcc_abs_of B s)\<lparr>a_vers := (a_vers (mvcc_abs_of B s))
        (k := (a_vers (mvcc_abs_of B s) k)(v := None))\<rparr>"
  "mvcc_abs_of B (s(Unversioned k \<mapsto> b)) =
     (mvcc_abs_of B s)\<lparr>a_unv := (a_unv (mvcc_abs_of B s))(k \<mapsto> b)\<rparr>"
  by (auto simp: mvcc_abs_of_def fun_eq_iff)

lemma abs_sel:
  "v \<in> a_active (mvcc_abs_of B s) \<longleftrightarrow> s (TxnActive v) \<noteq> None"
  "(v, k) \<in> a_writes (mvcc_abs_of B s) \<longleftrightarrow> s (TxnWrite v k) \<noteq> None"
  "a_vers (mvcc_abs_of B s) k v = map_option (\<lambda>b. from_ok (de_val B b)) (s (Version k v))"
  "a_unv (mvcc_abs_of B s) k = s (Unversioned k)"
  by (simp_all add: mvcc_abs_of_def)

lemma mvcc_okD:
  assumes "mvcc_ok einv view B e"
  shows "einv e" and "typed_keys (view e)" and "store_of (view e) k = Some b \<Longrightarrow> value_ok B k b"
  using assms by (auto simp: mvcc_ok_def)

section \<open>Engines under the MVCC layer\<close>

locale mvcc_store = typed_engine E inv view fits mkey_bytes
  for E :: "'e engine" and inv view fits +
  fixes B :: bincode
  assumes bincode: "bincode_ok B"
begin

lemma ser_u64_ok: "\<exists>b. ser_u64 B n = Ok b \<and> de_u64 B b = Ok n"
  and ser_set_ok: "\<exists>b. ser_set B s = Ok b \<and> de_set B b = Ok s"
  and ser_val_ok: "\<exists>b. ser_val B x = Ok b \<and> de_val B b = Ok x"
  using bincode by (auto simp: bincode_ok_def)

lemma get_key: "mvcc_ok inv view B e \<Longrightarrow> e_get E (mkey_bytes k) e = (Ok (store_of (view e) k), e)"
  by (simp add: mvcc_ok_def kv_get)

lemma get_other: "mvcc_ok inv view B e \<Longrightarrow> \<nexists>k. b = mkey_bytes k \<Longrightarrow> e_get E b e = (Ok None, e)"
  by (auto simp: mvcc_ok_def get_law typed_by_def map_of_eq_None_iff)

lemma set_key:
  assumes "mvcc_ok inv view B e" "fits (mkey_bytes k) b" "value_ok B k b"
  shows "\<exists>e'. e_set E (mkey_bytes k) b e = (Ok (), e') \<and> mvcc_ok inv view B e' \<and>
    store_of (view e') = (store_of (view e))(k \<mapsto> b)"
  using assms kv_set [OF mvcc_okD(1,2) [OF assms(1)] assms(2)]
  by (auto simp: mvcc_ok_def simp del: mkey_bytes.simps)

lemma delete_key:
  assumes "mvcc_ok inv view B e" "store_of (view e) k \<noteq> None"
  shows "\<exists>e'. e_delete E (mkey_bytes k) e = (Ok (), e') \<and> mvcc_ok inv view B e' \<and>
    store_of (view e') = (store_of (view e))(k := None)"
  using assms kv_delete [OF mvcc_okD(1,2) [OF assms(1)] assms(2)]
  by (auto simp: mvcc_ok_def simp del: mkey_bytes.simps split: if_splits)

lemma scan_versions:
  assumes "mvcc_ok inv view B e" "u \<le> w"
  shows "e_scan E (Included (mkey_bytes (Version k u)), Included (mkey_bytes (Version k w))) e =
    (Ok (map (\<lambda>v. Ok (scanned (view e) (Version k) v))
       (sorted_list_of_set {v. (u \<le> v \<and> v \<le> w) \<and> store_of (view e) (Version k v) \<noteq> None})), e)"
  using assms(2) by (intro kv_scan [OF mvcc_okD(1,2) [OF assms(1)]])
    (auto simp: not_less Version_bytes_le Version_bytes_less in_version_range simp del: mkey_bytes.simps)

lemma scan_TxnActive:
  assumes "mvcc_ok inv view B e"
  shows "scan_prefix E [1] e = (Ok (map (\<lambda>v. Ok (scanned (view e) TxnActive v))
    (sorted_list_of_set (a_active (mvcc_state view B e)))), e)"
proof -
  have "a_active (mvcc_state view B e) = {v. store_of (view e) (TxnActive v) \<noteq> None}"
    by (simp add: mvcc_state_def mvcc_abs_of_def)
  then show ?thesis using kv_scan_prefix [OF mvcc_okD(1,2) [OF assms], of TxnActive "[1]"]
    by (simp add: TxnActive_bytes_less del: mkey_bytes.simps)
qed

lemma scan_TxnWrite:
  assumes "mvcc_ok inv view B e"
  shows "scan_prefix E (3 # enc_u64 v) e = (Ok (map (\<lambda>k. Ok (scanned (view e) (TxnWrite v) k))
    (sorted_list_of_set {k. store_of (view e) (TxnWrite v k) \<noteq> None})), e)"
  by (intro kv_scan_prefix [OF mvcc_okD(1,2) [OF assms]])
    (auto simp: TxnWrite_bytes_less simp del: mkey_bytes.simps)

end

end
