(* ===== verification/Mvcc_Refine.thy ===== *)
theory Mvcc_Refine
  imports Mvcc_Store Memory Bitcask
begin

text \<open>
  The operations of the MVCC layer implement the abstract specification: on an engine that meets its
  contract each returns what the specification returns and leaves an engine that means what the
  specification says, on every branch.  The proofs are in the locale \<open>mvcc_store\<close>; they are
  instantiated for both engines with any \<^verbatim>\<open>bincode\<close> that round-trips.
\<close>

section \<open>Sorted sets\<close>

lemma filter_sorted_list_of_set:
  fixes S :: "'a::linorder set"
  assumes "finite S"
  shows "filter P (sorted_list_of_set S) = sorted_list_of_set {x \<in> S. P x}"
  by (rule strict_sorted_equal)
    (use assms in \<open>auto simp: sorted_wrt_filter\<close>)

lemma last_sorted_list_of_set:
  fixes S :: "'a::linorder set"
  assumes "finite S" "S \<noteq> {}"
  shows "last (sorted_list_of_set S) = Max S"
proof -
  have "last xs = Max (set xs)" if "sorted xs" "xs \<noteq> []" for xs :: "'a list"
    using that by (induction xs) (auto simp: max_def dest: last_in_set)
  from this [of "sorted_list_of_set S"] assms show ?thesis by simp
qed

section \<open>Operations\<close>

text \<open>The pairs that an operation writes must fit the engine: those of beginning a transaction, given
  the state it returns, and those of a write.\<close>

definition begin_fits ::
    "bincode \<Rightarrow> (bytes \<Rightarrow> bytes \<Rightarrow> bool) \<Rightarrow> transaction_state \<Rightarrow> bool" where
  "begin_fits B fits st \<longleftrightarrow>
     (\<forall>b. ser_u64 B (ts_version st + 1) = Ok b \<longrightarrow> fits (mkey_bytes NextVersion) b) \<and>
     (\<forall>b. ts_active st \<noteq> {} \<longrightarrow> ser_set B (ts_active st) = Ok b \<longrightarrow>
        fits (mkey_bytes (TxnActiveSnapshot (ts_version st))) b) \<and>
     fits (mkey_bytes (TxnActive (ts_version st))) []"

definition write_fits ::
    "bincode \<Rightarrow> (bytes \<Rightarrow> bytes \<Rightarrow> bool) \<Rightarrow> transaction_state \<Rightarrow> bytes \<Rightarrow> bytes option \<Rightarrow> bool" where
  "write_fits B fits st k x \<longleftrightarrow>
     fits (mkey_bytes (TxnWrite (ts_version st) k)) [] \<and>
     (\<forall>b. ser_val B x = Ok b \<longrightarrow> fits (mkey_bytes (Version k (ts_version st))) b)"

text \<open>The keys that a transaction with number \<open>v\<close> leaves behind and its rollback removes.\<close>

fun undone :: "version \<Rightarrow> mkey \<Rightarrow> bool" where
  "undone v (TxnActive w) \<longleftrightarrow> w = v"
| "undone v (TxnWrite w k) \<longleftrightarrow> w = v"
| "undone v (Version k w) \<longleftrightarrow> w = v"
| "undone v _ \<longleftrightarrow> False"

lemma undone_iff: "undone v x \<longleftrightarrow> x = TxnActive v \<or> (\<exists>k. x = TxnWrite v k \<or> x = Version k v)"
  by (cases x) auto

lemma fits_always [simp]: "begin_fits B (\<lambda>_ _. True) st" "write_fits B (\<lambda>_ _. True) st k x"
  by (simp_all add: begin_fits_def write_fits_def)

lemma scan_active_loop_scanned:
  "scan_active_loop (map (\<lambda>v. Ok (scanned m TxnActive v)) vs) A = Ok (A \<union> set vs)"
  by (induction vs arbitrary: A) (auto simp: scanned_by_def simp del: mkey_bytes.simps)

lemma get_loop_scanned:
  "get_loop B st (map (\<lambda>v. Ok (scanned m (Version k) v)) vs) = (case filter (is_visible st) vs of
     [] \<Rightarrow> Ok None
   | v # _ \<Rightarrow> de_val B (the (store_of m (Version k v))))"
  by (induction vs) (auto simp: scanned_by_def simp del: mkey_bytes.simps)

lemma rollback_loop_scanned:
  "rollback_loop v (map (\<lambda>k. Ok (scanned m (TxnWrite v) k)) ks) acc =
     Ok (acc @ concat (map (\<lambda>k. [mkey_bytes (Version k v), mkey_bytes (TxnWrite v k)]) ks))"
  by (induction ks arbitrary: acc) (auto simp: scanned_by_def simp del: mkey_bytes.simps)

lemma abs_remove_writes:
  assumes "\<And>l. l \<in> K \<longleftrightarrow> (\<exists>k. l = TxnWrite v k \<and> s l \<noteq> None)"
  shows "mvcc_abs_of B (\<lambda>l. if l \<in> K then None else s l) =
    (mvcc_abs_of B s)\<lparr>a_writes := {w \<in> a_writes (mvcc_abs_of B s). fst w \<noteq> v}\<rparr>"
  by (auto simp: mvcc_abs_of_def assms)

lemma abs_remove_versions:
  assumes "\<And>l. l \<in> K \<longleftrightarrow> (\<exists>k. (l = TxnWrite v k \<or> l = Version k v) \<and> s (TxnWrite v k) \<noteq> None)"
  shows "mvcc_abs_of B (\<lambda>l. if l \<in> K then None else s l) =
    (mvcc_abs_of B s)\<lparr>a_writes := {w \<in> a_writes (mvcc_abs_of B s). fst w \<noteq> v},
      a_vers := (\<lambda>k u. if u = v \<and> (u, k) \<in> a_writes (mvcc_abs_of B s) then None
                       else a_vers (mvcc_abs_of B s) k u)\<rparr>"
  by (auto simp: mvcc_abs_of_def assms fun_eq_iff)

context mvcc_store
begin

lemma get_next_version_ok:
  assumes "mvcc_ok inv view B e"
  shows "get_next_version E B e = (Ok (a_next (mvcc_state view B e)), e)"
proof (cases "store_of (view e) NextVersion")
  case None
  then show ?thesis
    using get_key [OF assms, of NextVersion]
    by (simp add: get_next_version_def bind_op_Ok mvcc_state_def mvcc_abs_of_def)
next
  case (Some b)
  then have "is_ok (de_u64 B b)" using mvcc_okD(3) [OF assms] by fastforce
  with Some show ?thesis
    using get_key [OF assms, of NextVersion]
    by (auto simp: get_next_version_def bind_op_Ok mvcc_state_def mvcc_abs_of_def is_ok_cases)
qed

lemma scan_active_ok:
  assumes "mvcc_ok inv view B e"
  shows "scan_active E e = (Ok (a_active (mvcc_state view B e)), e)"
  using scan_TxnActive [OF assms]
  by (simp add: scan_active_def bind_op_Ok scan_active_loop_scanned)

lemma begin_ok:
  assumes ok: "mvcc_ok inv view B e" and a: "a = mvcc_state view B e"
    and lt: "unat (a_next a) + 1 < 2 ^ 64" and fits: "begin_fits B fits (begin_state a)"
  shows "\<exists>e'. txn_begin E B e = (Ok (begin_state a), e') \<and> mvcc_ok inv view B e' \<and>
    mvcc_state view B e' = a_begin a"
proof -
  let ?v = "a_next a"
  have s: "mvcc_abs_of B (store_of (view e)) = a" by (simp add: a mvcc_state_def)
  obtain bn where bn: "ser_u64 B (?v + 1) = Ok bn" "de_u64 B bn = Ok (?v + 1)" using ser_u64_ok by blast
  obtain bs where bs: "ser_set B (a_active a) = Ok bs" "de_set B bs = Ok (a_active a)" using ser_set_ok by blast
  obtain e1 where e1: "e_set E (mkey_bytes NextVersion) bn e = (Ok (), e1)" "mvcc_ok inv view B e1"
    "store_of (view e1) = (store_of (view e))(NextVersion \<mapsto> bn)"
    using set_key [OF ok, of NextVersion bn] fits bn by (auto simp: begin_fits_def)
  have s1: "mvcc_state view B e1 = a\<lparr>a_next := ?v + 1\<rparr>"
    by (simp add: mvcc_state_def e1(3) s bn)
  have act: "scan_active E e1 = (Ok (a_active a), e1)" using scan_active_ok [OF e1(2)] s1 by simp
  obtain e2 where e2: "(if a_active a \<noteq> {} then
      bind_op (lift_op (mkey_encode (TxnActiveSnapshot ?v))) (\<lambda>k.
      bind_op (lift_op (ser_set B (a_active a))) (\<lambda>v. e_set E k v)) else return_op ()) e1 = (Ok (), e2)"
    "mvcc_ok inv view B e2"
    "mvcc_state view B e2 = a\<lparr>a_next := ?v + 1,
       a_snap := (if a_active a = {} then a_snap a else (a_snap a)(?v := a_active a))\<rparr>"
  proof (cases "a_active a = {}")
    case True
    then show thesis using that [of e1] e1(2) s1 by (simp add:)
  next
    case False
    then obtain e2 where "e_set E (mkey_bytes (TxnActiveSnapshot ?v)) bs e1 = (Ok (), e2)"
      "mvcc_ok inv view B e2" "store_of (view e2) = (store_of (view e1))(TxnActiveSnapshot ?v \<mapsto> bs)"
      using set_key [OF e1(2), of "TxnActiveSnapshot ?v" bs] fits bs by (auto simp: begin_fits_def)
    with False show thesis using that [of e2] s1 by (simp add: bs mvcc_state_def)
  qed
  obtain e3 where e3: "e_set E (mkey_bytes (TxnActive ?v)) [] e2 = (Ok (), e3)" "mvcc_ok inv view B e3"
    "store_of (view e3) = (store_of (view e2))(TxnActive ?v \<mapsto> [])"
    using set_key [OF e2(2), of "TxnActive ?v" "[]"] fits by (auto simp: begin_fits_def)
  have "mvcc_state view B e3 = a_begin a"
    using e2(3) by (simp add: mvcc_state_def e3(3) a_begin_def)
  moreover have "txn_begin E B e = (Ok (begin_state a), e3)"
    using get_next_version_ok [OF ok] e1(1) act e2(1) e3(1) lt
    unfolding txn_begin_def
    by (simp add: bind_op_Ok a [symmetric] add_u64_def bn begin_state_def
        del: mkey_bytes.simps)
  ultimately show ?thesis using e3(2) by blast
qed

lemma begin_overflow:
  assumes "mvcc_ok inv view B e" "\<not> unat (a_next (mvcc_state view B e)) + 1 < 2 ^ 64"
  shows "txn_begin E B e = (Panic ''attempt to add with overflow'', e)"
  using get_next_version_ok [OF assms(1)] assms(2)
  by (simp add: txn_begin_def bind_op_Ok add_u64_def)

lemma begin_read_only_ok:
  assumes "mvcc_ok inv view B e"
  shows "txn_begin_read_only E B None e = (Ok (read_only_state (mvcc_state view B e)), e)"
  using get_next_version_ok [OF assms] scan_active_ok [OF assms]
  by (simp add: txn_begin_read_only_def bind_op_Ok read_only_state_def)

lemma begin_as_of_ok:
  assumes ok: "mvcc_ok inv view B e" and a: "a = mvcc_state view B e"
  shows "txn_begin_read_only E B (Some v) e =
    (if v < a_next a then Ok (as_of_state v a) else Err (Value ''Version {} does not exist''), e)"
proof (cases "v < a_next a")
  case False
  then show ?thesis
    using get_next_version_ok [OF ok]
    by (simp add: txn_begin_read_only_def bind_op_Ok a not_less)
next
  case True
  have "(case store_of (view e) (TxnActiveSnapshot v) of Some b \<Rightarrow> lift_op (de_set B b)
      | None \<Rightarrow> return_op {}) e = (Ok (a_snap a v), e)"
    using mvcc_okD(3) [OF ok, of "TxnActiveSnapshot v"]
    by (auto simp: a mvcc_state_def mvcc_abs_of_def is_ok_cases split: option.splits)
  with True show ?thesis
    using get_next_version_ok [OF ok] get_key [OF ok, of "TxnActiveSnapshot v"]
    by (simp add: txn_begin_read_only_def bind_op_Ok a as_of_state_def del: mkey_bytes.simps)
qed

lemma resume_ok:
  assumes "mvcc_ok inv view B e"
  shows "txn_resume E st e =
    (if ts_read_only st \<or> ts_version st \<in> a_active (mvcc_state view B e) then Ok st
     else Err (Internal ''No active transaction at version {}''), e)"
  using get_key [OF assms, of "TxnActive (ts_version st)"]
  by (auto simp: txn_resume_def bind_op_Ok mvcc_state_def abs_sel
      simp del: mkey_bytes.simps)

lemma write_read_only: "ts_read_only st \<Longrightarrow> txn_write_version E B st k x e = (Err ReadOnly, e)"
  by (simp add: txn_write_version_def)

lemma conflict_scan:
  fixes k st
  assumes ok: "mvcc_ok inv view B e" and a: "a = mvcc_state view B e"
  defines "scan \<equiv> map (\<lambda>v. Ok (scanned (view e) (Version k) v))
    (sorted_list_of_set {v. (conflict_from st \<le> v \<and> v \<le> - 1) \<and> store_of (view e) (Version k v) \<noteq> None})"
  shows "e_scan E (Included (mkey_bytes (Version k (conflict_from st))),
      Included (mkey_bytes (Version k (- 1)))) e = (Ok scan, e)"
    and "conflict_check st scan = (if a_conflict st k a then Err Serialization else Ok ())"
proof -
  let ?vs = "versions_from (conflict_from st) k a"
  have vs: "{v. (conflict_from st \<le> v \<and> v \<le> - 1) \<and> store_of (view e) (Version k v) \<noteq> None} = ?vs"
    by (auto simp: versions_from_def a mvcc_state_def abs_sel)
  have scan: "scan = map (\<lambda>v. Ok (scanned (view e) (Version k) v)) (sorted_list_of_set ?vs)"
    unfolding scan_def vs ..
  show "e_scan E (Included (mkey_bytes (Version k (conflict_from st))),
      Included (mkey_bytes (Version k (- 1)))) e = (Ok scan, e)"
    unfolding scan_def by (rule scan_versions [OF ok]) simp
  show "conflict_check st scan = (if a_conflict st k a then Err Serialization else Ok ())"
  proof (cases "?vs = {}")
    case True
    then show ?thesis by (simp add: scan conflict_check_def a_conflict_def)
  next
    case False
    have "sorted_list_of_set ?vs \<noteq> []" using False by simp
    then have "last scan = Ok (scanned (view e) (Version k) (Max ?vs))" "scan \<noteq> []"
      using False by (simp_all add: scan last_map last_sorted_list_of_set)
    with False show ?thesis
      by (auto simp: conflict_check_def a_conflict_def scanned_by_def simp del: mkey_bytes.simps)
  qed
qed

lemma write_overflow:
  "\<not> ts_read_only st \<Longrightarrow> \<not> unat (ts_version st) + 1 < 2 ^ 64 \<Longrightarrow>
   txn_write_version E B st k x e = (Panic ''attempt to add with overflow'', e)"
  by (simp add: txn_write_version_def add_u64_def)

lemma write_conflict:
  assumes "mvcc_ok inv view B e" "\<not> ts_read_only st" "unat (ts_version st) + 1 < 2 ^ 64"
    "a_conflict st k (mvcc_state view B e)"
  shows "txn_write_version E B st k x e = (Err Serialization, e)"
  using conflict_scan [OF assms(1) refl, where k = k and st = st] assms(2-4)
  by (simp add: txn_write_version_def add_u64_def bind_op_Ok conflict_from_def
      del: mkey_bytes.simps)

lemma write_ok:
  assumes ok: "mvcc_ok inv view B e" and a: "a = mvcc_state view B e"
    and st: "\<not> ts_read_only st" "unat (ts_version st) + 1 < 2 ^ 64"
    and nc: "\<not> a_conflict st k a" and fits: "write_fits B fits st k x"
  shows "\<exists>e'. txn_write_version E B st k x e = (Ok (), e') \<and> mvcc_ok inv view B e' \<and>
    mvcc_state view B e' = a_write st k x a"
proof -
  let ?v = "ts_version st"
  obtain b where b: "ser_val B x = Ok b" "de_val B b = Ok x" using ser_val_ok by blast
  obtain e1 where e1: "e_set E (mkey_bytes (TxnWrite ?v k)) [] e = (Ok (), e1)" "mvcc_ok inv view B e1"
    "store_of (view e1) = (store_of (view e))(TxnWrite ?v k \<mapsto> [])"
    using set_key [OF ok, of "TxnWrite ?v k" "[]"] fits by (auto simp: write_fits_def)
  obtain e2 where e2: "e_set E (mkey_bytes (Version k ?v)) b e1 = (Ok (), e2)" "mvcc_ok inv view B e2"
    "store_of (view e2) = (store_of (view e1))(Version k ?v \<mapsto> b)"
    using set_key [OF e1(2), of "Version k ?v" b] fits b by (auto simp: write_fits_def)
  have "mvcc_state view B e2 = a_write st k x a"
    by (simp add: mvcc_state_def e1(3) e2(3) a a_write_def b)
  moreover have "txn_write_version E B st k x e = (Ok (), e2)"
    using conflict_scan [OF ok a, where k = k and st = st] st nc e1(1) e2(1) b(1)
    by (simp add: txn_write_version_def add_u64_def bind_op_Ok conflict_from_def
        del: mkey_bytes.simps)
  ultimately show ?thesis using e2(2) by blast
qed

lemma get_ok:
  assumes ok: "mvcc_ok inv view B e"
  shows "txn_get E B st k e = (Ok (a_read st (mvcc_state view B e) k), e)"
proof -
  let ?S = "{v. (0 \<le> v \<and> v \<le> ts_version st) \<and> store_of (view e) (Version k v) \<noteq> None}"
  let ?a = "mvcc_state view B e"
  let ?vs = "visible_versions st k ?a"
  have "{v \<in> ?S. is_visible st v} = ?vs"
    by (auto simp: visible_versions_def mvcc_state_def abs_sel is_visible_def split: if_splits)
  then have "filter (is_visible st) (rev (sorted_list_of_set ?S)) = rev (sorted_list_of_set ?vs)"
    by (simp add: filter_sorted_list_of_set flip: rev_filter)
  moreover have "(case rev (sorted_list_of_set ?vs) of [] \<Rightarrow> Ok None
      | v # _ \<Rightarrow> de_val B (the (store_of (view e) (Version k v)))) = Ok (a_read st ?a k)"
  proof (cases "?vs = {}")
    case True
    then show ?thesis by (simp add: a_read_def)
  next
    case False
    then obtain l where l: "rev (sorted_list_of_set ?vs) = Max ?vs # l"
      using last_sorted_list_of_set [of ?vs]
      by (cases "rev (sorted_list_of_set ?vs)") (auto simp: rev_swap)
    have "Max ?vs \<in> ?vs" using False by (intro Max_in) simp_all
    then obtain b where b: "store_of (view e) (Version k (Max ?vs)) = Some b"
      by (auto simp: visible_versions_def mvcc_state_def abs_sel)
    then have "is_ok (de_val B b)" using mvcc_okD(3) [OF ok b] by simp
    with False l b show ?thesis
      by (auto simp: a_read_def is_ok_cases) (simp add: mvcc_state_def abs_sel)
  qed
  ultimately show ?thesis
    using scan_versions [OF ok, of 0 "ts_version st" k] get_loop_scanned [of B st "view e" k]
    by (simp add: txn_get_def bind_op_Ok rev_map del: mkey_bytes.simps)
qed

lemma delete_keys:
  assumes "mvcc_ok inv view B e" "distinct ks" "\<And>k. k \<in> set ks \<Longrightarrow> store_of (view e) k \<noteq> None"
  shows "\<exists>e'. for_each (e_delete E) (map mkey_bytes ks) e = (Ok (), e') \<and> mvcc_ok inv view B e' \<and>
    store_of (view e') = (\<lambda>k. if k \<in> set ks then None else store_of (view e) k)"
  using assms
proof (induction ks arbitrary: e)
  case Nil
  then show ?case by simp
next
  case (Cons k ks)
  then obtain e1 where e1: "e_delete E (mkey_bytes k) e = (Ok (), e1)" "mvcc_ok inv view B e1"
    "store_of (view e1) = (store_of (view e))(k := None)"
    using delete_key [of e k] by auto
  obtain e2 where e2: "for_each (e_delete E) (map mkey_bytes ks) e1 = (Ok (), e2)" "mvcc_ok inv view B e2"
    "store_of (view e2) = (\<lambda>l. if l \<in> set ks then None else store_of (view e1) l)"
    using Cons.IH [OF e1(2)] Cons.prems(2,3) by (fastforce simp: e1(3))
  with e1 show ?case by (auto simp: bind_op_Ok fun_eq_iff simp del: mkey_bytes.simps)
qed

lemma delete_keys_txn:
  assumes ok: "mvcc_ok inv view B e" and ks: "distinct ks" "\<And>k. k \<in> set ks \<Longrightarrow> store_of (view e) k \<noteq> None"
    and v: "store_of (view e) (TxnActive v) \<noteq> None" "TxnActive v \<notin> set ks"
  shows "\<exists>e'. bind_op (for_each (e_delete E) (map mkey_bytes ks)) (\<lambda>_.
      bind_op (lift_op (mkey_encode (TxnActive v))) (e_delete E)) e = (Ok (), e') \<and>
    mvcc_ok inv view B e' \<and>
    store_of (view e') = (\<lambda>k. if k \<in> set ks then None else store_of (view e) k)(TxnActive v := None)"
proof -
  obtain e1 where e1: "for_each (e_delete E) (map mkey_bytes ks) e = (Ok (), e1)" "mvcc_ok inv view B e1"
    "store_of (view e1) = (\<lambda>k. if k \<in> set ks then None else store_of (view e) k)"
    using delete_keys [OF ok ks] by blast
  with delete_key [OF e1(2), of "TxnActive v"] v show ?thesis
    by (auto simp: bind_op_Ok simp del: mkey_bytes.simps)
qed

lemma commit_read_only: "ts_read_only st \<Longrightarrow> txn_commit E st e = (Ok (), e)"
  and rollback_read_only: "ts_read_only st \<Longrightarrow> txn_rollback E st e = (Ok (), e)"
  by (simp_all add: txn_commit_def txn_rollback_def)

lemma commit_ok:
  assumes ok: "mvcc_ok inv view B e" and a: "a = mvcc_state view B e"
    and st: "\<not> ts_read_only st" "ts_version st \<in> a_active a"
  shows "\<exists>e'. txn_commit E st e = (Ok (), e') \<and> mvcc_ok inv view B e' \<and>
    mvcc_state view B e' = a_commit st a"
proof -
  let ?v = "ts_version st"
  let ?S = "{k. store_of (view e) (TxnWrite ?v k) \<noteq> None}"
  let ?ks = "map (TxnWrite ?v) (sorted_list_of_set ?S)"
  have fin: "finite ?S" using mvcc_keys.finite_kv [of "TxnWrite ?v" "\<lambda>_. True"] by (simp add: inj_def)
  have active: "store_of (view e) (TxnActive ?v) \<noteq> None" using st(2) by (simp add: a mvcc_state_def abs_sel)
  have dist: "distinct ?ks" by (simp add: distinct_map inj_on_def)
  have present: "store_of (view e) k \<noteq> None" if "k \<in> set ?ks" for k
    using that fin by auto
  obtain e' where e': "bind_op (for_each (e_delete E) (map mkey_bytes ?ks)) (\<lambda>_.
      bind_op (lift_op (mkey_encode (TxnActive ?v))) (e_delete E)) e = (Ok (), e')" "mvcc_ok inv view B e'"
    "store_of (view e') = (\<lambda>k. if k \<in> set ?ks then None else store_of (view e) k)(TxnActive ?v := None)"
    using delete_keys_txn [OF ok dist present active] by auto
  have K: "l \<in> set ?ks \<longleftrightarrow> (\<exists>k. l = TxnWrite ?v k \<and> store_of (view e) l \<noteq> None)" for l
    using fin by auto
  have "mvcc_state view B e' = a_commit st a"
    unfolding mvcc_state_def e'(3) abs_upd abs_remove_writes [OF K] a a_commit_def by simp
  moreover have "txn_commit E st e = (Ok (), e')"
    using scan_TxnWrite [OF ok, of ?v] e'(1) st(1)
    by (simp add: txn_commit_def bind_op_Ok scanned_by_def comp_def del: mkey_bytes.simps)
  ultimately show ?thesis using e'(2) by blast
qed

lemma rollback_ok:
  assumes ok: "mvcc_ok inv view B e" and a: "a = mvcc_state view B e"
    and st: "\<not> ts_read_only st" "ts_version st \<in> a_active a"
    and recorded: "\<And>k. (ts_version st, k) \<in> a_writes a \<longleftrightarrow> a_vers a k (ts_version st) \<noteq> None"
  shows "\<exists>e'. txn_rollback E st e = (Ok (), e') \<and> mvcc_ok inv view B e' \<and>
    mvcc_state view B e' = a_rollback st a \<and>
    (\<forall>x. store_of (view e') x = (if undone (ts_version st) x then None else store_of (view e) x))"
proof -
  let ?v = "ts_version st"
  let ?S = "{k. store_of (view e) (TxnWrite ?v k) \<noteq> None}"
  let ?ks = "concat (map (\<lambda>k. [Version k ?v, TxnWrite ?v k]) (sorted_list_of_set ?S))"
  have fin: "finite ?S" using mvcc_keys.finite_kv [of "TxnWrite ?v" "\<lambda>_. True"] by (simp add: inj_def)
  have active: "store_of (view e) (TxnActive ?v) \<noteq> None" using st(2) by (simp add: a mvcc_state_def abs_sel)
  have "distinct (concat (map (\<lambda>k. [Version k ?v, TxnWrite ?v k]) xs))" if "distinct xs" for xs
    using that by (induction xs) auto
  then have dist: "distinct ?ks" by simp
  have present: "store_of (view e) k \<noteq> None" if "k \<in> set ?ks" for k
    using that recorded fin by (auto simp: a mvcc_state_def abs_sel)
  obtain e' where e': "bind_op (for_each (e_delete E) (map mkey_bytes ?ks)) (\<lambda>_.
      bind_op (lift_op (mkey_encode (TxnActive ?v))) (e_delete E)) e = (Ok (), e')" "mvcc_ok inv view B e'"
    "store_of (view e') = (\<lambda>k. if k \<in> set ?ks then None else store_of (view e) k)(TxnActive ?v := None)"
    using delete_keys_txn [OF ok dist present active] by auto
  have K: "l \<in> set ?ks \<longleftrightarrow> (\<exists>k. (l = TxnWrite ?v k \<or> l = Version k ?v) \<and>
      store_of (view e) (TxnWrite ?v k) \<noteq> None)" for l
    using fin by auto
  have "mvcc_state view B e' = a_rollback st a"
    unfolding mvcc_state_def e'(3) abs_upd abs_remove_versions [OF K] a a_rollback_def by simp
  moreover have "txn_rollback E st e = (Ok (), e')"
    using scan_TxnWrite [OF ok, of ?v] e'(1) st(1)
    by (simp add: txn_rollback_def bind_op_Ok rollback_loop_scanned map_concat comp_def del: mkey_bytes.simps)
  moreover have "store_of (view e') x = (if undone ?v x then None else store_of (view e) x)" for x
    using K [of x] recorded by (cases x) (auto simp: e'(3) a mvcc_state_def abs_sel simp del: mvcc_keys.kv_of_remove)
  ultimately show ?thesis using e'(2) by blast
qed

lemma set_unversioned_ok:
  assumes "mvcc_ok inv view B e" "fits (mkey_bytes (Unversioned k)) x"
  shows "\<exists>e'. mvcc_set_unversioned E k x e = (Ok (), e') \<and> mvcc_ok inv view B e' \<and>
    mvcc_state view B e' = (mvcc_state view B e)\<lparr>a_unv := (a_unv (mvcc_state view B e))(k \<mapsto> x)\<rparr>"
  using set_key [OF assms(1,2)]
  by (auto simp: mvcc_set_unversioned_def mvcc_state_def simp del: mkey_bytes.simps)

lemma get_unversioned_ok:
  assumes "mvcc_ok inv view B e"
  shows "mvcc_get_unversioned E k e = (Ok (a_unv (mvcc_state view B e) k), e)"
  using get_key [OF assms, of "Unversioned k"]
  by (simp add: mvcc_get_unversioned_def mvcc_state_def abs_sel del: mkey_bytes.simps)

end

end
