(* ===== verification/Mvcc_Txn.thy ===== *)
theory Mvcc_Txn
  imports Mvcc_Refine
begin

text \<open>
  Concurrent transactions on a real engine: \<open>mvcc_step\<close> runs one operation of
  \<^verbatim>\<open>src/src/storage/mvcc.rs\<close> for one of the open transactions, \<open>mvcc_run\<close> any interleaving of them.
  Every run is one of the abstract specification, and so every property proved there holds of the
  code: snapshot isolation, time travel, conflict detection, no lost updates, visibility of commits
  and the effect of a rollback.
\<close>

section \<open>Runs\<close>

text \<open>What an operation writes is assumed to fit the engine (in memory everything does); for
  \<^verbatim>\<open>begin\<close> that depends on the next version and the active set, which a read-only transaction
  begun at the same moment shows.\<close>

type_synonym 'e config = "'e \<times> transaction_state set"

inductive mvcc_step :: "'e engine \<Rightarrow> bincode \<Rightarrow> (bytes \<Rightarrow> bytes \<Rightarrow> bool) \<Rightarrow> event \<Rightarrow>
    'e config \<Rightarrow> 'e config \<Rightarrow> bool" for E B fits where
  step_begin: "txn_begin E B e = (Ok st, e') \<Longrightarrow>
     txn_begin_read_only E B None e = (Ok now, e) \<Longrightarrow> begin_fits B fits now \<Longrightarrow>
     mvcc_step E B fits (Begin st) (e, T) (e', insert st T)"
| step_read_only: "txn_begin_read_only E B as_of e = (Ok st, e') \<Longrightarrow>
     mvcc_step E B fits (BeginReadOnly st) (e, T) (e', insert st T)"
| step_write: "st \<in> T \<Longrightarrow> txn_write_version E B st k x e = (Ok (), e') \<Longrightarrow> write_fits B fits st k x \<Longrightarrow>
     mvcc_step E B fits (Write st k x) (e, T) (e', T)"
| step_rejected: "st \<in> T \<Longrightarrow> txn_write_version E B st k x e = (Err err, e') \<Longrightarrow> write_fits B fits st k x \<Longrightarrow>
     mvcc_step E B fits (Rejected st) (e, T) (e', T)"
| step_commit: "st \<in> T \<Longrightarrow> txn_commit E st e = (Ok (), e') \<Longrightarrow>
     mvcc_step E B fits (Commit st) (e, T) (e', T - {st})"
| step_rollback: "st \<in> T \<Longrightarrow> txn_rollback E st e = (Ok (), e') \<Longrightarrow>
     mvcc_step E B fits (Rollback st) (e, T) (e', T - {st})"
| step_unversioned: "mvcc_set_unversioned E k x e = (Ok (), e') \<Longrightarrow> fits (mkey_bytes (Unversioned k)) x \<Longrightarrow>
     mvcc_step E B fits (SetUnversioned k x) (e, T) (e', T)"
| step_forget: "mvcc_step E B fits (Forget st) (e, T) (e, T - {st})"

inductive_cases mvcc_stepE: "mvcc_step E B fits ev (e, T) c"

inductive mvcc_run :: "'e engine \<Rightarrow> bincode \<Rightarrow> (bytes \<Rightarrow> bytes \<Rightarrow> bool) \<Rightarrow> event list \<Rightarrow>
    'e config \<Rightarrow> 'e config \<Rightarrow> bool" for E B fits where
  run_nil: "mvcc_run E B fits [] c c"
| run_step: "mvcc_run E B fits evs c c' \<Longrightarrow> mvcc_step E B fits ev c' c'' \<Longrightarrow>
     mvcc_run E B fits (evs @ [ev]) c c''"

definition mvcc_reachable :: "'e engine \<Rightarrow> bincode \<Rightarrow> (bytes \<Rightarrow> bytes \<Rightarrow> bool) \<Rightarrow> ('e \<Rightarrow> bool) \<Rightarrow>
    ('e \<Rightarrow> (bytes \<times> bytes) list) \<Rightarrow> 'e config \<Rightarrow> bool" where
  "mvcc_reachable E B fits einv view c \<longleftrightarrow>
     (\<exists>e evs. einv e \<and> view e = [] \<and> mvcc_run E B fits evs (e, {}) c)"

section \<open>Every run is a run of the specification\<close>

definition sim :: "('e \<Rightarrow> bool) \<Rightarrow> ('e \<Rightarrow> (bytes \<times> bytes) list) \<Rightarrow> bincode \<Rightarrow> 'e config \<Rightarrow> bool" where
  "sim einv view B c \<longleftrightarrow> mvcc_ok einv view B (fst c) \<and> config_ok (mvcc_state view B (fst c), snd c)"

lemma simD:
  assumes "sim einv view B (e, T)"
  shows "mvcc_ok einv view B e" "a_inv (mvcc_state view B e)"
    "st \<in> T \<Longrightarrow> open_ok (mvcc_state view B e) st"
  using assms by (auto simp: sim_def)

lemma open_version_room:
  assumes "a_inv a" "open_ok a st" "\<not> ts_read_only st"
  shows "unat (ts_version st) + 1 < 2 ^ 64"
proof -
  have "ts_version st < a_next a" using assms a_invD(1) by (simp add: open_ok_def)
  then show ?thesis using u64_bound [of "a_next a"] by (simp add: word_less_nat_alt)
qed

lemma open_own_visible:
  assumes "a_inv a" "open_ok a st" "\<not> ts_read_only st"
  shows "ts_version st \<notin> ts_active st"
  using assms a_invD(2) [of a "ts_version st" "ts_version st"] by (auto simp: open_ok_def)

context mvcc_store
begin

lemma sim_begin:
  assumes ok: "mvcc_ok inv view B e" and st: "txn_begin E B e = (Ok st, e')"
    and now: "txn_begin_read_only E B None e = (Ok now, e)" "begin_fits B fits now"
  shows "mvcc_ok inv view B e'" "st = begin_state (mvcc_state view B e)"
    "mvcc_state view B e' = a_begin (mvcc_state view B e)"
    "unat (a_next (mvcc_state view B e)) + 1 < 2 ^ 64"
proof -
  show lt: "unat (a_next (mvcc_state view B e)) + 1 < 2 ^ 64"
    using begin_overflow [OF ok] st by fastforce
  have "begin_fits B fits (begin_state (mvcc_state view B e))"
    using now begin_read_only_ok [OF ok] by (auto simp: begin_fits_def read_only_state_def)
  then show "mvcc_ok inv view B e'" "st = begin_state (mvcc_state view B e)"
    "mvcc_state view B e' = a_begin (mvcc_state view B e)"
    using begin_ok [OF ok refl lt] st by auto
qed

lemma sim_write:
  assumes c: "sim inv view B (e, T)" and st: "st \<in> T" and fits: "write_fits B fits st k x"
    and ro: "\<not> ts_read_only st"
  shows "a_conflict st k (mvcc_state view B e) \<Longrightarrow> txn_write_version E B st k x e = (Err Serialization, e)"
    and "\<not> a_conflict st k (mvcc_state view B e) \<Longrightarrow>
      \<exists>e'. txn_write_version E B st k x e = (Ok (), e') \<and> mvcc_ok inv view B e' \<and>
        mvcc_state view B e' = a_write st k x (mvcc_state view B e)"
proof -
  have room: "unat (ts_version st) + 1 < 2 ^ 64"
    using open_version_room [OF simD(2) [OF c] simD(3) [OF c st] ro] .
  show "a_conflict st k (mvcc_state view B e) \<Longrightarrow> txn_write_version E B st k x e = (Err Serialization, e)"
    by (rule write_conflict [OF simD(1) [OF c] ro room])
  show "\<not> a_conflict st k (mvcc_state view B e) \<Longrightarrow>
      \<exists>e'. txn_write_version E B st k x e = (Ok (), e') \<and> mvcc_ok inv view B e' \<and>
        mvcc_state view B e' = a_write st k x (mvcc_state view B e)"
    by (rule write_ok [OF simD(1) [OF c] refl ro room _ fits])
qed

lemma sim_write_Ok:
  assumes c: "sim inv view B (e, T)" and st: "st \<in> T" and fits: "write_fits B fits st k x"
    and w: "txn_write_version E B st k x e = (Ok (), e')"
  shows "\<not> ts_read_only st" "\<not> a_conflict st k (mvcc_state view B e)" "mvcc_ok inv view B e'"
    "mvcc_state view B e' = a_write st k x (mvcc_state view B e)"
proof -
  show ro: "\<not> ts_read_only st" using w write_read_only [of st k x e] by auto
  show nc: "\<not> a_conflict st k (mvcc_state view B e)" using sim_write(1) [OF c st fits ro] w by auto
  show "mvcc_ok inv view B e'" "mvcc_state view B e' = a_write st k x (mvcc_state view B e)"
    using sim_write(2) [OF c st fits ro nc] w by auto
qed

lemma sim_commit:
  assumes c: "sim inv view B (e, T)" and st: "st \<in> T" and ro: "\<not> ts_read_only st"
  shows "\<exists>e'. txn_commit E st e = (Ok (), e') \<and> mvcc_ok inv view B e' \<and>
      mvcc_state view B e' = a_commit st (mvcc_state view B e)"
    and "\<exists>e'. txn_rollback E st e = (Ok (), e') \<and> mvcc_ok inv view B e' \<and>
      mvcc_state view B e' = a_rollback st (mvcc_state view B e) \<and>
      (\<forall>x. store_of (view e') x = (if undone (ts_version st) x then None else store_of (view e) x))"
proof -
  have act: "ts_version st \<in> a_active (mvcc_state view B e)"
    using simD(3) [OF c st] ro by (simp add: open_ok_def)
  show "\<exists>e'. txn_commit E st e = (Ok (), e') \<and> mvcc_ok inv view B e' \<and>
      mvcc_state view B e' = a_commit st (mvcc_state view B e)"
    by (rule commit_ok [OF simD(1) [OF c] refl ro act])
  show "\<exists>e'. txn_rollback E st e = (Ok (), e') \<and> mvcc_ok inv view B e' \<and>
      mvcc_state view B e' = a_rollback st (mvcc_state view B e) \<and>
      (\<forall>x. store_of (view e') x = (if undone (ts_version st) x then None else store_of (view e) x))"
    using a_invD(7) [OF simD(2) [OF c]] act by (intro rollback_ok [OF simD(1) [OF c] refl ro act]) blast
qed

lemma step_sim:
  assumes step: "mvcc_step E B fits ev (e, T) (e', T')" and c: "sim inv view B (e, T)"
  shows "mvcc_ok inv view B e'" and "a_step ev (mvcc_state view B e, T) (mvcc_state view B e', T')"
proof -
  let ?a = "mvcc_state view B e"
  note ok = simD(1) [OF c]
  have "mvcc_ok inv view B e' \<and> a_step ev (?a, T) (mvcc_state view B e', T')"
    using step
  proof (cases rule: mvcc_step.cases)
    case (step_begin st now)
    with sim_begin [OF ok step_begin(3,4,5)] show ?thesis by (simp add: a_step_begin)
  next
    case (step_read_only as_of st)
    show ?thesis
    proof (cases as_of)
      case None
      with step_read_only begin_read_only_ok [OF ok] show ?thesis using ok by (auto intro: a_step_read_only)
    next
      case (Some v)
      with step_read_only begin_as_of_ok [OF ok refl, of v] show ?thesis
        using ok by (auto simp: a_step_as_of split: if_splits)
    qed
  next
    case (step_write st k x)
    with sim_write_Ok [OF c, of st k x e'] show ?thesis by (simp add: a_step_write)
  next
    case (step_rejected st k x err)
    have "e' = e"
    proof (cases "ts_read_only st")
      case True
      then show ?thesis using step_rejected write_read_only [of st k x e] by simp
    next
      case False
      then show ?thesis using step_rejected sim_write [OF c, of st k x] by fastforce
    qed
    with step_rejected ok show ?thesis by (simp add: a_step_rejected)
  next
    case (step_commit st)
    show ?thesis
    proof (cases "ts_read_only st")
      case True
      with step_commit commit_read_only [of st e] ok show ?thesis by (simp add: a_step_end_read_only)
    next
      case False
      with step_commit sim_commit(1) [OF c, of st] show ?thesis by (auto simp: a_step_commit)
    qed
  next
    case (step_rollback st)
    show ?thesis
    proof (cases "ts_read_only st")
      case True
      with step_rollback rollback_read_only [of st e] ok show ?thesis by (simp add: a_step_end_read_only)
    next
      case False
      with step_rollback sim_commit(2) [OF c, of st] show ?thesis by (auto simp: a_step_rollback)
    qed
  next
    case (step_unversioned k x)
    with set_unversioned_ok [OF ok, of k x] show ?thesis by (auto simp: a_step_unversioned)
  next
    case (step_forget st)
    with ok show ?thesis by (simp add: a_step_forget)
  qed
  then show "mvcc_ok inv view B e'" "a_step ev (?a, T) (mvcc_state view B e', T')" by auto
qed

lemma step_keeps_sim: "mvcc_step E B fits ev c c' \<Longrightarrow> sim inv view B c \<Longrightarrow> sim inv view B c'"
  using step_sim [of ev "fst c" "snd c" "fst c'" "snd c'"] config_ok_step
  unfolding sim_def prod.collapse fst_conv snd_conv by blast

lemma run_keeps_sim: "mvcc_run E B fits evs c c' \<Longrightarrow> sim inv view B c \<Longrightarrow> sim inv view B c'"
  by (induction rule: mvcc_run.induct) (auto intro: step_keeps_sim)

lemma reachable_sim:
  assumes "mvcc_reachable E B fits inv view c"
  shows "sim inv view B c"
proof -
  obtain e evs where e: "inv e" "view e = []" and run: "mvcc_run E B fits evs (e, {}) c"
    using assms by (auto simp: mvcc_reachable_def)
  have "sim inv view B (e, {})"
    using e by (simp add: sim_def mvcc_ok_def mvcc_state_def kv_of_def typed_by_def mvcc_abs_of_def
        a_inv_def)
  with run show ?thesis by (rule run_keeps_sim)
qed

lemma run_reads_stable:
  assumes "mvcc_run E B fits evs c c'" "sim inv view B c" "st \<in> snd c" "\<forall>ev \<in> set evs. st \<notin> acts ev"
  shows "a_read st (mvcc_state view B (fst c')) k = a_read st (mvcc_state view B (fst c)) k \<and> st \<in> snd c'"
  using assms
proof (induction rule: mvcc_run.induct)
  case (run_step evs c c' ev c'')
  have sim: "sim inv view B (fst c', snd c')" using run_keeps_sim run_step by simp
  have a: "a_step ev (mvcc_state view B (fst c'), snd c') (mvcc_state view B (fst c''), snd c'')"
    using step_sim(2) [OF _ sim] run_step.hyps(2) by simp
  have "config_ok (mvcc_state view B (fst c'), snd c')" using sim by (simp add: sim_def)
  then show ?case using run_step a_read_open [OF a] by simp
qed simp

lemma run_as_of_stable:
  assumes "mvcc_run E B fits evs c c'" "sim inv view B c" "v < a_next (mvcc_state view B (fst c))"
  shows "a_read (as_of_state v (mvcc_state view B (fst c'))) (mvcc_state view B (fst c')) k =
      a_read (as_of_state v (mvcc_state view B (fst c))) (mvcc_state view B (fst c)) k \<and>
    v < a_next (mvcc_state view B (fst c'))"
  using assms
proof (induction rule: mvcc_run.induct)
  case (run_step evs c c' ev c'')
  have sim: "sim inv view B (fst c', snd c')" using run_keeps_sim run_step by simp
  have a: "a_step ev (mvcc_state view B (fst c'), snd c') (mvcc_state view B (fst c''), snd c'')"
    using step_sim(2) [OF _ sim] run_step.hyps(2) by simp
  have "config_ok (mvcc_state view B (fst c'), snd c')" using sim by (simp add: sim_def)
  with a run_step as_of_stable [OF a] snap_stable(2) [OF a] show ?case by simp
qed simp

end

section \<open>Both engines\<close>

text \<open>An instance of the \<^verbatim>\<open>bincode\<close> parameter with fixed-width integers, a set as the ascending list
  of its elements and an option with a leading tag, to run the layer on.\<close>

fun de_words :: "bytes \<Rightarrow> u64 list" where
  "de_words [] = []"
| "de_words (b # bs) = from_be_bytes (take 8 (b # bs)) # de_words (drop 7 bs)"

definition fixed_bincode :: bincode where
  "fixed_bincode = \<lparr>
     ser_u64 = (\<lambda>n. Ok (to_be_bytes n)),
     de_u64 = (\<lambda>b. Ok (from_be_bytes b)),
     ser_set = (\<lambda>s. Ok (concat (map to_be_bytes (sorted_list_of_set s)))),
     de_set = (\<lambda>b. Ok (set (de_words b))),
     ser_val = (\<lambda>x. Ok (case x of None \<Rightarrow> [0] | Some v \<Rightarrow> 1 # v)),
     de_val = (\<lambda>b. Ok (if hd b = 0 then None else Some (tl b)))\<rparr>"

lemma de_words_append: "length w = 8 \<Longrightarrow> de_words (w @ bs) = from_be_bytes w # de_words bs"
  by (cases w) auto

lemma de_words_concat: "de_words (concat (map to_be_bytes ws)) = ws"
  by (induction ws) (simp_all add: de_words_append)

lemma fixed_bincode_ok: "bincode_ok fixed_bincode"
  by (auto simp: bincode_ok_def fixed_bincode_def de_words_concat split: option.splits)

interpretation memory_mvcc: mvcc_store memory_engine memory_inv mem_data "\<lambda>_ _. True" fixed_bincode
  by unfold_locales (rule fixed_bincode_ok)

interpretation bitcask_mvcc: mvcc_store bitcask_engine bitcask_inv bitcask_view fits_entry fixed_bincode
  by unfold_locales (rule fixed_bincode_ok)

lemma mvcc_storeI: "storage_engine E einv view fits \<Longrightarrow> bincode_ok B \<Longrightarrow> mvcc_store E einv view fits B"
  by (simp add: mvcc_store_def mvcc_store_axioms_def typed_engine_def mvcc_keys.key_encoding_axioms)

section \<open>Isolation\<close>

lemma reachable_step:
  "mvcc_reachable E B fits einv view c \<Longrightarrow> mvcc_step E B fits ev c c' \<Longrightarrow>
   mvcc_reachable E B fits einv view c'"
  by (auto simp: mvcc_reachable_def intro: run_step)

lemma run_single: "mvcc_step E B fits ev c c' \<Longrightarrow> mvcc_run E B fits [ev] c c'"
  using run_step [OF run_nil] by fastforce

text \<open>A run on the memory engine for the witnesses: transaction 1 writes a key and stays open, then
  transaction 2 begins.\<close>

abbreviation mem_reachable :: "memory config \<Rightarrow> bool" where
  "mem_reachable \<equiv> mvcc_reachable memory_engine fixed_bincode (\<lambda>_ _. True) memory_inv mem_data"

abbreviation mem_step :: "event \<Rightarrow> memory config \<Rightarrow> memory config \<Rightarrow> bool" where
  "mem_step \<equiv> mvcc_step memory_engine fixed_bincode (\<lambda>_ _. True)"

lemmas mem_contract = memory_kv.storage_engine_axioms fixed_bincode_ok

lemma mem_begin_step:
  assumes "mvcc_ok memory_inv mem_data fixed_bincode e"
    "unat (a_next (mvcc_state mem_data fixed_bincode e)) + 1 < 2 ^ 64"
  shows "\<exists>e'. mem_step (Begin (begin_state (mvcc_state mem_data fixed_bincode e))) (e, T)
      (e', insert (begin_state (mvcc_state mem_data fixed_bincode e)) T) \<and>
    mvcc_ok memory_inv mem_data fixed_bincode e' \<and>
    mvcc_state mem_data fixed_bincode e' = a_begin (mvcc_state mem_data fixed_bincode e)"
  using memory_mvcc.begin_ok [OF assms(1) refl assms(2)] memory_mvcc.begin_read_only_ok [OF assms(1)]
  by (auto intro!: step_begin)

definition demo_st1 :: transaction_state where
  "demo_st1 = \<lparr>ts_version = 1, ts_read_only = False, ts_active = {}\<rparr>"

definition demo_st2 :: transaction_state where
  "demo_st2 = \<lparr>ts_version = 2, ts_read_only = False, ts_active = {1}\<rparr>"

lemma demo_run:
  obtains e1 e2 e3 where "mem_reachable (memory_new, {})"
    "mem_step (Begin demo_st1) (memory_new, {}) (e1, {demo_st1})" "mem_reachable (e1, {demo_st1})"
    "mem_step (Write demo_st1 [7] (Some [9])) (e1, {demo_st1}) (e2, {demo_st1})"
    "mem_reachable (e2, {demo_st1})"
    "mem_step (Begin demo_st2) (e2, {demo_st1}) (e3, {demo_st1, demo_st2})"
    "mem_reachable (e3, {demo_st1, demo_st2})"
    "a_vers (mvcc_state mem_data fixed_bincode e3) [7] 1 = Some (Some [9])"
    "mvcc_state mem_data fixed_bincode e2 = \<lparr>a_next = 2, a_active = {1}, a_snap = (\<lambda>_. {}),
       a_writes = {(1, [7])}, a_vers = (\<lambda>_ _. None)([7] := [1 \<mapsto> Some [9]]), a_unv = (\<lambda>_. None)\<rparr>"
proof -
  let ?st = "mvcc_state mem_data fixed_bincode"
  have r0: "mem_reachable (memory_new, {})"
    unfolding mvcc_reachable_def using memory_inv_new run_nil by blast
  have ok0: "mvcc_ok memory_inv mem_data fixed_bincode memory_new"
    using memory_mvcc.reachable_sim [OF r0] by (simp add: sim_def)
  have s0: "?st memory_new = \<lparr>a_next = 1, a_active = {}, a_snap = (\<lambda>_. {}), a_writes = {},
      a_vers = (\<lambda>_ _. None), a_unv = (\<lambda>_. None)\<rparr>"
    by (simp add: mvcc_state_def mvcc_abs_of_def kv_of_def fun_eq_iff)
  have b0: "begin_state (?st memory_new) = demo_st1" by (simp add: s0 begin_state_def demo_st1_def)
  obtain e1 where e1: "mem_step (Begin demo_st1) (memory_new, {}) (e1, {demo_st1})"
    "mvcc_ok memory_inv mem_data fixed_bincode e1" "?st e1 = a_begin (?st memory_new)"
    using mem_begin_step [OF ok0, of "{}"] by (auto simp: b0) (auto simp: s0)
  have r1: "mem_reachable (e1, {demo_st1})" by (rule reachable_step [OF r0 e1(1)])
  have "\<not> a_conflict demo_st1 [7] (?st e1)"
    by (simp add: e1(3) s0 a_conflict_def versions_from_def)
  then obtain e2 where e2: "txn_write_version memory_engine fixed_bincode demo_st1 [7] (Some [9]) e1 = (Ok (), e2)"
    "mvcc_ok memory_inv mem_data fixed_bincode e2" "?st e2 = a_write demo_st1 [7] (Some [9]) (?st e1)"
    using memory_mvcc.sim_write(2) [OF memory_mvcc.reachable_sim [OF r1], of demo_st1 "[7]" "Some [9]"]
    by (auto simp: demo_st1_def)
  have w: "mem_step (Write demo_st1 [7] (Some [9])) (e1, {demo_st1}) (e2, {demo_st1})"
    by (rule step_write) (simp_all add: e2(1))
  have r2: "mem_reachable (e2, {demo_st1})" by (rule reachable_step [OF r1 w])
  have n2: "a_next (?st e2) = 2" "a_active (?st e2) = {1}" by (simp_all add: e2(3) e1(3) s0)
  have b2: "begin_state (?st e2) = demo_st2" by (simp add: n2 begin_state_def demo_st2_def)
  obtain e3 where e3: "mem_step (Begin demo_st2) (e2, {demo_st1}) (e3, {demo_st2, demo_st1})"
    "?st e3 = a_begin (?st e2)"
    using mem_begin_step [OF e2(2), of "{demo_st1}"] by (auto simp: b2 n2)
  have r3: "mem_reachable (e3, {demo_st2, demo_st1})" by (rule reachable_step [OF r2 e3(1)])
  show ?thesis
    using that [OF r0 e1(1) r1 w r2, of e3] e3 r3
    by (simp add: insert_commute e2(3) e1(3) s0 a_write_def a_begin_def demo_st1_def fun_upd_def)
qed

text \<open>And one where transaction 1 commits and transaction 2 overwrites its key.\<close>

definition demo_st3 :: transaction_state where
  "demo_st3 = \<lparr>ts_version = 2, ts_read_only = False, ts_active = {}\<rparr>"

lemma demo_run_commit:
  obtains e1 e2 where "mem_reachable (e1, {demo_st3})" "mem_reachable (e2, {demo_st3})"
    "mem_step (Write demo_st3 [7] (Some [8])) (e1, {demo_st3}) (e2, {demo_st3})"
    "a_vers (mvcc_state mem_data fixed_bincode e2) [7] 1 = Some (Some [9])"
    "a_vers (mvcc_state mem_data fixed_bincode e2) [7] 2 = Some (Some [8])"
proof -
  let ?st = "mvcc_state mem_data fixed_bincode"
  obtain e0 where r0: "mem_reachable (e0, {demo_st1})"
    and s0: "?st e0 = \<lparr>a_next = 2, a_active = {1}, a_snap = (\<lambda>_. {}),
       a_writes = {(1, [7])}, a_vers = (\<lambda>_ _. None)([7] := [1 \<mapsto> Some [9]]), a_unv = (\<lambda>_. None)\<rparr>"
    using demo_run by metis
  obtain ec where ec: "txn_commit memory_engine demo_st1 e0 = (Ok (), ec)"
    "mvcc_ok memory_inv mem_data fixed_bincode ec" "?st ec = a_commit demo_st1 (?st e0)"
    using memory_mvcc.sim_commit(1) [OF memory_mvcc.reachable_sim [OF r0], of demo_st1]
    by (auto simp: demo_st1_def)
  have rc: "mem_reachable (ec, {})"
    using reachable_step [OF r0 step_commit [where st = demo_st1, OF _ ec(1)]] by simp
  have bc: "begin_state (?st ec) = demo_st3"
    by (simp add: ec(3) s0 begin_state_def demo_st3_def a_commit_def demo_st1_def)
  obtain e1 where e1: "mem_step (Begin demo_st3) (ec, {}) (e1, {demo_st3})" "?st e1 = a_begin (?st ec)"
    using mem_begin_step [OF ec(2), of "{}"] by (auto simp: bc) (auto simp: ec(3) s0)
  have r1: "mem_reachable (e1, {demo_st3})" by (rule reachable_step [OF rc e1(1)])
  have v: "a_vers (?st e1) [7] = [1 \<mapsto> Some [9]]" by (simp add: e1(2) ec(3) s0)
  have "versions_from 3 [7] (?st e1) = {}" by (auto simp: versions_from_def v word_le_nat_alt split: if_splits)
  then have "\<not> a_conflict demo_st3 [7] (?st e1)"
    by (simp add: a_conflict_def conflict_from_def demo_st3_def)
  then obtain e2 where e2: "txn_write_version memory_engine fixed_bincode demo_st3 [7] (Some [8]) e1 = (Ok (), e2)"
    "?st e2 = a_write demo_st3 [7] (Some [8]) (?st e1)"
    using memory_mvcc.sim_write(2) [OF memory_mvcc.reachable_sim [OF r1], of demo_st3 "[7]" "Some [8]"]
    by (auto simp: demo_st3_def)
  have w: "mem_step (Write demo_st3 [7] (Some [8])) (e1, {demo_st3}) (e2, {demo_st3})"
    by (rule step_write) (simp_all add: e2(1))
  have "a_vers (?st e2) [7] 1 = Some (Some [9])" "a_vers (?st e2) [7] 2 = Some (Some [8])"
    by (simp_all add: e2(2) a_write_def v demo_st3_def)
  with that [OF r1 reachable_step [OF r1 w] w] show ?thesis by blast
qed

lemma mem_stored:
  assumes "mem_reachable (e, T)" "a_vers (mvcc_state mem_data fixed_bincode e) k v = Some x"
  obtains b where "e_get memory_engine (mkey_bytes (Version k v)) e = (Ok (Some b), e)"
proof -
  have "store_of (mem_data e) (Version k v) \<noteq> None"
    using assms(2) by (auto simp: mvcc_state_def abs_sel)
  with that show ?thesis
    using memory_mvcc.get_key [OF simD(1) [OF memory_mvcc.reachable_sim [OF assms(1)]], of "Version k v"]
    by (auto simp del: mkey_bytes.simps)
qed

lemma state_sel:
  "v \<in> a_active (mvcc_state view B e) \<longleftrightarrow> store_of (view e) (TxnActive v) \<noteq> None"
  "(v, k) \<in> a_writes (mvcc_state view B e) \<longleftrightarrow> store_of (view e) (TxnWrite v k) \<noteq> None"
  "a_vers (mvcc_state view B e) k v =
     map_option (\<lambda>b. from_ok (de_val B b)) (store_of (view e) (Version k v))"
  by (simp_all add: mvcc_state_def abs_sel)

text \<open>(C5) Snapshot isolation.  For every storage engine that meets its contract: whatever other
  transactions begin, write, commit, roll back or abandon, in any interleaving, a transaction that
  stays open reads the same value for every key as before, and reading never fails.\<close>

theorem mvcc_snapshot_isolation:
  assumes "storage_engine E einv view fits" and "bincode_ok B"
    and "mvcc_reachable E B fits einv view (e, T)" and "st \<in> T"
    and "mvcc_run E B fits evs (e, T) (e', T')" and "\<forall>ev \<in> set evs. st \<notin> acts ev"
  shows "\<exists>x. txn_get E B st k e = (Ok x, e) \<and> txn_get E B st k e' = (Ok x, e')"
proof -
  note M = mvcc_storeI [OF assms(1,2)]
  note sim = mvcc_store.reachable_sim [OF M assms(3)]
  note sim' = mvcc_store.run_keeps_sim [OF M assms(5) sim]
  have "a_read st (mvcc_state view B e') k = a_read st (mvcc_state view B e) k"
    using mvcc_store.run_reads_stable [OF M assms(5) sim, of st k] assms(4,6) by simp
  then show ?thesis
    by (simp add: mvcc_store.get_ok [OF M simD(1) [OF sim]] mvcc_store.get_ok [OF M simD(1) [OF sim']])
qed

theorem mvcc_snapshot_isolation_witness:
  "\<exists>e e'. mem_reachable (e, {demo_st1}) \<and>
     mem_step (Begin demo_st2) (e, {demo_st1}) (e', {demo_st1, demo_st2}) \<and>
     fst (txn_get memory_engine fixed_bincode demo_st1 [7] e) =
     fst (txn_get memory_engine fixed_bincode demo_st1 [7] e')"
proof -
  obtain e2 e3 where run: "mem_reachable (e2, {demo_st1})"
    "mem_step (Begin demo_st2) (e2, {demo_st1}) (e3, {demo_st1, demo_st2})"
    using demo_run by metis
  then obtain x where
    "txn_get memory_engine fixed_bincode demo_st1 [7] e2 = (Ok x, e2)"
    "txn_get memory_engine fixed_bincode demo_st1 [7] e3 = (Ok x, e3)"
    using mvcc_snapshot_isolation [OF mem_contract run(1) _ run_single [OF run(2)], of demo_st1 "[7]"]
    by auto
  with run show ?thesis by (metis fst_conv)
qed

text \<open>(C15) Time travel.  Once a read-write transaction has begun at a version, a read-only transaction as
  of that version succeeds at any later time, whatever has happened in between, and reads for every
  key what the read-write transaction read when it began.\<close>

theorem mvcc_time_travel:
  assumes "storage_engine E einv view fits" and "bincode_ok B"
    and "mvcc_reachable E B fits einv view (e, T)"
    and "mvcc_step E B fits (Begin st) (e, T) (e1, T1)" and "mvcc_run E B fits evs (e1, T1) (e2, T2)"
  shows "\<exists>st'. mvcc_begin_as_of E B (ts_version st) e2 = (Ok st', e2) \<and> ts_read_only st' \<and>
    (\<exists>x. txn_get E B st' k e2 = (Ok x, e2) \<and> txn_get E B st k e1 = (Ok x, e1))"
proof -
  note M = mvcc_storeI [OF assms(1,2)]
  note sim = mvcc_store.reachable_sim [OF M assms(3)]
  note sim1 = mvcc_store.step_keeps_sim [OF M assms(4) sim]
  note sim2 = mvcc_store.run_keeps_sim [OF M assms(5) sim1]
  let ?a = "mvcc_state view B e"
  have b: "st = begin_state ?a" "mvcc_state view B e1 = a_begin ?a" "unat (a_next ?a) + 1 < 2 ^ 64"
    using assms(4) mvcc_store.sim_begin [OF M simD(1) [OF sim]] by (auto elim: mvcc_stepE)
  have v: "ts_version st < a_next (mvcc_state view B e1)"
    using next_succ [OF b(3)] by (simp add: b(1,2))
  have "a_read st (mvcc_state view B e1) k =
      a_read (as_of_state (ts_version st) (mvcc_state view B e1)) (mvcc_state view B e1) k"
    using begin_reads_as_of [OF simD(2) [OF sim]] by (simp add: b(1,2))
  then show ?thesis
    using mvcc_store.run_as_of_stable [OF M assms(5) sim1, of "ts_version st" k] v
      mvcc_store.begin_as_of_ok [OF M simD(1) [OF sim2] refl, of "ts_version st"]
      mvcc_store.get_ok [OF M simD(1) [OF sim1]] mvcc_store.get_ok [OF M simD(1) [OF sim2]]
    by (simp add: mvcc_begin_as_of_def) (simp add: as_of_state_def)
qed

theorem mvcc_time_travel_witness:
  "\<exists>e1 e2 st'. mem_step (Begin demo_st1) (memory_new, {}) (e1, {demo_st1}) \<and>
     mem_step (Write demo_st1 [7] (Some [9])) (e1, {demo_st1}) (e2, {demo_st1}) \<and>
     mvcc_begin_as_of memory_engine fixed_bincode 1 e2 = (Ok st', e2) \<and>
     fst (txn_get memory_engine fixed_bincode st' [7] e2) =
     fst (txn_get memory_engine fixed_bincode demo_st1 [7] e1)"
proof -
  obtain e1 e2 where run: "mem_reachable (memory_new, {})"
    "mem_step (Begin demo_st1) (memory_new, {}) (e1, {demo_st1})"
    "mem_step (Write demo_st1 [7] (Some [9])) (e1, {demo_st1}) (e2, {demo_st1})"
    using demo_run by metis
  with mvcc_time_travel [OF mem_contract run(1,2) run_single [OF run(3)], of "[7]"]
  show ?thesis by (fastforce simp: demo_st1_def)
qed



text \<open>(C16) No lost updates.  When two versions of a key are stored, the transaction that wrote the newer
  one had the older one in its snapshot: a time-travel query at the newer version sees the older
  one.  So no write ever overwrites a concurrent write it could not see.\<close>

theorem mvcc_no_lost_update:
  assumes "storage_engine E einv view fits" and "bincode_ok B"
    and "mvcc_reachable E B fits einv view (e, T)"
    and "e_get E (mkey_bytes (Version k u)) e = (Ok (Some a), e)"
    and "e_get E (mkey_bytes (Version k v)) e = (Ok (Some b), e)" and "u < v"
  shows "\<exists>st. mvcc_begin_as_of E B v e = (Ok st, e) \<and> is_visible st u"
proof -
  note M = mvcc_storeI [OF assms(1,2)]
  note sim = mvcc_store.reachable_sim [OF M assms(3)]
  let ?a = "mvcc_state view B e"
  have stored: "a_vers ?a k u \<noteq> None" "a_vers ?a k v \<noteq> None"
    using assms(4,5) mvcc_store.get_key [OF M simD(1) [OF sim]]
    by (simp_all add: state_sel del: mkey_bytes.simps)
  then have "u \<notin> a_snap ?a v" "v < a_next ?a"
    using a_invD(6,8) [OF simD(2) [OF sim]] assms(6) by blast+
  then show ?thesis
    using mvcc_store.begin_as_of_ok [OF M simD(1) [OF sim] refl, of v] assms(6)
    by (simp add: mvcc_begin_as_of_def is_visible_def) (simp add: as_of_state_def)
qed

theorem mvcc_no_lost_update_witness:
  "\<exists>e st. mem_reachable (e, {demo_st3}) \<and>
     mvcc_begin_as_of memory_engine fixed_bincode 2 e = (Ok st, e) \<and> is_visible st 1"
proof -
  obtain e2 where run: "mem_reachable (e2, {demo_st3})"
    "a_vers (mvcc_state mem_data fixed_bincode e2) [7] 1 = Some (Some [9])"
    "a_vers (mvcc_state mem_data fixed_bincode e2) [7] 2 = Some (Some [8])"
    using demo_run_commit by metis
  obtain a b where "e_get memory_engine (mkey_bytes (Version [7] 1)) e2 = (Ok (Some a), e2)"
    "e_get memory_engine (mkey_bytes (Version [7] 2)) e2 = (Ok (Some b), e2)"
    using mem_stored [OF run(1,2)] mem_stored [OF run(1,3)] by metis
  from mvcc_no_lost_update [OF mem_contract run(1) this] run(1) show ?thesis by auto
qed

text \<open>(C17) Commits become visible, and atomically.  Committing succeeds; a transaction that begins next
  reads, for every key the committed transaction had written, what that transaction read last; and
  the committed transaction can no longer be resumed.\<close>

theorem mvcc_commit_visible:
  assumes "storage_engine E einv view fits" and "bincode_ok B"
    and "mvcc_reachable E B fits einv view (e, T)" and "st \<in> T" and "\<not> ts_read_only st"
  shows "\<exists>e1. txn_commit E st e = (Ok (), e1) \<and>
    txn_resume E st e1 = (Err (Internal ''No active transaction at version {}''), e1) \<and>
    (\<forall>k b st2 e2 T2. e_get E (mkey_bytes (TxnWrite (ts_version st) k)) e = (Ok (Some b), e) \<longrightarrow>
       mvcc_step E B fits (Begin st2) (e1, T - {st}) (e2, T2) \<longrightarrow>
       (\<exists>x. txn_get E B st k e = (Ok x, e) \<and> txn_get E B st2 k e2 = (Ok x, e2)))"
proof -
  note M = mvcc_storeI [OF assms(1,2)]
  note sim = mvcc_store.reachable_sim [OF M assms(3)]
  let ?a = "mvcc_state view B e"
  obtain e1 where e1: "txn_commit E st e = (Ok (), e1)" "mvcc_ok einv view B e1"
    "mvcc_state view B e1 = a_commit st ?a"
    using mvcc_store.sim_commit(1) [OF M sim assms(4,5)] by blast
  have "\<exists>x. txn_get E B st k e = (Ok x, e) \<and> txn_get E B st2 k e2 = (Ok x, e2)"
    if w: "e_get E (mkey_bytes (TxnWrite (ts_version st) k)) e = (Ok (Some b), e)"
      and step: "mvcc_step E B fits (Begin st2) (e1, T - {st}) (e2, T2)" for k b st2 e2 T2
  proof -
    have b: "st2 = begin_state (a_commit st ?a)" "mvcc_ok einv view B e2"
      "mvcc_state view B e2 = a_begin (a_commit st ?a)"
      using step mvcc_store.sim_begin [OF M e1(2)] by (auto simp: e1(3) elim: mvcc_stepE)
    have "(ts_version st, k) \<in> a_writes ?a"
      using w mvcc_store.get_key [OF M simD(1) [OF sim]]
      by (simp add: state_sel del: mkey_bytes.simps)
    then show ?thesis
      using commit_then_begin_reads [OF simD(2) [OF sim] simD(3) [OF sim assms(4)] assms(5) _ refl]
        mvcc_store.get_ok [OF M simD(1) [OF sim]] mvcc_store.get_ok [OF M b(2)] b by simp
  qed
  moreover have "txn_resume E st e1 = (Err (Internal ''No active transaction at version {}''), e1)"
    using mvcc_store.resume_ok [OF M e1(2)] assms(5) by (simp add: e1(3))
  ultimately show ?thesis using e1(1) by blast
qed

theorem mvcc_commit_visible_witness:
  "\<exists>e e1. mem_reachable (e, {demo_st3}) \<and> txn_commit memory_engine demo_st3 e = (Ok (), e1)"
proof -
  obtain e2 where run: "mem_reachable (e2, {demo_st3})" using demo_run_commit by metis
  with mvcc_commit_visible [OF mem_contract run, of demo_st3] show ?thesis by (auto simp: demo_st3_def)
qed

text \<open>(C18) Rollback undoes.  Rolling back an open read-write transaction succeeds and removes from the engine the
  keys that carry the transaction's number - its mark as active, its write records and the versions it wrote -
  and nothing else: every other key, of whatever kind, has the value it had before.  The transaction can no
  longer be resumed.\<close>

theorem mvcc_rollback_undoes:
  assumes "storage_engine E einv view fits" and "bincode_ok B"
    and "mvcc_reachable E B fits einv view (e, T)" and "st \<in> T" and "\<not> ts_read_only st"
  shows "\<exists>e1. txn_rollback E st e = (Ok (), e1) \<and>
    (\<forall>b. e_get E b e1 = (if \<exists>k. b \<in> {mkey_bytes (TxnActive (ts_version st)), mkey_bytes (TxnWrite (ts_version st) k),
           mkey_bytes (Version k (ts_version st))}
         then Ok None else fst (e_get E b e), e1)) \<and>
    txn_resume E st e1 = (Err (Internal ''No active transaction at version {}''), e1)"
proof -
  note M = mvcc_storeI [OF assms(1,2)]
  note sim = mvcc_store.reachable_sim [OF M assms(3)]
  obtain e1 where e1: "txn_rollback E st e = (Ok (), e1)" "mvcc_ok einv view B e1"
    "mvcc_state view B e1 = a_rollback st (mvcc_state view B e)"
    "\<And>x. store_of (view e1) x = (if undone (ts_version st) x then None else store_of (view e) x)"
    using mvcc_store.sim_commit(2) [OF M sim assms(4,5)] by blast
  have "e_get E b e1 = (if \<exists>x. undone (ts_version st) x \<and> b = mkey_bytes x then Ok None else fst (e_get E b e), e1)" for b
  proof (cases "\<exists>x. b = mkey_bytes x")
    case True
    then show ?thesis
      using mvcc_store.get_key [OF M e1(2)] mvcc_store.get_key [OF M simD(1) [OF sim]] e1(4) by (auto simp del: mkey_bytes.simps)
  next
    case False
    then show ?thesis using mvcc_store.get_other [OF M e1(2)] mvcc_store.get_other [OF M simD(1) [OF sim]] by auto
  qed
  moreover have "(\<exists>x. undone v x \<and> b = mkey_bytes x) \<longleftrightarrow>
      (\<exists>k. b \<in> {mkey_bytes (TxnActive v), mkey_bytes (TxnWrite v k), mkey_bytes (Version k v)})" for v b
    unfolding undone_iff by blast
  moreover have "txn_resume E st e1 = (Err (Internal ''No active transaction at version {}''), e1)"
    using mvcc_store.resume_ok [OF M e1(2)] assms(5) by (simp add: e1(3))
  ultimately show ?thesis using e1(1) by (auto simp del: mkey_bytes.simps)
qed

theorem mvcc_rollback_undoes_witness:
  "\<exists>e e1. mem_reachable (e, {demo_st3}) \<and> txn_rollback memory_engine demo_st3 e = (Ok (), e1) \<and>
     e_get memory_engine (mkey_bytes (Version [7] 2)) e1 = (Ok None, e1) \<and>
     e_get memory_engine (mkey_bytes NextVersion) e1 = (fst (e_get memory_engine (mkey_bytes NextVersion) e), e1)"
proof -
  obtain e2 where run: "mem_reachable (e2, {demo_st3})" using demo_run_commit by metis
  with mvcc_rollback_undoes [OF mem_contract run, of demo_st3] show ?thesis
    by (auto simp: demo_st3_def mkey_bytes_inject simp del: mkey_bytes.simps)
qed

end
