(* ===== verification/Mvcc_Scan.thy ===== *)
theory Mvcc_Scan
  imports Mvcc_Txn "HOL-Library.Product_Lexorder"
begin

text \<open>
  Scans of the MVCC layer (\<^verbatim>\<open>Scan\<close>, \<^verbatim>\<open>ScanIterator\<close> and \<^verbatim>\<open>VersionIterator\<close> of
  \<^verbatim>\<open>src/src/storage/mvcc.rs\<close>).  The iterators are shown to compute, forwards and backwards, two list
  functions on the visible versions; on the ordered versions of a store both give the newest visible
  live value of each key, which is what \<^verbatim>\<open>get\<close> returns for it.
\<close>

section \<open>The iterators on well-formed items\<close>

definition raw :: "version_item list \<Rightarrow> raw_items" where
  "raw xs = map (\<lambda>(k, v, b). Ok (mkey_bytes (Version k v), b)) xs"

definition seen :: "transaction_state \<Rightarrow> version_item list \<Rightarrow> version_item list" where
  "seen st xs = filter (\<lambda>(k, v, b). is_visible st v) xs"

lemma raw_simps [simp]:
  "raw [] = []" "raw ((k, v, b) # xs) = Ok (mkey_bytes (Version k v), b) # raw xs"
  "rev (raw xs) = raw (rev xs)"
  by (simp_all add: raw_def rev_map)

lemma seen_simps [simp]:
  "seen st [] = []"
  "seen st ((k, v, b) # xs) = (if is_visible st v then (k, v, b) # seen st xs else seen st xs)"
  "seen st (rev xs) = rev (seen st xs)"
  by (simp_all add: seen_def rev_filter)

lemma version_try_next_raw:
  "seen st xs = [] \<Longrightarrow> version_try_next st (raw xs) = (Ok None, [])"
  "seen st xs = y # ys \<Longrightarrow> \<exists>xs'. version_try_next st (raw xs) = (Ok (Some y), raw xs') \<and> seen st xs' = ys"
  by (induction xs) (auto simp: decode_visible_def simp del: mkey_bytes.simps split: if_splits)

text \<open>The items that an iterator still has to yield.\<close>

inductive holds :: "scan_iterator \<Rightarrow> version_item list \<Rightarrow> bool" where
  holds_ahead: "si_inner it = raw xs \<Longrightarrow> si_peeked it = None \<Longrightarrow> ys = seen (si_txn it) xs \<Longrightarrow> holds it ys"
| holds_done: "si_inner it = raw xs \<Longrightarrow> si_peeked it = Some None \<Longrightarrow> seen (si_txn it) xs = [] \<Longrightarrow> holds it []"
| holds_peeked: "si_inner it = raw xs \<Longrightarrow> si_peeked it = Some (Some (Ok y)) \<Longrightarrow> ys = seen (si_txn it) xs \<Longrightarrow>
    holds it (y # ys)"

lemma holds_new: "holds (scan_new st (raw xs)) (seen st xs)"
  by (rule holds_ahead [of _ xs]) (simp_all add: scan_new_def)

lemma holds_NilE:
  assumes "holds it []"
  obtains xs where "si_inner it = raw xs" "seen (si_txn it) xs = []" "si_peeked it = None"
    | xs where "si_inner it = raw xs" "seen (si_txn it) xs = []" "si_peeked it = Some None"
  using assms by (cases rule: holds.cases) auto

lemma holds_ConsE:
  assumes "holds it (y # ys)"
  obtains xs xs' where "version_try_next (si_txn it) (si_inner it) = (Ok (Some y), raw xs')"
      "seen (si_txn it) xs' = ys" "si_peeked it = None"
    | xs where "si_inner it = raw xs" "seen (si_txn it) xs = ys" "si_peeked it = Some (Some (Ok y))"
  using assms
proof (cases rule: holds.cases)
  case (holds_ahead xs)
  then show ?thesis using version_try_next_raw(2) [of "si_txn it" xs y ys] that(1) by auto
qed (auto intro: that(2))

lemma peekable_next_holds:
  "holds it [] \<Longrightarrow> \<exists>it'. peekable_next it = (None, it')"
  "holds it (y # ys) \<Longrightarrow> \<exists>it'. peekable_next it = (Some (Ok y), it') \<and> holds it' ys"
proof -
  show "holds it [] \<Longrightarrow> \<exists>it'. peekable_next it = (None, it')"
    by (erule holds_NilE) (simp_all add: peekable_next_def version_try_next_raw(1))
  assume "holds it (y # ys)"
  then show "\<exists>it'. peekable_next it = (Some (Ok y), it') \<and> holds it' ys"
    by (cases rule: holds_ConsE) (auto simp: peekable_next_def intro!: holds_ahead)
qed

lemma peekable_peek_holds:
  "holds it [] \<Longrightarrow> \<exists>it'. peekable_peek it = (None, it') \<and> holds it' []"
  "holds it (y # ys) \<Longrightarrow> \<exists>it'. peekable_peek it = (Some (Ok y), it') \<and> holds it' (y # ys)"
proof -
  assume "holds it []"
  then show "\<exists>it'. peekable_peek it = (None, it') \<and> holds it' []"
  proof (cases rule: holds_NilE)
    case (1 xs)
    then show ?thesis
      by (auto simp: peekable_peek_def version_try_next_raw(1) intro!: holds_done [of _ "[]"])
  next
    case (2 xs)
    then show ?thesis by (auto simp: peekable_peek_def intro: holds_done)
  qed
next
  assume "holds it (y # ys)"
  then show "\<exists>it'. peekable_peek it = (Some (Ok y), it') \<and> holds it' (y # ys)"
    by (cases rule: holds_ConsE) (auto simp: peekable_peek_def intro!: holds_peeked)
qed

section \<open>Forwards\<close>

fun live_fwd :: "bincode \<Rightarrow> version_item list \<Rightarrow> (bytes \<times> bytes) list" where
  "live_fwd B [] = []"
| "live_fwd B ((k, v, b) # ys) =
     (if ys \<noteq> [] \<and> fst (hd ys) = k then live_fwd B ys
      else (case from_ok (de_val B b) of Some x \<Rightarrow> (k, x) # live_fwd B ys | None \<Rightarrow> live_fwd B ys))"

lemma collect_next_cong: "scan_try_next B it = scan_try_next B it' \<Longrightarrow> collect_next B it = collect_next B it'"
  by (simp add: collect_next.simps)

lemma collect_next_holds:
  assumes "holds it ys" "\<forall>(k, v, b) \<in> set ys. is_ok (de_val B b)"
  shows "collect_next B it = Ok (live_fwd B ys)"
  using assms
proof (induction ys arbitrary: it rule: list.induct)
  case Nil
  then obtain it' where "peekable_next it = (None, it')" using peekable_next_holds(1) by blast
  then show ?case by (simp add: collect_next.simps scan_try_next.simps)
next
  case (Cons y ys)
  obtain k v b where y: "y = (k, v, b)" by (cases y)
  obtain x where x: "de_val B b = Ok x" using Cons.prems(2) by (auto simp: y is_ok_cases)
  obtain it1 where n: "peekable_next it = (Some (Ok (k, v, b)), it1)" and it1: "holds it1 ys"
    using peekable_next_holds(2) [OF Cons.prems(1)] by (auto simp: y)
  obtain it2 where p: "peekable_peek it1 = (if ys = [] then None else Some (Ok (hd ys)), it2)"
    and it2: "holds it2 ys"
  proof (cases ys)
    case Nil
    then show thesis using that peekable_peek_holds(1) [of it1] it1 by auto
  next
    case (Cons z zs)
    then show thesis using that peekable_peek_holds(2) [of it1 z zs] it1 by auto
  qed
  have IH: "collect_next B it2 = Ok (live_fwd B ys)"
    using Cons.IH [OF it2] Cons.prems(2) by simp
  show ?case
  proof (cases "ys \<noteq> [] \<and> fst (hd ys) = k \<or> x = None")
    case True
    then have "scan_try_next B it = scan_try_next B it2"
      by (auto simp: scan_try_next.simps [of B it] n p x split: prod.splits)
    then have "collect_next B it = collect_next B it2" by (rule collect_next_cong)
    with True IH show ?thesis by (auto simp: y x)
  next
    case False
    then obtain z where "x = Some z" by blast
    with False have "scan_try_next B it = (Ok (Some (k, z)), it2)"
      by (auto simp: scan_try_next.simps [of B it] n p x split: prod.splits)
    with False IH \<open>x = Some z\<close> show ?thesis by (auto simp: collect_next.simps [of B it] y x)
  qed
qed

section \<open>Backwards\<close>

fun live_back :: "bincode \<Rightarrow> bytes option \<Rightarrow> version_item list \<Rightarrow> (bytes \<times> bytes) list" where
  "live_back B prev [] = []"
| "live_back B prev ((k, v, b) # zs) =
     (if prev = Some k then live_back B prev zs
      else (case from_ok (de_val B b) of
              Some x \<Rightarrow> (k, x) # live_back B (Some k) zs
            | None \<Rightarrow> live_back B (Some k) zs))"

definition holds_back :: "scan_iterator \<Rightarrow> version_item list \<Rightarrow> bool" where
  "holds_back it zs \<longleftrightarrow> si_peeked it = None \<and>
     (\<exists>xs. si_inner it = raw xs \<and> zs = rev (seen (si_txn it) xs))"

lemma peekable_next_back_holds:
  "holds_back it [] \<Longrightarrow> \<exists>it'. peekable_next_back it = (None, it')"
  "holds_back it (z # zs) \<Longrightarrow> \<exists>it'. peekable_next_back it = (Some (Ok z), it') \<and> holds_back it' zs \<and>
     si_last_back it' = si_last_back it"
proof -
  assume "holds_back it []"
  then show "\<exists>it'. peekable_next_back it = (None, it')"
    using version_try_next_raw(1) [of "si_txn it"]
    by (fastforce simp: holds_back_def peekable_next_back_def version_try_next_back_def)
next
  assume "holds_back it (z # zs)"
  then obtain xs where xs: "si_peeked it = None" "si_inner it = raw xs" "seen (si_txn it) (rev xs) = z # zs"
    by (auto simp: holds_back_def intro: that)
  then obtain xs' where "version_try_next (si_txn it) (raw (rev xs)) = (Ok (Some z), raw xs')"
    "seen (si_txn it) xs' = zs"
    using version_try_next_raw(2) by blast
  with xs show "\<exists>it'. peekable_next_back it = (Some (Ok z), it') \<and> holds_back it' zs \<and>
     si_last_back it' = si_last_back it"
    by (auto simp: holds_back_def peekable_next_back_def version_try_next_back_def
        intro!: exI [of _ "rev xs'"])
qed

lemma collect_next_back_cong:
  "scan_try_next_back B it = scan_try_next_back B it' \<Longrightarrow> collect_next_back B it = collect_next_back B it'"
  by (simp add: collect_next_back.simps)

lemma collect_next_back_holds:
  assumes "holds_back it zs" "\<forall>(k, v, b) \<in> set zs. is_ok (de_val B b)"
  shows "collect_next_back B it = Ok (live_back B (si_last_back it) zs)"
  using assms
proof (induction zs arbitrary: it)
  case Nil
  then obtain it' where "peekable_next_back it = (None, it')" using peekable_next_back_holds(1) by blast
  then show ?case by (simp add: collect_next_back.simps scan_try_next_back.simps)
next
  case (Cons z zs)
  obtain k v b where z: "z = (k, v, b)" by (cases z)
  obtain x where x: "de_val B b = Ok x" using Cons.prems(2) by (auto simp: z is_ok_cases)
  obtain it1 where n: "peekable_next_back it = (Some (Ok (k, v, b)), it1)" and it1: "holds_back it1 zs"
    and lb: "si_last_back it1 = si_last_back it"
    using peekable_next_back_holds(2) [OF Cons.prems(1)] by (auto simp: z)
  let ?it2 = "it1\<lparr>si_last_back := Some k\<rparr>"
  have it2: "holds_back ?it2 zs" using it1 by (simp add: holds_back_def)
  have IH: "collect_next_back B it1 = Ok (live_back B (si_last_back it) zs)"
    "collect_next_back B ?it2 = Ok (live_back B (Some k) zs)"
    using Cons.IH [OF it1] Cons.IH [OF it2] Cons.prems(2) lb by simp_all
  consider "si_last_back it = Some k" | "si_last_back it \<noteq> Some k" "x = None"
    | y where "si_last_back it \<noteq> Some k" "x = Some y" by blast
  then show ?case
  proof cases
    case 1
    then have "scan_try_next_back B it = scan_try_next_back B it1"
      by (simp add: scan_try_next_back.simps [of B it] n lb)
    then have "collect_next_back B it = collect_next_back B it1" by (rule collect_next_back_cong)
    with 1 IH(1) show ?thesis by (simp add: z)
  next
    case 2
    then have "scan_try_next_back B it = scan_try_next_back B ?it2"
      by (simp add: scan_try_next_back.simps [of B it] n lb x)
    then have "collect_next_back B it = collect_next_back B ?it2" by (rule collect_next_back_cong)
    with 2 IH(2) show ?thesis by (simp add: z x)
  next
    case 3
    then have "scan_try_next_back B it = (Ok (Some (k, y)), ?it2)"
      by (simp add: scan_try_next_back.simps [of B it] n lb x)
    with 3 IH(2) show ?thesis by (simp add: collect_next_back.simps [of B it] z x)
  qed
qed

section \<open>The two directions agree and list the newest live values\<close>

lemma live_back_snoc:
  "live_back B prev (zs @ [(k, v, b)]) = live_back B prev zs @
     (if (if zs = [] then prev else Some (fst (last zs))) = Some k then []
      else (case from_ok (de_val B b) of Some x \<Rightarrow> [(k, x)] | None \<Rightarrow> []))"
  by (induction zs arbitrary: prev) (auto split: option.splits)

lemma live_back_rev: "live_back B None (rev ys) = rev (live_fwd B ys)"
proof (induction ys)
  case (Cons y ys)
  obtain k v b where "y = (k, v, b)" by (cases y)
  with Cons show ?case by (auto simp: live_back_snoc last_rev split: option.splits)
qed simp

definition vsorted :: "version_item list \<Rightarrow> bool" where
  "vsorted = sorted_wrt (\<lambda>(k, v, b) (l, w, c). k < l \<or> k = l \<and> v < w)"

lemma vsorted_Cons:
  "vsorted ((k, v, b) # ys) \<longleftrightarrow> vsorted ys \<and> (\<forall>(l, w, c) \<in> set ys. k < l \<or> k = l \<and> v < w)"
  by (auto simp: vsorted_def)

lemma live_fwd_keys: "(k, x) \<in> set (live_fwd B ys) \<Longrightarrow> k \<in> fst ` set ys"
  by (induction ys) (auto split: option.splits if_splits)

lemma live_fwd_ordered: "vsorted ys \<Longrightarrow> ordered (live_fwd B ys)"
proof (induction ys)
  case (Cons y ys)
  obtain k v b where y: "y = (k, v, b)" by (cases y)
  have sorted: "vsorted ys" and after: "\<forall>(l, w, c) \<in> set ys. k < l \<or> k = l \<and> v < w"
    using Cons.prems by (auto simp: y vsorted_Cons)
  have "\<forall>l \<in> fst ` set ys. k < l" if "\<not> (ys \<noteq> [] \<and> fst (hd ys) = k)"
  proof (cases ys)
    case (Cons z zs)
    obtain l w c where z: "z = (l, w, c)" by (cases z)
    have "k < l" using after that Cons z by auto
    moreover have "l \<le> l'" if "(l', w', c') \<in> set zs" for l' w' c'
      using sorted that by (auto simp: Cons z vsorted_Cons)
    ultimately show ?thesis using Cons z by fastforce
  qed simp
  then have "k < l" if "\<not> (ys \<noteq> [] \<and> fst (hd ys) = k)" "(l, x) \<in> set (live_fwd B ys)" for l x
    using that live_fwd_keys [of l x B ys] by blast
  with Cons.IH [OF sorted] show ?case
    by (auto simp: y split: option.splits)
qed simp

lemma live_fwd_newest:
  "vsorted ys \<Longrightarrow> (k, x) \<in> set (live_fwd B ys) \<longleftrightarrow>
     (\<exists>v b. (k, v, b) \<in> set ys \<and> (\<forall>w c. (k, w, c) \<in> set ys \<longrightarrow> w \<le> v) \<and> from_ok (de_val B b) = Some x)"
proof (induction ys)
  case (Cons y ys)
  obtain l v b where y: "y = (l, v, b)" by (cases y)
  have sorted: "vsorted ys" and after: "\<And>m w c. (m, w, c) \<in> set ys \<Longrightarrow> l < m \<or> l = m \<and> v < w"
    using Cons.prems by (auto simp: y vsorted_Cons)
  note IH = Cons.IH [OF sorted]
  show ?case
  proof (cases "ys \<noteq> [] \<and> fst (hd ys) = l")
    case True
    then obtain w c where hd: "(l, w, c) \<in> set ys" by (metis list.set_sel(1) prod.collapse)
    have lt: "v < w'" if "(l, w', c') \<in> set ys" for w' c' using after [OF that] by auto
    have "(\<exists>v b. (k, v, b) \<in> set (y # ys) \<and> (\<forall>w c. (k, w, c) \<in> set (y # ys) \<longrightarrow> w \<le> v) \<and>
        from_ok (de_val B b) = Some x) \<longleftrightarrow>
      (\<exists>v b. (k, v, b) \<in> set ys \<and> (\<forall>w c. (k, w, c) \<in> set ys \<longrightarrow> w \<le> v) \<and> from_ok (de_val B b) = Some x)"
      (is "(\<exists>v b. ?L v b) \<longleftrightarrow> (\<exists>v b. ?R v b)")
    proof -
      have "?L v' b' \<Longrightarrow> ?R v' b'" for v' b' using hd lt by (force simp: y)
      moreover have "?R v' b' \<Longrightarrow> ?L v' b'" for v' b' using lt [of v' b'] by (auto simp: y less_imp_le)
      ultimately show ?thesis by blast
    qed
    with True IH show ?thesis by (simp add: y)
  next
    case False
    have gt: "l < m" if "(m, w, c) \<in> set ys" for m w c
    proof (cases ys)
      case Nil
      then show ?thesis using that by simp
    next
      case (Cons z zs)
      obtain m' w' c' where z: "z = (m', w', c')" by (cases z)
      have "l < m'" using after [of m' w' c'] False Cons z by auto
      moreover have "m' \<le> m" using sorted that by (auto simp: Cons z vsorted_Cons)
      ultimately show ?thesis by simp
    qed
    then have none: "(l, w, c) \<notin> set ys" for w c by auto
    then have "(l, x) \<notin> set (live_fwd B ys)" using live_fwd_keys [of l x B ys] by auto
    with False none have "?thesis" if "k = l"
      using that by (auto simp: y split: option.splits)
    moreover have "(k, v', b') \<in> set (y # ys) \<longleftrightarrow> (k, v', b') \<in> set ys" if "k \<noteq> l" for v' b'
      using that by (simp add: y)
    then have "?thesis" if "k \<noteq> l"
      using that False IH by (simp add: y split: option.splits)
    ultimately show ?thesis by blast
  qed
qed simp

section \<open>Scans of a store\<close>

definition stored_items :: "(bytes \<times> bytes) list \<Rightarrow> (bytes \<Rightarrow> bool) \<Rightarrow> version_item list" where
  "stored_items m Q = map (\<lambda>(k, v). (k, v, the (store_of m (Version k v))))
     (sorted_list_of_set {x. Q (fst x) \<and> store_of m (Version (fst x) (snd x)) \<noteq> None})"

lemma finite_versions_stored: "finite {x. Q (fst x) \<and> store_of m (Version (fst x) (snd x)) \<noteq> None}"
  using mvcc_keys.finite_kv [of "\<lambda>x. Version (fst x) (snd x)"] by (simp add: inj_def)

lemma set_stored_items:
  "(k, v, b) \<in> set (stored_items m Q) \<longleftrightarrow> Q k \<and> store_of m (Version k v) = Some b"
  unfolding stored_items_def set_map set_sorted_list_of_set [OF finite_versions_stored]
  by (auto simp: image_iff)

lemma vsorted_stored_items: "vsorted (stored_items m Q)"
  unfolding stored_items_def vsorted_def sorted_wrt_map
  by (rule sorted_wrt_mono_rel [OF _ strict_sorted_list_of_set]) (auto simp: less_prod_def')

lemma vsorted_seen: "vsorted ys \<Longrightarrow> vsorted (seen st ys)"
  by (simp add: vsorted_def seen_def sorted_wrt_filter)

context mvcc_store
begin

lemma scan_stored:
  assumes ok: "mvcc_ok inv view B e"
    and sel: "\<And>x. P (mkey_bytes x) \<longleftrightarrow> (\<exists>k v. x = Version k v \<and> Q k)"
  shows "map Ok (filter (\<lambda>p. P (fst p)) (view e)) = raw (stored_items (view e) Q)"
proof -
  have inv: "inv e" "typed_keys (view e)" using ok by (auto simp: mvcc_ok_def)
  have "filter (\<lambda>p. P (fst p)) (view e) = map (scanned (view e) (\<lambda>x. Version (fst x) (snd x)))
      (sorted_list_of_set {x. Q (fst x) \<and> store_of (view e) (Version (fst x) (snd x)) \<noteq> None})"
    by (rule mvcc_keys.scan_typed [OF view_ordered [OF inv(1)] inv(2)])
      (auto simp: Version_bytes_less sel less_prod_def' simp del: mkey_bytes.simps)
  then show ?thesis
    by (simp add: raw_def stored_items_def scanned_by_def split_def comp_def del: mkey_bytes.simps)
qed

lemma live_is_read:
  assumes ok: "mvcc_ok inv view B e"
  shows "(k, x) \<in> set (live_fwd B (seen st (stored_items (view e) Q))) \<longleftrightarrow>
    Q k \<and> a_read st (mvcc_state view B e) k = Some x"
proof -
  let ?a = "mvcc_state view B e" and ?vs = "visible_versions st k (mvcc_state view B e)"
  have item: "(k, v, b) \<in> set (seen st (stored_items (view e) Q)) \<longleftrightarrow>
      Q k \<and> is_visible st v \<and> store_of (view e) (Version k v) = Some b" for v b
    by (auto simp: seen_def set_stored_items)
  have vs: "v \<in> ?vs \<longleftrightarrow> is_visible st v \<and> (\<exists>b. store_of (view e) (Version k v) = Some b)" for v
    by (auto simp: visible_versions_def state_sel)
  have "(\<exists>v b. (is_visible st v \<and> store_of (view e) (Version k v) = Some b) \<and>
      (\<forall>w \<in> ?vs. w \<le> v) \<and> from_ok (de_val B b) = Some x) \<longleftrightarrow> a_read st ?a k = Some x"
  proof (cases "?vs = {}")
    case True
    then show ?thesis using vs by (auto simp: a_read_def)
  next
    case False
    then have m: "Max ?vs \<in> ?vs" by (intro Max_in) simp_all
    then obtain b where b: "is_visible st (Max ?vs)" "store_of (view e) (Version k (Max ?vs)) = Some b"
      using vs by blast
    have "v = Max ?vs" if "v \<in> ?vs" "\<forall>w \<in> ?vs. w \<le> v" for v
      using that by (intro Max_eqI [symmetric]) auto
    then have "(\<exists>v b. (is_visible st v \<and> store_of (view e) (Version k v) = Some b) \<and>
        (\<forall>w \<in> ?vs. w \<le> v) \<and> from_ok (de_val B b) = Some x) \<longleftrightarrow> from_ok (de_val B b) = Some x"
      using b vs m by (metis Max_ge finite_versions(2) option.inject)
    moreover have "a_read st ?a k = from_ok (de_val B b)"
      using False b(2) by (simp add: a_read_def state_sel)
    ultimately show ?thesis by simp
  qed
  then show ?thesis
    unfolding live_fwd_newest [OF vsorted_seen [OF vsorted_stored_items]] item
    using vs by (auto 0 3)
qed

lemma stored_decodes:
  assumes ok: "mvcc_ok inv view B e"
  shows "\<forall>(k, v, b) \<in> set (seen st (stored_items (view e) Q)). is_ok (de_val B b)"
  using mvcc_okD(3) [OF ok] by (fastforce simp: seen_def set_stored_items)

lemma scan_to_vec_ok:
  assumes ok: "mvcc_ok inv view B e"
    and inner: "(case param of Range rng \<Rightarrow> e_scan E rng | Prefix pfx \<Rightarrow> scan_prefix E pfx) e =
      (Ok (raw (stored_items (view e) Q)), e)"
  shows "\<exists>kvs it. scan_to_vec E B st param e = (Ok kvs, e) \<and> ordered kvs \<and>
    (\<forall>k x. (k, x) \<in> set kvs \<longleftrightarrow> Q k \<and> txn_get E B st k e = (Ok (Some x), e)) \<and>
    scan_iter E st param e = (Ok it, e) \<and> collect_next_back B it = Ok (rev kvs)"
proof -
  let ?items = "stored_items (view e) Q"
  let ?it = "scan_new st (raw ?items)" and ?kvs = "live_fwd B (seen st ?items)"
  have it: "scan_iter E st param e = (Ok ?it, e)"
    using inner by (simp add: scan_iter_def bind_op_Ok)
  have "collect_next B ?it = Ok ?kvs"
    by (rule collect_next_holds [OF holds_new stored_decodes [OF ok]])
  with it have fwd: "scan_to_vec E B st param e = (Ok ?kvs, e)"
    by (simp add: scan_to_vec_def bind_op_Ok)
  have "holds_back ?it (rev (seen st ?items))" by (auto simp: holds_back_def scan_new_def)
  then have "collect_next_back B ?it = Ok (live_back B (si_last_back ?it) (rev (seen st ?items)))"
    by (rule collect_next_back_holds) (use stored_decodes [OF ok] in simp)
  then have bwd: "collect_next_back B ?it = Ok (rev ?kvs)"
    by (simp add: scan_new_def live_back_rev)
  show ?thesis
    using fwd it bwd live_fwd_ordered [OF vsorted_seen [OF vsorted_stored_items]] live_is_read [OF ok]
      get_ok [OF ok] by (intro exI [of _ ?kvs] exI [of _ ?it]) simp
qed

end

section \<open>Ranges and prefixes of user keys\<close>

fun raw_start :: "bytes bound \<Rightarrow> bytes bound" where
  "raw_start (Excluded k) = Excluded (mkey_bytes (Version k (- 1)))"
| "raw_start (Included k) = Included (mkey_bytes (Version k 0))"
| "raw_start Unbounded = Included (mkey_bytes (Version [] 0))"

fun raw_end :: "bytes bound \<Rightarrow> bytes bound" where
  "raw_end (Excluded k) = Excluded (mkey_bytes (Version k 0))"
| "raw_end (Included k) = Included (mkey_bytes (Version k (- 1)))"
| "raw_end Unbounded = Excluded [5]"

lemma txn_scan_raw: "txn_scan rng = Ok (Range (raw_start (fst rng), raw_end (snd rng)))"
  by (cases "fst rng"; cases "snd rng") (simp_all add: txn_scan_def del: mkey_bytes.simps)

lemma version_bound_iff:
  "above_start (raw_start s) (mkey_bytes (Version k v)) \<longleftrightarrow> above_start s k"
  "below_end (raw_end t) (mkey_bytes (Version k v)) \<longleftrightarrow> below_end t k"
proof -
  have top: "v < - 1 \<longleftrightarrow> v \<noteq> - 1" "\<not> - 1 < v" for v :: version
    using word_order.extremum [of v] by (metis order_less_le not_less)+
  show "above_start (raw_start s) (mkey_bytes (Version k v)) \<longleftrightarrow> above_start s k"
    by (cases s; cases k) (auto simp: Version_bytes_less top order_le_less word_gt_0 simp del: mkey_bytes.simps)
  show "below_end (raw_end t) (mkey_bytes (Version k v)) \<longleftrightarrow> below_end t k"
  proof (cases t)
    case Unbounded
    then show ?thesis by simp
  qed (auto simp: Version_bytes_less top order_le_less word_gt_0 simp del: mkey_bytes.simps)
qed

lemma raw_range_version:
  "in_range (raw_start s, raw_end t) (mkey_bytes x) \<longleftrightarrow> (\<exists>k v. x = Version k v \<and> in_range (s, t) k)"
proof (cases "\<exists>k v. x = Version k v")
  case True
  then show ?thesis
    by (auto simp: in_range_def version_bound_iff simp del: mkey_bytes.simps)
next
  case False
  then have "\<not> above_start (raw_start s) (mkey_bytes x) \<or> \<not> below_end (raw_end t) (mkey_bytes x)"
    by (cases s; cases t; cases x) auto
  with False show ?thesis by (auto simp: in_range_def)
qed

lemma raw_range_panics: "range_panics (raw_start s, raw_end t) \<longleftrightarrow> range_panics (s, t)"
proof -
  have top: "\<not> - 1 < (0 :: version)" "0 < (- 1 :: version)" by (simp_all add: word_gt_0)
  have after: "\<not> [5] < mkey_bytes (Version k v)" "[5] \<noteq> mkey_bytes (Version k v)" for k v by simp_all
  show ?thesis
    by (cases s; cases t)
      (auto simp: Version_bytes_less top after order_le_less word_gt_0 simp del: mkey_bytes.simps)
qed

text \<open>(C19) Scans agree with reads.  A scan of any valid range of keys in any reachable store succeeds and
  returns, in ascending key order and without duplicates, exactly the keys of the range that
  \<open>get\<close> finds, with the values it finds; iterating backwards gives the reversed list.\<close>

theorem mvcc_scan_correct:
  assumes "storage_engine E einv view fits" and "bincode_ok B"
    and "mvcc_reachable E B fits einv view (e, T)" and "\<not> range_panics rng"
  shows "\<exists>param kvs it. txn_scan rng = Ok param \<and> scan_to_vec E B st param e = (Ok kvs, e) \<and>
    ordered kvs \<and> (\<forall>k x. (k, x) \<in> set kvs \<longleftrightarrow> in_range rng k \<and> txn_get E B st k e = (Ok (Some x), e)) \<and>
    scan_iter E st param e = (Ok it, e) \<and> collect_next_back B it = Ok (rev kvs)"
proof -
  note M = mvcc_storeI [OF assms(1,2)]
  note ok = simD(1) [OF mvcc_store.reachable_sim [OF M assms(3)]]
  obtain s t where rng: "rng = (s, t)" by (cases rng)
  have "e_scan E (raw_start s, raw_end t) e = (Ok (raw (stored_items (view e) (in_range rng))), e)"
    using storage_engine.scan_law [OF assms(1) mvcc_okD(1) [OF ok], of "(raw_start s, raw_end t)"]
      assms(4) mvcc_store.scan_stored [OF M ok raw_range_version]
    by (simp add: raw_range_panics rng)
  then show ?thesis
    using mvcc_store.scan_to_vec_ok [OF M ok, of "Range (raw_start s, raw_end t)" "in_range rng" st]
    by (simp add: txn_scan_raw rng)
qed

theorem mvcc_scan_correct_witness:
  "\<exists>e param kvs. mem_reachable (e, {demo_st3}) \<and> txn_scan (Included [7], Unbounded) = Ok param \<and>
     scan_to_vec memory_engine fixed_bincode demo_st3 param e = (Ok kvs, e) \<and> ordered kvs"
proof -
  obtain e where run: "mem_reachable (e, {demo_st3})" using demo_run_commit by metis
  with mvcc_scan_correct [OF mem_contract run, of "(Included [7], Unbounded)" demo_st3]
  show ?thesis by fastforce
qed

text \<open>(C20) Prefix scans agree with reads: \<open>scan_prefix\<close> returns, in ascending key order, exactly the keys
  that start with the prefix and that \<open>get\<close> finds, with their values, and the reverse backwards;
  also for prefixes that end in the bytes the key encoding escapes or in 0xff.\<close>

theorem mvcc_scan_prefix_correct:
  assumes "storage_engine E einv view fits" and "bincode_ok B"
    and "mvcc_reachable E B fits einv view (e, T)"
  shows "\<exists>param kvs it. txn_scan_prefix pfx = Ok param \<and> scan_to_vec E B st param e = (Ok kvs, e) \<and>
    ordered kvs \<and> (\<forall>k x. (k, x) \<in> set kvs \<longleftrightarrow> prefix pfx k \<and> txn_get E B st k e = (Ok (Some x), e)) \<and>
    scan_iter E st param e = (Ok it, e) \<and> collect_next_back B it = Ok (rev kvs)"
proof -
  note M = mvcc_storeI [OF assms(1,2)]
  note ok = simD(1) [OF mvcc_store.reachable_sim [OF M assms(3)]]
  let ?p = "4 # concat (map escape pfx)"
  have "scan_prefix E ?p e = (Ok (raw (stored_items (view e) (prefix pfx))), e)"
    using storage_engine.scan_prefix_law [OF assms(1) mvcc_okD(1) [OF ok], of ?p]
      mvcc_store.scan_stored [OF M ok prefix_Version] by simp
  then show ?thesis
    using mvcc_store.scan_to_vec_ok [OF M ok, of "Prefix ?p" "prefix pfx" st] enc_bytes_truncated [of pfx]
    by (simp add: txn_scan_prefix_def)
qed

theorem mvcc_scan_prefix_correct_witness:
  "\<exists>e param kvs. mem_reachable (e, {demo_st3}) \<and> txn_scan_prefix [7] = Ok param \<and>
     scan_to_vec memory_engine fixed_bincode demo_st3 param e = (Ok kvs, e) \<and> ordered kvs"
proof -
  obtain e where run: "mem_reachable (e, {demo_st3})" using demo_run_commit by metis
  with mvcc_scan_prefix_correct [OF mem_contract run, of "[7]" demo_st3] show ?thesis by fastforce
qed

section \<open>Taking from both ends\<close>

text \<open>The two ends are independent only as long as they do not meet in one key: after
  \<^verbatim>\<open>next_back\<close> has yielded the newest value of a key, \<^verbatim>\<open>next\<close> can yield an older version of the
  same key, because the newer one it would compare with is gone.\<close>

lemma scan_both_ends_stale:
  fixes old new :: bytes
  defines "it \<equiv> scan_new \<lparr>ts_version = 3, ts_read_only = False, ts_active = {}\<rparr>
    (raw [([7], 1, 1 # old), ([7], 2, 1 # new)])"
  shows "fst (scan_try_next_back fixed_bincode it) = Ok (Some ([7], new))"
    and "fst (scan_try_next fixed_bincode (snd (scan_try_next_back fixed_bincode it))) =
      Ok (Some ([7], old))"
  by (simp_all add: it_def scan_new_def scan_try_next_back.simps peekable_next_back_def
      version_try_next_back_def decode_visible_def is_visible_def fixed_bincode_def word_le_nat_alt
      scan_try_next.simps peekable_next_def peekable_peek_def del: mkey_bytes.simps)

end
