(* ===== verification/Raft_Log.thy ===== *)
theory Raft_Log
  imports Keycode Typed_Store
begin

text \<open>
  The Raft log of \<^verbatim>\<open>src/src/raft/log.rs\<close>: its keys, the log record and every operation, over any
  storage engine \<open>E\<close>.  Values are encoded with \<^verbatim>\<open>bincode\<close>, a parameter \<open>R\<close> of three codecs (an entry's
  term and command, a term and vote, a commit index and term).  A scan is the list of the items its
  iterator yields.  Logging statements are left out.
\<close>

type_synonym node_id = u8
type_synonym term_id = u64
type_synonym index = u64

record raft_entry =
  en_index :: index
  en_term :: term_id
  en_command :: "bytes option"

record 'a codec =
  ser :: "'a \<Rightarrow> bytes result"
  de :: "bytes \<Rightarrow> 'a result"

record raft_bincode =
  r_entry :: "(term_id \<times> bytes option) codec"
  r_vote :: "(term_id \<times> node_id option) codec"
  r_commit :: "(index \<times> term_id) codec"

definition codec_ok :: "'a codec \<Rightarrow> bool" where
  "codec_ok c \<longleftrightarrow> (\<forall>x. \<exists>b. ser c x = Ok b \<and> de c b = Ok x)"

definition raft_bincode_ok :: "raft_bincode \<Rightarrow> bool" where
  "raft_bincode_ok R \<longleftrightarrow> codec_ok (r_entry R) \<and> codec_ok (r_vote R) \<and> codec_ok (r_commit R)"

section \<open>Keys\<close>

datatype rkey = Entry index | TermVote | CommitIndex

fun rkey_serde :: "rkey \<Rightarrow> serde" where
  "rkey_serde (Entry i) = S_newtype_variant 0 (S_u64 i)"
| "rkey_serde TermVote = S_unit_variant 1"
| "rkey_serde CommitIndex = S_unit_variant 2"

definition rkey_encode :: "rkey \<Rightarrow> bytes result" where
  "rkey_encode k = keycode_serialize (rkey_serde k)"

definition deserialize_rkey :: "(deserializer, rkey) op" where
  "deserialize_rkey = bind_op (variant_seed 3) (\<lambda>i.
     if i = 0 then bind_op deserialize_u64 (\<lambda>v. return_op (Entry v))
     else if i = 1 then return_op TermVote
     else return_op CommitIndex)"

definition rkey_decode :: "bytes \<Rightarrow> rkey result" where
  "rkey_decode bs = keycode_deserialize deserialize_rkey bs"

datatype rprefix = P_Entry | P_TermVote | P_CommitIndex

fun rprefix_serde :: "rprefix \<Rightarrow> serde" where
  "rprefix_serde P_Entry = S_unit_variant 0"
| "rprefix_serde P_TermVote = S_unit_variant 1"
| "rprefix_serde P_CommitIndex = S_unit_variant 2"

definition rprefix_encode :: "rprefix \<Rightarrow> bytes result" where
  "rprefix_encode p = keycode_serialize (rprefix_serde p)"

section \<open>The log\<close>

record 'e raft_log =
  rl_engine :: 'e
  rl_last_index :: index
  rl_last_term :: term_id
  rl_commit_index :: index
  rl_commit_term :: term_id
  rl_sync :: bool

definition on_engine :: "('e, 'a) op \<Rightarrow> ('e raft_log, 'a) op" where
  "on_engine m = (\<lambda>l. case m (rl_engine l) of (r, e) \<Rightarrow> (r, l\<lparr>rl_engine := e\<rparr>))"

definition decode_entry_value :: "raft_bincode \<Rightarrow> index \<Rightarrow> bytes \<Rightarrow> raft_entry result" where
  "decode_entry_value R index value = bind_r (de (r_entry R) value) (\<lambda>(term, command).
     Ok \<lparr>en_index = index, en_term = term, en_command = command\<rparr>)"

definition decode_entry :: "raft_bincode \<Rightarrow> bytes \<times> bytes \<Rightarrow> raft_entry result" where
  "decode_entry R = (\<lambda>(key, value). bind_r (rkey_decode key) (\<lambda>k. case k of
      Entry index \<Rightarrow> decode_entry_value R index value
    | _ \<Rightarrow> Err (Internal ''Invalid key {:x?}'')))"

definition log_new :: "'e engine \<Rightarrow> raft_bincode \<Rightarrow> bool \<Rightarrow> ('e, 'e raft_log) op" where
  "log_new E R sync =
     bind_op (lift_op (rprefix_encode P_Entry)) (\<lambda>p.
     bind_op (scan_prefix E p) (\<lambda>items.
     bind_op (lift_op (if items = [] then Ok (0, 0)
        else bind_r (last items) (\<lambda>kv. bind_r (decode_entry R kv) (\<lambda>e. Ok (en_index e, en_term e)))))
       (\<lambda>(last_index, last_term).
     bind_op (lift_op (rkey_encode CommitIndex)) (\<lambda>k.
     bind_op (e_get E k) (\<lambda>v.
     bind_op (lift_op (case v of None \<Rightarrow> Ok (0, 0) | Some b \<Rightarrow> de (r_commit R) b))
       (\<lambda>(commit_index, commit_term).
     gets_op (\<lambda>e. \<lparr>rl_engine = e, rl_last_index = last_index, rl_last_term = last_term,
        rl_commit_index = commit_index, rl_commit_term = commit_term, rl_sync = sync\<rparr>)))))))"

definition log_status :: "'e engine \<Rightarrow> ('e raft_log, engine_status) op" where
  "log_status E = on_engine (e_status E)"

definition get_commit_index :: "'e raft_log \<Rightarrow> index \<times> term_id" where
  "get_commit_index l = (rl_commit_index l, rl_commit_term l)"

definition get_last_index :: "'e raft_log \<Rightarrow> index \<times> term_id" where
  "get_last_index l = (rl_last_index l, rl_last_term l)"

definition log_get_term :: "'e engine \<Rightarrow> raft_bincode \<Rightarrow> ('e raft_log, term_id \<times> node_id option) op" where
  "log_get_term E R =
     bind_op (lift_op (rkey_encode TermVote)) (\<lambda>k.
     bind_op (on_engine (e_get E k)) (\<lambda>v.
     lift_op (case v of None \<Rightarrow> Ok (0, None) | Some b \<Rightarrow> de (r_vote R) b)))"

definition log_maybe_flush :: "'e engine \<Rightarrow> ('e raft_log, unit) op" where
  "log_maybe_flush E = (\<lambda>l. if rl_sync l then on_engine (e_flush E) l else return_op () l)"

definition log_set_term ::
    "'e engine \<Rightarrow> raft_bincode \<Rightarrow> term_id \<Rightarrow> node_id option \<Rightarrow> ('e raft_log, unit) op" where
  "log_set_term E R term voted_for =
     bind_op (lift_op (rkey_encode TermVote)) (\<lambda>k.
     bind_op (lift_op (ser (r_vote R) (term, voted_for))) (\<lambda>v.
     bind_op (on_engine (e_set E k v)) (\<lambda>_.
     log_maybe_flush E)))"

definition log_append ::
    "'e engine \<Rightarrow> raft_bincode \<Rightarrow> term_id \<Rightarrow> bytes option \<Rightarrow> ('e raft_log, index) op" where
  "log_append E R term command =
     bind_op (gets_op rl_last_index) (\<lambda>last_index.
     bind_op (lift_op (add_u64 last_index 1)) (\<lambda>index.
     bind_op (lift_op (rkey_encode (Entry index))) (\<lambda>k.
     bind_op (lift_op (ser (r_entry R) (term, command))) (\<lambda>v.
     bind_op (on_engine (e_set E k v)) (\<lambda>_.
     bind_op (log_maybe_flush E) (\<lambda>_.
     bind_op (modify_op (\<lambda>l. l\<lparr>rl_last_index := index, rl_last_term := term\<rparr>)) (\<lambda>_.
     return_op index)))))))"

definition log_get :: "'e engine \<Rightarrow> raft_bincode \<Rightarrow> index \<Rightarrow> ('e raft_log, raft_entry option) op" where
  "log_get E R index =
     bind_op (lift_op (rkey_encode (Entry index))) (\<lambda>k.
     bind_op (on_engine (e_get E k)) (\<lambda>v.
     lift_op (case v of None \<Rightarrow> Ok None | Some b \<Rightarrow> map_result Some (decode_entry_value R index b))))"

definition log_commit :: "'e engine \<Rightarrow> raft_bincode \<Rightarrow> index \<Rightarrow> ('e raft_log, index) op" where
  "log_commit E R index =
     bind_op (gets_op rl_commit_index) (\<lambda>commit_index.
     if index < commit_index
     then lift_op (Err (Internal ''Commit index regression {} -> {}''))
     else bind_op (log_get E R index) (\<lambda>found. case found of
        None \<Rightarrow> lift_op (Err (Internal ''Can't commit non-existant index {}''))
      | Some entry \<Rightarrow>
          bind_op (lift_op (rkey_encode CommitIndex)) (\<lambda>k.
          bind_op (lift_op (ser (r_commit R) (en_index entry, en_term entry))) (\<lambda>v.
          bind_op (on_engine (e_set E k v)) (\<lambda>_.
          bind_op (log_maybe_flush E) (\<lambda>_.
          bind_op (modify_op (\<lambda>l. l\<lparr>rl_commit_index := en_index entry,
              rl_commit_term := en_term entry\<rparr>)) (\<lambda>_.
          return_op index)))))))"

definition log_has :: "'e engine \<Rightarrow> raft_bincode \<Rightarrow> index \<Rightarrow> term_id \<Rightarrow> ('e raft_log, bool) op" where
  "log_has E R index term = bind_op (log_get E R index) (\<lambda>found. case found of
      Some entry \<Rightarrow> return_op (en_term entry = term)
    | None \<Rightarrow> if index = 0 \<and> term = 0 then return_op True else return_op False)"

fun scan_from :: "index bound \<Rightarrow> bytes bound result" where
  "scan_from (Excluded i) = map_result Excluded (rkey_encode (Entry i))"
| "scan_from (Included i) = map_result Included (rkey_encode (Entry i))"
| "scan_from Unbounded = map_result Included (rkey_encode (Entry 0))"

fun scan_to :: "index bound \<Rightarrow> bytes bound result" where
  "scan_to (Excluded i) = map_result Excluded (rkey_encode (Entry i))"
| "scan_to (Included i) = map_result Included (rkey_encode (Entry i))"
| "scan_to Unbounded = map_result Included (rkey_encode (Entry (- 1)))"

definition log_scan ::
    "'e engine \<Rightarrow> raft_bincode \<Rightarrow> index bounds \<Rightarrow> ('e raft_log, raft_entry result list) op" where
  "log_scan E R r =
     bind_op (lift_op (scan_from (fst r))) (\<lambda>from.
     bind_op (lift_op (scan_to (snd r))) (\<lambda>to.
     bind_op (on_engine (e_scan E (from, to))) (\<lambda>items.
     return_op (map (\<lambda>item. bind_r item (decode_entry R)) items))))"

text \<open>\<open>splice\<close>: the check over \<^verbatim>\<open>windows(2)\<close>, the loop that skips the entries the log already has, and
  the method.\<close>

fun windows_contiguous :: "raft_entry list \<Rightarrow> bool result" where
  "windows_contiguous (a # b # es) = bind_r (add_u64 (en_index a) 1) (\<lambda>i.
     if i = en_index b then windows_contiguous (b # es) else Ok False)"
| "windows_contiguous _ = Ok True"

fun skip_existing :: "raft_entry result list \<Rightarrow> raft_entry list \<Rightarrow> raft_entry list result" where
  "skip_existing [] entries = Ok entries"
| "skip_existing (item # scan) entries = bind_r item (\<lambda>e. case entries of
      [] \<Rightarrow> Panic ''index out of bounds''
    | entry # rest \<Rightarrow> if en_term e \<noteq> en_term entry then Ok entries else skip_existing scan rest)"

definition index_range :: "index \<Rightarrow> index \<Rightarrow> index list" where
  "index_range a b = map of_nat [unat a..<Suc (unat b)]"

definition write_spliced :: "'e engine \<Rightarrow> raft_bincode \<Rightarrow> raft_entry \<Rightarrow> ('e raft_log, unit) op" where
  "write_spliced E R e =
     bind_op (lift_op (rkey_encode (Entry (en_index e)))) (\<lambda>k.
     bind_op (lift_op (ser (r_entry R) (en_term e, en_command e))) (\<lambda>v.
     on_engine (e_set E k v)))"

definition delete_tail :: "'e engine \<Rightarrow> index \<Rightarrow> ('e raft_log, unit) op" where
  "delete_tail E i = bind_op (lift_op (rkey_encode (Entry i))) (\<lambda>k. on_engine (e_delete E k))"

definition log_splice :: "'e engine \<Rightarrow> raft_bincode \<Rightarrow> raft_entry list \<Rightarrow> ('e raft_log, index) op" where
  "log_splice E R entries =
     (if entries = [] then gets_op rl_last_index else
     bind_op (gets_op rl_last_index) (\<lambda>old_last.
     bind_op (if en_index (hd entries) = 0 then return_op True
        else bind_op (lift_op (add_u64 old_last 1)) (\<lambda>next_index.
          return_op (next_index < en_index (hd entries)))) (\<lambda>misplaced.
     if misplaced then lift_op (Err (Internal ''Spliced entries must begin before last index'')) else
     bind_op (lift_op (windows_contiguous entries)) (\<lambda>contiguous.
     if \<not> contiguous then lift_op (Err (Internal ''Spliced entries must be contiguous'')) else
     let last_index = en_index (last entries); last_term = en_term (last entries) in
     bind_op (log_scan E R (Included (en_index (hd entries)), Included last_index)) (\<lambda>scan.
     bind_op (lift_op (skip_existing scan entries)) (\<lambda>rest.
     bind_op (gets_op rl_commit_index) (\<lambda>commit_index.
     if rest \<noteq> [] \<and> en_index (hd rest) \<le> commit_index
     then lift_op (Err (Internal ''Spliced entries must begin after commit index'')) else
     bind_op (for_each (write_spliced E R) rest) (\<lambda>_.
     bind_op (lift_op (add_u64 last_index 1)) (\<lambda>tail.
     bind_op (for_each (delete_tail E) (index_range tail old_last)) (\<lambda>_.
     bind_op (log_maybe_flush E) (\<lambda>_.
     bind_op (modify_op (\<lambda>l. l\<lparr>rl_last_index := last_index, rl_last_term := last_term\<rparr>)) (\<lambda>_.
     gets_op rl_last_index))))))))))))"

section \<open>Encoded keys\<close>

fun rkey_bytes :: "rkey \<Rightarrow> bytes" where
  "rkey_bytes (Entry i) = 0 # enc_u64 i"
| "rkey_bytes TermVote = [1]"
| "rkey_bytes CommitIndex = [2]"

lemma rkey_encode_bytes [simp]: "rkey_encode k = Ok (rkey_bytes k)"
  by (cases k) (simp_all add: rkey_encode_def keycode_serialize_def u64_codec.appends bind_op_Ok)

lemma rprefix_encode_bytes [simp]: "rprefix_encode P_Entry = Ok [0]"
  by (simp add: rprefix_encode_def keycode_serialize_def)

lemma rkey_decode_bytes [simp]: "rkey_decode (rkey_bytes k) = Ok k"
  by (cases k) (simp_all add: rkey_decode_def keycode_deserialize_def deserialize_rkey_def bind_op_Ok
      return_op_def)

lemma rkey_bytes_inject [simp]: "rkey_bytes k = rkey_bytes l \<longleftrightarrow> k = l"
  by (metis rkey_decode_bytes result.inject(1))

lemma Entry_bytes_less: "rkey_bytes (Entry i) < rkey_bytes (Entry j) \<longleftrightarrow> i < j"
  using u64_codec.enc_less_iff [of i "[]" j "[]"] by simp

lemma Entry_bytes_le: "rkey_bytes (Entry i) \<le> rkey_bytes (Entry j) \<longleftrightarrow> i \<le> j"
  by (auto simp: le_less Entry_bytes_less simp del: rkey_bytes.simps)

lemma other_bytes_above:
  "rkey_bytes (Entry i) < rkey_bytes TermVote" "rkey_bytes (Entry i) < rkey_bytes CommitIndex"
  by simp_all

lemma prefix_Entry: "prefix [0] (rkey_bytes k) \<longleftrightarrow> (\<exists>i. k = Entry i)"
  by (cases k) auto

interpretation raft_keys: key_encoding rkey_bytes
  by unfold_locales (simp del: rkey_bytes.simps)

end
