(* ===== verification/Raft_Log_Refine.thy ===== *)
theory Raft_Log_Refine
  imports Raft_Log
begin

text \<open>
  What the Raft log means and that its operations implement it.  The abstract log \<open>raft_abs\<close> is a list
  of terms and commands, the entry with index \<open>i\<close> at position \<open>i - 1\<close>, with the commit position and
  the current term and vote.  \<open>log_rel\<close> relates a log over any storage engine to its abstract log;
  the lemmas of the locale \<open>raft_store\<close> show that every operation keeps the relation and has the
  abstract operation's effect.
\<close>

section \<open>The abstract log\<close>

record raft_abs =
  al_entries :: "(term_id \<times> bytes option) list"
  al_commit :: "index \<times> term_id"
  al_term :: "term_id \<times> node_id option"

definition log_lookup :: "'a list \<Rightarrow> index \<Rightarrow> 'a option" where
  "log_lookup L i = (if i \<noteq> 0 \<and> unat i \<le> length L then Some (L ! (unat i - 1)) else None)"

definition mk_entry :: "index \<Rightarrow> term_id \<times> bytes option \<Rightarrow> raft_entry" where
  "mk_entry i x = \<lparr>en_index = i, en_term = fst x, en_command = snd x\<rparr>"

definition indexed :: "(term_id \<times> bytes option) list \<Rightarrow> raft_entry list" where
  "indexed L = map (\<lambda>k. mk_entry (of_nat (Suc k)) (L ! k)) [0..<length L]"

definition last_term_of :: "(term_id \<times> bytes option) list \<Rightarrow> term_id" where
  "last_term_of L = (if L = [] then 0 else fst (last L))"

definition payload :: "raft_entry \<Rightarrow> term_id \<times> bytes option" where
  "payload e = (en_term e, en_command e)"

fun matching :: "(term_id \<times> bytes option) list \<Rightarrow> raft_entry list \<Rightarrow> nat" where
  "matching (x # xs) (e # es) = (if fst x = en_term e then Suc (matching xs es) else 0)"
| "matching _ _ = 0"

definition contiguous_from :: "nat \<Rightarrow> raft_entry list \<Rightarrow> bool" where
  "contiguous_from f es \<longleftrightarrow> (\<forall>k < length es. unat (en_index (es ! k)) = f + k)"

definition store_means :: "raft_bincode \<Rightarrow> (rkey \<Rightarrow> bytes option) \<Rightarrow> raft_abs \<Rightarrow> bool" where
  "store_means R s a \<longleftrightarrow>
     (\<forall>i. map_option (de (r_entry R)) (s (Entry i)) = map_option Ok (log_lookup (al_entries a) i)) \<and>
     (case s CommitIndex of None \<Rightarrow> al_commit a = (0, 0) | Some b \<Rightarrow> de (r_commit R) b = Ok (al_commit a)) \<and>
     (case s TermVote of None \<Rightarrow> al_term a = (0, None) | Some b \<Rightarrow> de (r_vote R) b = Ok (al_term a))"

definition stored :: "('e \<Rightarrow> bool) \<Rightarrow> ('e \<Rightarrow> (bytes \<times> bytes) list) \<Rightarrow> 'e \<Rightarrow> (rkey \<Rightarrow> bytes option) \<Rightarrow> bool" where
  "stored einv view e s \<longleftrightarrow> einv e \<and> typed_by rkey_bytes (view e) \<and> kv_of rkey_bytes (view e) = s"

definition log_rel ::
    "('e \<Rightarrow> bool) \<Rightarrow> ('e \<Rightarrow> (bytes \<times> bytes) list) \<Rightarrow> raft_bincode \<Rightarrow> 'e raft_log \<Rightarrow> raft_abs \<Rightarrow> bool" where
  "log_rel einv view R l a \<longleftrightarrow>
     (\<exists>s. stored einv view (rl_engine l) s \<and> store_means R s a) \<and>
     length (al_entries a) < 2 ^ 64 \<and>
     get_last_index l = (of_nat (length (al_entries a)), last_term_of (al_entries a)) \<and>
     get_commit_index l = al_commit a"

definition entry_fits :: "raft_bincode \<Rightarrow> (bytes \<Rightarrow> bytes \<Rightarrow> bool) \<Rightarrow> raft_entry \<Rightarrow> bool" where
  "entry_fits R fits e \<longleftrightarrow>
     (\<forall>b. ser (r_entry R) (payload e) = Ok b \<longrightarrow> fits (rkey_bytes (Entry (en_index e))) b)"

section \<open>Positions\<close>

lemma unat_u64 [simp]: "n < 2 ^ 64 \<Longrightarrow> unat (of_nat n :: u64) = n"
  by (simp add: unat_of_nat take_bit_eq_mod)

lemma log_lookup_0 [simp]: "log_lookup L 0 = None"
  by (simp add: log_lookup_def)

lemma log_lookup_of_nat:
  "0 < n \<Longrightarrow> n \<le> length L \<Longrightarrow> length L < 2 ^ 64 \<Longrightarrow> log_lookup L (of_nat n) = Some (L ! (n - 1))"
  by (auto simp: log_lookup_def unat_eq_0 [symmetric] simp del: unat_eq_zero)

lemma log_lookup_snoc:
  assumes "Suc (length L) < 2 ^ 64"
  shows "log_lookup (L @ [x]) = (log_lookup L)(of_nat (Suc (length L)) \<mapsto> x)"
proof
  fix i :: index
  have "i = of_nat (Suc (length L)) \<longleftrightarrow> unat i = Suc (length L)"
    using assms unat_u64 [of "Suc (length L)"] by (simp only: word_unat_eq_iff)
  moreover have "i \<noteq> 0 \<longleftrightarrow> unat i \<noteq> 0" by (simp add: unat_eq_zero)
  ultimately show "log_lookup (L @ [x]) i = ((log_lookup L)(of_nat (Suc (length L)) \<mapsto> x)) i"
    by (auto simp: log_lookup_def nth_append)
qed

lemma length_indexed [simp]: "length (indexed L) = length L"
  by (simp add: indexed_def)

lemma nth_indexed [simp]: "k < length L \<Longrightarrow> indexed L ! k = mk_entry (of_nat (Suc k)) (L ! k)"
  by (simp add: indexed_def)

lemma mk_entry_sel [simp]:
  "en_index (mk_entry i x) = i" "en_term (mk_entry i x) = fst x" "payload (mk_entry i x) = x"
  by (simp_all add: mk_entry_def payload_def)

lemma decode_value_mk [simp]:
  "de (r_entry R) b = Ok x \<Longrightarrow> decode_entry_value R i b = Ok (mk_entry i x)"
  by (simp add: decode_entry_value_def mk_entry_def split_def)

lemma filter_upt_between: "filter (\<lambda>k. a \<le> k \<and> k < b) [0..<n] = [a..<min b n]"
  by (induction n) (auto simp: min_def not_le le_Suc_eq)

lemma indexed_between:
  assumes "length L < 2 ^ 64" "0 < f" "unat f + n = Suc (unat t)"
  shows "filter (\<lambda>e. in_range (Included f, Included t) (en_index e)) (indexed L) =
    take n (drop (unat f - 1) (indexed L))"
proof -
  have f: "0 < unat f" using assms(2) by (simp add: word_gt_0 unat_gt_0)
  have "filter (\<lambda>e. in_range (Included f, Included t) (en_index e)) (indexed L) =
      map (\<lambda>k. mk_entry (of_nat (Suc k)) (L ! k))
        (filter (\<lambda>k. unat f - 1 \<le> k \<and> k < unat f - 1 + n) [0..<length L])"
    unfolding indexed_def filter_map
    using assms f by (auto simp: in_range_def word_le_nat_alt simp del: of_nat_Suc
        intro!: arg_cong [where f = "map _"] filter_cong)
  also have "\<dots> = take n (drop (unat f - 1) (indexed L))"
    by (simp add: filter_upt_between indexed_def drop_map take_map min_def)
  finally show ?thesis .
qed

lemma skip_existing_matching:
  "map en_term items = map fst (take (length es) xs) \<Longrightarrow>
   skip_existing (map Ok items) es = Ok (drop (matching xs es) es)"
proof (induction es arbitrary: items xs)
  case (Cons e es)
  then show ?case by (cases items; cases xs) auto
qed simp

lemma matching_le: "matching xs es \<le> length xs" "matching xs es \<le> length es"
  by (induction xs es rule: matching.induct) auto

section \<open>Contiguous entries\<close>

lemma contiguous_Cons:
  "contiguous_from f (e # es) \<longleftrightarrow> unat (en_index e) = f \<and> contiguous_from (Suc f) es"
  by (auto simp: contiguous_from_def nth_Cons split: nat.splits)

lemma contiguous_drop: "contiguous_from f es \<Longrightarrow> contiguous_from (f + n) (drop n es)"
  by (simp add: contiguous_from_def add.assoc)

lemma contiguous_windows: "contiguous_from f es \<Longrightarrow> windows_contiguous es = Ok True"
proof (induction es arbitrary: f rule: windows_contiguous.induct)
  case (1 a b es)
  then have ab: "unat (en_index b) = Suc (unat (en_index a))" "contiguous_from (Suc f) (b # es)"
    by (auto simp: contiguous_Cons)
  then have "unat (en_index a) + unat (1 :: u64) < 2 ^ 64" using u64_bound [of "en_index b"] by simp
  then have add: "add_u64 (en_index a) 1 = Ok (en_index a + 1)" by (simp only: add_u64_def if_True)
  have "en_index a + 1 = en_index b"
    using add_u64_unat [OF add] ab(1) by (simp only: word_unat_eq_iff unat_1 Suc_eq_plus1)
  with add 1(1) [of "en_index b" "Suc f"] ab(2) show ?case by simp
qed auto

lemma windows_contiguous_True:
  "windows_contiguous es = Ok True \<Longrightarrow> es \<noteq> [] \<Longrightarrow> contiguous_from (unat (en_index (hd es))) es"
proof (induction es rule: windows_contiguous.induct)
  case (1 a b es)
  then show ?case
    by (auto simp: bind_r_eq_Ok contiguous_Cons split: if_splits dest!: add_u64_unat)
qed (auto simp: contiguous_from_def)

lemma contiguous_last:
  "contiguous_from f es \<Longrightarrow> es \<noteq> [] \<Longrightarrow> Suc (unat (en_index (last es))) = f + length es"
  by (cases es rule: rev_cases) (auto simp: contiguous_from_def nth_append dest: spec [of _ "length es - 1"])

lemma contiguous_hd: "contiguous_from f es \<Longrightarrow> es \<noteq> [] \<Longrightarrow> unat (en_index (hd es)) = f"
  by (cases es) (auto simp: contiguous_Cons)

abbreviation payloads :: "raft_entry list \<Rightarrow> index \<rightharpoonup> term_id \<times> bytes option" where
  "payloads es \<equiv> map_of (map (\<lambda>e. (en_index e, payload e)) es)"

lemma payloads_contiguous:
  "contiguous_from f es \<Longrightarrow>
   payloads es i = (if f \<le> unat i \<and> unat i < f + length es then Some (payload (es ! (unat i - f))) else None)"
proof (induction es arbitrary: f)
  case (Cons e es)
  have "Suc (unat (en_index e)) \<le> unat i \<Longrightarrow>
      unat i - unat (en_index e) = Suc (unat i - Suc (unat (en_index e)))" by simp
  with Cons show ?case
    by (auto simp: contiguous_Cons word_unat_eq_iff)
qed simp

lemma contiguous_distinct: "contiguous_from f es \<Longrightarrow> distinct (map en_index es)"
  by (auto simp: contiguous_from_def distinct_conv_nth word_unat_eq_iff)

text \<open>The log after writing \<open>rest\<close> at position \<open>n\<close> and cutting what follows.\<close>

lemma spliced_lookup:
  assumes "n \<le> length L" "contiguous_from (Suc n) rest"
  shows "log_lookup (take n L @ map payload rest) i =
    (if n + length rest < unat i then None
     else case payloads rest i of Some x \<Rightarrow> Some x | None \<Rightarrow> log_lookup L i)"
proof -
  have "i \<noteq> 0 \<longleftrightarrow> 0 < unat i" by (simp add: unat_gt_0)
  moreover have "Suc n \<le> unat i \<Longrightarrow> unat i - 1 - n = unat i - Suc n" by simp
  ultimately show ?thesis
    using assms by (auto simp: log_lookup_def payloads_contiguous [OF assms(2)] nth_append min_def)
qed

lemma last_term_append: "last_term_of (xs @ ys) = (if ys = [] then last_term_of xs else fst (last ys))"
  by (simp add: last_term_of_def)

section \<open>Logs over a storage engine\<close>

locale raft_store = typed_engine E inv view fits rkey_bytes
  for E :: "'e engine" and inv view fits +
  fixes R :: raft_bincode
  assumes bincode: "raft_bincode_ok R"
begin

abbreviation holds :: "'e raft_log \<Rightarrow> (rkey \<Rightarrow> bytes option) \<Rightarrow> bool" where
  "holds l s \<equiv> stored inv view (rl_engine l) s"

lemma ser_entry_ok: "\<exists>b. ser (r_entry R) x = Ok b \<and> de (r_entry R) b = Ok x"
  and ser_vote_ok: "\<exists>b. ser (r_vote R) y = Ok b \<and> de (r_vote R) b = Ok y"
  and ser_commit_ok: "\<exists>b. ser (r_commit R) z = Ok b \<and> de (r_commit R) b = Ok z"
  using bincode unfolding raft_bincode_ok_def codec_ok_def by blast+

lemma get_stored: "holds l s \<Longrightarrow> on_engine (e_get E (rkey_bytes k)) l = (Ok (s k), l)"
  by (auto simp: stored_def on_engine_def kv_get)

lemma set_stored:
  assumes "holds l s" "fits (rkey_bytes k) b"
  shows "\<exists>e. on_engine (e_set E (rkey_bytes k) b) l = (Ok (), l\<lparr>rl_engine := e\<rparr>) \<and>
    stored inv view e (s(k \<mapsto> b))"
  using assms kv_set [of "rl_engine l" k b] by (auto simp: stored_def on_engine_def)

lemma delete_stored:
  assumes "holds l s" "s k \<noteq> None"
  shows "\<exists>e. on_engine (e_delete E (rkey_bytes k)) l = (Ok (), l\<lparr>rl_engine := e\<rparr>) \<and>
    stored inv view e (s(k := None))"
  using assms kv_delete [of "rl_engine l" k] by (auto simp: stored_def on_engine_def)

lemma flush_stored:
  assumes "holds l s"
  shows "\<exists>e. log_maybe_flush E l = (Ok (), l\<lparr>rl_engine := e\<rparr>) \<and> stored inv view e s"
proof (cases "rl_sync l")
  case True
  with assms flush_law [of "rl_engine l"] show ?thesis
    by (auto simp: log_maybe_flush_def on_engine_def stored_def)
next
  case False
  with assms show ?thesis by (intro exI [of _ "rl_engine l"]) (simp add: log_maybe_flush_def)
qed

lemma write_stored:
  assumes "holds l s" "fits (rkey_bytes k) b"
  obtains e e' where "on_engine (e_set E (rkey_bytes k) b) l = (Ok (), l\<lparr>rl_engine := e\<rparr>)"
    "log_maybe_flush E (l\<lparr>rl_engine := e\<rparr>) = (Ok (), l\<lparr>rl_engine := e'\<rparr>)"
    "stored inv view e' (s(k \<mapsto> b))"
proof -
  obtain e where e: "on_engine (e_set E (rkey_bytes k) b) l = (Ok (), l\<lparr>rl_engine := e\<rparr>)"
    "stored inv view e (s(k \<mapsto> b))"
    using set_stored [OF assms] by blast
  moreover obtain e' where "log_maybe_flush E (l\<lparr>rl_engine := e\<rparr>) = (Ok (), l\<lparr>rl_engine := e'\<rparr>)"
    "stored inv view e' (s(k \<mapsto> b))"
    using flush_stored [of "l\<lparr>rl_engine := e\<rparr>"] e(2) by auto
  ultimately show thesis using that by blast
qed

lemma relD:
  assumes "log_rel inv view R l a"
  obtains s where "holds l s" "store_means R s a"
  using assms by (auto simp: log_rel_def)

lemma lookup_cases:
  assumes "store_means R s a"
  shows "(s (Entry i) = None \<and> log_lookup (al_entries a) i = None) \<or>
    (\<exists>b x. s (Entry i) = Some b \<and> de (r_entry R) b = Ok x \<and> log_lookup (al_entries a) i = Some x)"
proof -
  have "map_option (de (r_entry R)) (s (Entry i)) = map_option Ok (log_lookup (al_entries a) i)"
    using assms by (simp add: store_means_def)
  then show ?thesis by (cases "s (Entry i)"; cases "log_lookup (al_entries a) i") auto
qed

lemma get_ok:
  assumes "log_rel inv view R l a"
  shows "log_get E R i l = (Ok (map_option (mk_entry i) (log_lookup (al_entries a) i)), l)"
proof -
  obtain s where s: "holds l s" "store_means R s a" using relD [OF assms] .
  show ?thesis
    using lookup_cases [OF s(2), of i]
    by (auto simp: log_get_def get_stored [OF s(1)] bind_op_Ok simp del: rkey_bytes.simps)
qed

lemma has_ok:
  assumes "log_rel inv view R l a"
  shows "log_has E R i t l =
    (Ok (case log_lookup (al_entries a) i of Some x \<Rightarrow> fst x = t | None \<Rightarrow> i = 0 \<and> t = 0), l)"
  by (simp add: log_has_def get_ok [OF assms] bind_op_Ok split: option.split)

lemma get_term_ok:
  assumes "log_rel inv view R l a"
  shows "log_get_term E R l = (Ok (al_term a), l)"
proof -
  obtain s where s: "holds l s" "store_means R s a" using relD [OF assms] .
  then show ?thesis
    by (auto simp: log_get_term_def get_stored [OF s(1)] bind_op_Ok store_means_def
        simp del: rkey_bytes.simps split: option.splits)
qed

lemma set_term_ok:
  assumes "log_rel inv view R l a"
    and "\<And>b. ser (r_vote R) (t, v) = Ok b \<Longrightarrow> fits (rkey_bytes TermVote) b"
  shows "\<exists>l'. log_set_term E R t v l = (Ok (), l') \<and> log_rel inv view R l' (a\<lparr>al_term := (t, v)\<rparr>) \<and>
    rl_sync l' = rl_sync l"
proof -
  obtain s where s: "holds l s" "store_means R s a" using relD [OF assms(1)] .
  obtain b where b: "ser (r_vote R) (t, v) = Ok b" "de (r_vote R) b = Ok (t, v)"
    using ser_vote_ok by blast
  obtain e e' where e: "on_engine (e_set E (rkey_bytes TermVote) b) l = (Ok (), l\<lparr>rl_engine := e\<rparr>)"
    "log_maybe_flush E (l\<lparr>rl_engine := e\<rparr>) = (Ok (), l\<lparr>rl_engine := e'\<rparr>)"
    "stored inv view e' (s(TermVote \<mapsto> b))"
    by (rule write_stored [OF s(1) assms(2) [OF b(1)]])
  have "store_means R (s(TermVote \<mapsto> b)) (a\<lparr>al_term := (t, v)\<rparr>)"
    using s(2) b(2) by (simp add: store_means_def split: option.splits)
  with e(3) assms(1) have "log_rel inv view R (l\<lparr>rl_engine := e'\<rparr>) (a\<lparr>al_term := (t, v)\<rparr>)"
    by (auto simp: log_rel_def get_last_index_def get_commit_index_def)
  then show ?thesis
    using e(1,2) by (simp add: log_set_term_def b bind_op_Ok del: rkey_bytes.simps)
qed

lemma append_ok:
  assumes "log_rel inv view R l a" and "Suc (length (al_entries a)) < 2 ^ 64"
    and "entry_fits R fits (mk_entry (rl_last_index l + 1) (t, c))"
  shows "\<exists>l'. log_append E R t c l = (Ok (rl_last_index l + 1), l') \<and>
    log_rel inv view R l' (a\<lparr>al_entries := al_entries a @ [(t, c)]\<rparr>) \<and> rl_sync l' = rl_sync l"
proof -
  let ?L = "al_entries a" and ?i = "rl_last_index l + 1"
  obtain s where s: "holds l s" "store_means R s a" using relD [OF assms(1)] .
  obtain b where b: "ser (r_entry R) (t, c) = Ok b" "de (r_entry R) b = Ok (t, c)"
    using ser_entry_ok by blast
  have i: "rl_last_index l = of_nat (length ?L)" using assms(1) by (simp add: log_rel_def get_last_index_def)
  have add: "add_u64 (rl_last_index l) 1 = Ok ?i" using assms(2) by (simp add: add_u64_def i)
  have "fits (rkey_bytes (Entry ?i)) b" using assms(3) b(1) by (simp add: entry_fits_def)
  then obtain e e' where e: "on_engine (e_set E (rkey_bytes (Entry ?i)) b) l = (Ok (), l\<lparr>rl_engine := e\<rparr>)"
    "log_maybe_flush E (l\<lparr>rl_engine := e\<rparr>) = (Ok (), l\<lparr>rl_engine := e'\<rparr>)"
    "stored inv view e' (s(Entry ?i \<mapsto> b))"
    by (rule write_stored [OF s(1)])
  have "store_means R (s(Entry ?i \<mapsto> b)) (a\<lparr>al_entries := ?L @ [(t, c)]\<rparr>)"
    using s(2) b(2) by (simp add: store_means_def log_lookup_snoc [OF assms(2)] i add.commute
        split: option.splits)
  with e(3) assms(1,2) have "log_rel inv view R
      (l\<lparr>rl_engine := e', rl_last_index := ?i, rl_last_term := t\<rparr>) (a\<lparr>al_entries := ?L @ [(t, c)]\<rparr>)"
    by (auto simp: log_rel_def get_last_index_def get_commit_index_def i last_term_of_def)
  then show ?thesis
    using e(1,2) add by (simp add: log_append_def b bind_op_Ok del: rkey_bytes.simps)
qed

text \<open>\<open>commit\<close>, branch by branch.\<close>

lemma commit_regression:
  "i < rl_commit_index l \<Longrightarrow>
   log_commit E R i l = (Err (Internal ''Commit index regression {} -> {}''), l)"
  by (simp add: log_commit_def)

lemma commit_missing:
  assumes "log_rel inv view R l a" "\<not> i < rl_commit_index l" "log_lookup (al_entries a) i = None"
  shows "log_commit E R i l = (Err (Internal ''Can't commit non-existant index {}''), l)"
  using assms by (simp add: log_commit_def get_ok bind_op_Ok)

lemma commit_ok:
  assumes "log_rel inv view R l a" "\<not> i < rl_commit_index l" "log_lookup (al_entries a) i = Some (t, c)"
    and "\<And>b. ser (r_commit R) (i, t) = Ok b \<Longrightarrow> fits (rkey_bytes CommitIndex) b"
  shows "\<exists>l'. log_commit E R i l = (Ok i, l') \<and> log_rel inv view R l' (a\<lparr>al_commit := (i, t)\<rparr>) \<and>
    rl_sync l' = rl_sync l"
proof -
  obtain s where s: "holds l s" "store_means R s a" using relD [OF assms(1)] .
  obtain b where b: "ser (r_commit R) (i, t) = Ok b" "de (r_commit R) b = Ok (i, t)"
    using ser_commit_ok by blast
  obtain e e' where e: "on_engine (e_set E (rkey_bytes CommitIndex) b) l = (Ok (), l\<lparr>rl_engine := e\<rparr>)"
    "log_maybe_flush E (l\<lparr>rl_engine := e\<rparr>) = (Ok (), l\<lparr>rl_engine := e'\<rparr>)"
    "stored inv view e' (s(CommitIndex \<mapsto> b))"
    by (rule write_stored [OF s(1) assms(4) [OF b(1)]])
  have "store_means R (s(CommitIndex \<mapsto> b)) (a\<lparr>al_commit := (i, t)\<rparr>)"
    using s(2) b(2) by (simp add: store_means_def split: option.splits)
  with e(3) assms(1) have "log_rel inv view R
      (l\<lparr>rl_engine := e', rl_commit_index := i, rl_commit_term := t\<rparr>) (a\<lparr>al_commit := (i, t)\<rparr>)"
    by (auto simp: log_rel_def get_last_index_def get_commit_index_def)
  then show ?thesis
    using e(1,2) assms(2) by (simp add: log_commit_def get_ok [OF assms(1)] assms(3) b bind_op_Ok
        del: rkey_bytes.simps)
qed

text \<open>Scans, and opening a log.\<close>

lemma decode_scanned:
  assumes "holds l s" "store_means R s a" "s (Entry i) \<noteq> None"
  shows "decode_entry R (scanned_by rkey_bytes (view (rl_engine l)) Entry i) =
    Ok (mk_entry i (the (log_lookup (al_entries a) i)))"
proof -
  have "kv_of rkey_bytes (view (rl_engine l)) = s" using assms(1) by (simp add: stored_def)
  then show ?thesis
    using lookup_cases [OF assms(2), of i] assms(3)
    by (auto simp: decode_entry_def scanned_by_def simp del: rkey_bytes.simps)
qed

lemma stored_indexes:
  assumes "store_means R s a" "length (al_entries a) < 2 ^ 64"
  shows "sorted_list_of_set {i. Q i \<and> s (Entry i) \<noteq> None} =
    filter Q (map en_index (indexed (al_entries a)))"
proof (rule strict_sorted_equal)
  have stored: "s (Entry i) \<noteq> None \<longleftrightarrow> i \<noteq> 0 \<and> unat i \<le> length (al_entries a)" for i
    using lookup_cases [OF assms(1), of i] by (auto simp: log_lookup_def split: if_splits)
  have set: "i \<noteq> 0 \<and> unat i \<le> length (al_entries a) \<longleftrightarrow> i \<in> set (map en_index (indexed (al_entries a)))" for i
  proof
    assume i: "i \<noteq> 0 \<and> unat i \<le> length (al_entries a)"
    then have "0 < unat i" by (simp add: unat_gt_0)
    with i have "unat i - 1 < length (al_entries a)" "i = of_nat (Suc (unat i - 1))" by auto
    then show "i \<in> set (map en_index (indexed (al_entries a)))"
      by (force simp: indexed_def simp del: of_nat_Suc)
  next
    assume "i \<in> set (map en_index (indexed (al_entries a)))"
    then obtain k where "i = of_nat (Suc k)" "k < length (al_entries a)"
      by (auto simp: indexed_def simp del: of_nat_Suc)
    with assms(2) show "i \<noteq> 0 \<and> unat i \<le> length (al_entries a)"
      by (auto simp: word_unat_eq_iff simp del: of_nat_Suc)
  qed
  have "sorted_wrt (<) (map en_index (indexed (al_entries a)))"
    using assms(2) by (auto simp: sorted_wrt_iff_nth_less word_less_nat_alt simp del: of_nat_Suc)
  then show "sorted_wrt (<) (filter Q (map en_index (indexed (al_entries a))))"
    by (rule sorted_wrt_filter)
  have "finite {i. Q i \<and> s (Entry i) \<noteq> None}" by simp
  then show "set (sorted_list_of_set {i. Q i \<and> s (Entry i) \<noteq> None}) =
      set (filter Q (map en_index (indexed (al_entries a))))"
    using stored set by auto
qed simp

lemma lookup_indexed:
  "length L < 2 ^ 64 \<Longrightarrow> e \<in> set (indexed L) \<Longrightarrow> mk_entry (en_index e) (the (log_lookup L (en_index e))) = e"
  by (auto simp: indexed_def log_lookup_of_nat simp del: of_nat_Suc)

lemma decoded_scan:
  assumes "holds l s" "store_means R s a" "length (al_entries a) < 2 ^ 64"
  shows "map (\<lambda>i. decode_entry R (scanned_by rkey_bytes (view (rl_engine l)) Entry i))
      (sorted_list_of_set {i. Q i \<and> s (Entry i) \<noteq> None}) =
    map Ok (filter (\<lambda>e. Q (en_index e)) (indexed (al_entries a)))"
proof -
  have "decode_entry R (scanned_by rkey_bytes (view (rl_engine l)) Entry (en_index e)) = Ok e"
    if "e \<in> set (indexed (al_entries a))" for e
  proof -
    have "en_index e \<in> set (sorted_list_of_set {i. True \<and> s (Entry i) \<noteq> None})"
      unfolding stored_indexes [OF assms(2,3), of "\<lambda>_. True"] using that by simp
    then have "s (Entry (en_index e)) \<noteq> None" by simp
    then show ?thesis
      using decode_scanned [OF assms(1,2)] lookup_indexed [OF assms(3) that] by simp
  qed
  then show ?thesis
    unfolding stored_indexes [OF assms(2,3)] by (auto simp: filter_map comp_def)
qed

lemma scan_bounds:
  assumes "\<not> range_panics r"
  shows "\<exists>lo hi. scan_from (fst r) = Ok lo \<and> scan_to (snd r) = Ok hi \<and> \<not> range_panics (lo, hi) \<and>
    (\<forall>k. in_range (lo, hi) (rkey_bytes k) \<longleftrightarrow> (\<exists>i. k = Entry i \<and> in_range r i))"
proof -
  have top: "i \<le> (- 1 :: index)" for i by (rule word_order.extremum)
  have [simp]: "\<not> rkey_bytes TermVote \<le> rkey_bytes (Entry i)" "\<not> rkey_bytes CommitIndex \<le> rkey_bytes (Entry i)"
    "\<not> rkey_bytes TermVote < rkey_bytes (Entry i)" "\<not> rkey_bytes CommitIndex < rkey_bytes (Entry i)" for i
    by simp_all
  have "\<forall>k. in_range (lo, hi) (rkey_bytes k) \<longleftrightarrow> (\<exists>i. k = Entry i \<and> in_range r i)"
    if "scan_from (fst r) = Ok lo" "scan_to (snd r) = Ok hi" for lo hi
  proof
    fix k
    show "in_range (lo, hi) (rkey_bytes k) \<longleftrightarrow> (\<exists>i. k = Entry i \<and> in_range r i)"
      using that top by (cases "fst r"; cases "snd r"; cases k)
        (auto simp: in_range_def Entry_bytes_le Entry_bytes_less simp del: rkey_bytes.simps)
  qed
  moreover have "\<exists>lo hi. scan_from (fst r) = Ok lo \<and> scan_to (snd r) = Ok hi \<and> \<not> range_panics (lo, hi)"
    using assms top by (cases r; cases "fst r"; cases "snd r")
      (auto simp: Entry_bytes_le Entry_bytes_less not_less simp del: rkey_bytes.simps)
  ultimately show ?thesis by blast
qed

lemma scan_ok:
  assumes "log_rel inv view R l a" "\<not> range_panics r"
  shows "log_scan E R r l = (Ok (map Ok (filter (\<lambda>e. in_range r (en_index e)) (indexed (al_entries a)))), l)"
proof -
  obtain s where s: "holds l s" "store_means R s a" using relD [OF assms(1)] .
  have len: "length (al_entries a) < 2 ^ 64" using assms(1) by (simp add: log_rel_def)
  obtain lo hi where b: "scan_from (fst r) = Ok lo" "scan_to (snd r) = Ok hi"
    "\<not> range_panics (lo, hi)" "\<And>k. in_range (lo, hi) (rkey_bytes k) \<longleftrightarrow> (\<exists>i. k = Entry i \<and> in_range r i)"
    using scan_bounds [OF assms(2)] by blast
  have "e_scan E (lo, hi) (rl_engine l) =
      (Ok (map (\<lambda>i. Ok (scanned_by rkey_bytes (view (rl_engine l)) Entry i))
        (sorted_list_of_set {i. in_range r i \<and> s (Entry i) \<noteq> None})), rl_engine l)"
    using kv_scan [of "rl_engine l" "(lo, hi)" Entry "in_range r"] s(1) b
    by (auto simp: stored_def Entry_bytes_less simp del: rkey_bytes.simps)
  then show ?thesis
    using decoded_scan [OF s len, of "in_range r"]
    by (simp add: log_scan_def b(1,2) on_engine_def bind_op_def comp_def)
qed

lemma new_ok:
  assumes "log_rel inv view R l a"
  shows "log_new E R sync (rl_engine l) = (Ok (l\<lparr>rl_sync := sync\<rparr>), rl_engine l)"
proof -
  obtain s where s: "holds l s" "store_means R s a" using relD [OF assms] .
  have len: "length (al_entries a) < 2 ^ 64" using assms by (simp add: log_rel_def)
  define items where "items = map (\<lambda>i. Ok (scanned_by rkey_bytes (view (rl_engine l)) Entry i))
        (sorted_list_of_set {i. True \<and> s (Entry i) \<noteq> None})"
  have scan: "scan_prefix E [0] (rl_engine l) = (Ok items, rl_engine l)"
    using kv_scan_prefix [of "rl_engine l" Entry "[0]"] s(1)
    by (auto simp: items_def stored_def Entry_bytes_less prefix_Entry simp del: rkey_bytes.simps)
  have dec: "map (\<lambda>item. bind_r item (decode_entry R)) items = map Ok (indexed (al_entries a))"
    using decoded_scan [OF s len, of "\<lambda>_. True"] by (simp add: items_def comp_def)
  have last: "(if items = [] then Ok (0, 0)
      else bind_r (last items) (\<lambda>kv. bind_r (decode_entry R kv) (\<lambda>e. Ok (en_index e, en_term e)))) =
      Ok (get_last_index l)"
  proof (cases "al_entries a = []")
    case True
    with dec have "items = []" by (simp add: indexed_def)
    with True assms show ?thesis by (simp add: log_rel_def last_term_of_def)
  next
    case False
    with dec have ne: "items \<noteq> []" by (metis (no_types) length_0_conv length_indexed length_map)
    have "bind_r (last items) (decode_entry R) = last (map (\<lambda>item. bind_r item (decode_entry R)) items)"
      using ne by (simp add: last_map)
    also have "\<dots> = Ok (last (indexed (al_entries a)))"
      unfolding dec using False by (subst last_map) (auto simp: indexed_def)
    also have "\<dots> = Ok (mk_entry (of_nat (length (al_entries a))) (last (al_entries a)))"
      using False by (simp add: last_conv_nth indexed_def del: of_nat_Suc)
    finally have "bind_r (last items) (decode_entry R) = \<dots>" .
    with ne False assms show ?thesis
      by (cases "last items") (auto simp: log_rel_def last_term_of_def)
  qed
  have commit: "e_get E (rkey_bytes CommitIndex) (rl_engine l) = (Ok (s CommitIndex), rl_engine l)"
    using s(1) kv_get [of "rl_engine l" CommitIndex] by (auto simp: stored_def)
  have cm: "(case s CommitIndex of None \<Rightarrow> Ok (0, 0) | Some b \<Rightarrow> de (r_commit R) b) = Ok (get_commit_index l)"
    using s(2) assms by (auto simp: store_means_def log_rel_def split: option.splits)
  show ?thesis
    by (simp add: log_new_def scan bind_op_Ok last [unfolded get_last_index_def] commit cm get_last_index_def get_commit_index_def
        del: rkey_bytes.simps)
qed

end

end
