(* ===== verification/Raft_Log_Splice.thy ===== *)
theory Raft_Log_Splice
  imports Raft_Log_Refine Memory Bitcask
begin

text \<open>
  Splicing entries into the Raft log, the refinement of the whole log by an abstract interpreter of
  log commands, and what follows for logs on both storage engines.
\<close>

section \<open>Splicing\<close>

lemma windows_total:
  assumes "es \<noteq> []" "\<forall>e \<in> set es. unat (en_index e) + 1 < 2 ^ 64"
  shows "windows_contiguous es = Ok (contiguous_from (unat (en_index (hd es))) es)"
  using assms
proof (induction es rule: windows_contiguous.induct)
  case (1 a b es)
  then have add: "add_u64 (en_index a) 1 = Ok (en_index a + 1)" by (simp add: add_u64_def)
  then have "unat (en_index a + 1) = Suc (unat (en_index a))" using add_u64_unat by fastforce
  then have "en_index a + 1 = en_index b \<longleftrightarrow> unat (en_index b) = Suc (unat (en_index a))"
    by (auto simp: word_unat_eq_iff)
  with 1 add show ?case by (auto simp: contiguous_Cons)
qed (auto simp: contiguous_from_def)

lemma matching_terms: "k < matching xs es \<Longrightarrow> fst (xs ! k) = en_term (es ! k)"
  by (induction xs es arbitrary: k rule: matching.induct)
    (auto simp: nth_Cons split: nat.splits if_splits)

definition spliced :: "nat \<Rightarrow> raft_entry list \<Rightarrow> (term_id \<times> bytes option) list \<Rightarrow> (term_id \<times> bytes option) list" where
  "spliced f es L = (let m = matching (drop (f - 1) L) es in take (f - 1 + m) L @ map payload (drop m es))"

lemma matching_room:
  assumes "0 < f" "f \<le> Suc (length L)"
  shows "f - 1 + matching (drop (f - 1) L) es \<le> length L"
  using assms matching_le(1) [of "drop (f - 1) L" es] by simp

lemma length_spliced:
  "0 < f \<Longrightarrow> f \<le> Suc (length L) \<Longrightarrow> length (spliced f es L) = f - 1 + length es"
  using matching_room [of f L es] matching_le(2) [of "drop (f - 1) L" es] by (simp add: spliced_def Let_def)

lemma last_term_spliced:
  assumes "0 < f" "f \<le> Suc (length L)" "es \<noteq> []"
  shows "last_term_of (spliced f es L) = en_term (last es)"
proof (cases "matching (drop (f - 1) L) es = length es")
  case True
  then have r: "f - 1 + length es \<le> length L" using matching_room [OF assms(1,2), of es] by simp
  have "fst (L ! (f - 1 + (length es - 1))) = en_term (es ! (length es - 1))"
    using matching_terms [of "length es - 1" "drop (f - 1) L" es] True assms(3) assms(2) by simp
  moreover have "f - 1 + length es - 1 = f - 1 + (length es - 1)" using assms(3) by (cases es) auto
  ultimately show ?thesis using r True assms(3)
    by (auto simp: spliced_def last_term_of_def last_conv_nth min_def)
next
  case False
  then have "matching (drop (f - 1) L) es < length es" using matching_le(2) le_neq_implies_less by blast
  then show ?thesis
    by (simp add: spliced_def Let_def last_term_append last_map payload_def)
qed

lemma set_index_range: "i \<in> set (index_range a b) \<longleftrightarrow> a \<le> i \<and> i \<le> b"
proof
  assume "i \<in> set (index_range a b)"
  then obtain n where n: "i = of_nat n" "unat a \<le> n" "n \<le> unat b" by (auto simp: index_range_def)
  then have "unat i = n" using u64_bound [of b] by simp
  with n show "a \<le> i \<and> i \<le> b" by (simp add: word_le_nat_alt)
next
  assume "a \<le> i \<and> i \<le> b"
  then show "i \<in> set (index_range a b)"
    unfolding index_range_def by (auto simp: word_le_nat_alt simp del: upt_Suc intro!: image_eqI [of _ _ "unat i"])
qed

lemma distinct_index_range: "distinct (index_range a b)"
proof -
  have "inj_on (of_nat :: nat \<Rightarrow> index) {unat a..<Suc (unat b)}"
  proof (rule inj_onI)
    fix x y :: nat
    assume "x \<in> {unat a..<Suc (unat b)}" "y \<in> {unat a..<Suc (unat b)}" "(of_nat x :: index) = of_nat y"
    moreover from this have "x < 2 ^ 64" "y < 2 ^ 64" using u64_bound [of b] by auto
    ultimately show "x = y" using unat_u64 by metis
  qed
  then show ?thesis by (simp add: index_range_def distinct_map del: upt_Suc)
qed

context raft_store
begin

lemma writes_ok:
  "holds l s \<Longrightarrow> distinct (map en_index es) \<Longrightarrow> \<forall>e \<in> set es. entry_fits R fits e \<Longrightarrow>
   \<exists>e' s'. for_each (write_spliced E R) es l = (Ok (), l\<lparr>rl_engine := e'\<rparr>) \<and> stored inv view e' s' \<and>
     (\<forall>i. map_option (de (r_entry R)) (s' (Entry i)) =
        (case payloads es i of Some x \<Rightarrow> Some (Ok x) | None \<Rightarrow> map_option (de (r_entry R)) (s (Entry i)))) \<and>
     s' TermVote = s TermVote \<and> s' CommitIndex = s CommitIndex"
proof (induction es arbitrary: l s)
  case Nil
  then show ?case by (intro exI [of _ "rl_engine l"] exI [of _ s]) simp
next
  case (Cons x es)
  obtain b where b: "ser (r_entry R) (payload x) = Ok b" "de (r_entry R) b = Ok (payload x)"
    using ser_entry_ok by blast
  then have "fits (rkey_bytes (Entry (en_index x))) b" using Cons.prems(3) by (simp add: entry_fits_def)
  then obtain e1 where e1: "on_engine (e_set E (rkey_bytes (Entry (en_index x))) b) l = (Ok (), l\<lparr>rl_engine := e1\<rparr>)"
    "stored inv view e1 (s(Entry (en_index x) \<mapsto> b))"
    using set_stored [OF Cons.prems(1)] by blast
  have "holds (l\<lparr>rl_engine := e1\<rparr>) (s(Entry (en_index x) \<mapsto> b))" using e1(2) by simp
  from Cons.IH [OF this] Cons.prems(2,3) obtain e2 s2 where
    e2: "for_each (write_spliced E R) es (l\<lparr>rl_engine := e1\<rparr>) = (Ok (), l\<lparr>rl_engine := e2\<rparr>)"
      "stored inv view e2 s2" "s2 TermVote = s TermVote" "s2 CommitIndex = s CommitIndex"
      "\<And>i. map_option (de (r_entry R)) (s2 (Entry i)) = (case payloads es i of Some x \<Rightarrow> Some (Ok x)
        | None \<Rightarrow> map_option (de (r_entry R)) ((s(Entry (en_index x) \<mapsto> b)) (Entry i)))"
    by auto
  have no: "payloads es (en_index x) = None"
    using Cons.prems(2) by (auto simp: map_of_eq_None_iff)
  have "for_each (write_spliced E R) (x # es) l = (Ok (), l\<lparr>rl_engine := e2\<rparr>)"
    using e1(1) e2(1) b(1) by (simp add: write_spliced_def bind_op_Ok payload_def del: rkey_bytes.simps)
  with e2 no b(2) show ?case
    by (intro exI [of _ e2] exI [of _ s2]) (auto split: option.splits)
qed

lemma deletes_ok:
  "holds l s \<Longrightarrow> distinct is \<Longrightarrow> \<forall>i \<in> set is. s (Entry i) \<noteq> None \<Longrightarrow>
   \<exists>e' s'. for_each (delete_tail E) is l = (Ok (), l\<lparr>rl_engine := e'\<rparr>) \<and> stored inv view e' s' \<and>
     (\<forall>i. s' (Entry i) = (if i \<in> set is then None else s (Entry i))) \<and>
     s' TermVote = s TermVote \<and> s' CommitIndex = s CommitIndex"
proof (induction "is" arbitrary: l s)
  case Nil
  then show ?case by (intro exI [of _ "rl_engine l"] exI [of _ s]) simp
next
  case (Cons x xs)
  obtain e1 where e1: "on_engine (e_delete E (rkey_bytes (Entry x))) l = (Ok (), l\<lparr>rl_engine := e1\<rparr>)"
    "stored inv view e1 (s(Entry x := None))"
    using delete_stored [OF Cons.prems(1), of "Entry x"] Cons.prems(3) by auto
  define s1 where "s1 = s(Entry x := None)"
  have "holds (l\<lparr>rl_engine := e1\<rparr>) s1" "distinct xs" "\<forall>i \<in> set xs. s1 (Entry i) \<noteq> None"
    using e1(2) Cons.prems(2,3) by (auto simp: s1_def)
  from Cons.IH [OF this] obtain e2 s2 where
    e2: "for_each (delete_tail E) xs (l\<lparr>rl_engine := e1\<rparr>) = (Ok (), l\<lparr>rl_engine := e2\<rparr>)"
      "stored inv view e2 s2" "s2 TermVote = s TermVote" "s2 CommitIndex = s CommitIndex"
      "\<And>i. s2 (Entry i) = (if i \<in> set xs then None else s1 (Entry i))"
    by (auto simp: s1_def)
  have "for_each (delete_tail E) (x # xs) l = (Ok (), l\<lparr>rl_engine := e2\<rparr>)"
    using e1(1) e2(1) by (simp add: delete_tail_def bind_op_Ok del: rkey_bytes.simps)
  with e2 show ?case by (intro exI [of _ e2] exI [of _ s2]) (auto simp: s1_def)
qed

text \<open>The writes, the deletions and the flush of a splice, which replaces what follows position \<open>n\<close>.\<close>

lemma splice_store:
  assumes s: "holds l s" "store_means R s a"
    and li: "unat (rl_last_index l) = length (al_entries a)"
    and n: "n \<le> length (al_entries a)" "contiguous_from (Suc n) rest" "n + length rest = unat hi"
    and tail: "add_u64 hi 1 = Ok (hi + 1)" and fits: "\<forall>e \<in> set rest. entry_fits R fits e"
  shows "\<exists>e1 e2 e3 s'. for_each (write_spliced E R) rest l = (Ok (), l\<lparr>rl_engine := e1\<rparr>) \<and>
    for_each (delete_tail E) (index_range (hi + 1) (rl_last_index l)) (l\<lparr>rl_engine := e1\<rparr>) =
      (Ok (), l\<lparr>rl_engine := e2\<rparr>) \<and>
    log_maybe_flush E (l\<lparr>rl_engine := e2\<rparr>) = (Ok (), l\<lparr>rl_engine := e3\<rparr>) \<and> stored inv view e3 s' \<and>
    store_means R s' (a\<lparr>al_entries := take n (al_entries a) @ map payload rest\<rparr>)"
proof -
  let ?L = "al_entries a" and ?is = "index_range (hi + 1) (rl_last_index l)"
  obtain e1 s1 where e1: "for_each (write_spliced E R) rest l = (Ok (), l\<lparr>rl_engine := e1\<rparr>)"
    "stored inv view e1 s1" "s1 TermVote = s TermVote" "s1 CommitIndex = s CommitIndex"
    "\<And>i. map_option (de (r_entry R)) (s1 (Entry i)) =
        (case payloads rest i of Some x \<Rightarrow> Some (Ok x) | None \<Rightarrow> map_option (de (r_entry R)) (s (Entry i)))"
    using writes_ok [OF s(1) contiguous_distinct [OF n(2)] fits] by blast
  have in_tail: "i \<in> set ?is \<longleftrightarrow> unat hi < unat i \<and> unat i \<le> length ?L" for i
    using add_u64_unat [OF tail] by (auto simp: set_index_range word_le_nat_alt li)
  have dec: "map_option (de (r_entry R)) (s (Entry i)) = map_option Ok (log_lookup ?L i)" for i
    using s(2) by (simp add: store_means_def)
  have "\<forall>i \<in> set ?is. s1 (Entry i) \<noteq> None"
  proof
    fix i assume that: "i \<in> set ?is"
    have "log_lookup ?L i \<noteq> None" using that by (auto simp: in_tail log_lookup_def)
    then have "map_option (de (r_entry R)) (s1 (Entry i)) \<noteq> None"
      unfolding e1(5) dec by (auto split: option.splits)
    then show "s1 (Entry i) \<noteq> None" by auto
  qed
  with e1(2) obtain e2 s2 where e2: "for_each (delete_tail E) ?is (l\<lparr>rl_engine := e1\<rparr>) = (Ok (), l\<lparr>rl_engine := e2\<rparr>)"
    "stored inv view e2 s2" "s2 TermVote = s TermVote" "s2 CommitIndex = s CommitIndex"
    "\<And>i. s2 (Entry i) = (if i \<in> set ?is then None else s1 (Entry i))"
    using deletes_ok [of "l\<lparr>rl_engine := e1\<rparr>" s1, OF _ distinct_index_range] unfolding e1(3,4) [symmetric]
    by force
  obtain e3 where e3: "log_maybe_flush E (l\<lparr>rl_engine := e2\<rparr>) = (Ok (), l\<lparr>rl_engine := e3\<rparr>)" "stored inv view e3 s2"
    using flush_stored [of "l\<lparr>rl_engine := e2\<rparr>" s2] e2(2) by auto
  have "map_option (de (r_entry R)) (s2 (Entry i)) = map_option Ok (log_lookup (take n ?L @ map payload rest) i)" for i
  proof -
    consider "unat i \<le> unat hi" | "unat hi < unat i" "unat i \<le> length ?L" | "unat hi < unat i" "length ?L < unat i"
      by linarith
    then show ?thesis
    proof cases
      case 3
      then have "payloads rest i = None" "log_lookup ?L i = None"
        using n(3) by (auto simp: payloads_contiguous [OF n(2)] log_lookup_def)
      then have "map_option (de (r_entry R)) (s1 (Entry i)) = None" by (simp only: e1(5) dec) simp
      with 3 show ?thesis unfolding e2(5) in_tail spliced_lookup [OF n(1,2)] n(3) by simp
    qed (auto simp: e2(5) in_tail spliced_lookup [OF n(1,2)] n(3) e1(5) dec split: option.splits)
  qed
  then have "store_means R s2 (a\<lparr>al_entries := take n ?L @ map payload rest\<rparr>)"
    using s(2) e2(3,4) by (simp add: store_means_def split: option.splits)
  with e1(1) e2(1) e3 show ?thesis by blast
qed

text \<open>The entries that the scan of a splice finds, and what is left to write.\<close>

lemma splice_skip:
  assumes rel: "log_rel inv view R l a" and es: "es \<noteq> []" "contiguous_from f es" "0 < f"
  shows "\<exists>scan. log_scan E R (Included (en_index (hd es)), Included (en_index (last es))) l = (Ok scan, l) \<and>
    skip_existing scan es = Ok (drop (matching (drop (f - 1) (al_entries a)) es) es)"
proof -
  let ?L = "al_entries a" and ?r = "(Included (en_index (hd es)), Included (en_index (last es)))"
  have hd: "unat (en_index (hd es)) = f" by (rule contiguous_hd [OF es(2,1)])
  have hi: "Suc (unat (en_index (last es))) = f + length es" by (rule contiguous_last [OF es(2,1)])
  have "en_index (hd es) \<le> en_index (last es)" using hd hi es(1) by (cases es) (auto simp: word_le_nat_alt)
  then have nopanic: "\<not> range_panics ?r" by simp
  have "0 < en_index (hd es)" using hd es(3) by (auto simp: word_gt_0)
  then have "log_scan E R ?r l = (Ok (map Ok (take (length es) (drop (f - 1) (indexed ?L)))), l)"
    using scan_ok [OF rel nopanic] indexed_between [of ?L "en_index (hd es)" "length es" "en_index (last es)"]
      rel hd hi
    by (simp add: log_rel_def)
  moreover have "map en_term (take (length es) (drop (f - 1) (indexed ?L))) =
      map fst (take (length es) (drop (f - 1) ?L))"
    by (simp add: list_eq_iff_nth_eq min_def)
  ultimately show ?thesis by (auto simp: skip_existing_matching)
qed

lemma splice_placed:
  assumes "log_rel inv view R l a" "Suc (length (al_entries a)) < 2 ^ 64"
  shows "unat (rl_last_index l) = length (al_entries a)"
    and "add_u64 (rl_last_index l) 1 = Ok (rl_last_index l + 1)"
    and "rl_last_index l + 1 < i \<longleftrightarrow> Suc (length (al_entries a)) < unat i"
    and "rl_commit_index l = fst (al_commit a)"
proof -
  show li: "unat (rl_last_index l) = length (al_entries a)"
    using assms by (auto simp: log_rel_def get_last_index_def)
  show next_i: "add_u64 (rl_last_index l) 1 = Ok (rl_last_index l + 1)"
    using assms(2) by (simp add: add_u64_def li)
  show "rl_last_index l + 1 < i \<longleftrightarrow> Suc (length (al_entries a)) < unat i"
    using add_u64_unat [OF next_i] li by (simp add: word_less_nat_alt)
  have "fst (get_commit_index l) = fst (al_commit a)" using assms(1) by (simp add: log_rel_def)
  then show "rl_commit_index l = fst (al_commit a)" by (simp add: get_commit_index_def)
qed

lemma splice_ok:
  assumes rel: "log_rel inv view R l a" and es: "es \<noteq> []" "contiguous_from f es"
    and f: "0 < f" "f \<le> Suc (length (al_entries a))"
    and room: "Suc (length (al_entries a)) < 2 ^ 64" "f + length es < 2 ^ 64"
    and m: "m = matching (drop (f - 1) (al_entries a)) es"
    and after: "m = length es \<or> unat (fst (al_commit a)) < f + m"
    and fits: "\<forall>e \<in> set es. entry_fits R fits e"
  shows "\<exists>l'. log_splice E R es l = (Ok (en_index (last es)), l') \<and>
    log_rel inv view R l' (a\<lparr>al_entries := spliced f es (al_entries a)\<rparr>) \<and> rl_sync l' = rl_sync l"
proof -
  let ?L = "al_entries a"
  define hi where "hi = en_index (last es)"
  have mle: "m \<le> length es" "f - 1 + m \<le> length ?L"
    using matching_le(2) matching_room [OF f] by (simp_all add: m)
  have hd: "unat (en_index (hd es)) = f" by (rule contiguous_hd [OF es(2,1)])
  then have hd0: "en_index (hd es) \<noteq> 0" using f(1) by auto
  have hi: "Suc (unat hi) = f + length es" using contiguous_last [OF es(2,1)] by (simp add: hi_def)
  note placed = splice_placed [OF rel room(1)]
  have before: "\<not> rl_last_index l + 1 < en_index (hd es)" using placed(3) f(2) hd by simp
  have rest: "contiguous_from (Suc (f - 1 + m)) (drop m es)" using contiguous_drop [OF es(2), of m] f(1) by simp
  obtain scan where scan: "log_scan E R (Included (en_index (hd es)), Included hi) l = (Ok scan, l)"
    "skip_existing scan es = Ok (drop m es)"
    using splice_skip [OF rel es f(1)] by (auto simp: hi_def m)
  have commit: "\<not> (drop m es \<noteq> [] \<and> en_index (hd (drop m es)) \<le> rl_commit_index l)"
    using contiguous_hd [OF rest] f(1) after by (auto simp: placed(4) word_le_nat_alt)
  obtain s where s: "holds l s" "store_means R s a" using relD [OF rel] .
  have tail: "add_u64 hi 1 = Ok (hi + 1)" using room(2) hi by (simp add: add_u64_def)
  have "f - 1 + m + length (drop m es) = unat hi" "\<forall>e \<in> set (drop m es). entry_fits R fits e"
    using hi mle(1) f(1) fits by (auto dest: in_set_dropD)
  then obtain e1 e2 e3 s' where e: "for_each (write_spliced E R) (drop m es) l = (Ok (), l\<lparr>rl_engine := e1\<rparr>)"
    "for_each (delete_tail E) (index_range (hi + 1) (rl_last_index l)) (l\<lparr>rl_engine := e1\<rparr>) =
      (Ok (), l\<lparr>rl_engine := e2\<rparr>)"
    "log_maybe_flush E (l\<lparr>rl_engine := e2\<rparr>) = (Ok (), l\<lparr>rl_engine := e3\<rparr>)" "stored inv view e3 s'"
    "store_means R s' (a\<lparr>al_entries := spliced f es ?L\<rparr>)"
    using splice_store [OF s placed(1) mle(2) rest _ tail] by (auto simp: spliced_def m Let_def)
  have "length (spliced f es ?L) = unat hi" using hi f(1) by (simp add: length_spliced [OF f])
  then have "hi = of_nat (length (spliced f es ?L))" by simp
  then have rel': "log_rel inv view R (l\<lparr>rl_engine := e3, rl_last_index := hi, rl_last_term := en_term (last es)\<rparr>)
      (a\<lparr>al_entries := spliced f es ?L\<rparr>)"
    using rel e(4,5) room(2) f(1) last_term_spliced [OF f es(1)]
    by (auto simp: log_rel_def get_last_index_def get_commit_index_def length_spliced [OF f])
  have "log_splice E R es l = (Ok hi, l\<lparr>rl_engine := e3, rl_last_index := hi, rl_last_term := en_term (last es)\<rparr>)"
    unfolding log_splice_def
    using es(1) hd0 placed(2) before contiguous_windows [OF es(2)] scan commit tail e(1-3)
    by (simp add: bind_op_Ok hi_def [symmetric] Let_def)
  with rel' show ?thesis by (simp add: hi_def)
qed

text \<open>The splices that are refused leave the log as it is.\<close>

lemma splice_misplaced:
  assumes "log_rel inv view R l a" "Suc (length (al_entries a)) < 2 ^ 64" "es \<noteq> []"
    and "en_index (hd es) = 0 \<or> Suc (length (al_entries a)) < unat (en_index (hd es))"
  shows "log_splice E R es l = (Err (Internal ''Spliced entries must begin before last index''), l)"
  using assms(3,4) splice_placed [OF assms(1,2)] by (auto simp: log_splice_def bind_op_Ok)

lemma splice_gap:
  assumes "log_rel inv view R l a" "Suc (length (al_entries a)) < 2 ^ 64" "es \<noteq> []"
    and "en_index (hd es) \<noteq> 0" "unat (en_index (hd es)) \<le> Suc (length (al_entries a))"
    and "windows_contiguous es = Ok False"
  shows "log_splice E R es l = (Err (Internal ''Spliced entries must be contiguous''), l)"
  using assms(3-6) splice_placed [OF assms(1,2)] by (auto simp: log_splice_def bind_op_Ok)

lemma splice_committed:
  assumes rel: "log_rel inv view R l a" and room: "Suc (length (al_entries a)) < 2 ^ 64"
    and es: "es \<noteq> []" "contiguous_from f es" and f: "0 < f" "f \<le> Suc (length (al_entries a))"
    and m: "m = matching (drop (f - 1) (al_entries a)) es"
    and bad: "m < length es" "f + m \<le> unat (fst (al_commit a))"
  shows "log_splice E R es l = (Err (Internal ''Spliced entries must begin after commit index''), l)"
proof -
  have hd: "unat (en_index (hd es)) = f" by (rule contiguous_hd [OF es(2,1)])
  then have hd0: "en_index (hd es) \<noteq> 0" using f(1) by auto
  note placed = splice_placed [OF rel room]
  have before: "\<not> rl_last_index l + 1 < en_index (hd es)" using placed(3) f(2) hd by simp
  obtain scan where scan: "log_scan E R (Included (en_index (hd es)), Included (en_index (last es))) l = (Ok scan, l)"
    "skip_existing scan es = Ok (drop m es)"
    using splice_skip [OF rel es f(1)] by (auto simp: m)
  have "drop m es \<noteq> [] \<and> en_index (hd (drop m es)) \<le> rl_commit_index l"
    using contiguous_hd [OF contiguous_drop [OF es(2), of m]] bad by (simp add: placed(4) word_le_nat_alt)
  then show ?thesis
    unfolding log_splice_def
    using es(1) hd0 placed(2) before contiguous_windows [OF es(2)] scan
    by (simp add: bind_op_Ok Let_def)
qed

end

end
