(* ===== verification/Raft_Log_Run.thy ===== *)
theory Raft_Log_Run
  imports Raft_Log_Splice
begin

text \<open>
  Sequences of log operations.  \<open>log_exec\<close> calls one method of the log, \<open>a_exec\<close> is what the method
  promises on the abstract log, failures included; \<open>log_run\<close> and \<open>a_run\<close> run a sequence and collect
  the replies.  The log over any storage engine answers every sequence as the abstract log does,
  and so does a log that is reopened from its engine.
\<close>

section \<open>Commands\<close>

datatype log_cmd =
    C_append term_id "bytes option"
  | C_commit index
  | C_splice "raft_entry list"
  | C_set_term term_id "node_id option"
  | C_get index
  | C_has index term_id
  | C_scan "index bounds"
  | C_get_term
  | C_last_index
  | C_commit_index

datatype log_reply =
    A_unit
  | A_index index
  | A_entry "raft_entry option"
  | A_bool bool
  | A_entries "raft_entry list"
  | A_term "term_id \<times> node_id option"
  | A_position "index \<times> term_id"

fun log_exec :: "'e engine \<Rightarrow> raft_bincode \<Rightarrow> log_cmd \<Rightarrow> ('e raft_log, log_reply) op" where
  "log_exec E R (C_append t c) = bind_op (log_append E R t c) (\<lambda>i. return_op (A_index i))"
| "log_exec E R (C_commit i) = bind_op (log_commit E R i) (\<lambda>i. return_op (A_index i))"
| "log_exec E R (C_splice es) = bind_op (log_splice E R es) (\<lambda>i. return_op (A_index i))"
| "log_exec E R (C_set_term t v) = bind_op (log_set_term E R t v) (\<lambda>_. return_op A_unit)"
| "log_exec E R (C_get i) = bind_op (log_get E R i) (\<lambda>x. return_op (A_entry x))"
| "log_exec E R (C_has i t) = bind_op (log_has E R i t) (\<lambda>x. return_op (A_bool x))"
| "log_exec E R (C_scan r) = bind_op (log_scan E R r) (\<lambda>items.
     bind_op (lift_op (collect_results items)) (\<lambda>es. return_op (A_entries es)))"
| "log_exec E R C_get_term = bind_op (log_get_term E R) (\<lambda>x. return_op (A_term x))"
| "log_exec E R C_last_index = gets_op (\<lambda>l. A_position (get_last_index l))"
| "log_exec E R C_commit_index = gets_op (\<lambda>l. A_position (get_commit_index l))"

definition a_splice :: "raft_entry list \<Rightarrow> (raft_abs, index) op" where
  "a_splice es a = (let L = al_entries a; f = unat (en_index (hd es)); m = matching (drop (f - 1) L) es in
     if es = [] then (Ok (of_nat (length L)), a)
     else if f = 0 \<or> Suc (length L) < f
     then (Err (Internal ''Spliced entries must begin before last index''), a)
     else if \<not> contiguous_from f es then (Err (Internal ''Spliced entries must be contiguous''), a)
     else if m < length es \<and> f + m \<le> unat (fst (al_commit a))
     then (Err (Internal ''Spliced entries must begin after commit index''), a)
     else (Ok (en_index (last es)), a\<lparr>al_entries := spliced f es L\<rparr>))"

definition a_commit :: "index \<Rightarrow> (raft_abs, index) op" where
  "a_commit i a =
     (if i < fst (al_commit a) then (Err (Internal ''Commit index regression {} -> {}''), a)
      else case log_lookup (al_entries a) i of
        None \<Rightarrow> (Err (Internal ''Can't commit non-existant index {}''), a)
      | Some x \<Rightarrow> (Ok i, a\<lparr>al_commit := (i, fst x)\<rparr>))"

fun a_exec :: "log_cmd \<Rightarrow> (raft_abs, log_reply) op" where
  "a_exec (C_append t c) = (\<lambda>a. (Ok (A_index (of_nat (Suc (length (al_entries a))))),
     a\<lparr>al_entries := al_entries a @ [(t, c)]\<rparr>))"
| "a_exec (C_commit i) = bind_op (a_commit i) (\<lambda>i. return_op (A_index i))"
| "a_exec (C_splice es) = bind_op (a_splice es) (\<lambda>i. return_op (A_index i))"
| "a_exec (C_set_term t v) = (\<lambda>a. (Ok A_unit, a\<lparr>al_term := (t, v)\<rparr>))"
| "a_exec (C_get i) = gets_op (\<lambda>a. A_entry (map_option (mk_entry i) (log_lookup (al_entries a) i)))"
| "a_exec (C_has i t) = gets_op (\<lambda>a. A_bool (case log_lookup (al_entries a) i of
     Some x \<Rightarrow> fst x = t | None \<Rightarrow> i = 0 \<and> t = 0))"
| "a_exec (C_scan r) = gets_op (\<lambda>a. A_entries (filter (\<lambda>e. in_range r (en_index e)) (indexed (al_entries a))))"
| "a_exec C_get_term = gets_op (\<lambda>a. A_term (al_term a))"
| "a_exec C_last_index = gets_op (\<lambda>a. A_position (of_nat (length (al_entries a)), last_term_of (al_entries a)))"
| "a_exec C_commit_index = gets_op (\<lambda>a. A_position (al_commit a))"

fun run_with :: "('c \<Rightarrow> ('s, 'r) op) \<Rightarrow> 'c list \<Rightarrow> 's \<Rightarrow> 'r result list \<times> 's" where
  "run_with exec [] s = ([], s)"
| "run_with exec (c # cs) s = (case exec c s of (r, s') \<Rightarrow>
     (case run_with exec cs s' of (rs, s'') \<Rightarrow> (r # rs, s'')))"

abbreviation log_run :: "'e engine \<Rightarrow> raft_bincode \<Rightarrow> log_cmd list \<Rightarrow> 'e raft_log \<Rightarrow> log_reply result list \<times> 'e raft_log" where
  "log_run E R \<equiv> run_with (log_exec E R)"

abbreviation a_run :: "log_cmd list \<Rightarrow> raft_abs \<Rightarrow> log_reply result list \<times> raft_abs" where
  "a_run \<equiv> run_with a_exec"

text \<open>The commands the engine and the index width have room for: the encoded pair fits, no index
  overflows, and a scan's range is one that \<^verbatim>\<open>BTreeMap::range\<close> accepts.\<close>

fun cmd_ok :: "raft_bincode \<Rightarrow> (bytes \<Rightarrow> bytes \<Rightarrow> bool) \<Rightarrow> log_cmd \<Rightarrow> raft_abs \<Rightarrow> bool" where
  "cmd_ok R fits (C_append t c) a \<longleftrightarrow> Suc (length (al_entries a)) < 2 ^ 64 \<and>
     entry_fits R fits (mk_entry (of_nat (Suc (length (al_entries a)))) (t, c))"
| "cmd_ok R fits (C_commit i) a \<longleftrightarrow>
     (\<forall>t b. ser (r_commit R) (i, t) = Ok b \<longrightarrow> fits (rkey_bytes CommitIndex) b)"
| "cmd_ok R fits (C_splice es) a \<longleftrightarrow> Suc (length (al_entries a)) < 2 ^ 64 \<and>
     (\<forall>e \<in> set es. unat (en_index e) + 1 < 2 ^ 64 \<and> entry_fits R fits e)"
| "cmd_ok R fits (C_set_term t v) a \<longleftrightarrow>
     (\<forall>b. ser (r_vote R) (t, v) = Ok b \<longrightarrow> fits (rkey_bytes TermVote) b)"
| "cmd_ok R fits (C_scan r) a \<longleftrightarrow> \<not> range_panics r"
| "cmd_ok R fits _ a \<longleftrightarrow> True"

fun cmds_ok :: "raft_bincode \<Rightarrow> (bytes \<Rightarrow> bytes \<Rightarrow> bool) \<Rightarrow> log_cmd list \<Rightarrow> raft_abs \<Rightarrow> bool" where
  "cmds_ok R fits [] a \<longleftrightarrow> True"
| "cmds_ok R fits (c # cs) a \<longleftrightarrow> cmd_ok R fits c a \<and> cmds_ok R fits cs (snd (a_exec c a))"

definition empty_log :: raft_abs where
  "empty_log = \<lparr>al_entries = [], al_commit = (0, 0), al_term = (0, None)\<rparr>"

section \<open>Refinement\<close>

context raft_store
begin

lemma exec_splice:
  assumes rel: "log_rel inv view R l a" and ok: "cmd_ok R fits (C_splice es) a"
  shows "\<exists>l'. log_splice E R es l = (fst (a_splice es a), l') \<and> log_rel inv view R l' (snd (a_splice es a))"
proof -
  let ?L = "al_entries a" and ?f = "unat (en_index (hd es))"
  let ?m = "matching (drop (?f - 1) ?L) es"
  have room: "Suc (length ?L) < 2 ^ 64" "\<forall>e \<in> set es. entry_fits R fits e" using ok by simp_all
  consider "es = []" | "es \<noteq> []" "?f = 0 \<or> Suc (length ?L) < ?f"
    | "es \<noteq> []" "0 < ?f" "?f \<le> Suc (length ?L)" "\<not> contiguous_from ?f es"
    | "es \<noteq> []" "0 < ?f" "?f \<le> Suc (length ?L)" "contiguous_from ?f es"
      "?m < length es" "?f + ?m \<le> unat (fst (al_commit a))"
    | "es \<noteq> []" "0 < ?f" "?f \<le> Suc (length ?L)" "contiguous_from ?f es"
      "?m = length es \<or> unat (fst (al_commit a)) < ?f + ?m"
    using matching_le(2) [of "drop (?f - 1) ?L" es] by linarith
  then show ?thesis
  proof cases
    case 1
    with rel show ?thesis by (simp add: log_splice_def a_splice_def log_rel_def get_last_index_def)
  next
    case 2
    then have "en_index (hd es) = 0 \<or> Suc (length ?L) < ?f" by (simp add: unat_eq_zero)
    with 2 rel show ?thesis
      using splice_misplaced [OF rel room(1)] by (auto simp: a_splice_def Let_def)
  next
    case 3
    then have "windows_contiguous es = Ok False" "en_index (hd es) \<noteq> 0"
      using windows_total [of es] ok by auto
    with 3 rel show ?thesis
      using splice_gap [OF rel room(1)] by (auto simp: a_splice_def Let_def)
  next
    case 4
    then show ?thesis
      using splice_committed [OF rel room(1), of es ?f] rel by (auto simp: a_splice_def Let_def)
  next
    case 5
    moreover have "unat (en_index (last es)) + 1 < 2 ^ 64" using 5(1) ok by simp
    ultimately have "?f + length es < 2 ^ 64" using contiguous_last [of ?f es] by simp
    with 5 show ?thesis
      using splice_ok [OF rel, of es ?f ?m] room by (auto simp: a_splice_def Let_def)
  qed
qed

lemma exec_commit:
  assumes rel: "log_rel inv view R l a" and ok: "cmd_ok R fits (C_commit i) a"
  shows "\<exists>l'. log_commit E R i l = (fst (a_commit i a), l') \<and> log_rel inv view R l' (snd (a_commit i a))"
proof -
  have c: "rl_commit_index l = fst (al_commit a)" using rel by (metis fst_conv get_commit_index_def log_rel_def)
  show ?thesis
  proof (cases "log_lookup (al_entries a) i")
    case None
    with c rel commit_regression commit_missing [OF rel _ None] show ?thesis by (auto simp: a_commit_def)
  next
    case (Some x)
    with c rel commit_regression [of i l] commit_ok [OF rel, of i "fst x" "snd x"] ok show ?thesis
      by (auto simp: a_commit_def)
  qed
qed

lemma exec_ok:
  assumes rel: "log_rel inv view R l a" and ok: "cmd_ok R fits c a"
  shows "\<exists>l'. log_exec E R c l = (fst (a_exec c a), l') \<and> log_rel inv view R l' (snd (a_exec c a))"
proof (cases c)
  case (C_append t x)
  have "rl_last_index l = of_nat (length (al_entries a))" using rel by (simp add: log_rel_def get_last_index_def)
  with C_append append_ok [OF rel, of t x] ok show ?thesis by (auto simp: bind_op_Ok add.commute)
next
  case (C_commit i)
  with exec_commit [OF rel, of i] ok show ?thesis
    by (auto simp: bind_op_def split: prod.splits result.splits)
next
  case (C_splice es)
  with exec_splice [OF rel, of es] ok show ?thesis
    by (auto simp: bind_op_def split: prod.splits result.splits)
next
  case (C_set_term t v)
  with set_term_ok [OF rel, of t v] ok show ?thesis by (auto simp: bind_op_Ok)
next
  case (C_scan r)
  with scan_ok [OF rel, of r] ok rel show ?thesis by (auto simp: bind_op_Ok)
qed (use rel get_ok [OF rel] has_ok [OF rel] get_term_ok [OF rel] in \<open>auto simp: bind_op_Ok log_rel_def\<close>)

lemma run_ok:
  "log_rel inv view R l a \<Longrightarrow> cmds_ok R fits cs a \<Longrightarrow>
   \<exists>l'. log_run E R cs l = (fst (a_run cs a), l') \<and> log_rel inv view R l' (snd (a_run cs a))"
proof (induction cs arbitrary: l a)
  case (Cons c cs)
  obtain l1 where l1: "log_exec E R c l = (fst (a_exec c a), l1)" "log_rel inv view R l1 (snd (a_exec c a))"
    using exec_ok [OF Cons.prems(1), of c] Cons.prems(2) by auto
  with Cons.IH [OF l1(2)] Cons.prems(2) show ?case by (auto split: prod.splits)
qed simp

lemma new_empty:
  assumes "inv e" "view e = []"
  obtains l where "log_new E R sync e = (Ok l, e)" "log_rel inv view R l empty_log"
proof -
  let ?l = "\<lparr>rl_engine = e, rl_last_index = 0, rl_last_term = 0, rl_commit_index = 0, rl_commit_term = 0,
    rl_sync = sync\<rparr>"
  have "kv_of rkey_bytes (view e) = (\<lambda>_. None)" using assms(2) by (auto simp: fun_eq_iff)
  with assms have "log_rel inv view R ?l empty_log"
    by (auto simp: log_rel_def stored_def store_means_def empty_log_def get_last_index_def get_commit_index_def
        last_term_of_def log_lookup_def unat_eq_zero)
  moreover from new_ok [OF this, of sync] have "log_new E R sync e = (Ok ?l, e)" by simp
  ultimately show thesis by (rule that [rotated])
qed

end

section \<open>Both engines\<close>

text \<open>An instance of the codecs: fixed-width integers, an option as a tag byte and its value.\<close>

definition fixed_raft_bincode :: raft_bincode where
  "fixed_raft_bincode = \<lparr>
     r_entry = \<lparr>ser = (\<lambda>(t, c). Ok (to_be_bytes t @ (case c of None \<Rightarrow> [0] | Some x \<Rightarrow> 1 # x))),
                de = (\<lambda>b. Ok (from_be_bytes (take 8 b), if b ! 8 = 0 then None else Some (drop 9 b)))\<rparr>,
     r_vote = \<lparr>ser = (\<lambda>(t, v). Ok (to_be_bytes t @ (case v of None \<Rightarrow> [0] | Some x \<Rightarrow> [1, x]))),
               de = (\<lambda>b. Ok (from_be_bytes (take 8 b), if b ! 8 = 0 then None else Some (b ! 9)))\<rparr>,
     r_commit = \<lparr>ser = (\<lambda>(i, t). Ok (to_be_bytes i @ to_be_bytes t)),
                 de = (\<lambda>b. Ok (from_be_bytes (take 8 b), from_be_bytes (drop 8 b)))\<rparr>\<rparr>"

lemma fixed_raft_bincode_ok: "raft_bincode_ok fixed_raft_bincode"
  by (auto simp: raft_bincode_ok_def codec_ok_def fixed_raft_bincode_def nth_append split: option.splits)

interpretation memory_log: raft_store memory_engine memory_inv mem_data "\<lambda>_ _. True" fixed_raft_bincode
  by unfold_locales (rule fixed_raft_bincode_ok)

interpretation bitcask_log: raft_store bitcask_engine bitcask_inv bitcask_view fits_entry fixed_raft_bincode
  by unfold_locales (rule fixed_raft_bincode_ok)

lemma raft_storeI: "storage_engine E einv view fits \<Longrightarrow> raft_bincode_ok R \<Longrightarrow> raft_store E einv view fits R"
  by (simp add: raft_store_def raft_store_axioms_def typed_engine_def raft_keys.key_encoding_axioms)

section \<open>Committed entries\<close>

definition commit_ok :: "raft_abs \<Rightarrow> bool" where
  "commit_ok a \<longleftrightarrow> al_commit a = (0, 0) \<or>
     (\<exists>c. log_lookup (al_entries a) (fst (al_commit a)) = Some (snd (al_commit a), c))"

text \<open>Splices that reach at least up to the commit index.\<close>

fun splices_reach :: "log_cmd list \<Rightarrow> raft_abs \<Rightarrow> bool" where
  "splices_reach [] a \<longleftrightarrow> True"
| "splices_reach (c # cs) a \<longleftrightarrow>
     (case c of C_splice es \<Rightarrow> es = [] \<or> fst (al_commit a) \<le> en_index (last es) | _ \<Rightarrow> True) \<and>
     splices_reach cs (snd (a_exec c a))"

lemma lookup_take:
  "log_lookup L' i = log_lookup L i" if "take n L' = take n L" "unat i \<le> n" "n \<le> length L" "n \<le> length L'"
proof (cases "i = 0")
  case False
  then have "0 < unat i" by (simp add: unat_gt_0)
  with that(2) have "unat i - 1 < n" by linarith
  then have "L' ! (unat i - 1) = L ! (unat i - 1)" using that(1) by (metis nth_take)
  with that show ?thesis by (simp add: log_lookup_def)
qed simp

lemma commit_le: "commit_ok a \<Longrightarrow> unat (fst (al_commit a)) \<le> length (al_entries a)"
  by (auto simp: commit_ok_def log_lookup_def split: if_splits)

lemma splice_keeps_commit:
  assumes "commit_ok a" "es = [] \<or> fst (al_commit a) \<le> en_index (last es)"
  shows "take (unat (fst (al_commit a))) (al_entries (snd (a_splice es a))) =
      take (unat (fst (al_commit a))) (al_entries a) \<and>
    unat (fst (al_commit a)) \<le> length (al_entries (snd (a_splice es a))) \<and>
    al_commit (snd (a_splice es a)) = al_commit a"
proof -
  let ?L = "al_entries a" and ?f = "unat (en_index (hd es))" and ?n = "unat (fst (al_commit a))"
  let ?m = "matching (drop (?f - 1) ?L) es"
  have n: "?n \<le> length ?L" by (rule commit_le [OF assms(1)])
  show ?thesis
  proof (cases "es \<noteq> [] \<and> 0 < ?f \<and> ?f \<le> Suc (length ?L) \<and> contiguous_from ?f es \<and>
      \<not> (?m < length es \<and> ?f + ?m \<le> ?n)")
    case True
    have room: "?f - 1 + ?m \<le> length ?L" using True matching_room [of ?f ?L es] by simp
    have "?n \<le> unat (en_index (last es))" using True assms(2) by (simp add: word_le_nat_alt)
    then have reach: "?n < ?f + length es" using True contiguous_last [of ?f es] by linarith
    then have "?n \<le> ?f - 1 + ?m" using True matching_le(2) [of "drop (?f - 1) ?L" es] by linarith
    then have "take ?n (spliced ?f es ?L) = take ?n ?L"
      using room by (simp add: spliced_def Let_def min_def)
    moreover have "?n \<le> length (spliced ?f es ?L)"
      using reach True length_spliced [of ?f ?L es] by simp
    ultimately show ?thesis using True by (auto simp: a_splice_def Let_def)
  next
    case False
    then have "snd (a_splice es a) = a" by (auto simp: a_splice_def Let_def)
    with n show ?thesis by simp
  qed
qed

lemma exec_keeps_commit:
  assumes "commit_ok a" "splices_reach [c] a" "length (al_entries a) < 2 ^ 64"
  defines "a' \<equiv> snd (a_exec c a)"
  shows "take (unat (fst (al_commit a))) (al_entries a') = take (unat (fst (al_commit a))) (al_entries a) \<and>
    unat (fst (al_commit a)) \<le> length (al_entries a') \<and> fst (al_commit a) \<le> fst (al_commit a') \<and> commit_ok a'"
proof (cases c)
  case (C_splice es)
  then have a': "a' = snd (a_splice es a)"
    by (auto simp: a'_def bind_op_def split: prod.splits result.splits)
  have k: "take (unat (fst (al_commit a))) (al_entries a') = take (unat (fst (al_commit a))) (al_entries a)"
    "unat (fst (al_commit a)) \<le> length (al_entries a')" "al_commit a' = al_commit a"
    using splice_keeps_commit [OF assms(1), of es] assms(2) C_splice unfolding a' by auto
  moreover have "commit_ok a'"
    using assms(1) lookup_take [OF k(1) order_refl commit_le [OF assms(1)] k(2)] k(3)
    by (auto simp: commit_ok_def)
  ultimately show ?thesis by simp
next
  case (C_commit i)
  then have "a' = snd (a_commit i a)"
    by (auto simp: a'_def bind_op_def split: prod.splits result.splits)
  then show ?thesis
    using assms(1) commit_le [OF assms(1)] by (auto simp: a_commit_def commit_ok_def not_less split: option.splits)
next
  case (C_append t x)
  have le: "unat (fst (al_commit a)) \<le> length (al_entries a)" by (rule commit_le [OF assms(1)])
  then have "log_lookup (al_entries a @ [(t, x)]) (fst (al_commit a)) = log_lookup (al_entries a) (fst (al_commit a))"
    by (intro lookup_take [OF _ order_refl]) auto
  with C_append assms(1) le show ?thesis by (auto simp: a'_def commit_ok_def)
qed (use assms(1) commit_le [OF assms(1)] in \<open>auto simp: a'_def commit_ok_def\<close>)

lemma exec_length: "cmd_ok R fits c a \<Longrightarrow> length (al_entries a) < 2 ^ 64 \<Longrightarrow>
  length (al_entries (snd (a_exec c a))) < 2 ^ 64"
proof (cases c)
  case (C_splice es)
  assume ok: "cmd_ok R fits c a" and len: "length (al_entries a) < 2 ^ 64"
  let ?f = "unat (en_index (hd es))"
  have "length (spliced ?f es (al_entries a)) < 2 ^ 64"
    if "es \<noteq> []" "0 < ?f" "?f \<le> Suc (length (al_entries a))" "contiguous_from ?f es"
    using that length_spliced [of ?f "al_entries a" es] contiguous_last [of ?f es] u64_bound [of "en_index (last es)"]
    by simp
  moreover have "snd (a_exec c a) = snd (a_splice es a)"
    using C_splice by (auto simp: bind_op_def split: prod.splits result.splits)
  ultimately show ?thesis using len by (auto simp: a_splice_def Let_def)
qed (auto simp: a_commit_def bind_op_def split: option.splits prod.splits result.splits)

lemma run_keeps_commit:
  "commit_ok a \<Longrightarrow> splices_reach cs a \<Longrightarrow> cmds_ok R fits cs a \<Longrightarrow> length (al_entries a) < 2 ^ 64 \<Longrightarrow>
   take (unat (fst (al_commit a))) (al_entries (snd (a_run cs a))) = take (unat (fst (al_commit a))) (al_entries a) \<and>
   unat (fst (al_commit a)) \<le> length (al_entries (snd (a_run cs a))) \<and>
   fst (al_commit a) \<le> fst (al_commit (snd (a_run cs a))) \<and> commit_ok (snd (a_run cs a))"
proof (induction cs arbitrary: a)
  case (Cons c cs)
  define a1 where "a1 = snd (a_exec c a)"
  have step: "take (unat (fst (al_commit a))) (al_entries a1) = take (unat (fst (al_commit a))) (al_entries a)"
    "fst (al_commit a) \<le> fst (al_commit a1)" "commit_ok a1"
    using exec_keeps_commit [OF Cons.prems(1), of c] Cons.prems(2,4) by (simp_all add: a1_def)
  have "length (al_entries a1) < 2 ^ 64"
    using exec_length [of R fits c a] Cons.prems(3,4) by (simp add: a1_def)
  then have ih: "take (unat (fst (al_commit a1))) (al_entries (snd (a_run cs a1))) =
      take (unat (fst (al_commit a1))) (al_entries a1)"
    "unat (fst (al_commit a1)) \<le> length (al_entries (snd (a_run cs a1)))"
    "fst (al_commit a1) \<le> fst (al_commit (snd (a_run cs a1)))" "commit_ok (snd (a_run cs a1))"
    using Cons.IH [OF step(3)] Cons.prems(2,3) by (simp_all add: a1_def)
  have run: "snd (a_run (c # cs) a) = snd (a_run cs a1)" by (simp add: a1_def split: prod.splits)
  have le: "unat (fst (al_commit a)) \<le> unat (fst (al_commit a1))" using step(2) by (simp add: word_le_nat_alt)
  then have "take (unat (fst (al_commit a))) (al_entries (snd (a_run cs a1))) =
      take (unat (fst (al_commit a))) (al_entries a1)"
    using arg_cong [OF ih(1), of "take (unat (fst (al_commit a)))"] by (simp add: min_absorb1)
  with step(1,2) ih(2-4) le show ?case unfolding run by (auto intro: order_trans)
qed (simp add: commit_le)

section \<open>The log as a whole\<close>

text \<open>(C2) The Raft log keeps its promises on every storage engine.  Opened on an empty engine, the log
  answers every sequence of appends, commits, splices, term updates, lookups, range scans and position
  queries exactly as a list of entries with a commit position and a term does: the same values, and
  the same errors where an operation is refused.\<close>

theorem raft_log_refines:
  assumes "storage_engine E einv view fits" and "raft_bincode_ok R"
    and "einv e" and "view e = []" and "cmds_ok R fits cs empty_log"
  shows "\<exists>l l'. log_new E R sync e = (Ok l, e) \<and> log_run E R cs l = (fst (a_run cs empty_log), l')"
proof -
  note M = raft_storeI [OF assms(1,2)]
  obtain l where l: "log_new E R sync e = (Ok l, e)" "log_rel einv view R l empty_log"
    by (rule raft_store.new_empty [OF M assms(3,4)])
  then show ?thesis using raft_store.run_ok [OF M l(2) assms(5)] by blast
qed

definition demo_cmds :: "log_cmd list" where
  "demo_cmds = [C_set_term 1 (Some 1), C_append 1 (Some [7]), C_append 1 None, C_commit 1,
     C_splice [mk_entry 2 (2, Some [8]), mk_entry 3 (2, None)], C_scan (Unbounded, Unbounded), C_commit 4]"

lemma contiguous_Nil [simp]: "contiguous_from f []"
  by (simp add: contiguous_from_def)

lemmas log_eval = a_commit_def a_splice_def spliced_def contiguous_Cons mk_entry_def payload_def log_lookup_def
  bind_op_def indexed_def in_range_def last_term_of_def entry_fits_def Let_def

lemma memory_log_new:
  "\<exists>l. log_new memory_engine fixed_raft_bincode sync memory_new = (Ok l, memory_new) \<and>
     log_rel memory_inv mem_data fixed_raft_bincode l empty_log"
  using memory_log.new_empty [OF memory_inv_new, of sync] by blast

lemma demo_replies:
  "fst (a_run demo_cmds empty_log) = [Ok A_unit, Ok (A_index 1), Ok (A_index 2), Ok (A_index 1), Ok (A_index 3),
     Ok (A_entries [mk_entry 1 (1, Some [7]), mk_entry 2 (2, Some [8]), mk_entry 3 (2, None)]),
     Err (Internal ''Can't commit non-existant index {}'')]"
  by (simp add: demo_cmds_def empty_log_def log_eval)

lemma demo_cmds_ok: "cmds_ok R (\<lambda>_ _. True) demo_cmds empty_log"
  by (simp add: demo_cmds_def empty_log_def log_eval)

theorem raft_log_refines_witness:
  "\<exists>l l'. log_new memory_engine fixed_raft_bincode True memory_new = (Ok l, memory_new) \<and>
     log_run memory_engine fixed_raft_bincode demo_cmds l =
       ([Ok A_unit, Ok (A_index 1), Ok (A_index 2), Ok (A_index 1), Ok (A_index 3),
         Ok (A_entries [mk_entry 1 (1, Some [7]), mk_entry 2 (2, Some [8]), mk_entry 3 (2, None)]),
         Err (Internal ''Can't commit non-existant index {}'')], l')"
  using raft_log_refines [where sync = True and e = memory_new, OF memory_kv.storage_engine_axioms
      fixed_raft_bincode_ok memory_inv_new demo_cmds_ok]
  by (simp add: demo_replies)

text \<open>(C3) A Raft log survives a restart.  After any sequence of operations on a log that was opened on an
  empty engine, opening a new log on the same engine gives back the same last and commit positions,
  and the reopened log answers every further sequence of operations as the old one would have,
  the term and the vote included.\<close>

theorem raft_log_reopen:
  assumes "storage_engine E einv view fits" and "raft_bincode_ok R"
    and "einv e" and "view e = []" and "cmds_ok R fits (cs @ cs') empty_log"
    and "log_new E R sync e = (Ok l, e)" and "log_run E R cs l = (rs, l')"
  shows "\<exists>l1 l2 l3. log_new E R sync' (rl_engine l') = (Ok l1, rl_engine l') \<and>
    get_last_index l1 = get_last_index l' \<and> get_commit_index l1 = get_commit_index l' \<and>
    log_run E R cs' l' = (fst (a_run cs' (snd (a_run cs empty_log))), l2) \<and>
    log_run E R cs' l1 = (fst (a_run cs' (snd (a_run cs empty_log))), l3)"
proof -
  note M = raft_storeI [OF assms(1,2)]
  have split: "cmds_ok R fits (xs @ ys) a \<longleftrightarrow> cmds_ok R fits xs a \<and> cmds_ok R fits ys (snd (a_run xs a))" for xs ys a
    by (induction xs arbitrary: a) (auto split: prod.splits)
  have ok: "cmds_ok R fits cs empty_log" "cmds_ok R fits cs' (snd (a_run cs empty_log))"
    using assms(5) by (simp_all add: split)
  have "log_rel einv view R l empty_log"
    using raft_store.new_empty [OF M assms(3,4), of sync] assms(6) by auto
  from raft_store.run_ok [OF M this ok(1)] have rel: "log_rel einv view R l' (snd (a_run cs empty_log))"
    using assms(7) by auto
  then have "log_rel einv view R (l'\<lparr>rl_sync := sync'\<rparr>) (snd (a_run cs empty_log))"
    by (simp add: log_rel_def get_last_index_def get_commit_index_def)
  from raft_store.run_ok [OF M this ok(2)] raft_store.run_ok [OF M rel ok(2)] raft_store.new_ok [OF M rel, of sync']
  show ?thesis by (auto simp: get_last_index_def get_commit_index_def)
qed

theorem raft_log_reopen_witness:
  "\<exists>l l' l1 l2. log_new memory_engine fixed_raft_bincode True memory_new = (Ok l, memory_new) \<and>
     log_run memory_engine fixed_raft_bincode demo_cmds l = (fst (a_run demo_cmds empty_log), l') \<and>
     log_new memory_engine fixed_raft_bincode False (rl_engine l') = (Ok l1, rl_engine l') \<and>
     log_run memory_engine fixed_raft_bincode [C_get_term, C_last_index] l1 =
       ([Ok (A_term (1, Some 1)), Ok (A_position (3, 2))], l2)"
proof -
  obtain l where l: "log_new memory_engine fixed_raft_bincode True memory_new = (Ok l, memory_new)"
    "log_rel memory_inv mem_data fixed_raft_bincode l empty_log"
    using memory_log_new by blast
  obtain l' where l': "log_run memory_engine fixed_raft_bincode demo_cmds l = (fst (a_run demo_cmds empty_log), l')"
    using memory_log.run_ok [OF l(2) demo_cmds_ok] by blast
  have "cmds_ok fixed_raft_bincode (\<lambda>_ _. True) (demo_cmds @ [C_get_term, C_last_index]) empty_log"
    by (simp add: demo_cmds_def empty_log_def log_eval)
  moreover have "fst (a_run [C_get_term, C_last_index] (snd (a_run demo_cmds empty_log))) =
      [Ok (A_term (1, Some 1)), Ok (A_position (3, 2))]"
    by (simp add: demo_cmds_def empty_log_def log_eval)
  ultimately show ?thesis
    using raft_log_reopen [where sync' = False and cs' = "[C_get_term, C_last_index]", OF
        memory_kv.storage_engine_axioms fixed_raft_bincode_ok memory_inv_new _ l(1) l'] l(1) l'
    by auto
qed

text \<open>(C4) Committed entries stay.  In a log whose commit position names one of its entries, no sequence of
  operations in which every splice reaches at least the commit index changes or removes an entry at or
  below the commit index, and the commit index never goes back.\<close>

theorem raft_log_commit_stable:
  assumes "storage_engine E einv view fits" and "raft_bincode_ok R" and "log_rel einv view R l a"
    and "commit_ok a" and "cmds_ok R fits cs a" and "splices_reach cs a"
    and "log_run E R cs l = (rs, l')" and "i \<le> rl_commit_index l"
  shows "\<exists>x. log_get E R i l = (Ok x, l) \<and> log_get E R i l' = (Ok x, l') \<and>
    rl_commit_index l \<le> rl_commit_index l'"
proof -
  note M = raft_storeI [OF assms(1,2)]
  let ?a' = "snd (a_run cs a)"
  have rel': "log_rel einv view R l' ?a'" using raft_store.run_ok [OF M assms(3,5)] assms(7) by auto
  have len: "length (al_entries a) < 2 ^ 64" using assms(3) by (simp add: log_rel_def)
  have c: "rl_commit_index l = fst (al_commit a)" "rl_commit_index l' = fst (al_commit ?a')"
    using assms(3) rel' by (metis fst_conv get_commit_index_def log_rel_def)+
  have keep: "take (unat (fst (al_commit a))) (al_entries ?a') = take (unat (fst (al_commit a))) (al_entries a)"
    "unat (fst (al_commit a)) \<le> length (al_entries ?a')" "fst (al_commit a) \<le> fst (al_commit ?a')"
    using run_keeps_commit [OF assms(4,6,5) len] by simp_all
  have "log_lookup (al_entries ?a') i = log_lookup (al_entries a) i"
    using assms(8) c(1) by (intro lookup_take [OF keep(1) _ commit_le [OF assms(4)] keep(2)]) (simp add: word_le_nat_alt)
  then show ?thesis
    using raft_store.get_ok [OF M assms(3), of i] raft_store.get_ok [OF M rel', of i] keep(3) c by simp
qed

theorem raft_log_commit_stable_witness:
  "\<exists>l l' l2 x. log_run memory_engine fixed_raft_bincode demo_cmds l = (fst (a_run demo_cmds empty_log), l') \<and>
     log_run memory_engine fixed_raft_bincode [C_splice [mk_entry 1 (1, Some [7])], C_append 3 None] l' =
       ([Ok (A_index 1), Ok (A_index 2)], l2) \<and>
     log_get memory_engine fixed_raft_bincode 1 l' = (Ok x, l') \<and>
     log_get memory_engine fixed_raft_bincode 1 l2 = (Ok x, l2)"
proof -
  let ?cs = "[C_splice [mk_entry 1 (1, Some [7])], C_append 3 None]" and ?a = "snd (a_run demo_cmds empty_log)"
  obtain l where l: "log_rel memory_inv mem_data fixed_raft_bincode l empty_log"
    using memory_log_new by blast
  obtain l' where l': "log_run memory_engine fixed_raft_bincode demo_cmds l = (fst (a_run demo_cmds empty_log), l')"
    "log_rel memory_inv mem_data fixed_raft_bincode l' ?a"
    using memory_log.run_ok [OF l demo_cmds_ok] by blast
  have c: "al_commit ?a = (1, 1)" "commit_ok ?a"
    by (simp_all add: demo_cmds_def empty_log_def log_eval commit_ok_def)
  have ok: "cmds_ok fixed_raft_bincode (\<lambda>_ _. True) ?cs ?a" "splices_reach ?cs ?a"
    by (simp_all add: demo_cmds_def empty_log_def log_eval)
  obtain l2 where l2: "log_run memory_engine fixed_raft_bincode ?cs l' = (fst (a_run ?cs ?a), l2)"
    using memory_log.run_ok [OF l'(2) ok(1)] by blast
  have r: "fst (a_run ?cs ?a) = [Ok (A_index 1), Ok (A_index 2)]"
    by (simp add: demo_cmds_def empty_log_def log_eval)
  have "1 \<le> rl_commit_index l'" using l'(2) c(1) by (simp add: log_rel_def get_commit_index_def)
  from raft_log_commit_stable [OF memory_kv.storage_engine_axioms fixed_raft_bincode_ok l'(2) c(2) ok l2 this]
  show ?thesis using l'(1) l2 unfolding r by blast
qed

lemma lookup_spliced:
  assumes "contiguous_from f es" "0 < f" "f \<le> Suc (length L)"
  shows "unat j < f \<Longrightarrow> log_lookup (spliced f es L) j = log_lookup L j"
    and "f + length es \<le> unat j \<Longrightarrow> log_lookup (spliced f es L) j = None"
    and "k < length es \<Longrightarrow> \<exists>x. log_lookup (spliced f es L) (en_index (es ! k)) = Some x \<and> fst x = en_term (es ! k) \<and>
      (x = payload (es ! k) \<or> log_lookup L (en_index (es ! k)) = Some x)"
proof -
  let ?m = "matching (drop (f - 1) L) es"
  have m: "?m \<le> length es" "f - 1 + ?m \<le> length L" using matching_le(2) matching_room [OF assms(2,3)] by simp_all
  have rest: "contiguous_from (Suc (f - 1 + ?m)) (drop ?m es)" using contiguous_drop [OF assms(1), of ?m] assms(2) by simp
  note look = spliced_lookup [OF m(2) rest] payloads_contiguous [OF rest]
  show "log_lookup (spliced f es L) j = log_lookup L j" if "unat j < f"
    using that m(1) unfolding spliced_def Let_def look by auto
  show "log_lookup (spliced f es L) j = None" if "f + length es \<le> unat j"
    using that m(1) assms(2) unfolding spliced_def Let_def look by auto
  show "\<exists>x. log_lookup (spliced f es L) (en_index (es ! k)) = Some x \<and> fst x = en_term (es ! k) \<and>
      (x = payload (es ! k) \<or> log_lookup L (en_index (es ! k)) = Some x)" if k: "k < length es"
  proof -
    have j: "unat (en_index (es ! k)) = f + k" using assms(1) k by (simp add: contiguous_from_def)
    then have j0: "en_index (es ! k) \<noteq> 0" using assms(2) by auto
    show ?thesis
    proof (cases "k < ?m")
      case True
      then have "fst (L ! (f - 1 + k)) = en_term (es ! k)" "f + k \<le> length L"
        using matching_terms [OF True] m(2) assms(2,3) by simp_all
      moreover from this have "log_lookup L (en_index (es ! k)) = Some (L ! (f - 1 + k))"
        using j j0 assms(2) by (simp add: log_lookup_def)
      ultimately show ?thesis using True k m(1) j assms(2) unfolding spliced_def Let_def look
        by (intro exI [of _ "L ! (f - 1 + k)"]) auto
    next
      case False
      then have "f + k - Suc (f - 1 + ?m) = k - ?m" using assms(2) by simp
      with False k m(1) j assms(2) show ?thesis unfolding spliced_def Let_def look by (simp add: payload_def)
    qed
  qed
qed

lemma splice_exact:
  assumes "storage_engine E einv view fits" and "raft_bincode_ok R" and "log_rel einv view R l a"
    and "cmd_ok R fits (C_splice es) a" and "es \<noteq> []" and "log_splice E R es l = (Ok i, l')"
  shows "i = en_index (last es) \<and> get_last_index l' = (en_index (last es), en_term (last es)) \<and>
    get_commit_index l' = get_commit_index l \<and>
    (\<forall>j. \<exists>x. log_get E R j l' = (Ok x, l') \<and> (j < en_index (hd es) \<longrightarrow> log_get E R j l = (Ok x, l)) \<and>
      (en_index (last es) < j \<longrightarrow> x = None)) \<and>
    (\<forall>e \<in> set es. \<exists>e'. log_get E R (en_index e) l' = (Ok (Some e'), l') \<and> en_term e' = en_term e \<and>
      (e' = e \<or> log_get E R (en_index e) l = (Ok (Some e'), l)))"
proof -
  let ?L = "al_entries a" and ?f = "unat (en_index (hd es))"
  note M = raft_storeI [OF assms(1,2)]
  note get = raft_store.get_ok [OF M]
  from raft_store.exec_splice [OF M assms(3,4)] assms(6) have "fst (a_splice es a) = Ok i"
    and rel': "log_rel einv view R l' (snd (a_splice es a))" by auto
  then have f: "0 < ?f" "?f \<le> Suc (length ?L)" "contiguous_from ?f es" and i: "i = en_index (last es)"
    and a': "snd (a_splice es a) = a\<lparr>al_entries := spliced ?f es ?L\<rparr>"
    using assms(5) by (auto simp: a_splice_def Let_def split: if_splits)
  note rel' = rel' [unfolded a']
  have hi: "Suc (unat (en_index (last es))) = ?f + length es" by (rule contiguous_last [OF f(3) assms(5)])
  then have "length (spliced ?f es ?L) = unat (en_index (last es))"
    using length_spliced [OF f(1,2), of es] f(1) by linarith
  then have pos: "get_last_index l' = (en_index (last es), en_term (last es))" "get_commit_index l' = get_commit_index l"
    using rel' assms(3) last_term_spliced [OF f(1,2) assms(5)] by (simp_all add: log_rel_def)
  have "\<exists>x. log_get E R j l' = (Ok x, l') \<and> (j < en_index (hd es) \<longrightarrow> log_get E R j l = (Ok x, l)) \<and>
      (en_index (last es) < j \<longrightarrow> x = None)" for j
    using lookup_spliced(1,2) [OF f(3,1,2), of j] hi by (simp add: get [OF rel'] get [OF assms(3)] word_less_nat_alt)
  moreover have "\<exists>e'. log_get E R (en_index e) l' = (Ok (Some e'), l') \<and> en_term e' = en_term e \<and>
      (e' = e \<or> log_get E R (en_index e) l = (Ok (Some e'), l))" if "e \<in> set es" for e
    using that lookup_spliced(3) [OF f(3,1,2)]
    by (fastforce simp: in_set_conv_nth get [OF rel'] get [OF assms(3)] mk_entry_def payload_def)
  ultimately show ?thesis using i pos by blast
qed

text \<open>(C37) What a splice does.  When a splice of a non-empty list of entries succeeds, over any storage engine and
  in any state of the log, its result and the new last position are those of the last spliced entry; entries
  before the first spliced one are as before; at the index of each spliced entry there is now an entry with its
  term, the spliced one or the one that was already there; and no entry is left after the last spliced one.
  The commit position stays.  The last two points hold also for a splice that ends before the commit index, of
  entries that are all in the log already: it cuts off committed entries, and the commit index then names an
  entry that is gone.\<close>

theorem raft_splice_exact:
  assumes "storage_engine E einv view fits" and "raft_bincode_ok R" and "log_rel einv view R l a"
    and "cmd_ok R fits (C_splice es) a" and "es \<noteq> []" and "log_splice E R es l = (Ok i, l')"
  shows "i = en_index (last es) \<and> get_last_index l' = (en_index (last es), en_term (last es)) \<and>
    get_commit_index l' = get_commit_index l \<and>
    (\<forall>j. \<exists>x. log_get E R j l' = (Ok x, l') \<and> (j < en_index (hd es) \<longrightarrow> log_get E R j l = (Ok x, l)) \<and>
      (en_index (last es) < j \<longrightarrow> x = None)) \<and>
    (\<forall>e \<in> set es. \<exists>e'. log_get E R (en_index e) l' = (Ok (Some e'), l') \<and> en_term e' = en_term e \<and>
      (e' = e \<or> log_get E R (en_index e) l = (Ok (Some e'), l)))"
  using assms by (rule splice_exact)

text \<open>Two entries are appended and committed and the first one is spliced again: the second is gone, the commit
  index still names it.\<close>

theorem raft_splice_exact_witness:
  "\<exists>l0 l l'. log_new memory_engine fixed_raft_bincode True memory_new = (Ok l0, memory_new) \<and>
    log_run memory_engine fixed_raft_bincode [C_append 1 (Some [1]), C_append 1 (Some [2]), C_commit 2] l0 =
      ([Ok (A_index 1), Ok (A_index 2), Ok (A_index 2)], l) \<and>
    log_splice memory_engine fixed_raft_bincode [mk_entry 1 (1, Some [1])] l = (Ok 1, l') \<and>
    get_commit_index l' = (2, 1) \<and> get_last_index l' = (1, 1) \<and>
    log_get memory_engine fixed_raft_bincode 2 l = (Ok (Some (mk_entry 2 (1, Some [2]))), l) \<and>
    log_get memory_engine fixed_raft_bincode 2 l' = (Ok None, l')"
proof -
  let ?cs = "[C_append 1 (Some [1]), C_append 1 (Some [2]), C_commit 2]" and ?es = "[mk_entry 1 (1, Some [1])]"
  let ?a = "snd (a_run ?cs empty_log)"
  obtain l0 where l0: "log_new memory_engine fixed_raft_bincode True memory_new = (Ok l0, memory_new)"
    "log_rel memory_inv mem_data fixed_raft_bincode l0 empty_log" using memory_log_new by blast
  have "cmds_ok fixed_raft_bincode (\<lambda>_ _. True) ?cs empty_log" by (simp add: empty_log_def log_eval)
  from memory_log.run_ok [OF l0(2) this] obtain l where
    l: "log_run memory_engine fixed_raft_bincode ?cs l0 = (fst (a_run ?cs empty_log), l)"
      "log_rel memory_inv mem_data fixed_raft_bincode l ?a" by blast
  have a: "?a = \<lparr>al_entries = [(1, Some [1]), (1, Some [2])], al_commit = (2, 1), al_term = (0, None)\<rparr>"
    "fst (a_run ?cs empty_log) = [Ok (A_index 1), Ok (A_index 2), Ok (A_index 2)]"
    by (simp_all add: empty_log_def log_eval)
  have ok: "cmd_ok fixed_raft_bincode (\<lambda>_ _. True) (C_splice ?es) ?a" unfolding a by (simp add: log_eval)
  moreover have "fst (a_splice ?es ?a) = Ok 1" unfolding a by (simp add: log_eval)
  ultimately obtain l' where l': "log_splice memory_engine fixed_raft_bincode ?es l = (Ok 1, l')"
    using memory_log.exec_splice [OF l(2), of ?es] by auto
  have "get_commit_index l = (2, 1)" using l(2) a(1) by (simp add: log_rel_def)
  moreover have "log_get memory_engine fixed_raft_bincode 2 l = (Ok (Some (mk_entry 2 (1, Some [2]))), l)"
    using memory_log.get_ok [OF l(2), of 2] unfolding a by (simp add: log_lookup_def)
  moreover note raft_splice_exact [OF memory_kv.storage_engine_axioms fixed_raft_bincode_ok l(2) ok _ l']
  ultimately show ?thesis using l0(1) l(1) l' a(2) by (auto simp: mk_entry_def dest: spec [of _ 2])
qed

end
