(* ===== verification/Op_Logic.thy ===== *)
theory Op_Logic
  imports Prelude
begin

text \<open>
  A Hoare logic for stateful operations that may fail.  \<open>triple P m Q F\<close>: run in a state that
  satisfies \<open>P\<close>, the operation \<open>m\<close> either returns a value \<open>a\<close> in a state with \<open>Q a\<close>, or fails with an
  error or a panic in a state with \<open>F\<close>.  Nothing is assumed of \<open>m\<close>, so a triple speaks of every
  outcome.  \<open>keeps P m\<close> is the case where \<open>P\<close> is an invariant of the operation.
\<close>

definition triple :: "('s \<Rightarrow> bool) \<Rightarrow> ('s, 'a) op \<Rightarrow> ('a \<Rightarrow> 's \<Rightarrow> bool) \<Rightarrow> ('s \<Rightarrow> bool) \<Rightarrow> bool" where
  "triple P m Q F \<longleftrightarrow> (\<forall>s. P s \<longrightarrow> (case m s of (Ok a, s') \<Rightarrow> Q a s' | (_, s') \<Rightarrow> F s'))"

abbreviation keeps :: "('s \<Rightarrow> bool) \<Rightarrow> ('s, 'a) op \<Rightarrow> bool" where
  "keeps P m \<equiv> triple P m (\<lambda>_. P) P"

named_theorems triple_rules \<open>structural rules of the operation logic\<close>

lemma tripleI:
  assumes "\<And>s r s'. P s \<Longrightarrow> m s = (r, s') \<Longrightarrow> case r of Ok a \<Rightarrow> Q a s' | _ \<Rightarrow> F s'"
  shows "triple P m Q F"
  unfolding triple_def
proof (intro allI impI)
  fix s assume "P s"
  then show "case m s of (Ok a, s') \<Rightarrow> Q a s' | (_, s') \<Rightarrow> F s'"
    using assms [of s "fst (m s)" "snd (m s)"] by (auto split: prod.splits result.splits)
qed

lemma tripleD: "triple P m Q F \<Longrightarrow> P s \<Longrightarrow> m s = (r, s') \<Longrightarrow> case r of Ok a \<Rightarrow> Q a s' | _ \<Rightarrow> F s'"
  by (auto simp: triple_def split: result.splits)

lemma tripleD_Ok: "triple P m Q F \<Longrightarrow> P s \<Longrightarrow> m s = (Ok a, s') \<Longrightarrow> Q a s'"
  using tripleD by fastforce

lemma triple_conseq:
  assumes "triple P' m Q' F'" "\<And>s. P s \<Longrightarrow> P' s" "\<And>a s. Q' a s \<Longrightarrow> Q a s" "\<And>s. F' s \<Longrightarrow> F s"
  shows "triple P m Q F"
  using assms by (fastforce simp: triple_def split: prod.splits result.splits)

lemma triple_bind:
  "triple P m S F \<Longrightarrow> (\<And>a. triple (S a) (f a) Q F) \<Longrightarrow> triple P (bind_op m f) Q F"
  by (fastforce simp: triple_def bind_op_def split: prod.splits result.splits)

lemma triple_return: "(\<And>s. P s \<Longrightarrow> Q a s) \<Longrightarrow> triple P (return_op a) Q F"
  by (simp add: triple_def)

lemma triple_lift: "(\<And>a s. P s \<Longrightarrow> r = Ok a \<Longrightarrow> Q a s) \<Longrightarrow> (\<And>s. P s \<Longrightarrow> F s) \<Longrightarrow> triple P (lift_op r) Q F"
  by (cases r) (auto simp: triple_def)

lemma triple_gets: "(\<And>s. P s \<Longrightarrow> Q (f s) s) \<Longrightarrow> triple P (gets_op f) Q F"
  by (simp add: triple_def)

lemma triple_modify: "(\<And>s. P s \<Longrightarrow> Q () (g s)) \<Longrightarrow> triple P (modify_op g) Q F"
  by (simp add: triple_def)

lemma triple_state: "(\<And>s. P s \<Longrightarrow> triple (\<lambda>s'. s' = s) (m s) Q F) \<Longrightarrow> triple P (\<lambda>s. m s s) Q F"
  by (auto simp: triple_def)

lemma triple_pre: "(\<And>s. P s \<Longrightarrow> triple (\<lambda>s'. s' = s) m Q F) \<Longrightarrow> triple P m Q F"
  by (auto simp: triple_def)

lemma triple_imp: "(H \<Longrightarrow> triple P m Q F) \<Longrightarrow> triple (\<lambda>s. H \<and> P s) m Q F"
  by (auto simp: triple_def)

lemma triple_if [triple_rules]:
  "(c \<Longrightarrow> triple P m Q F) \<Longrightarrow> (\<not> c \<Longrightarrow> triple P n Q F) \<Longrightarrow> triple P (if c then m else n) Q F"
  by simp

lemma triple_option [triple_rules]:
  "(x = None \<Longrightarrow> triple P m Q F) \<Longrightarrow> (\<And>a. x = Some a \<Longrightarrow> triple P (n a) Q F) \<Longrightarrow>
   triple P (case x of None \<Rightarrow> m | Some a \<Rightarrow> n a) Q F"
  by (cases x) simp_all

lemma triple_prod [triple_rules]:
  "(\<And>a b. x = (a, b) \<Longrightarrow> triple P (m a b) Q F) \<Longrightarrow> triple P (case x of (a, b) \<Rightarrow> m a b) Q F"
  by (cases x) simp

lemma triple_for_each:
  "(\<And>x. x \<in> set xs \<Longrightarrow> triple P (f x) (\<lambda>_. P) F) \<Longrightarrow> triple P (for_each f xs) (\<lambda>_. P) F"
  by (induction xs) (auto intro!: triple_return triple_bind)

lemma keeps_pure [triple_rules]:
  "keeps P (return_op a)" "keeps P (lift_op r)" "keeps P (gets_op f)"
  by (auto intro: triple_return triple_lift triple_gets)

lemma keeps_for_each [triple_rules]:
  "(\<And>x. x \<in> set xs \<Longrightarrow> keeps P (f x)) \<Longrightarrow> keeps P (for_each f xs)"
  by (rule triple_for_each)

lemma keeps_bind [triple_rules]: "keeps P m \<Longrightarrow> (\<And>a. keeps P (f a)) \<Longrightarrow> keeps P (bind_op m f)"
  by (rule triple_bind)

lemma keeps_lift_bind [triple_rules]:
  "(\<And>a. r = Ok a \<Longrightarrow> keeps P (f a)) \<Longrightarrow> keeps P (bind_op (lift_op r) f)"
  by (cases r) (auto intro: triple_lift)

text \<open>Rules for the first operation of a sequence, where it reads or checks only.\<close>

named_theorems step_rules \<open>rules of the operation logic that consume the first operation of a sequence\<close>

lemma step_gets: "(\<And>x. triple (\<lambda>s. P s \<and> f s = x) (m x) Q F) \<Longrightarrow> triple P (bind_op (gets_op f) m) Q F"
  by (auto simp: triple_def bind_op_def)

lemma step_lift [step_rules]:
  "(\<And>s. P s \<Longrightarrow> F s) \<Longrightarrow> (\<And>a. r = Ok a \<Longrightarrow> triple P (m a) Q F) \<Longrightarrow> triple P (bind_op (lift_op r) m) Q F"
  by (cases r) (auto simp: triple_def bind_op_def)

lemma step_modify: "triple P' m Q F \<Longrightarrow> (\<And>s. P s \<Longrightarrow> P' (g s)) \<Longrightarrow> triple P (bind_op (modify_op g) (\<lambda>_. m)) Q F"
  by (auto simp: triple_def bind_op_def)

lemma step_keeps:
  "keeps P m \<Longrightarrow> (\<And>s. P s \<Longrightarrow> F s) \<Longrightarrow> (\<And>a. triple P (f a) Q F) \<Longrightarrow> triple P (bind_op m f) Q F"
  by (rule triple_bind [of _ _ "\<lambda>_. P"]) (auto elim: triple_conseq)

lemma triple_weaken_fail: "triple P m Q F' \<Longrightarrow> (\<And>s. F' s \<Longrightarrow> F s) \<Longrightarrow> triple P m Q F"
  by (erule triple_conseq) auto

lemma triple_ex: "(\<And>x. triple (P x) m Q F) \<Longrightarrow> triple (\<lambda>s. \<exists>x. P x s) m Q F"
  by (rule tripleI) (blast dest: tripleD)

lemma triple_conj: "(H \<Longrightarrow> triple P m Q F) \<Longrightarrow> triple (\<lambda>s. P s \<and> H) m Q F"
  by (auto simp: triple_def)

lemma keepsD: "keeps P m \<Longrightarrow> P s \<Longrightarrow> P (snd (m s))"
  using tripleD [of P m "\<lambda>_. P" P s "fst (m s)" "snd (m s)"] by (auto split: result.splits)

lemma keeps_iff: "keeps P m \<longleftrightarrow> (\<forall>s. P s \<longrightarrow> P (snd (m s)))"
proof
  assume all: "\<forall>s. P s \<longrightarrow> P (snd (m s))"
  show "keeps P m"
  proof (rule tripleI)
    fix s r s' assume "P s" "m s = (r, s')"
    then have "P s'" using all by fastforce
    then show "case r of Ok a \<Rightarrow> P s' | _ \<Rightarrow> P s'" by (cases r) auto
  qed
qed (simp add: keepsD)

lemma keeps_conj: "keeps A m \<Longrightarrow> keeps B m \<Longrightarrow> keeps (\<lambda>s. A s \<and> B s) m"
  by (simp add: keeps_iff)

end
