(* ===== verification/Raft_Node.thy ===== *)
theory Raft_Node
  imports Raft_Log Op_Logic
begin

text \<open>
  The parts of a Raft node that all roles share: messages (\<^verbatim>\<open>src/src/raft/message.rs\<close>), the state machine
  interface (\<^verbatim>\<open>src/src/raft/state.rs\<close>), and the generic methods of \<^verbatim>\<open>RawNode\<close> in
  \<^verbatim>\<open>src/src/raft/node/mod.rs\<close>.

  A \<^verbatim>\<open>RawNode<R>\<close> is a record \<open>core\<close> of the fields that every role has, and the role as a separate
  value: a method that consumes the node and returns one in another role is an operation on the core
  that returns the new role.  The channel \<^verbatim>\<open>node_tx\<close> is the list of the envelopes sent and whether the
  receiver is still there.  What lies outside the program is passed in as an environment: the storage
  engine, \<^verbatim>\<open>bincode\<close>, the state machine, and the iteration orders of \<^verbatim>\<open>HashSet\<close> and \<^verbatim>\<open>HashMap\<close>;
  the random election timeouts are a sequence of draws in the core.  Assertions are panics,
  \<^verbatim>\<open>debug_assert\<close> included, as in a debug build.
\<close>

section \<open>Messages\<close>

type_synonym ticks = u8
type_synonym request_id = bytes
type_synonym read_sequence = u64

datatype request = Req_Read bytes | Req_Write bytes | Req_Status

record raft_status =
  rs_leader :: node_id
  rs_term :: term_id
  rs_last_index :: "node_id \<rightharpoonup> index"
  rs_commit_index :: index
  rs_apply_index :: index
  rs_storage :: engine_status

datatype response = Res_Read bytes | Res_Write bytes | Res_Status raft_status

datatype message =
    Heartbeat index term_id read_sequence
  | HeartbeatResponse index term_id read_sequence
  | Campaign index term_id
  | CampaignResponse bool
  | Append index term_id "raft_entry list"
  | AppendResponse bool index term_id
  | ClientRequest request_id request
  | ClientResponse request_id "response result"

record envelope =
  ev_from :: node_id
  ev_to :: node_id
  ev_term :: term_id
  ev_message :: message

section \<open>The state machine\<close>

record 's state_machine =
  sm_applied_index :: "'s \<Rightarrow> index"
  sm_apply :: "raft_entry \<Rightarrow> ('s, bytes) op"
  sm_read :: "bytes \<Rightarrow> 's \<Rightarrow> bytes result"

section \<open>Nodes\<close>

definition HEARTBEAT_INTERVAL :: ticks where "HEARTBEAT_INTERVAL = 3"

definition election_timeout_start :: ticks where "election_timeout_start = 10"

definition election_timeout_end :: ticks where "election_timeout_end = 20"

record ('e, 's) raft_env =
  rv_engine :: "'e engine"
  rv_bincode :: raft_bincode
  rv_state :: "'s state_machine"
  rv_peer_order :: "node_id set \<Rightarrow> node_id list"
  rv_id_order :: "request_id set \<Rightarrow> request_id list"
  rv_index_order :: "index set \<Rightarrow> index list"

record ('e, 's) core =
  nd_id :: node_id
  nd_peers :: "node_id set"
  nd_term :: term_id
  nd_log :: "'e raft_log"
  nd_state :: 's
  nd_tx :: "envelope list"
  nd_tx_open :: bool
  nd_rand :: "nat \<Rightarrow> ticks"

definition on_log :: "('e raft_log, 'a) op \<Rightarrow> (('e, 's) core, 'a) op" where
  "on_log m = (\<lambda>n. case m (nd_log n) of (r, l) \<Rightarrow> (r, n\<lparr>nd_log := l\<rparr>))"

text \<open>A call of the state machine whose outcome the caller inspects.\<close>

definition run_state :: "('s, 'a) op \<Rightarrow> (('e, 's) core, 'a result) op" where
  "run_state m = (\<lambda>n. case m (nd_state n) of (r, s) \<Rightarrow> (Ok r, n\<lparr>nd_state := s\<rparr>))"

definition assert_op :: "bool \<Rightarrow> string \<Rightarrow> ('s, unit) op" where
  "assert_op b msg = lift_op (if b then Ok () else Panic msg)"

text \<open>A draw from the range of election timeouts.\<close>

definition rand_election_timeout :: "(('e, 's) core, ticks) op" where
  "rand_election_timeout = (\<lambda>n. (Ok (election_timeout_start +
     nd_rand n 0 mod (election_timeout_end - election_timeout_start)),
     n\<lparr>nd_rand := (\<lambda>i. nd_rand n (Suc i))\<rparr>))"

definition add_u8 :: "u8 \<Rightarrow> u8 \<Rightarrow> u8 result" where
  "add_u8 a b = (if unat a + unat b < 2 ^ 8 then Ok (a + b) else Panic ''attempt to add with overflow'')"

definition quorum_size :: "u8 \<Rightarrow> u8" where
  "quorum_size n = n div 2 + 1"

text \<open>\<^verbatim>\<open>select_nth_unstable_by\<close> with the reversed order: the element at the index in descending order.\<close>

definition quorum_value :: "'a::linorder list \<Rightarrow> 'a result" where
  "quorum_value values =
     (if values = [] then Panic ''no values provided''
      else let index = unat (quorum_size (of_nat (length values))) - 1 in
        if index < length values then Ok (rev (sort values) ! index)
        else Panic ''partition_at_index index {index} greater than length of slice'')"

definition cluster_size :: "('e, 's) core \<Rightarrow> u8 result" where
  "cluster_size n = add_u8 (of_nat (card (nd_peers n))) 1"

definition node_quorum_size :: "('e, 's) core \<Rightarrow> u8 result" where
  "node_quorum_size n = map_result quorum_size (cluster_size n)"

definition node_quorum_value :: "'a::linorder list \<Rightarrow> ('e, 's) core \<Rightarrow> 'a result" where
  "node_quorum_value values n = bind_r (cluster_size n) (\<lambda>k.
     if length values = unat k then quorum_value values
     else Panic ''values must match cluster size'')"

definition node_send :: "node_id \<Rightarrow> message \<Rightarrow> (('e, 's) core, unit) op" where
  "node_send to_id message = (\<lambda>n.
     if nd_tx_open n
     then (Ok (), n\<lparr>nd_tx := nd_tx n @ [\<lparr>ev_from = nd_id n, ev_to = to_id, ev_term = nd_term n, ev_message = message\<rparr>]\<rparr>)
     else (Err (Internal ''sending on a disconnected channel''), n))"

definition broadcast :: "message \<Rightarrow> (('e, 's) core, unit) op" where
  "broadcast message = bind_op (gets_op nd_peers) (\<lambda>peers.
     for_each (\<lambda>id. node_send id message) (sorted_list_of_set peers))"

definition assert_node :: "('e, 's) raft_env \<Rightarrow> (('e, 's) core, unit) op" where
  "assert_node V =
     bind_op (on_log (log_get_term (rv_engine V) (rv_bincode V))) (\<lambda>(term, _).
     bind_op (gets_op nd_term) (\<lambda>t. assert_op (t = term) ''Term does not match log''))"

definition assert_step :: "envelope \<Rightarrow> (('e, 's) core, unit) op" where
  "assert_step msg =
     bind_op (gets_op (\<lambda>n. ev_to msg = nd_id n)) (\<lambda>ok. bind_op (assert_op ok ''Message to other node'') (\<lambda>_.
     bind_op (gets_op (\<lambda>n. ev_from msg = nd_id n \<or> ev_from msg \<in> nd_peers n)) (\<lambda>known.
     assert_op known ''Unknown sender {}'')))"

text \<open>The loop of \<^verbatim>\<open>maybe_apply_with\<close>; the closure's captured state is an accumulator.\<close>

fun apply_loop :: "('e, 's) raft_env \<Rightarrow> (index \<Rightarrow> bytes result \<Rightarrow> 'a \<Rightarrow> (('e, 's) core, 'a) op) \<Rightarrow>
    raft_entry result list \<Rightarrow> 'a \<Rightarrow> (('e, 's) core, 'a) op" where
  "apply_loop V on_apply [] acc = return_op acc"
| "apply_loop V on_apply (item # scan) acc =
     bind_op (lift_op item) (\<lambda>entry.
     bind_op (run_state (sm_apply (rv_state V) entry)) (\<lambda>result. case result of
        Err (Internal m) \<Rightarrow> lift_op (Err (Internal m))
      | Panic p \<Rightarrow> lift_op (Panic p)
      | _ \<Rightarrow> bind_op (on_apply (en_index entry) result acc) (apply_loop V on_apply scan)))"

definition maybe_apply_with :: "('e, 's) raft_env \<Rightarrow>
    (index \<Rightarrow> bytes result \<Rightarrow> 'a \<Rightarrow> (('e, 's) core, 'a) op) \<Rightarrow> 'a \<Rightarrow> (('e, 's) core, 'a) op" where
  "maybe_apply_with V on_apply acc =
     bind_op (gets_op (\<lambda>n. sm_applied_index (rv_state V) (nd_state n))) (\<lambda>applied_index.
     bind_op (gets_op (\<lambda>n. fst (get_commit_index (nd_log n)))) (\<lambda>commit_index.
     bind_op (assert_op (applied_index \<le> commit_index) ''Commit index below applied index'') (\<lambda>_.
     if commit_index \<le> applied_index then return_op acc
     else bind_op (lift_op (add_u64 applied_index 1)) (\<lambda>start.
       bind_op (on_log (log_scan (rv_engine V) (rv_bincode V) (Included start, Included commit_index))) (\<lambda>scan.
       apply_loop V on_apply scan acc)))))"

definition maybe_apply :: "('e, 's) raft_env \<Rightarrow> (('e, 's) core, unit) op" where
  "maybe_apply V = maybe_apply_with V (\<lambda>_ _ _. return_op ()) ()"

end
