(* ===== verification/Raft_Roles.thy ===== *)
theory Raft_Roles
  imports Raft_Node
begin

text \<open>
  The three roles of a Raft node: \<^verbatim>\<open>src/src/raft/node/candidate.rs\<close>, \<^verbatim>\<open>follower.rs\<close> and \<^verbatim>\<open>leader.rs\<close>, and
  the \<^verbatim>\<open>Node\<close> enum of \<^verbatim>\<open>mod.rs\<close> that dispatches on them.  A method of \<^verbatim>\<open>RawNode<R>\<close> takes the
  role's record as an argument and returns the new one.
\<close>

section \<open>Roles\<close>

record candidate =
  ca_votes :: "node_id set"
  ca_election_duration :: ticks
  ca_election_timeout :: ticks

record follower =
  fo_leader :: "node_id option"
  fo_leader_seen :: ticks
  fo_election_timeout :: ticks
  fo_voted_for :: "node_id option"
  fo_forwarded :: "request_id set"

record progress =
  pr_next :: index
  pr_last :: index
  pr_read_seq :: read_sequence

record pending_write =
  wr_from :: node_id
  wr_id :: request_id

record pending_read =
  rd_seq :: read_sequence
  rd_from :: node_id
  rd_id :: request_id
  rd_command :: bytes

record leader =
  le_progress :: "node_id \<rightharpoonup> progress"
  le_writes :: "index \<rightharpoonup> pending_write"
  le_reads :: "pending_read list"
  le_read_seq :: read_sequence
  le_since_heartbeat :: ticks

datatype role = Candidate candidate | Follower follower | Leader leader

section \<open>Candidates: campaigning\<close>

definition candidate_new :: "(('e, 's) core, candidate) op" where
  "candidate_new = bind_op rand_election_timeout (\<lambda>timeout. return_op
     \<lparr>ca_votes = {}, ca_election_duration = 0, ca_election_timeout = timeout\<rparr>)"

definition campaign :: "('e, 's) raft_env \<Rightarrow> (('e, 's) core, candidate) op" where
  "campaign V =
     bind_op (gets_op nd_term) (\<lambda>old_term.
     bind_op (lift_op (add_u64 old_term 1)) (\<lambda>term.
     bind_op candidate_new (\<lambda>c.
     bind_op (gets_op nd_id) (\<lambda>id.
     bind_op (modify_op (\<lambda>n. n\<lparr>nd_term := term\<rparr>)) (\<lambda>_.
     bind_op (on_log (log_set_term (rv_engine V) (rv_bincode V) term (Some id))) (\<lambda>_.
     bind_op (gets_op (\<lambda>n. get_last_index (nd_log n))) (\<lambda>(last_index, last_term).
     bind_op (broadcast (Campaign last_index last_term)) (\<lambda>_.
     return_op (c\<lparr>ca_votes := insert id (ca_votes c)\<rparr>)))))))))"

section \<open>Followers\<close>

definition follower_new :: "node_id option \<Rightarrow> node_id option \<Rightarrow> (('e, 's) core, follower) op" where
  "follower_new leader voted_for = bind_op rand_election_timeout (\<lambda>timeout. return_op
     \<lparr>fo_leader = leader, fo_leader_seen = 0, fo_election_timeout = timeout, fo_voted_for = voted_for,
      fo_forwarded = {}\<rparr>)"

definition raw_node_new :: "('e, 's) raft_env \<Rightarrow> node_id \<Rightarrow> node_id set \<Rightarrow> 'e raft_log \<Rightarrow> 's \<Rightarrow> (nat \<Rightarrow> ticks) \<Rightarrow>
    follower result \<times> ('e, 's) core" where
  "raw_node_new V nid peers log state rand =
     bind_op (on_log (log_get_term (rv_engine V) (rv_bincode V))) (\<lambda>(term, voted_for).
     bind_op (modify_op (\<lambda>n. n\<lparr>nd_term := term\<rparr>)) (\<lambda>_. follower_new None voted_for))
     \<lparr>nd_id = nid, nd_peers = peers, nd_term = 0, nd_log = log, nd_state = state, nd_tx = [],
      nd_tx_open = True, nd_rand = rand\<rparr>"

definition follower_assert :: "('e, 's) raft_env \<Rightarrow> follower \<Rightarrow> (('e, 's) core, unit) op" where
  "follower_assert V f =
     bind_op (assert_node V) (\<lambda>_.
     bind_op (case fo_leader f of
        Some leader \<Rightarrow>
          bind_op (gets_op nd_id) (\<lambda>id. bind_op (assert_op (leader \<noteq> id) ''Can't follow self'') (\<lambda>_.
          bind_op (gets_op nd_peers) (\<lambda>peers. bind_op (assert_op (leader \<in> peers) ''Leader not in peers'') (\<lambda>_.
          bind_op (gets_op nd_term) (\<lambda>term. assert_op (term \<noteq> 0) ''Followers with leaders can't have term 0'')))))
      | None \<Rightarrow> assert_op (fo_forwarded f = {}) ''Leaderless follower has forwarded requests'') (\<lambda>_.
     bind_op (on_log (log_get_term (rv_engine V) (rv_bincode V))) (\<lambda>(_, vote).
     bind_op (assert_op (fo_voted_for f = vote) ''Vote does not match log'') (\<lambda>_.
     assert_op (fo_leader_seen f < fo_election_timeout f) ''Election timeout passed''))))"

definition abort_forwarded :: "('e, 's) raft_env \<Rightarrow> follower \<Rightarrow> (('e, 's) core, follower) op" where
  "abort_forwarded V f =
     bind_op (gets_op nd_id) (\<lambda>id.
     bind_op (for_each (\<lambda>rid. node_send id (ClientResponse rid (Err Abort))) (rv_id_order V (fo_forwarded f))) (\<lambda>_.
     return_op (f\<lparr>fo_forwarded := {}\<rparr>)))"

definition follower_into_candidate :: "('e, 's) raft_env \<Rightarrow> follower \<Rightarrow> (('e, 's) core, candidate) op" where
  "follower_into_candidate V f =
     bind_op (abort_forwarded V f) (\<lambda>_.
     bind_op (maybe_apply V) (\<lambda>_.
     bind_op candidate_new (\<lambda>_. campaign V)))"

definition follower_into_follower ::
    "('e, 's) raft_env \<Rightarrow> follower \<Rightarrow> node_id option \<Rightarrow> term_id \<Rightarrow> (('e, 's) core, follower) op" where
  "follower_into_follower V f0 leader term =
     bind_op (gets_op nd_term) (\<lambda>self_term.
     bind_op (assert_op (self_term \<le> term) ''Term regression {} -> {}'') (\<lambda>_.
     bind_op (abort_forwarded V f0) (\<lambda>f. case leader of
        Some l \<Rightarrow>
          bind_op (assert_op (fo_leader f = None) ''Already have leader in term'') (\<lambda>_.
          bind_op (assert_op (term = self_term) ''Can't follow leader in different term'') (\<lambda>_.
          follower_new (Some l) (fo_voted_for f)))
      | None \<Rightarrow>
          bind_op (assert_op (term \<noteq> self_term) ''Can't become leaderless follower in current term'') (\<lambda>_.
          bind_op (modify_op (\<lambda>n. n\<lparr>nd_term := term\<rparr>)) (\<lambda>_.
          bind_op (on_log (log_set_term (rv_engine V) (rv_bincode V) term None)) (\<lambda>_.
          follower_new None None))))))"

definition is_leader :: "follower \<Rightarrow> node_id \<Rightarrow> bool" where
  "is_leader f from_id \<longleftrightarrow> fo_leader f = Some from_id"

text \<open>The check at the head of the handlers for messages from a leader.\<close>

definition follow_sender :: "('e, 's) raft_env \<Rightarrow> envelope \<Rightarrow> follower \<Rightarrow> (('e, 's) core, follower) op" where
  "follow_sender V msg f = (case fo_leader f of
      Some leader \<Rightarrow> bind_op (assert_op (ev_from msg = leader) ''Multiple leaders in term'') (\<lambda>_. return_op f)
    | None \<Rightarrow> follower_into_follower V f (Some (ev_from msg)) (ev_term msg))"

definition follower_heartbeat :: "('e, 's) raft_env \<Rightarrow> envelope \<Rightarrow> index \<Rightarrow> term_id \<Rightarrow> read_sequence \<Rightarrow> follower \<Rightarrow>
    (('e, 's) core, role) op" where
  "follower_heartbeat V msg commit_index commit_term read_seq f0 =
     bind_op (follow_sender V msg f0) (\<lambda>f.
     bind_op (gets_op (\<lambda>n. get_last_index (nd_log n))) (\<lambda>(last_index, last_term).
     bind_op (node_send (ev_from msg) (HeartbeatResponse last_index last_term read_seq)) (\<lambda>_.
     bind_op (on_log (log_has (rv_engine V) (rv_bincode V) commit_index commit_term)) (\<lambda>has.
     bind_op (gets_op (\<lambda>n. fst (get_commit_index (nd_log n)))) (\<lambda>own_commit.
     bind_op (if has \<and> own_commit < commit_index
        then bind_op (on_log (log_commit (rv_engine V) (rv_bincode V) commit_index)) (\<lambda>_. maybe_apply V)
        else return_op ()) (\<lambda>_.
     return_op (Follower f)))))))"

definition follower_append :: "('e, 's) raft_env \<Rightarrow> envelope \<Rightarrow> index \<Rightarrow> term_id \<Rightarrow> raft_entry list \<Rightarrow> follower \<Rightarrow>
    (('e, 's) core, role) op" where
  "follower_append V msg base_index base_term entries f0 =
     bind_op (follow_sender V msg f0) (\<lambda>f.
     bind_op (if 0 < base_index
        then bind_op (on_log (log_has (rv_engine V) (rv_bincode V) base_index base_term)) (\<lambda>has. return_op (\<not> has))
        else return_op False) (\<lambda>reject.
     bind_op (if \<not> reject
        then bind_op (on_log (log_splice (rv_engine V) (rv_bincode V) entries)) (\<lambda>_. return_op ())
        else return_op ()) (\<lambda>_.
     bind_op (gets_op (\<lambda>n. get_last_index (nd_log n))) (\<lambda>(last_index, last_term).
     bind_op (node_send (ev_from msg) (AppendResponse reject last_index last_term)) (\<lambda>_.
     return_op (Follower f))))))"

definition follower_campaign ::
    "('e, 's) raft_env \<Rightarrow> envelope \<Rightarrow> index \<Rightarrow> term_id \<Rightarrow> follower \<Rightarrow> (('e, 's) core, role) op" where
  "follower_campaign V msg last_index last_term f =
     (if (case fo_voted_for f of Some voted_for \<Rightarrow> ev_from msg \<noteq> voted_for | None \<Rightarrow> False)
      then bind_op (node_send (ev_from msg) (CampaignResponse False)) (\<lambda>_. return_op (Follower f))
      else bind_op (gets_op (\<lambda>n. get_last_index (nd_log n))) (\<lambda>(log_index, log_term).
        if last_term < log_term \<or> log_term = last_term \<and> last_index < log_index
        then bind_op (node_send (ev_from msg) (CampaignResponse False)) (\<lambda>_. return_op (Follower f))
        else bind_op (node_send (ev_from msg) (CampaignResponse True)) (\<lambda>_.
          bind_op (gets_op nd_term) (\<lambda>term.
          bind_op (on_log (log_set_term (rv_engine V) (rv_bincode V) term (Some (ev_from msg)))) (\<lambda>_.
          return_op (Follower (f\<lparr>fo_voted_for := Some (ev_from msg)\<rparr>)))))))"

definition follower_client_request ::
    "envelope \<Rightarrow> request_id \<Rightarrow> request \<Rightarrow> follower \<Rightarrow> (('e, 's) core, role) op" where
  "follower_client_request msg rid request f =
     bind_op (gets_op nd_id) (\<lambda>id.
     bind_op (assert_op (ev_from msg = id) ''Client request from other node'') (\<lambda>_. case fo_leader f of
        Some leader \<Rightarrow> bind_op (node_send leader (ClientRequest rid request)) (\<lambda>_.
          return_op (Follower (f\<lparr>fo_forwarded := insert rid (fo_forwarded f)\<rparr>)))
      | None \<Rightarrow> bind_op (node_send (ev_from msg) (ClientResponse rid (Err Abort))) (\<lambda>_.
          return_op (Follower f))))"

definition follower_client_response ::
    "envelope \<Rightarrow> request_id \<Rightarrow> response result \<Rightarrow> follower \<Rightarrow> (('e, 's) core, role) op" where
  "follower_client_response msg rid response f =
     bind_op (assert_op (is_leader f (ev_from msg)) ''Client response from non-leader'') (\<lambda>_.
     if rid \<in> fo_forwarded f
     then bind_op (gets_op nd_id) (\<lambda>id.
       bind_op (node_send id (ClientResponse rid response)) (\<lambda>_.
       return_op (Follower (f\<lparr>fo_forwarded := fo_forwarded f - {rid}\<rparr>))))
     else return_op (Follower f))"

fun follower_handle :: "('e, 's) raft_env \<Rightarrow> envelope \<Rightarrow> message \<Rightarrow> follower \<Rightarrow> (('e, 's) core, role) op" where
  "follower_handle V msg (Heartbeat commit_index commit_term read_seq) f =
     follower_heartbeat V msg commit_index commit_term read_seq f"
| "follower_handle V msg (Append base_index base_term entries) f =
     follower_append V msg base_index base_term entries f"
| "follower_handle V msg (Campaign last_index last_term) f = follower_campaign V msg last_index last_term f"
| "follower_handle V msg (CampaignResponse vote) f = return_op (Follower f)"
| "follower_handle V msg (ClientRequest rid request) f = follower_client_request msg rid request f"
| "follower_handle V msg (ClientResponse rid response) f = follower_client_response msg rid response f"
| "follower_handle V msg _ f = lift_op (Panic ''Received unexpected message {msg:?}'')"

text \<open>\<open>step\<close> calls itself after moving to the term of the message; the first argument bounds the number
  of calls.\<close>

primrec follower_step_fuel :: "nat \<Rightarrow> ('e, 's) raft_env \<Rightarrow> envelope \<Rightarrow> follower \<Rightarrow> (('e, 's) core, role) op" where
  "follower_step_fuel 0 V msg f = lift_op (Panic ''out of fuel'')"
| "follower_step_fuel (Suc k) V msg f =
     bind_op (follower_assert V f) (\<lambda>_.
     bind_op (assert_step msg) (\<lambda>_.
     bind_op (gets_op nd_term) (\<lambda>term.
     if ev_term msg < term then return_op (Follower f)
     else if term < ev_term msg
     then bind_op (follower_into_follower V f None (ev_term msg)) (follower_step_fuel k V msg)
     else follower_handle V msg (ev_message msg)
       (if is_leader f (ev_from msg) then f\<lparr>fo_leader_seen := 0\<rparr> else f))))"

definition follower_step :: "('e, 's) raft_env \<Rightarrow> envelope \<Rightarrow> follower \<Rightarrow> (('e, 's) core, role) op" where
  "follower_step V msg f = follower_step_fuel 2 V msg f"

definition follower_tick :: "('e, 's) raft_env \<Rightarrow> follower \<Rightarrow> (('e, 's) core, role) op" where
  "follower_tick V f0 =
     bind_op (follower_assert V f0) (\<lambda>_.
     bind_op (lift_op (add_u8 (fo_leader_seen f0) 1)) (\<lambda>leader_seen.
     let f = f0\<lparr>fo_leader_seen := leader_seen\<rparr> in
     if fo_election_timeout f \<le> fo_leader_seen f
     then bind_op (follower_into_candidate V f) (\<lambda>c. return_op (Candidate c))
     else return_op (Follower f)))"

section \<open>Leaders\<close>

definition leader_new :: "node_id set \<Rightarrow> index \<Rightarrow> leader result" where
  "leader_new peers last_index = bind_r (add_u64 last_index 1) (\<lambda>nxt. Ok
     \<lparr>le_progress = (\<lambda>p. if p \<in> peers then Some \<lparr>pr_next = nxt, pr_last = 0, pr_read_seq = 0\<rparr> else None),
      le_writes = (\<lambda>_. None), le_reads = [], le_read_seq = 0, le_since_heartbeat = 0\<rparr>)"

definition leader_assert :: "('e, 's) raft_env \<Rightarrow> (('e, 's) core, unit) op" where
  "leader_assert V =
     bind_op (assert_node V) (\<lambda>_.
     bind_op (gets_op nd_term) (\<lambda>term. bind_op (assert_op (term \<noteq> 0) ''Leaders can't have term 0'') (\<lambda>_.
     bind_op (on_log (log_get_term (rv_engine V) (rv_bincode V))) (\<lambda>(_, vote).
     bind_op (gets_op nd_id) (\<lambda>id. assert_op (Some id = vote) ''Log vote does not match self'')))))"

definition leader_into_follower :: "('e, 's) raft_env \<Rightarrow> leader \<Rightarrow> term_id \<Rightarrow> (('e, 's) core, follower) op" where
  "leader_into_follower V ld term =
     bind_op (gets_op nd_term) (\<lambda>self_term.
     bind_op (assert_op (self_term \<le> term) ''Term regression {} -> {}'') (\<lambda>_.
     bind_op (assert_op (self_term < term) ''Can only become follower in later term'') (\<lambda>_.
     bind_op (for_each (\<lambda>i. case le_writes ld i of
        Some w \<Rightarrow> node_send (wr_from w) (ClientResponse (wr_id w) (Err Abort)) | None \<Rightarrow> return_op ())
        (rv_index_order V (dom (le_writes ld)))) (\<lambda>_.
     bind_op (for_each (\<lambda>r. node_send (rd_from r) (ClientResponse (rd_id r) (Err Abort))) (le_reads ld)) (\<lambda>_.
     bind_op (modify_op (\<lambda>n. n\<lparr>nd_term := term\<rparr>)) (\<lambda>_.
     bind_op (on_log (log_set_term (rv_engine V) (rv_bincode V) term None)) (\<lambda>_.
     follower_new None None)))))))"

definition heartbeat :: "leader \<Rightarrow> (('e, 's) core, unit) op" where
  "heartbeat ld =
     bind_op (gets_op (\<lambda>n. get_commit_index (nd_log n))) (\<lambda>(commit_index, commit_term).
     broadcast (Heartbeat commit_index commit_term (le_read_seq ld)))"

definition send_log :: "('e, 's) raft_env \<Rightarrow> leader \<Rightarrow> node_id \<Rightarrow> (('e, 's) core, unit) op" where
  "send_log V ld peer =
     bind_op (case le_progress ld peer of
        Some p \<Rightarrow> if 1 < pr_next p
          then bind_op (on_log (log_get (rv_engine V) (rv_bincode V) (pr_next p - 1))) (\<lambda>found. case found of
              Some entry \<Rightarrow> return_op (en_index entry, en_term entry)
            | None \<Rightarrow> lift_op (Panic ''Missing base entry {}''))
          else return_op (0, 0)
      | None \<Rightarrow> lift_op (Panic ''Unknown peer {}'')) (\<lambda>(base_index, base_term).
     bind_op (lift_op (add_u64 base_index 1)) (\<lambda>start.
     bind_op (on_log (log_scan (rv_engine V) (rv_bincode V) (Included start, Unbounded))) (\<lambda>items.
     bind_op (lift_op (collect_results items)) (\<lambda>entries.
     node_send peer (Append base_index base_term entries)))))"

definition propose :: "('e, 's) raft_env \<Rightarrow> leader \<Rightarrow> bytes option \<Rightarrow> (('e, 's) core, index) op" where
  "propose V ld command =
     bind_op (gets_op nd_term) (\<lambda>term.
     bind_op (on_log (log_append (rv_engine V) (rv_bincode V) term command)) (\<lambda>index.
     bind_op (gets_op nd_peers) (\<lambda>peers.
     bind_op (for_each (send_log V ld) (rv_peer_order V peers)) (\<lambda>_.
     return_op index))))"

text \<open>The closure of \<open>maybe_commit_and_apply\<close>: answer the client that waits for the applied entry.\<close>

definition respond_write :: "index \<Rightarrow> bytes result \<Rightarrow> leader \<Rightarrow> (('e, 's) core, leader) op" where
  "respond_write index result ld = (case le_writes ld index of
      Some write \<Rightarrow> bind_op (node_send (wr_from write) (ClientResponse (wr_id write) (map_result Res_Write result))) (\<lambda>_.
        return_op (ld\<lparr>le_writes := (le_writes ld)(index := None)\<rparr>))
    | None \<Rightarrow> return_op ld)"

definition maybe_commit_and_apply :: "('e, 's) raft_env \<Rightarrow> leader \<Rightarrow> (('e, 's) core, index \<times> leader) op" where
  "maybe_commit_and_apply V ld =
     bind_op (gets_op (\<lambda>n. fst (get_last_index (nd_log n)))) (\<lambda>last_index.
     bind_op (gets_op (node_quorum_value
        (map (\<lambda>p. pr_last (the (le_progress ld p))) (rv_peer_order V (dom (le_progress ld))) @ [last_index]))) (\<lambda>q.
     bind_op (lift_op q) (\<lambda>quorum_index.
     bind_op (gets_op (\<lambda>n. fst (get_commit_index (nd_log n)))) (\<lambda>commit_index.
     if quorum_index \<le> commit_index then return_op (commit_index, ld) else
     bind_op (on_log (log_get (rv_engine V) (rv_bincode V) quorum_index)) (\<lambda>found.
     bind_op (gets_op nd_term) (\<lambda>term. case found of
        None \<Rightarrow> lift_op (Panic ''Commit index {} missing'')
      | Some entry \<Rightarrow>
          if en_term entry \<noteq> term then return_op (commit_index, ld) else
          bind_op (on_log (log_commit (rv_engine V) (rv_bincode V) quorum_index)) (\<lambda>_.
          bind_op (maybe_apply_with V respond_write ld) (\<lambda>ld'.
          return_op (quorum_index, ld')))))))))"

fun read_loop :: "('e, 's) raft_env \<Rightarrow> read_sequence \<Rightarrow> pending_read list \<Rightarrow> (('e, 's) core, pending_read list) op" where
  "read_loop V read_seq [] = return_op []"
| "read_loop V read_seq (r # reads) =
     (if read_seq < rd_seq r then return_op (r # reads)
      else bind_op (gets_op (\<lambda>n. sm_read (rv_state V) (rd_command r) (nd_state n))) (\<lambda>result.
        bind_op (case result of Panic p \<Rightarrow> lift_op (Panic p) | _ \<Rightarrow> return_op ()) (\<lambda>_.
        bind_op (node_send (rd_from r) (ClientResponse (rd_id r) (map_result Res_Read result))) (\<lambda>_.
        read_loop V read_seq reads))))"

definition maybe_read :: "('e, 's) raft_env \<Rightarrow> leader \<Rightarrow> (('e, 's) core, leader) op" where
  "maybe_read V ld =
     (if le_reads ld = [] then return_op ld else
      bind_op (gets_op (node_quorum_value
        (map (\<lambda>p. pr_read_seq (the (le_progress ld p))) (rv_peer_order V (dom (le_progress ld))) @ [le_read_seq ld]))) (\<lambda>q.
      bind_op (lift_op q) (\<lambda>read_seq.
      bind_op (read_loop V read_seq (le_reads ld)) (\<lambda>reads.
      return_op (ld\<lparr>le_reads := reads\<rparr>)))))"

definition leader_heartbeat_response :: "('e, 's) raft_env \<Rightarrow> envelope \<Rightarrow> index \<Rightarrow> term_id \<Rightarrow> read_sequence \<Rightarrow>
    leader \<Rightarrow> (('e, 's) core, role) op" where
  "leader_heartbeat_response V msg last_index last_term read_seq ld =
     bind_op (assert_op (read_seq \<le> le_read_seq ld) ''Future read sequence number'') (\<lambda>_.
     bind_op (lift_op (case le_progress ld (ev_from msg) of Some p \<Rightarrow> Ok p
        | None \<Rightarrow> Panic ''called `Option::unwrap()` on a `None` value'')) (\<lambda>p.
     bind_op (if pr_read_seq p < read_seq
        then maybe_read V (ld\<lparr>le_progress := (le_progress ld)(ev_from msg \<mapsto> p\<lparr>pr_read_seq := read_seq\<rparr>)\<rparr>)
        else return_op ld) (\<lambda>ld.
     bind_op (gets_op (\<lambda>n. fst (get_last_index (nd_log n)))) (\<lambda>own_last.
     bind_op (if last_index < own_last then return_op True
        else bind_op (on_log (log_has (rv_engine V) (rv_bincode V) last_index last_term)) (\<lambda>has. return_op (\<not> has))) (\<lambda>behind.
     bind_op (if behind then send_log V ld (ev_from msg) else return_op ()) (\<lambda>_.
     return_op (Leader ld)))))))"

definition leader_append_accepted ::
    "('e, 's) raft_env \<Rightarrow> envelope \<Rightarrow> index \<Rightarrow> term_id \<Rightarrow> leader \<Rightarrow> (('e, 's) core, role) op" where
  "leader_append_accepted V msg last_index last_term ld =
     bind_op (gets_op (\<lambda>n. get_last_index (nd_log n))) (\<lambda>(own_index, own_term).
     bind_op (assert_op (last_index \<le> own_index) ''Follower accepted entries after last index'') (\<lambda>_.
     bind_op (assert_op (last_term \<le> own_term) ''Follower accepted entries after last term'') (\<lambda>_.
     bind_op (lift_op (case le_progress ld (ev_from msg) of Some p \<Rightarrow> Ok p
        | None \<Rightarrow> Panic ''called `Option::unwrap()` on a `None` value'')) (\<lambda>p.
     if pr_last p < last_index
     then bind_op (lift_op (add_u64 last_index 1)) (\<lambda>nxt.
       bind_op (maybe_commit_and_apply V
         (ld\<lparr>le_progress := (le_progress ld)(ev_from msg \<mapsto> p\<lparr>pr_last := last_index, pr_next := nxt\<rparr>)\<rparr>)) (\<lambda>(_, ld).
       return_op (Leader ld)))
     else return_op (Leader ld)))))"

definition leader_append_rejected :: "('e, 's) raft_env \<Rightarrow> envelope \<Rightarrow> leader \<Rightarrow> (('e, 's) core, role) op" where
  "leader_append_rejected V msg ld0 =
     (let ld = (case le_progress ld0 (ev_from msg) of
          Some p \<Rightarrow> if 1 < pr_next p
            then ld0\<lparr>le_progress := (le_progress ld0)(ev_from msg \<mapsto> p\<lparr>pr_next := pr_next p - 1\<rparr>)\<rparr> else ld0
        | None \<Rightarrow> ld0) in
      bind_op (send_log V ld (ev_from msg)) (\<lambda>_. return_op (Leader ld)))"

definition leader_client_read ::
    "('e, 's) raft_env \<Rightarrow> envelope \<Rightarrow> request_id \<Rightarrow> bytes \<Rightarrow> leader \<Rightarrow> (('e, 's) core, role) op" where
  "leader_client_read V msg rid command ld =
     bind_op (lift_op (add_u64 (le_read_seq ld) 1)) (\<lambda>seq.
     let ld = ld\<lparr>le_read_seq := seq,
       le_reads := le_reads ld @ [\<lparr>rd_seq = seq, rd_from = ev_from msg, rd_id = rid, rd_command = command\<rparr>]\<rparr> in
     bind_op (gets_op nd_peers) (\<lambda>peers.
     bind_op (if peers = {} then maybe_read V ld else return_op ld) (\<lambda>ld.
     bind_op (heartbeat ld) (\<lambda>_. return_op (Leader ld)))))"

definition leader_client_write ::
    "('e, 's) raft_env \<Rightarrow> envelope \<Rightarrow> request_id \<Rightarrow> bytes \<Rightarrow> leader \<Rightarrow> (('e, 's) core, role) op" where
  "leader_client_write V msg rid command ld =
     bind_op (propose V ld (Some command)) (\<lambda>index.
     let ld = ld\<lparr>le_writes := (le_writes ld)(index \<mapsto> \<lparr>wr_from = ev_from msg, wr_id = rid\<rparr>)\<rparr> in
     bind_op (gets_op nd_peers) (\<lambda>peers.
     if peers = {}
     then bind_op (maybe_commit_and_apply V ld) (\<lambda>(_, ld). return_op (Leader ld))
     else return_op (Leader ld)))"

definition leader_client_status ::
    "('e, 's) raft_env \<Rightarrow> envelope \<Rightarrow> request_id \<Rightarrow> leader \<Rightarrow> (('e, 's) core, role) op" where
  "leader_client_status V msg rid ld = bind_op (gets_op (\<lambda>n. n)) (\<lambda>n.
     bind_op (on_log (log_status (rv_engine V))) (\<lambda>storage.
     bind_op (node_send (ev_from msg) (ClientResponse rid (Ok (Res_Status
       \<lparr>rs_leader = nd_id n, rs_term = nd_term n,
        rs_last_index = (\<lambda>p. map_option pr_last (le_progress ld p))(nd_id n \<mapsto> fst (get_last_index (nd_log n))),
        rs_commit_index = fst (get_commit_index (nd_log n)),
        rs_apply_index = sm_applied_index (rv_state V) (nd_state n), rs_storage = storage\<rparr>)))) (\<lambda>_.
     return_op (Leader ld))))"

fun leader_handle :: "('e, 's) raft_env \<Rightarrow> envelope \<Rightarrow> message \<Rightarrow> leader \<Rightarrow> (('e, 's) core, role) op" where
  "leader_handle V msg (HeartbeatResponse last_index last_term read_seq) ld =
     leader_heartbeat_response V msg last_index last_term read_seq ld"
| "leader_handle V msg (AppendResponse reject last_index last_term) ld =
     (if reject then leader_append_rejected V msg ld else leader_append_accepted V msg last_index last_term ld)"
| "leader_handle V msg (ClientRequest rid (Req_Read command)) ld = leader_client_read V msg rid command ld"
| "leader_handle V msg (ClientRequest rid (Req_Write command)) ld = leader_client_write V msg rid command ld"
| "leader_handle V msg (ClientRequest rid Req_Status) ld = leader_client_status V msg rid ld"
| "leader_handle V msg (Campaign last_index last_term) ld = return_op (Leader ld)"
| "leader_handle V msg (CampaignResponse vote) ld = return_op (Leader ld)"
| "leader_handle V msg (ClientResponse rid response) ld = lift_op (Panic ''Unexpected message {:?}'')"
| "leader_handle V msg _ ld = lift_op (Panic ''Saw other leader {} in term {}'')"

definition leader_step :: "('e, 's) raft_env \<Rightarrow> envelope \<Rightarrow> leader \<Rightarrow> (('e, 's) core, role) op" where
  "leader_step V msg ld =
     bind_op (leader_assert V) (\<lambda>_.
     bind_op (assert_step msg) (\<lambda>_.
     bind_op (gets_op nd_term) (\<lambda>term.
     if ev_term msg < term then return_op (Leader ld)
     else if term < ev_term msg
     then bind_op (leader_into_follower V ld (ev_term msg)) (follower_step V msg)
     else leader_handle V msg (ev_message msg) ld)))"

definition leader_tick :: "('e, 's) raft_env \<Rightarrow> leader \<Rightarrow> (('e, 's) core, role) op" where
  "leader_tick V ld =
     bind_op (leader_assert V) (\<lambda>_.
     bind_op (lift_op (add_u8 (le_since_heartbeat ld) 1)) (\<lambda>since.
     if HEARTBEAT_INTERVAL \<le> since
     then bind_op (heartbeat (ld\<lparr>le_since_heartbeat := since\<rparr>)) (\<lambda>_.
       return_op (Leader (ld\<lparr>le_since_heartbeat := 0\<rparr>)))
     else return_op (Leader (ld\<lparr>le_since_heartbeat := since\<rparr>))))"

section \<open>Candidates\<close>

definition candidate_assert :: "('e, 's) raft_env \<Rightarrow> candidate \<Rightarrow> (('e, 's) core, unit) op" where
  "candidate_assert V c =
     bind_op (assert_node V) (\<lambda>_.
     bind_op (gets_op nd_term) (\<lambda>term. bind_op (assert_op (term \<noteq> 0) ''Candidates can't have term 0'') (\<lambda>_.
     bind_op (gets_op nd_id) (\<lambda>id. bind_op (assert_op (id \<in> ca_votes c) ''Candidate did not vote for self'') (\<lambda>_.
     bind_op (on_log (log_get_term (rv_engine V) (rv_bincode V))) (\<lambda>(_, vote).
     bind_op (assert_op (Some id = vote) ''Log vote does not match self'') (\<lambda>_.
     assert_op (ca_election_duration c < ca_election_timeout c) ''Election timeout passed'')))))))"

definition candidate_into_follower ::
    "('e, 's) raft_env \<Rightarrow> term_id \<Rightarrow> node_id option \<Rightarrow> (('e, 's) core, follower) op" where
  "candidate_into_follower V term leader =
     bind_op (gets_op nd_term) (\<lambda>self_term.
     bind_op (assert_op (self_term \<le> term) ''Term regression {} -> {}'') (\<lambda>_. case leader of
        Some l \<Rightarrow>
          bind_op (assert_op (term = self_term) ''Can't follow leader in different term'') (\<lambda>_.
          bind_op (gets_op nd_id) (\<lambda>id. follower_new (Some l) (Some id)))
      | None \<Rightarrow>
          bind_op (assert_op (term \<noteq> self_term) ''Can't become leaderless follower in current term'') (\<lambda>_.
          bind_op (modify_op (\<lambda>n. n\<lparr>nd_term := term\<rparr>)) (\<lambda>_.
          bind_op (on_log (log_set_term (rv_engine V) (rv_bincode V) term None)) (\<lambda>_.
          follower_new None None)))))"

definition into_leader :: "('e, 's) raft_env \<Rightarrow> (('e, 's) core, leader) op" where
  "into_leader V =
     bind_op (gets_op nd_peers) (\<lambda>peers.
     bind_op (gets_op (\<lambda>n. fst (get_last_index (nd_log n)))) (\<lambda>last_index.
     bind_op (lift_op (leader_new peers last_index)) (\<lambda>ld.
     bind_op (heartbeat ld) (\<lambda>_.
     bind_op (propose V ld None) (\<lambda>_.
     return_op ld)))))"

definition candidate_vote :: "('e, 's) raft_env \<Rightarrow> envelope \<Rightarrow> candidate \<Rightarrow> (('e, 's) core, role) op" where
  "candidate_vote V msg c0 =
     (let c = c0\<lparr>ca_votes := insert (ev_from msg) (ca_votes c0)\<rparr> in
      bind_op (gets_op node_quorum_size) (\<lambda>q.
      bind_op (lift_op q) (\<lambda>quorum.
      if quorum \<le> of_nat (card (ca_votes c))
      then bind_op (into_leader V) (\<lambda>ld. return_op (Leader ld))
      else return_op (Candidate c))))"

fun candidate_handle :: "('e, 's) raft_env \<Rightarrow> envelope \<Rightarrow> message \<Rightarrow> candidate \<Rightarrow> (('e, 's) core, role) op" where
  "candidate_handle V msg (Campaign last_index last_term) c = return_op (Candidate c)"
| "candidate_handle V msg (CampaignResponse vote) c =
     (if vote then candidate_vote V msg c else return_op (Candidate c))"
| "candidate_handle V msg (ClientRequest rid request) c =
     bind_op (node_send (ev_from msg) (ClientResponse rid (Err Abort))) (\<lambda>_. return_op (Candidate c))"
| "candidate_handle V msg (Heartbeat commit_index commit_term read_seq) c =
     bind_op (candidate_into_follower V (ev_term msg) (Some (ev_from msg))) (follower_step V msg)"
| "candidate_handle V msg (Append base_index base_term entries) c =
     bind_op (candidate_into_follower V (ev_term msg) (Some (ev_from msg))) (follower_step V msg)"
| "candidate_handle V msg _ c = lift_op (Panic ''Received unexpected message {:?}'')"

definition candidate_step :: "('e, 's) raft_env \<Rightarrow> envelope \<Rightarrow> candidate \<Rightarrow> (('e, 's) core, role) op" where
  "candidate_step V msg c =
     bind_op (candidate_assert V c) (\<lambda>_.
     bind_op (assert_step msg) (\<lambda>_.
     bind_op (gets_op nd_term) (\<lambda>term.
     if ev_term msg < term then return_op (Candidate c)
     else if term < ev_term msg
     then bind_op (candidate_into_follower V (ev_term msg) None) (follower_step V msg)
     else candidate_handle V msg (ev_message msg) c)))"

definition candidate_tick :: "('e, 's) raft_env \<Rightarrow> candidate \<Rightarrow> (('e, 's) core, role) op" where
  "candidate_tick V c0 =
     bind_op (candidate_assert V c0) (\<lambda>_.
     bind_op (lift_op (add_u8 (ca_election_duration c0) 1)) (\<lambda>election_duration.
     let c = c0\<lparr>ca_election_duration := election_duration\<rparr> in
     if ca_election_timeout c \<le> ca_election_duration c
     then bind_op (campaign V) (\<lambda>c. return_op (Candidate c))
     else return_op (Candidate c)))"

section \<open>Nodes\<close>

definition node_new :: "('e, 's) raft_env \<Rightarrow> node_id \<Rightarrow> node_id set \<Rightarrow> 'e raft_log \<Rightarrow> 's \<Rightarrow> (nat \<Rightarrow> ticks) \<Rightarrow>
    role result \<times> ('e, 's) core" where
  "node_new V nid peers log state rand = (case raw_node_new V nid peers log state rand of
      (Ok f, n) \<Rightarrow>
        if nd_peers n = {}
        then bind_op (follower_into_candidate V f) (\<lambda>_. bind_op (into_leader V) (\<lambda>ld. return_op (Leader ld))) n
        else (Ok (Follower f), n)
    | (Err e, n) \<Rightarrow> (Err e, n)
    | (Panic p, n) \<Rightarrow> (Panic p, n))"

fun node_step :: "('e, 's) raft_env \<Rightarrow> envelope \<Rightarrow> role \<Rightarrow> (('e, 's) core, role) op" where
  "node_step V msg (Candidate c) = candidate_step V msg c"
| "node_step V msg (Follower f) = follower_step V msg f"
| "node_step V msg (Leader ld) = leader_step V msg ld"

fun node_tick :: "('e, 's) raft_env \<Rightarrow> role \<Rightarrow> (('e, 's) core, role) op" where
  "node_tick V (Candidate c) = candidate_tick V c"
| "node_tick V (Follower f) = follower_tick V f"
| "node_tick V (Leader ld) = leader_tick V ld"

end
