(* ===== verification/Raft_Vote.thy ===== *)
theory Raft_Vote
  imports Raft_Roles Raft_Log_Refine
begin

text \<open>
  The persisted term and vote of a Raft node, through every operation of the log and of the node.
  \<open>pvote\<close> reads the term and vote off the storage engine.  Every log operation other than \<open>set_term\<close>
  leaves it alone whatever its outcome, which the operation logic carries up to the node's methods.
\<close>

definition pvote :: "('e \<Rightarrow> bool) \<Rightarrow> ('e \<Rightarrow> (bytes \<times> bytes) list) \<Rightarrow> raft_bincode \<Rightarrow>
    term_id \<times> node_id option \<Rightarrow> 'e raft_log \<Rightarrow> bool" where
  "pvote einv view R tv l \<longleftrightarrow> (\<exists>s. stored einv view (rl_engine l) s \<and>
     (case s TermVote of None \<Rightarrow> tv = (0, None) | Some b \<Rightarrow> de (r_vote R) b = Ok tv))"

lemma pvote_unique: "pvote einv view R tv l \<Longrightarrow> pvote einv view R tv' l \<Longrightarrow> tv = tv'"
  by (auto simp: pvote_def stored_def split: option.splits)

lemma pvote_fields [simp]:
  "pvote einv view R tv (l\<lparr>rl_last_index := i, rl_last_term := t\<rparr>) = pvote einv view R tv l"
  "pvote einv view R tv (l\<lparr>rl_commit_index := i, rl_commit_term := t\<rparr>) = pvote einv view R tv l"
  by (simp_all add: pvote_def)

section \<open>Operations of the log\<close>

locale raft_total = raft_store E inv view "\<lambda>_ _. True" R
  for E :: "'e engine" and inv view R
begin

abbreviation pv :: "term_id \<times> node_id option \<Rightarrow> 'e raft_log \<Rightarrow> bool" where
  "pv \<equiv> pvote inv view R"

lemma keeps_get [triple_rules]: "keeps (pv tv) (on_engine (e_get E (rkey_bytes k)))"
  by (rule tripleI) (auto simp: pvote_def get_stored split: result.splits)

lemma keeps_set [triple_rules]: "k \<noteq> TermVote \<Longrightarrow> keeps (pv tv) (on_engine (e_set E (rkey_bytes k) b))"
proof (rule tripleI)
  fix l r l' assume k: "k \<noteq> TermVote" and pv: "pv tv l" and run: "on_engine (e_set E (rkey_bytes k) b) l = (r, l')"
  then obtain s where s: "stored inv view (rl_engine l) s"
    "case s TermVote of None \<Rightarrow> tv = (0, None) | Some b \<Rightarrow> de (r_vote R) b = Ok tv"
    by (auto simp: pvote_def)
  obtain e where "(r, l') = (Ok (), l\<lparr>rl_engine := e\<rparr>)" "stored inv view e (s(k \<mapsto> b))"
    using set_stored [OF s(1), of k b] run by auto
  with s(2) k show "case r of Ok a \<Rightarrow> pv tv l' | _ \<Rightarrow> pv tv l'"
    by (auto simp: pvote_def intro!: exI [of _ "s(k \<mapsto> b)"])
qed

lemma keeps_delete [triple_rules]: "k \<noteq> TermVote \<Longrightarrow> keeps (pv tv) (on_engine (e_delete E (rkey_bytes k)))"
proof (rule tripleI)
  fix l r l' assume k: "k \<noteq> TermVote" and pv: "pv tv l" and run: "on_engine (e_delete E (rkey_bytes k)) l = (r, l')"
  then obtain s where s: "stored inv view (rl_engine l) s"
    "case s TermVote of None \<Rightarrow> tv = (0, None) | Some b \<Rightarrow> de (r_vote R) b = Ok tv"
    by (auto simp: pvote_def)
  have "inv (rl_engine l)" using s(1) by (simp add: stored_def)
  then obtain e where e: "e_delete E (rkey_bytes k) (rl_engine l) = (Ok (), e)" "inv e"
    "view e = btree_remove (rkey_bytes k) (view (rl_engine l))"
    using delete_law by blast
  then have "stored inv view e (s(k := None))"
    using s(1) by (auto simp: stored_def typed_by_remove simp del: rkey_bytes.simps)
  moreover have "(r, l') = (Ok (), l\<lparr>rl_engine := e\<rparr>)" using run e(1) by (simp add: on_engine_def)
  ultimately show "case r of Ok a \<Rightarrow> pv tv l' | _ \<Rightarrow> pv tv l'"
    using s(2) k by (auto simp: pvote_def intro!: exI [of _ "s(k := None)"])
qed

lemma keeps_flush [triple_rules]: "keeps (pv tv) (log_maybe_flush E)"
proof (rule tripleI)
  fix l r l' assume pv: "pv tv l" and run: "log_maybe_flush E l = (r, l')"
  then obtain s where s: "stored inv view (rl_engine l) s"
    "case s TermVote of None \<Rightarrow> tv = (0, None) | Some b \<Rightarrow> de (r_vote R) b = Ok tv"
    by (auto simp: pvote_def)
  with flush_stored [of l s] run show "case r of Ok a \<Rightarrow> pv tv l' | _ \<Rightarrow> pv tv l'"
    by (auto simp: pvote_def)
qed

lemma keeps_scan [triple_rules]: "\<not> range_panics r \<Longrightarrow> keeps (pv tv) (log_scan E R r)"
proof -
  assume "\<not> range_panics r"
  then obtain lo hi where b: "scan_from (fst r) = Ok lo" "scan_to (snd r) = Ok hi" "\<not> range_panics (lo, hi)"
    using scan_bounds by blast
  have "keeps (pv tv) (on_engine (e_scan E (lo, hi)))"
    using b(3) by (intro tripleI) (auto simp: pvote_def stored_def on_engine_def scan_law split: result.splits)
  then show ?thesis by (auto simp: log_scan_def b intro!: triple_rules)
qed

lemma keeps_fields [triple_rules]:
  "keeps (pv tv) (modify_op (\<lambda>l. l\<lparr>rl_last_index := i, rl_last_term := t\<rparr>))"
  "keeps (pv tv) (modify_op (\<lambda>l. l\<lparr>rl_commit_index := i, rl_commit_term := t\<rparr>))"
  by (auto intro!: triple_modify)

lemma keeps_log_get [triple_rules]: "keeps (pv tv) (log_get E R i)"
  by (auto simp: log_get_def simp del: rkey_bytes.simps intro!: triple_rules)

lemma keeps_log_get_term [triple_rules]: "keeps (pv tv) (log_get_term E R)"
  by (auto simp: log_get_term_def simp del: rkey_bytes.simps intro!: triple_rules)

lemma keeps_log_has [triple_rules]: "keeps (pv tv) (log_has E R i t)"
  by (auto simp: log_has_def intro!: triple_rules)

lemma keeps_log_append [triple_rules]: "keeps (pv tv) (log_append E R t c)"
  by (auto simp: log_append_def simp del: rkey_bytes.simps intro!: triple_rules)

lemma keeps_log_commit [triple_rules]: "keeps (pv tv) (log_commit E R i)"
  unfolding log_commit_def rkey_encode_bytes bind_op_lift
  by (auto simp del: rkey_bytes.simps intro!: triple_rules)

lemma keeps_log_status [triple_rules]: "keeps (pv tv) (log_status E)"
proof (rule tripleI)
  fix l r l' assume pv: "pv tv l" and run: "log_status E l = (r, l')"
  then have "inv (rl_engine l)" by (auto simp: pvote_def stored_def)
  with status_law [of "rl_engine l"] run pv show "case r of Ok a \<Rightarrow> pv tv l' | _ \<Rightarrow> pv tv l'"
    by (auto simp: log_status_def on_engine_def)
qed

lemma windows_range:
  assumes "windows_contiguous es = Ok True" "es \<noteq> []"
  shows "\<not> range_panics (Included (en_index (hd es)), Included (en_index (last es)))"
  using contiguous_last [OF windows_contiguous_True [OF assms] assms(2)] assms(2)
  by (cases es) (auto simp: word_less_nat_alt)

lemma keeps_log_splice [triple_rules]: "keeps (pv tv) (log_splice E R es)"
proof (cases "es = []")
  case False
  have "keeps (pv tv) (write_spliced E R e)" and "keeps (pv tv) (delete_tail E i)" for e i
    by (auto simp: write_spliced_def delete_tail_def simp del: rkey_bytes.simps intro!: triple_rules)
  with windows_range [OF _ False] show ?thesis
    unfolding log_splice_def Let_def by (auto intro!: triple_rules)
qed (auto simp: log_splice_def intro!: triple_rules)

lemma set_term_pvote: "triple (pv tv) (log_set_term E R t v) (\<lambda>_. pv (t, v)) (\<lambda>_. False)"
proof (rule tripleI)
  fix l r l' assume pv: "pv tv l" and run: "log_set_term E R t v l = (r, l')"
  then obtain s where s: "stored inv view (rl_engine l) s" by (auto simp: pvote_def)
  obtain b where b: "ser (r_vote R) (t, v) = Ok b" "de (r_vote R) b = Ok (t, v)"
    using ser_vote_ok by blast
  obtain e e' where e: "on_engine (e_set E (rkey_bytes TermVote) b) l = (Ok (), l\<lparr>rl_engine := e\<rparr>)"
    "log_maybe_flush E (l\<lparr>rl_engine := e\<rparr>) = (Ok (), l\<lparr>rl_engine := e'\<rparr>)"
    "stored inv view e' (s(TermVote \<mapsto> b))"
    by (rule write_stored [OF s TrueI])
  then have "(r, l') = (Ok (), l\<lparr>rl_engine := e'\<rparr>)"
    using run by (simp add: log_set_term_def b bind_op_Ok del: rkey_bytes.simps)
  with e(3) b(2) show "case r of Ok a \<Rightarrow> pv (t, v) l' | _ \<Rightarrow> False"
    by (auto simp: pvote_def intro!: exI [of _ "s(TermVote \<mapsto> b)"])
qed

lemma get_term_pvote: "pv tv l \<Longrightarrow> log_get_term E R l = (Ok tv, l)"
  by (auto simp: pvote_def log_get_term_def get_stored bind_op_Ok simp del: rkey_bytes.simps split: option.splits)

end

end
