(* ===== verification/Raft_Election.thy ===== *)
theory Raft_Election
  imports Raft_Vote
begin

text \<open>
  What a node's messages say about its votes.  \<open>voted N q t c\<close> reads off a set of sent messages that node
  \<open>q\<close> voted for \<open>c\<close> in term \<open>t\<close>: it granted a vote, or it campaigned for itself.  \<open>msgs_ok\<close> is the
  contract of one node: its votes agree with the persisted term and vote, there is one per term, and
  whatever it sent as a leader is backed by a quorum of votes.  The lemmas show that every method of
  every role keeps the contract, whatever message arrives and however the method ends.
\<close>

definition voted :: "envelope set \<Rightarrow> node_id \<Rightarrow> term_id \<Rightarrow> node_id \<Rightarrow> bool" where
  "voted N q t c \<longleftrightarrow> (\<exists>ev \<in> N. ev_from ev = q \<and> ev_term ev = t \<and>
     (ev_to ev = c \<and> ev_message ev = CampaignResponse True \<or>
      q = c \<and> (\<exists>li lt. ev_message ev = Campaign li lt)))"

fun leader_msg :: "message \<Rightarrow> bool" where
  "leader_msg (Heartbeat _ _ _) = True"
| "leader_msg (Append _ _ _) = True"
| "leader_msg _ = False"

fun vote_msg :: "message \<Rightarrow> bool" where
  "vote_msg (CampaignResponse v) = v"
| "vote_msg (Campaign _ _) = True"
| "vote_msg _ = False"

definition backed :: "node_id set \<Rightarrow> envelope set \<Rightarrow> node_id \<Rightarrow> term_id \<Rightarrow> bool" where
  "backed P N i t \<longleftrightarrow> (\<exists>Q \<subseteq> insert i P. card (insert i P) < 2 * card Q \<and>
     (\<forall>q \<in> Q - {i}. voted N q t i)) \<and> (P \<noteq> {} \<longrightarrow> voted N i t i)"

definition msgs_ok :: "node_id set \<Rightarrow> envelope set \<Rightarrow> node_id \<Rightarrow> term_id \<times> node_id option \<Rightarrow> bool" where
  "msgs_ok P N i tv \<longleftrightarrow>
     (\<forall>t c. voted N i t c \<longrightarrow> t < fst tv \<or> t = fst tv \<and> snd tv = Some c) \<and>
     (\<forall>t c d. voted N i t c \<longrightarrow> voted N i t d \<longrightarrow> c = d) \<and>
     (\<forall>ev \<in> N. ev_from ev = i \<longrightarrow> leader_msg (ev_message ev) \<longrightarrow> backed P N i (ev_term ev))"

section \<open>Sending one more message\<close>

lemma voted_mono: "voted N q t c \<Longrightarrow> N \<subseteq> N' \<Longrightarrow> voted N' q t c"
  by (auto simp: voted_def)

lemma backed_mono: "backed P N i t \<Longrightarrow> N \<subseteq> N' \<Longrightarrow> backed P N' i t"
proof -
  assume b: "backed P N i t" and sub: "N \<subseteq> N'"
  from b obtain Q where "Q \<subseteq> insert i P" "card (insert i P) < 2 * card Q" "\<forall>q \<in> Q - {i}. voted N q t i"
    "P \<noteq> {} \<longrightarrow> voted N i t i"
    by (auto simp: backed_def)
  with sub show ?thesis unfolding backed_def using voted_mono by (intro conjI exI [of _ Q]) blast+
qed

lemma voted_insert:
  "voted (insert ev N) q t c \<longleftrightarrow> voted N q t c \<or> ev_from ev = q \<and> ev_term ev = t \<and>
     (ev_to ev = c \<and> ev_message ev = CampaignResponse True \<or> q = c \<and> (\<exists>li lt. ev_message ev = Campaign li lt))"
  by (auto simp: voted_def)

lemma voted_insert_other: "\<not> vote_msg (ev_message ev) \<Longrightarrow> voted (insert ev N) = voted N"
  by (auto simp: fun_eq_iff voted_insert)

lemma voted_from: "voted N q t c \<longleftrightarrow> voted {ev \<in> N. ev_from ev = q} q t c"
  by (auto simp: voted_def)

lemma msgs_ok_insert:
  assumes "msgs_ok P N i tv" "\<not> vote_msg (ev_message ev)"
    and "leader_msg (ev_message ev) \<Longrightarrow> ev_from ev = i \<Longrightarrow> backed P N i (ev_term ev)"
  shows "msgs_ok P (insert ev N) i tv"
proof -
  have "voted (insert ev N) = voted N" by (rule voted_insert_other [OF assms(2)])
  moreover from this have "backed P (insert ev N) = backed P N" by (simp add: backed_def fun_eq_iff)
  ultimately show ?thesis using assms(1,3) by (auto simp: msgs_ok_def)
qed

lemma msgs_ok_vote:
  assumes ok: "msgs_ok P N i (t, v)" and v: "v = None \<or> v = Some c"
    and ev: "ev_term ev = t" "ev_to ev = c \<and> ev_message ev = CampaignResponse True \<or>
      c = i \<and> (\<exists>li lt. ev_message ev = Campaign li lt)"
  shows "msgs_ok P (insert ev N) i (t, Some c)"
proof -
  have new: "voted (insert ev N) i t' d \<Longrightarrow> voted N i t' d \<or> t' = t \<and> d = c" for t' d
    using ev by (auto simp: voted_insert)
  have old: "voted N i t' d \<Longrightarrow> t' < t \<or> t' = t \<and> v = Some d" for t' d
    using ok by (auto simp: msgs_ok_def)
  have one: "voted N i t' d \<Longrightarrow> voted N i t' d' \<Longrightarrow> d = d'" for t' d d'
    using ok by (auto simp: msgs_ok_def)
  have "voted (insert ev N) i t' d \<Longrightarrow> t' < t \<or> t' = t \<and> d = c" for t' d
    using new [of t' d] old [of t' d] v by auto
  moreover have "voted (insert ev N) i t' d \<Longrightarrow> voted (insert ev N) i t' d' \<Longrightarrow> d = d'" for t' d d'
    using new [of t' d] new [of t' d'] old [of t' d] old [of t' d'] one [of t' d d'] v by auto
  moreover have "\<forall>ev' \<in> insert ev N. ev_from ev' = i \<longrightarrow> leader_msg (ev_message ev') \<longrightarrow>
      backed P (insert ev N) i (ev_term ev')"
    using ok ev(2) backed_mono [OF _ subset_insertI, of P N i _ ev] by (auto simp: msgs_ok_def)
  ultimately show ?thesis unfolding msgs_ok_def by (metis fst_conv snd_conv)
qed

lemma msgs_ok_later:
  assumes "msgs_ok P N i (t, v)" "t < t' \<or> t = t' \<and> (v = None \<or> v = v')"
  shows "msgs_ok P N i (t', v')"
  using assms by (fastforce simp: msgs_ok_def)

lemma msgs_ok_others:
  assumes "msgs_ok P N i tv" "N \<subseteq> N'" "\<And>ev. ev \<in> N' - N \<Longrightarrow> ev_from ev \<noteq> i"
  shows "msgs_ok P N' i tv"
proof -
  have "{ev \<in> N'. ev_from ev = i} = {ev \<in> N. ev_from ev = i}" using assms(2,3) by auto
  then have same: "voted N' i t c \<longleftrightarrow> voted N i t c" for t c
    using voted_from [of N' i t c] voted_from [of N i t c] by simp
  have "backed P N' i (ev_term ev)" if "ev \<in> N'" "ev_from ev = i" "leader_msg (ev_message ev)" for ev
  proof -
    have "ev \<in> N" using that assms(3) by blast
    with that assms(1) have "backed P N i (ev_term ev)" by (simp add: msgs_ok_def)
    then show ?thesis by (rule backed_mono [OF _ assms(2)])
  qed
  with assms(1) show ?thesis unfolding msgs_ok_def same by blast
qed

section \<open>The state of a node between operations\<close>

definition node_at :: "('e \<Rightarrow> bool) \<Rightarrow> ('e \<Rightarrow> (bytes \<times> bytes) list) \<Rightarrow> raft_bincode \<Rightarrow> node_id \<Rightarrow> node_id set \<Rightarrow> envelope set \<Rightarrow>
    term_id \<Rightarrow> term_id \<times> node_id option \<Rightarrow> bool \<Rightarrow> ('e, 's) core \<Rightarrow> bool" where
  "node_at einv view R i P N t tv b n \<longleftrightarrow> nd_id n = i \<and> nd_peers n = P \<and> nd_term n = t \<and>
     pvote einv view R tv (nd_log n) \<and> (\<forall>ev \<in> set (nd_tx n). ev_from ev = i) \<and>
     msgs_ok P (N \<union> set (nd_tx n)) i tv \<and> (b \<longrightarrow> backed P (N \<union> set (nd_tx n)) i t)"

definition role_at :: "('e \<Rightarrow> bool) \<Rightarrow> ('e \<Rightarrow> (bytes \<times> bytes) list) \<Rightarrow> raft_bincode \<Rightarrow> node_id \<Rightarrow> node_id set \<Rightarrow> envelope set \<Rightarrow>
    role \<Rightarrow> ('e, 's) core \<Rightarrow> bool" where
  "role_at einv view R i P N role n \<longleftrightarrow> (\<exists>t v b. node_at einv view R i P N t (t, v) b n \<and> (case role of
      Follower f \<Rightarrow> fo_voted_for f = v
    | Candidate c \<Rightarrow> v = Some i \<and> ca_votes c \<subseteq> insert i P \<and> (\<forall>q \<in> ca_votes c - {i}. voted N q t i) \<and>
        (P \<noteq> {} \<longrightarrow> voted (N \<union> set (nd_tx n)) i t i)
    | Leader ld \<Rightarrow> v = Some i \<and> b))"

definition down_at :: "('e \<Rightarrow> bool) \<Rightarrow> ('e \<Rightarrow> (bytes \<times> bytes) list) \<Rightarrow> raft_bincode \<Rightarrow> node_id \<Rightarrow> node_id set \<Rightarrow> envelope set \<Rightarrow>
    ('e, 's) core \<Rightarrow> bool" where
  "down_at einv view R i P N n \<longleftrightarrow> (\<exists>t tv b. node_at einv view R i P N t tv b n)"

locale raft_nodes = raft_total "rv_engine V" inv view "rv_bincode V"
  for V :: "('e, 's) raft_env" and inv view
begin

abbreviation at :: "node_id \<Rightarrow> node_id set \<Rightarrow> envelope set \<Rightarrow> term_id \<Rightarrow> term_id \<times> node_id option \<Rightarrow> bool \<Rightarrow>
    ('e, 's) core \<Rightarrow> bool" where
  "at \<equiv> node_at inv view (rv_bincode V)"

abbreviation rl :: "node_id \<Rightarrow> node_id set \<Rightarrow> envelope set \<Rightarrow> role \<Rightarrow> ('e, 's) core \<Rightarrow> bool" where
  "rl \<equiv> role_at inv view (rv_bincode V)"

abbreviation dn :: "node_id \<Rightarrow> node_id set \<Rightarrow> envelope set \<Rightarrow> ('e, 's) core \<Rightarrow> bool" where
  "dn \<equiv> down_at inv view (rv_bincode V)"

lemma keeps_on_log [triple_rules]: "keeps (pv tv) m \<Longrightarrow> keeps (at i P N t tv b) (on_log m)"
  by (rule tripleI)
    (auto simp: on_log_def node_at_def split: prod.splits result.splits dest: keepsD [of "pv tv" m])

lemma keeps_assert [triple_rules]: "keeps S (assert_op c s)"
  by (auto simp: assert_op_def intro!: triple_rules)

lemma keeps_rand [triple_rules]: "keeps (at i P N t tv b) rand_election_timeout"
  by (rule tripleI) (auto simp: rand_election_timeout_def node_at_def split: result.splits)

lemma keeps_send [triple_rules]:
  assumes "\<not> vote_msg m" "leader_msg m \<Longrightarrow> b"
  shows "keeps (at i P N t tv b) (node_send x m)"
proof (rule tripleI)
  fix n r n' assume at: "at i P N t tv b n" and run: "node_send x m n = (r, n')"
  let ?ev = "\<lparr>ev_from = i, ev_to = x, ev_term = t, ev_message = m\<rparr>"
  have "msgs_ok P (insert ?ev (N \<union> set (nd_tx n))) i tv"
    using at assms by (intro msgs_ok_insert) (auto simp: node_at_def)
  moreover have "b \<Longrightarrow> backed P (insert ?ev (N \<union> set (nd_tx n))) i t"
    using at by (auto simp: node_at_def intro: backed_mono)
  ultimately have "at i P N t tv b n'" using at run by (auto simp: node_at_def node_send_def split: if_splits)
  then show "case r of Ok a \<Rightarrow> at i P N t tv b n' | _ \<Rightarrow> at i P N t tv b n'" by (auto split: result.splits)
qed

lemma keeps_broadcast [triple_rules]:
  assumes "\<not> vote_msg m" "leader_msg m \<Longrightarrow> b"
  shows "keeps (at i P N t tv b) (broadcast m)"
  unfolding broadcast_def by (auto intro!: triple_rules simp: assms)

lemma keeps_run_state [triple_rules]: "keeps (at i P N t tv b) (run_state m)"
  by (rule tripleI) (auto simp: run_state_def node_at_def split: prod.splits result.splits)

lemma keeps_apply_loop:
  "(\<And>j r a. keeps (at i P N t tv b) (g j r a)) \<Longrightarrow> keeps (at i P N t tv b) (apply_loop V g scan acc)"
proof (induction scan arbitrary: acc)
  case (Cons item scan)
  have "keeps (at i P N t tv b) (case r of Err (Internal m) \<Rightarrow> lift_op (Err (Internal m)) | Panic p \<Rightarrow> lift_op (Panic p)
      | _ \<Rightarrow> bind_op (g j r acc) (apply_loop V g scan))" for j r
    using Cons by (cases r) (auto intro!: triple_rules split: error.split)
  then show ?case by (auto intro!: triple_rules)
qed (auto intro!: triple_rules)

lemma keeps_maybe_apply_with [triple_rules]:
  assumes "\<And>j r a. keeps (at i P N t tv b) (g j r a)"
  shows "keeps (at i P N t tv b) (maybe_apply_with V g acc)"
proof -
  have "\<not> range_panics (Included start, Included c)" if "add_u64 a 1 = Ok start" "\<not> c \<le> a" for start a c :: index
    using add_u64_unat [OF that(1)] that(2) by (simp add: word_le_nat_alt word_less_nat_alt not_le)
  then show ?thesis
    unfolding maybe_apply_with_def using keeps_apply_loop [OF assms] by (auto intro!: triple_rules)
qed

lemma keeps_maybe_apply [triple_rules]: "keeps (at i P N t tv b) (maybe_apply V)"
  by (auto simp: maybe_apply_def intro!: triple_rules)

lemma keeps_asserts [triple_rules]:
  "keeps (at i P N t tv b) (assert_node V)" "keeps (at i P N t tv b) (assert_step msg)"
  "keeps (at i P N t tv b) (follower_assert V f)" "keeps (at i P N t tv b) (candidate_assert V c)"
  "keeps (at i P N t tv b) (leader_assert V)"
  unfolding assert_node_def assert_step_def follower_assert_def candidate_assert_def leader_assert_def
  by (auto intro!: triple_rules)

lemma keeps_new [triple_rules]:
  "keeps (at i P N t tv b) candidate_new" "keeps (at i P N t tv b) (follower_new l v)"
  by (auto simp: candidate_new_def follower_new_def intro!: triple_rules)

lemma keeps_leader_methods [triple_rules]:
  "keeps (at i P N t tv True) (heartbeat ld)" "keeps (at i P N t tv True) (send_log V ld peer)"
  "keeps (at i P N t tv True) (propose V ld c)"
proof -
  show send: "keeps (at i P N t tv True) (send_log V ld peer)" for ld peer
    unfolding send_log_def by (auto intro!: triple_rules)
  show "keeps (at i P N t tv True) (heartbeat ld)"
    unfolding heartbeat_def by (auto intro!: triple_rules)
  show "keeps (at i P N t tv True) (propose V ld c)"
    unfolding propose_def using send by (auto intro!: triple_rules)
qed

lemma keeps_commit_and_read [triple_rules]:
  "keeps (at i P N t tv b) (maybe_commit_and_apply V ld)" "keeps (at i P N t tv b) (maybe_read V ld)"
proof -
  have "keeps (at i P N t tv b) (respond_write j r ld)" for j r ld
    unfolding respond_write_def by (auto intro!: triple_rules)
  then show "keeps (at i P N t tv b) (maybe_commit_and_apply V ld)"
    unfolding maybe_commit_and_apply_def by (auto intro!: triple_rules)
  have "keeps (at i P N t tv b) (case r of Panic p \<Rightarrow> lift_op (Panic p) | _ \<Rightarrow> return_op ())" for r :: "bytes result"
    by (cases r) (auto intro!: triple_rules)
  then have "keeps (at i P N t tv b) (read_loop V q rs)" for q rs
    by (induction rs) (auto intro!: triple_rules)
  then show "keeps (at i P N t tv b) (maybe_read V ld)"
    unfolding maybe_read_def by (auto intro!: triple_rules)
qed

section \<open>Changing the term and voting\<close>

lemma at_down: "at i P N t tv b n \<Longrightarrow> dn i P N n"
  unfolding down_at_def by blast

lemma keeps_down: "keeps (at i P N t tv b) m \<Longrightarrow> triple (at i P N t tv b) m (\<lambda>_. at i P N t tv b) (dn i P N)"
  by (erule triple_weaken_fail) (rule at_down)

lemma step_reads [step_rules]:
  "triple (at i P N t tv b) (m t) Q F \<Longrightarrow> triple (at i P N t tv b) (bind_op (gets_op nd_term) m) Q F"
  "triple (at i P N t tv b) (m' i) Q F \<Longrightarrow> triple (at i P N t tv b) (bind_op (gets_op nd_id) m') Q F"
  "triple (at i P N t tv b) (m'' P) Q F \<Longrightarrow> triple (at i P N t tv b) (bind_op (gets_op nd_peers) m'') Q F"
  by (auto simp: triple_def bind_op_def node_at_def)

lemma step_other [step_rules]:
  "keeps (at i P N t tv b) m \<Longrightarrow> (\<And>a. triple (at i P N t tv b) (f a) Q (dn i P N)) \<Longrightarrow>
   triple (at i P N t tv b) (bind_op m f) Q (dn i P N)"
  by (rule step_keeps) (auto intro: at_down)

lemma step_assert [step_rules]:
  "(c \<Longrightarrow> triple (at i P N t tv b) (m ()) Q (dn i P N)) \<Longrightarrow>
   triple (at i P N t tv b) (bind_op (assert_op c s) m) Q (dn i P N)"
  unfolding assert_op_def by (rule step_lift) (auto intro: at_down split: if_splits)

lemma step_set_nd_term [step_rules]:
  "triple (at i P N x tv False) m Q F \<Longrightarrow>
   triple (at i P N t tv b) (bind_op (modify_op (\<lambda>n. n\<lparr>nd_term := x\<rparr>)) (\<lambda>_. m)) Q F"
  by (erule step_modify) (auto simp: node_at_def)

lemma set_term_at:
  assumes "t0 < t1 \<or> t0 = t1 \<and> (v0 = None \<or> v0 = v1)"
  shows "triple (at i P N t (t0, v0) b) (on_log (log_set_term (rv_engine V) (rv_bincode V) t1 v1))
    (\<lambda>_. at i P N t (t1, v1) b) F"
proof (rule tripleI)
  fix n r n' assume at: "at i P N t (t0, v0) b n"
    and run: "on_log (log_set_term (rv_engine V) (rv_bincode V) t1 v1) n = (r, n')"
  obtain l where l: "log_set_term (rv_engine V) (rv_bincode V) t1 v1 (nd_log n) = (r, l)" "n' = n\<lparr>nd_log := l\<rparr>"
    using run by (auto simp: on_log_def split: prod.splits)
  have "pv (t0, v0) (nd_log n)" using at by (simp add: node_at_def)
  from tripleD [OF set_term_pvote this l(1)] obtain u where "r = Ok u" "pv (t1, v1) l"
    by (cases r) auto
  moreover have "msgs_ok P (N \<union> set (nd_tx n)) i (t1, v1)"
    using at assms by (auto simp: node_at_def intro: msgs_ok_later)
  ultimately show "case r of Ok a \<Rightarrow> at i P N t (t1, v1) b n' | _ \<Rightarrow> F n'"
    using at l(2) by (auto simp: node_at_def)
qed

lemma step_set_term:
  assumes "triple (at i P N t (t1, v1) b) m Q F" "t0 < t1 \<or> t0 = t1 \<and> (v0 = None \<or> v0 = v1)"
  shows "triple (at i P N t (t0, v0) b)
    (bind_op (on_log (log_set_term (rv_engine V) (rv_bincode V) t1 v1)) (\<lambda>_. m)) Q F"
  by (rule triple_bind [OF set_term_at [OF assms(2)] assms(1)])

lemma send_campaign:
  "triple (at i P N t (t, Some i) b) (node_send x (Campaign li lt))
    (\<lambda>_ n. at i P N t (t, Some i) b n \<and> voted (N \<union> set (nd_tx n)) i t i) (dn i P N)"
proof (rule tripleI)
  fix n r n' assume at: "at i P N t (t, Some i) b n" and run: "node_send x (Campaign li lt) n = (r, n')"
  let ?ev = "\<lparr>ev_from = i, ev_to = x, ev_term = t, ev_message = Campaign li lt\<rparr>"
  show "case r of Ok a \<Rightarrow> at i P N t (t, Some i) b n' \<and> voted (N \<union> set (nd_tx n')) i t i | _ \<Rightarrow> dn i P N n'"
  proof (cases "nd_tx_open n")
    case True
    with at run have r: "r = Ok ()" "n' = n\<lparr>nd_tx := nd_tx n @ [?ev]\<rparr>"
      by (auto simp: node_send_def node_at_def)
    have "msgs_ok P (insert ?ev (N \<union> set (nd_tx n))) i (t, Some i)"
      using at by (intro msgs_ok_vote [of _ _ _ _ "Some i"]) (auto simp: node_at_def)
    with at r show ?thesis by (auto simp: node_at_def voted_insert intro: backed_mono)
  next
    case False
    with at run show ?thesis by (auto simp: node_send_def intro: at_down)
  qed
qed

lemma broadcast_campaign:
  "triple (at i P N t (t, Some i) b) (broadcast (Campaign li lt))
    (\<lambda>_ n. at i P N t (t, Some i) b n \<and> (P \<noteq> {} \<longrightarrow> voted (N \<union> set (nd_tx n)) i t i)) (dn i P N)"
proof -
  let ?S = "\<lambda>n. at i P N t (t, Some i) b n \<and> voted (N \<union> set (nd_tx n)) i t i"
  have "triple ?S (for_each (\<lambda>x. node_send x (Campaign li lt)) xs) (\<lambda>_. ?S) (dn i P N)" for xs
    by (rule triple_for_each) (auto intro: triple_conseq [OF send_campaign])
  then have "triple (at i P N t (t, Some i) b) (for_each (\<lambda>x. node_send x (Campaign li lt)) (y # ys))
      (\<lambda>_. ?S) (dn i P N)" for y ys
    using send_campaign by (auto intro!: triple_bind)
  then have "triple (at i P N t (t, Some i) b) (for_each (\<lambda>x. node_send x (Campaign li lt)) xs)
      (\<lambda>_ n. at i P N t (t, Some i) b n \<and> (xs \<noteq> [] \<longrightarrow> voted (N \<union> set (nd_tx n)) i t i)) (dn i P N)" for xs
    by (cases xs) (auto intro!: triple_return simp del: for_each.simps(2))
  from this [of "sorted_list_of_set P"] show ?thesis
    unfolding broadcast_def by (intro step_reads) (auto elim!: triple_conseq simp: sorted_list_of_set_eq_Nil_iff)
qed

lemma campaign_ok: "triple (at i P N t (t, v) b) (campaign V) (\<lambda>c. rl i P N (Candidate c)) (dn i P N)"
proof -
  have fin: "triple (\<lambda>n. at i P N t' (t', Some i) False n \<and> (P \<noteq> {} \<longrightarrow> voted (N \<union> set (nd_tx n)) i t' i))
      (return_op (c\<lparr>ca_votes := insert i (ca_votes c)\<rparr>)) (\<lambda>c. rl i P N (Candidate c)) (dn i P N)"
    if "ca_votes c = {}" for c t'
    using that by (intro triple_return) (auto simp: role_at_def)
  have new: "triple (at i P N t (t, v) b) candidate_new (\<lambda>c n. at i P N t (t, v) b n \<and> ca_votes c = {}) (dn i P N)"
    unfolding candidate_new_def by (intro step_other triple_rules triple_return) auto
  have tail: "triple (at i P N t (t, v) b) (bind_op (gets_op nd_id) (\<lambda>id.
     bind_op (modify_op (\<lambda>n. n\<lparr>nd_term := t'\<rparr>)) (\<lambda>_.
     bind_op (on_log (log_set_term (rv_engine V) (rv_bincode V) t' (Some id))) (\<lambda>_.
     bind_op (gets_op (\<lambda>n. get_last_index (nd_log n))) (\<lambda>(last_index, last_term).
     bind_op (broadcast (Campaign last_index last_term)) (\<lambda>_.
     return_op (c\<lparr>ca_votes := insert id (ca_votes c)\<rparr>)))))))
     (\<lambda>c. rl i P N (Candidate c)) (dn i P N)" if "t < t'" "ca_votes c = {}" for t' c
    using that by (intro step_reads step_set_nd_term step_set_term step_other triple_rules
        triple_bind [OF broadcast_campaign] fin) auto
  have "t < t'" if "add_u64 t 1 = Ok t'" for t'
    using add_u64_unat [OF that] by (simp add: word_less_nat_alt)
  then show ?thesis
    unfolding campaign_def
    by (intro step_reads step_lift triple_bind [OF new] triple_conj tail) (auto intro: at_down)
qed

section \<open>Followers\<close>

lemma rl_follower: "rl i P N (Follower f) n \<longleftrightarrow> (\<exists>t b. at i P N t (t, fo_voted_for f) b n)"
  by (auto simp: role_at_def)

lemma rl_leader: "rl i P N (Leader ld) n \<longleftrightarrow> (\<exists>t. at i P N t (t, Some i) True n)"
  by (auto simp: role_at_def)

lemma triple_follower:
  "(\<And>t b. triple (at i P N t (t, fo_voted_for f) b) m Q F) \<Longrightarrow> triple (rl i P N (Follower f)) m Q F"
  unfolding rl_follower by (intro triple_ex)

lemma triple_leader:
  "(\<And>t. triple (at i P N t (t, Some i) True) m Q F) \<Longrightarrow> triple (rl i P N (Leader ld)) m Q F"
  unfolding rl_leader by (intro triple_ex)

lemma return_follower [step_rules]:
  "fo_voted_for f = v \<Longrightarrow> triple (at i P N t (t, v) b) (return_op (Follower f)) (rl i P N) F"
  by (intro triple_return) (auto simp: rl_follower)

lemma return_leader [step_rules]:
  "triple (at i P N t (t, Some i) True) (return_op (Leader ld)) (rl i P N) F"
  by (intro triple_return) (auto simp: rl_leader)

lemma panic_down: "triple (at i P N t tv b) (lift_op (Panic s)) Q (dn i P N)"
  by (rule triple_lift) (auto intro: at_down)

lemma follower_new_ok [step_rules]:
  "triple (at i P N t (t, v) b) (follower_new l v) (\<lambda>f. rl i P N (Follower f)) (dn i P N)"
  unfolding follower_new_def by (intro step_other keeps_rand triple_return) (auto simp: rl_follower)

lemma step_abort_forwarded:
  "(\<And>f'. fo_voted_for f' = fo_voted_for f \<Longrightarrow> triple (at i P N t tv b) (m f') Q (dn i P N)) \<Longrightarrow>
   triple (at i P N t tv b) (bind_op (abort_forwarded V f) m) Q (dn i P N)"
  by (rule triple_bind [of _ _ "\<lambda>f' n. at i P N t tv b n \<and> fo_voted_for f' = fo_voted_for f"])
    (auto simp: abort_forwarded_def intro!: step_reads step_other triple_rules triple_return triple_conj)

lemma follower_into_follower_ok:
  "triple (at i P N t (t, fo_voted_for f) b) (follower_into_follower V f l term)
    (\<lambda>f'. rl i P N (Follower f')) (dn i P N)"
  unfolding follower_into_follower_def
  by (auto intro!: step_reads step_assert step_abort_forwarded step_set_nd_term step_set_term follower_new_ok
      split: option.split)

lemma follow_sender_ok:
  "triple (at i P N t (t, fo_voted_for f) b) (follow_sender V msg f) (\<lambda>f'. rl i P N (Follower f')) (dn i P N)"
  unfolding follow_sender_def
  by (auto intro!: step_assert triple_return follower_into_follower_ok intro: rl_follower [THEN iffD2]
      split: option.split)

lemma follower_heartbeat_ok:
  "triple (at i P N t (t, fo_voted_for f) b) (follower_heartbeat V msg ci ct rs f) (rl i P N) (dn i P N)"
  unfolding follower_heartbeat_def
  by (rule triple_bind [OF follow_sender_ok])
    (auto intro!: triple_follower step_other triple_rules return_follower)

lemma follower_append_ok:
  "triple (at i P N t (t, fo_voted_for f) b) (follower_append V msg bi bt es f) (rl i P N) (dn i P N)"
  unfolding follower_append_def
  by (rule triple_bind [OF follow_sender_ok])
    (auto intro!: triple_follower step_other triple_rules return_follower)

lemma grant_vote:
  assumes v: "v = None \<or> v = Some c" and m: "triple (at i P N t (t, Some c) b) m Q F"
    and F: "\<And>n. dn i P N n \<Longrightarrow> F n"
  shows "triple (at i P N t (t, v) b) (bind_op (node_send c (CampaignResponse True)) (\<lambda>_.
      bind_op (gets_op nd_term) (\<lambda>term.
      bind_op (on_log (log_set_term (rv_engine V) (rv_bincode V) term (Some c))) (\<lambda>_. m))))
    Q F"
proof -
  let ?S = "\<lambda>n. nd_id n = i \<and> nd_peers n = P \<and> nd_term n = t \<and> pv (t, v) (nd_log n) \<and>
    (\<forall>ev \<in> set (nd_tx n). ev_from ev = i) \<and> msgs_ok P (N \<union> set (nd_tx n)) i (t, Some c) \<and>
    (b \<longrightarrow> backed P (N \<union> set (nd_tx n)) i t)"
  have "triple (at i P N t (t, v) b) (node_send c (CampaignResponse True)) (\<lambda>_. ?S) F"
  proof (rule tripleI)
    fix n r n' assume at: "at i P N t (t, v) b n" and run: "node_send c (CampaignResponse True) n = (r, n')"
    let ?ev = "\<lparr>ev_from = i, ev_to = c, ev_term = t, ev_message = CampaignResponse True\<rparr>"
    have "msgs_ok P (insert ?ev (N \<union> set (nd_tx n))) i (t, Some c)"
      using at v by (intro msgs_ok_vote [of _ _ _ _ v]) (auto simp: node_at_def)
    then show "case r of Ok a \<Rightarrow> ?S n' | _ \<Rightarrow> F n'"
      using at run F [OF at_down [OF at]]
      by (auto simp: node_send_def node_at_def intro: backed_mono split: if_splits)
  qed
  moreover have "triple ?S (on_log (log_set_term (rv_engine V) (rv_bincode V) t (Some c)))
      (\<lambda>_. at i P N t (t, Some c) b) F"
  proof (rule tripleI)
    fix n n' :: "('e, 's) core" and r
    assume S: "?S n" and run: "on_log (log_set_term (rv_engine V) (rv_bincode V) t (Some c)) n = (r, n')"
    obtain l where l: "log_set_term (rv_engine V) (rv_bincode V) t (Some c) (nd_log n) = (r, l)" "n' = n\<lparr>nd_log := l\<rparr>"
      using run by (auto simp: on_log_def split: prod.splits)
    from tripleD [OF set_term_pvote _ l(1)] S obtain u where "r = Ok u" "pv (t, Some c) l" by (cases r) auto
    with S l(2) show "case r of Ok a \<Rightarrow> at i P N t (t, Some c) b n' | _ \<Rightarrow> F n'" by (auto simp: node_at_def)
  qed
  then have "triple ?S (bind_op (gets_op nd_term) (\<lambda>term.
      bind_op (on_log (log_set_term (rv_engine V) (rv_bincode V) term (Some c))) (\<lambda>_. m))) Q F"
    using m by (intro triple_bind [of _ "gets_op nd_term" "\<lambda>x n. ?S n \<and> x = t"] triple_gets triple_conj)
      (auto intro: triple_bind)
  ultimately show ?thesis by (rule triple_bind)
qed

lemma follower_campaign_ok:
  "triple (at i P N t (t, fo_voted_for f) b) (follower_campaign V msg li lt f) (rl i P N) (dn i P N)"
proof -
  let ?x = "ev_from msg" and ?f = "f\<lparr>fo_voted_for := Some (ev_from msg)\<rparr>"
  have deny: "triple (at i P N t (t, fo_voted_for f) b)
      (bind_op (node_send ?x (CampaignResponse False)) (\<lambda>_. return_op (Follower f))) (rl i P N) (dn i P N)"
    by (auto intro!: step_other triple_rules return_follower)
  have grant: "triple (at i P N t (t, fo_voted_for f) b) (bind_op (node_send ?x (CampaignResponse True)) (\<lambda>_.
      bind_op (gets_op nd_term) (\<lambda>term.
      bind_op (on_log (log_set_term (rv_engine V) (rv_bincode V) term (Some ?x))) (\<lambda>_.
      return_op (Follower ?f))))) (rl i P N) (dn i P N)" if "fo_voted_for f = None \<or> fo_voted_for f = Some ?x"
    using that by (intro grant_vote return_follower) auto
  show ?thesis
    unfolding follower_campaign_def
    by (intro triple_if deny step_other keeps_pure triple_prod grant) (auto split: option.splits)
qed

lemma follower_handle_ok:
  "triple (at i P N t (t, fo_voted_for f) b) (follower_handle V msg m f) (rl i P N) (dn i P N)"
proof (cases m)
  case (ClientRequest rid req)
  then show ?thesis
    by (auto simp: follower_client_request_def intro!: step_reads step_assert step_other triple_rules return_follower
        split: option.split)
next
  case (ClientResponse rid res)
  then show ?thesis
    by (auto simp: follower_client_response_def intro!: step_reads step_assert step_other triple_rules return_follower)
qed (auto intro!: follower_heartbeat_ok follower_append_ok follower_campaign_ok return_follower panic_down)

lemma follower_step_fuel_ok:
  "triple (rl i P N (Follower f)) (follower_step_fuel k V msg f) (rl i P N) (dn i P N)"
proof (induction k arbitrary: f)
  case 0
  show ?case unfolding follower_step_fuel.simps by (intro triple_follower panic_down)
next
  case (Suc k)
  have "triple (at i P N t (t, fo_voted_for f) b) (follower_handle V msg m
      (if is_leader f (ev_from msg) then f\<lparr>fo_leader_seen := 0\<rparr> else f)) (rl i P N) (dn i P N)" for t b m
    using follower_handle_ok [of i P N t "f\<lparr>fo_leader_seen := 0\<rparr>"] follower_handle_ok by simp
  moreover have "triple (at i P N t (t, fo_voted_for f) b)
      (bind_op (follower_into_follower V f None (ev_term msg)) (follower_step_fuel k V msg)) (rl i P N) (dn i P N)" for t b
    by (rule triple_bind [OF follower_into_follower_ok Suc])
  ultimately show ?case
    by (auto intro!: triple_follower step_other step_reads keeps_asserts return_follower)
qed

lemma follower_step_ok: "triple (rl i P N (Follower f)) (follower_step V msg f) (rl i P N) (dn i P N)"
  unfolding follower_step_def by (rule follower_step_fuel_ok)

lemma follower_into_candidate_ok:
  "triple (at i P N t (t, v) b) (follower_into_candidate V f) (\<lambda>c. rl i P N (Candidate c)) (dn i P N)"
  unfolding follower_into_candidate_def
  by (intro step_abort_forwarded step_other keeps_maybe_apply keeps_new campaign_ok)

lemma follower_tick_ok: "triple (rl i P N (Follower f)) (follower_tick V f) (rl i P N) (dn i P N)"
proof (rule triple_follower)
  fix t b
  have "triple (at i P N t (t, v) b) (bind_op (follower_into_candidate V g) (\<lambda>c. return_op (Candidate c)))
      (rl i P N) (dn i P N)" for v g
    by (rule triple_bind [OF follower_into_candidate_ok triple_return]) simp
  then show "triple (at i P N t (t, fo_voted_for f) b) (follower_tick V f) (rl i P N) (dn i P N)"
    unfolding follower_tick_def Let_def
    by (auto intro!: step_other step_lift keeps_asserts return_follower at_down)
qed

section \<open>Leaders\<close>

lemma leader_handle_ok:
  "triple (at i P N t (t, Some i) True) (leader_handle V msg m ld) (rl i P N) (dn i P N)"
  by (cases "(V, msg, m, ld)" rule: leader_handle.cases)
    (auto simp: leader_heartbeat_response_def leader_append_rejected_def leader_append_accepted_def Let_def
      leader_client_read_def leader_client_write_def leader_client_status_def
      intro!: step_assert step_lift step_other triple_rules return_leader panic_down at_down)

lemma leader_into_follower_ok:
  "triple (at i P N t (t, v) b) (leader_into_follower V ld term) (\<lambda>f. rl i P N (Follower f)) (dn i P N)"
proof -
  have "keeps (at i P N t tv b) (for_each (\<lambda>j. case le_writes ld j of
      Some w \<Rightarrow> node_send (wr_from w) (ClientResponse (wr_id w) (Err Abort)) | None \<Rightarrow> return_op ()) js)" for t tv b js
    by (auto intro!: triple_rules split: option.split)
  moreover have "keeps (at i P N t tv b) (for_each (\<lambda>r. node_send (rd_from r) (ClientResponse (rd_id r) (Err Abort))) rs)"
    for t tv b rs
    by (auto intro!: triple_rules)
  ultimately show ?thesis
    unfolding leader_into_follower_def
    by (intro step_reads step_assert step_set_nd_term step_set_term follower_new_ok step_other) auto
qed

lemma leader_step_ok: "triple (rl i P N (Leader ld)) (leader_step V msg ld) (rl i P N) (dn i P N)"
  unfolding leader_step_def
  by (intro triple_leader step_other keeps_asserts step_reads triple_if return_leader leader_handle_ok
      triple_bind [OF leader_into_follower_ok follower_step_ok])

lemma leader_tick_ok: "triple (rl i P N (Leader ld)) (leader_tick V ld) (rl i P N) (dn i P N)"
  unfolding leader_tick_def
  by (auto intro!: triple_leader step_lift step_other triple_rules return_leader at_down)

section \<open>Candidates\<close>

lemma rl_candidate: "rl i P N (Candidate c) n \<longleftrightarrow> (\<exists>t b. at i P N t (t, Some i) b n \<and> ca_votes c \<subseteq> insert i P \<and>
    (\<forall>q \<in> ca_votes c - {i}. voted N q t i) \<and> (P \<noteq> {} \<longrightarrow> voted (N \<union> set (nd_tx n)) i t i))"
  by (auto simp: role_at_def)

text \<open>The node and its votes in an election of the term \<open>t\<close>.\<close>

abbreviation cand :: "node_id \<Rightarrow> node_id set \<Rightarrow> envelope set \<Rightarrow> term_id \<Rightarrow> bool \<Rightarrow> ('e, 's) core \<Rightarrow> bool" where
  "cand i P N t b n \<equiv> at i P N t (t, Some i) b n \<and> (P \<noteq> {} \<longrightarrow> voted (N \<union> set (nd_tx n)) i t i)"

lemma into_leader_ok:
  "triple (at i P N t (t, Some i) True) (into_leader V) (\<lambda>ld. rl i P N (Leader ld)) (dn i P N)"
  unfolding into_leader_def
  by (auto intro!: step_reads step_other step_lift keeps_pure keeps_leader_methods triple_return at_down
      simp: rl_leader)

lemma quorum_backed:
  assumes "i \<notin> P" "node_quorum_size n = Ok q" "nd_peers n = P" "q \<le> of_nat (card S)" "S \<subseteq> insert i P"
  shows "card (insert i P) < 2 * card S"
proof -
  have fin: "finite P" by simp
  have "card (insert i P) \<le> card (UNIV :: node_id set)" by (intro card_mono) auto
  then have p: "card P < 256" using assms(1) fin by (simp add: card_word)
  obtain k where k: "add_u8 (of_nat (card P)) 1 = Ok k" "q = quorum_size k"
    using assms(2,3) by (auto simp: node_quorum_size_def cluster_size_def add_u8_def split: if_splits)
  have "unat (of_nat (card P) :: u8) = card P" using p by (simp add: unat_of_nat take_bit_eq_mod)
  with k(1) have k': "unat k = Suc (card P)" "Suc (card P) < 256"
    by (auto simp: add_u8_def unat_word_ariths split: if_splits)
  have "card S \<le> card (insert i P)" using assms(5) fin by (intro card_mono) auto
  then have cs: "card S \<le> Suc (card P)" using fin assms(1) by simp
  have "unat q = Suc (card P) div 2 + 1"
    using k' by (simp add: k(2) quorum_size_def unat_word_ariths unat_div)
  moreover have "unat q \<le> card S"
    using assms(4) cs k'(2) by (simp add: word_le_nat_alt unat_of_nat take_bit_eq_mod)
  ultimately show ?thesis using assms(1) fin by simp
qed

lemma backedI:
  assumes "at i P N t (t, Some i) b n" "S \<subseteq> insert i P" "card (insert i P) < 2 * card S"
    and "\<forall>q \<in> S - {i}. voted N q t i" "P \<noteq> {} \<longrightarrow> voted (N \<union> set (nd_tx n)) i t i"
  shows "at i P N t (t, Some i) True n"
proof -
  have "\<forall>q \<in> S - {i}. voted (N \<union> set (nd_tx n)) q t i" using assms(4) voted_mono by blast
  with assms(2,3,5) have "backed P (N \<union> set (nd_tx n)) i t" unfolding backed_def by blast
  with assms(1) show ?thesis by (simp add: node_at_def)
qed

lemma candidate_vote_ok:
  assumes "i \<notin> P" "ca_votes c \<subseteq> insert i P" "\<forall>q \<in> ca_votes c - {i}. voted N q t i"
    and "ev_from msg \<in> insert i P" "ev_from msg \<noteq> i \<longrightarrow> voted N (ev_from msg) t i"
  shows "triple (cand i P N t b) (candidate_vote V msg c) (rl i P N) (dn i P N)"
proof -
  let ?c = "c\<lparr>ca_votes := insert (ev_from msg) (ca_votes c)\<rparr>"
  have votes: "ca_votes ?c \<subseteq> insert i P" "\<forall>q \<in> ca_votes ?c - {i}. voted N q t i" using assms(2-5) by auto
  have lead: "triple (\<lambda>n. cand i P N t b n \<and> node_quorum_size n = Ok q)
      (bind_op (into_leader V) (\<lambda>ld. return_op (Leader ld))) (rl i P N) (dn i P N)"
    if "q \<le> of_nat (card (ca_votes ?c))" for q
  proof (rule triple_conseq)
    show "triple (at i P N t (t, Some i) True) (bind_op (into_leader V) (\<lambda>ld. return_op (Leader ld))) (rl i P N) (dn i P N)"
      by (rule triple_bind [OF into_leader_ok triple_return])
    fix n assume n: "cand i P N t b n \<and> node_quorum_size n = Ok q"
    then have "nd_peers n = P" by (simp add: node_at_def)
    with n have "card (insert i P) < 2 * card (ca_votes ?c)"
      using quorum_backed [OF assms(1) _ _ that votes(1)] by blast
    with n votes show "at i P N t (t, Some i) True n" by (intro backedI) auto
  qed auto
  have stay: "triple (\<lambda>n. cand i P N t b n \<and> node_quorum_size n = r) (return_op (Candidate ?c)) (rl i P N) (dn i P N)" for r
    using votes by (intro triple_return) (auto simp: rl_candidate)
  show ?thesis
    unfolding candidate_vote_def Let_def
  proof (rule step_gets, rule step_lift)
    fix r :: "u8 result" and q assume "r = Ok q"
    then show "triple (\<lambda>n. cand i P N t b n \<and> node_quorum_size n = r)
        (if q \<le> of_nat (card (ca_votes ?c)) then bind_op (into_leader V) (\<lambda>ld. return_op (Leader ld))
         else return_op (Candidate ?c)) (rl i P N) (dn i P N)"
      using lead stay by (intro triple_if) auto
  qed (auto intro: at_down)
qed

lemma candidate_into_follower_ok:
  "triple (at i P N t (t, Some i) b) (candidate_into_follower V term l) (\<lambda>f. rl i P N (Follower f)) (dn i P N)"
  unfolding candidate_into_follower_def
  by (auto intro!: step_reads step_assert step_set_nd_term step_set_term follower_new_ok split: option.split)

lemma keeps_tx: "keeps (\<lambda>n. Z (nd_tx n)) (on_log m)"
  by (rule tripleI) (auto simp: on_log_def split: prod.splits result.splits)

lemma keeps_cand: "keeps (cand i P N t b) (candidate_assert V c)" "keeps (cand i P N t b) (assert_step msg)"
  by (intro keeps_conj keeps_asserts,
      auto simp: candidate_assert_def assert_node_def assert_step_def intro!: triple_rules keeps_tx)+

lemma keeps_known: "triple (cand i P N t b) (assert_step msg)
    (\<lambda>_ n. cand i P N t b n \<and> ev_to msg = i \<and> ev_from msg \<in> insert i P) (dn i P N)"
  by (rule tripleI)
    (auto simp: assert_step_def assert_op_def bind_op_def node_at_def split: if_splits result.splits intro: at_down)

lemma candidate_handle_ok:
  assumes "i \<notin> P" "ca_votes c \<subseteq> insert i P" "\<forall>q \<in> ca_votes c - {i}. voted N q t i"
    and "ev_from msg \<in> insert i P"
    and "ev_message msg = CampaignResponse True \<longrightarrow> ev_from msg \<noteq> i \<longrightarrow> voted N (ev_from msg) t i"
  shows "triple (cand i P N t b) (candidate_handle V msg (ev_message msg) c) (rl i P N) (dn i P N)"
proof -
  have weak: "triple (at i P N t (t, Some i) b) m Q F \<Longrightarrow> triple (cand i P N t b) m Q F" for m :: "(('e, 's) core, role) op" and Q F
    by (erule triple_conseq) auto
  have stay: "triple (cand i P N t b) (return_op (Candidate c)) (rl i P N) (dn i P N)"
    using assms(2,3) by (intro triple_return) (auto simp: rl_candidate)
  have follow: "triple (cand i P N t b) (bind_op (candidate_into_follower V x l) (follower_step V msg)) (rl i P N) (dn i P N)" for x l
    by (rule weak) (rule triple_bind [OF candidate_into_follower_ok follower_step_ok])
  have abort: "triple (cand i P N t b) (bind_op (node_send x (ClientResponse rid (Err Abort))) (\<lambda>_. return_op (Candidate c)))
      (rl i P N) (dn i P N)" for x rid
  proof (rule step_keeps [OF _ _ stay])
    show "keeps (cand i P N t b) (node_send x (ClientResponse rid (Err Abort)))"
      by (intro keeps_conj keeps_send)
        (auto intro!: tripleI simp: node_send_def voted_insert split: if_splits result.splits)
  qed (auto intro: at_down)
  have panic: "triple (cand i P N t b) (lift_op (Panic s)) (rl i P N) (dn i P N)" for s
    by (rule weak) (rule panic_down)
  show ?thesis
    using assms(5) candidate_vote_ok [OF assms(1-4), of b] stay follow abort panic
    by (cases "ev_message msg") auto
qed

lemma candidate_step_ok:
  assumes "i \<notin> P" "ev_message msg = CampaignResponse True \<longrightarrow> ev_to msg = i \<longrightarrow> ev_from msg \<noteq> i \<longrightarrow> msg \<in> N"
  shows "triple (rl i P N (Candidate c)) (candidate_step V msg c) (rl i P N) (dn i P N)"
proof -
  have main: "triple (\<lambda>n. cand i P N t b n \<and> ca_votes c \<subseteq> insert i P \<and> (\<forall>q \<in> ca_votes c - {i}. voted N q t i))
      (candidate_step V msg c) (rl i P N) (dn i P N)" for t b
  proof (rule triple_conj)
    assume "ca_votes c \<subseteq> insert i P \<and> (\<forall>q \<in> ca_votes c - {i}. voted N q t i)"
    then have vs: "ca_votes c \<subseteq> insert i P" "\<forall>q \<in> ca_votes c - {i}. voted N q t i" by auto
    have handle: "triple (cand i P N t b) (candidate_handle V msg (ev_message msg) c) (rl i P N) (dn i P N)"
      if "ev_to msg = i \<and> ev_from msg \<in> insert i P" "ev_term msg = t"
      using that assms(2) by (intro candidate_handle_ok [OF assms(1) vs]) (auto simp: voted_def)
    have stay: "triple (cand i P N t b) (return_op (Candidate c)) (rl i P N) (dn i P N)"
      using vs by (intro triple_return) (auto simp: rl_candidate)
    have follow: "triple (cand i P N t b) (bind_op (candidate_into_follower V x None) (follower_step V msg)) (rl i P N) (dn i P N)" for x
      by (rule triple_conseq [OF triple_bind [OF candidate_into_follower_ok [of i P N t b] follower_step_ok]]) auto
    have body: "triple (cand i P N t b) (bind_op (gets_op nd_term) (\<lambda>term.
        if ev_term msg < term then return_op (Candidate c)
        else if term < ev_term msg then bind_op (candidate_into_follower V (ev_term msg) None) (follower_step V msg)
        else candidate_handle V msg (ev_message msg) c)) (rl i P N) (dn i P N)"
      if "ev_to msg = i \<and> ev_from msg \<in> insert i P"
    proof (rule triple_bind [of _ _ "\<lambda>x n. cand i P N t b n \<and> x = t"])
      show "triple (cand i P N t b) (gets_op nd_term) (\<lambda>x n. cand i P N t b n \<and> x = t) (dn i P N)"
        by (intro triple_gets) (auto simp: node_at_def)
    qed (intro triple_conj triple_if stay follow handle [OF that], simp)
    show "triple (cand i P N t b) (candidate_step V msg c) (rl i P N) (dn i P N)"
      unfolding candidate_step_def
      by (rule step_keeps [OF keeps_cand(1)], force intro: at_down)
        (rule triple_bind [OF keeps_known], rule triple_conj, erule body)
  qed
  show ?thesis
    unfolding rl_candidate by (intro triple_ex, rule triple_conseq [OF main]) auto
qed

lemma candidate_tick_ok: "triple (rl i P N (Candidate c)) (candidate_tick V c) (rl i P N) (dn i P N)"
proof -
  have main: "triple (\<lambda>n. cand i P N t b n \<and> ca_votes c \<subseteq> insert i P \<and> (\<forall>q \<in> ca_votes c - {i}. voted N q t i))
      (candidate_tick V c) (rl i P N) (dn i P N)" for t b
  proof (rule triple_conj)
    assume vs: "ca_votes c \<subseteq> insert i P \<and> (\<forall>q \<in> ca_votes c - {i}. voted N q t i)"
    have stay: "triple (cand i P N t b) (return_op (Candidate (c\<lparr>ca_election_duration := d\<rparr>))) (rl i P N) (dn i P N)" for d
      using vs by (intro triple_return) (auto simp: rl_candidate)
    have run: "triple (cand i P N t b) (bind_op (campaign V) (\<lambda>c. return_op (Candidate c))) (rl i P N) (dn i P N)"
      by (rule triple_conseq [OF triple_bind [OF campaign_ok [of i P N t "Some i" b] triple_return]]) auto
    show "triple (cand i P N t b) (candidate_tick V c) (rl i P N) (dn i P N)"
      unfolding candidate_tick_def Let_def
      by (rule step_keeps [OF keeps_cand(1)], force intro: at_down)
        (intro step_lift triple_if stay run, force intro: at_down)
  qed
  show ?thesis
    unfolding rl_candidate by (intro triple_ex, rule triple_conseq [OF main]) auto
qed

section \<open>Nodes\<close>

lemma node_step_ok:
  assumes "i \<notin> P" "ev_message msg = CampaignResponse True \<longrightarrow> ev_to msg = i \<longrightarrow> ev_from msg \<noteq> i \<longrightarrow> msg \<in> N"
  shows "triple (rl i P N r) (node_step V msg r) (rl i P N) (dn i P N)"
  using candidate_step_ok [OF assms] follower_step_ok leader_step_ok by (cases r) simp_all

lemma node_tick_ok: "triple (rl i P N r) (node_tick V r) (rl i P N) (dn i P N)"
  using candidate_tick_ok follower_tick_ok leader_tick_ok by (cases r) simp_all

lemma node_new_ok:
  assumes "pv tv l" "msgs_ok P N i tv" "node_new V i P l s rand = (r, n)"
  shows "case r of Ok role \<Rightarrow> rl i P N role n | _ \<Rightarrow> dn i P N n"
proof -
  obtain t v where tv: "tv = (t, v)" by (cases tv)
  let ?n0 = "\<lparr>nd_id = i, nd_peers = P, nd_term = 0, nd_log = l, nd_state = s, nd_tx = [], nd_tx_open = True,
    nd_rand = rand\<rparr>"
  let ?n1 = "?n0\<lparr>nd_term := t\<rparr>"
  have at: "at i P N t (t, v) False ?n1" using assms(1,2) by (simp add: node_at_def tv)
  have raw: "raw_node_new V i P l s rand = follower_new None v ?n1"
    using get_term_pvote [OF assms(1)] by (simp add: raw_node_new_def on_log_def bind_op_def tv)
  obtain r1 n1 where f: "follower_new None v ?n1 = (r1, n1)" by fastforce
  have r1: "case r1 of Ok f \<Rightarrow> rl i P N (Follower f) n1 | _ \<Rightarrow> dn i P N n1"
    by (rule tripleD [OF follower_new_ok at f])
  have lead: "triple (rl i {} N (Follower f)) (bind_op (follower_into_candidate V f) (\<lambda>_.
      bind_op (into_leader V) (\<lambda>ld. return_op (Leader ld)))) (rl i {} N) (dn i {} N)" for f
  proof (intro triple_follower triple_bind [OF follower_into_candidate_ok])
    fix c
    have elected: "rl i {} N (Candidate c) m \<Longrightarrow> \<exists>t. at i {} N t (t, Some i) True m" for m
      by (auto simp: rl_candidate node_at_def backed_def intro!: exI [of _ "{i}"])
    have "triple (\<lambda>m. \<exists>t. at i {} N t (t, Some i) True m)
        (bind_op (into_leader V) (\<lambda>ld. return_op (Leader ld))) (rl i {} N) (dn i {} N)"
      by (intro triple_ex triple_bind [OF into_leader_ok triple_return])
    then show "triple (rl i {} N (Candidate c)) (bind_op (into_leader V) (\<lambda>ld. return_op (Leader ld)))
        (rl i {} N) (dn i {} N)"
      by (rule triple_conseq) (auto intro: elected)
  qed
  show ?thesis
  proof (cases r1)
    case (Ok f)
    then have rl1: "rl i P N (Follower f) n1" using r1 by simp
    then have "nd_peers n1 = P" by (auto simp: rl_follower node_at_def)
    with Ok f raw assms(3) rl1 tripleD [OF lead [of f], of n1 r n] show ?thesis
      by (auto simp: node_new_def split: if_splits)
  qed (use r1 f raw assms(3) in \<open>auto simp: node_new_def\<close>)
qed

end

section \<open>Messages in flight\<close>

lemma role_at_simps:
  "role_at einv view R i P N (Follower f) n \<longleftrightarrow> (\<exists>t b. node_at einv view R i P N t (t, fo_voted_for f) b n)"
  "role_at einv view R i P N (Leader ld) n \<longleftrightarrow> (\<exists>t. node_at einv view R i P N t (t, Some i) True n)"
  "role_at einv view R i P N (Candidate c) n \<longleftrightarrow> (\<exists>t b. node_at einv view R i P N t (t, Some i) b n \<and>
     ca_votes c \<subseteq> insert i P \<and> (\<forall>q \<in> ca_votes c - {i}. voted N q t i) \<and>
     (P \<noteq> {} \<longrightarrow> voted (N \<union> set (nd_tx n)) i t i))"
  by (auto simp: role_at_def)

lemma node_at_sent:
  "node_at einv view R i P N t tv b n \<Longrightarrow> node_at einv view R i P (N \<union> set (nd_tx n)) t tv b (n\<lparr>nd_tx := []\<rparr>)"
  by (simp add: node_at_def)

lemma role_at_sent:
  assumes "role_at einv view R i P N r n"
  shows "role_at einv view R i P (N \<union> set (nd_tx n)) r (n\<lparr>nd_tx := []\<rparr>)"
proof (cases r)
  case (Candidate c)
  with assms obtain t b where c: "node_at einv view R i P N t (t, Some i) b n" "ca_votes c \<subseteq> insert i P"
    "\<forall>q \<in> ca_votes c - {i}. voted N q t i" "P \<noteq> {} \<longrightarrow> voted (N \<union> set (nd_tx n)) i t i"
    by (auto simp: role_at_simps)
  have "\<forall>q \<in> ca_votes c - {i}. voted (N \<union> set (nd_tx n)) q t i" using c(3) voted_mono by blast
  with c node_at_sent [OF c(1)] show ?thesis unfolding Candidate role_at_simps by auto
next
  case (Follower f)
  with assms show ?thesis unfolding Follower role_at_simps using node_at_sent by blast
next
  case (Leader ld)
  with assms show ?thesis unfolding Leader role_at_simps using node_at_sent by blast
qed

lemma down_at_sent:
  assumes "down_at einv view R i P N n"
  shows "down_at einv view R i P (N \<union> set (nd_tx n)) (n\<lparr>nd_tx := []\<rparr>)"
proof -
  from assms obtain t tv b where "node_at einv view R i P N t tv b n" unfolding down_at_def by blast
  from node_at_sent [OF this] show ?thesis unfolding down_at_def by blast
qed

lemma node_at_others:
  assumes "node_at einv view R i P N t tv b n" "\<forall>ev \<in> X. ev_from ev \<noteq> i"
  shows "node_at einv view R i P (N \<union> X) t tv b n"
proof -
  have "msgs_ok P (N \<union> set (nd_tx n)) i tv" using assms(1) by (simp add: node_at_def)
  then have "msgs_ok P (N \<union> set (nd_tx n) \<union> X) i tv"
    using assms(2) by (elim msgs_ok_others) auto
  moreover have "b \<Longrightarrow> backed P (N \<union> set (nd_tx n) \<union> X) i t"
    using assms(1) by (auto simp: node_at_def intro: backed_mono)
  ultimately show ?thesis using assms(1) by (simp add: node_at_def Un_ac)
qed

lemma role_at_others:
  assumes "role_at einv view R i P N r n" "\<forall>ev \<in> X. ev_from ev \<noteq> i"
  shows "role_at einv view R i P (N \<union> X) r n"
proof (cases r)
  case (Candidate c)
  with assms obtain t b where c: "node_at einv view R i P N t (t, Some i) b n" "ca_votes c \<subseteq> insert i P"
    "\<forall>q \<in> ca_votes c - {i}. voted N q t i" "P \<noteq> {} \<longrightarrow> voted (N \<union> set (nd_tx n)) i t i"
    by (auto simp: role_at_simps)
  have "\<forall>q \<in> ca_votes c - {i}. voted (N \<union> X) q t i" "P \<noteq> {} \<longrightarrow> voted (N \<union> X \<union> set (nd_tx n)) i t i"
    using c(3,4) voted_mono [of N _ t i "N \<union> X"] voted_mono [of "N \<union> set (nd_tx n)" i t i "N \<union> X \<union> set (nd_tx n)"]
    by auto
  with c(2) node_at_others [OF c(1) assms(2)] show ?thesis unfolding Candidate role_at_simps by auto
next
  case (Follower f)
  with assms(1) show ?thesis unfolding Follower role_at_simps using node_at_others [OF _ assms(2)] by blast
next
  case (Leader ld)
  with assms(1) show ?thesis unfolding Leader role_at_simps using node_at_others [OF _ assms(2)] by blast
qed

lemma down_at_others:
  assumes "down_at einv view R i P N n" "\<forall>ev \<in> X. ev_from ev \<noteq> i"
  shows "down_at einv view R i P (N \<union> X) n"
proof -
  from assms(1) obtain t tv b where "node_at einv view R i P N t tv b n" unfolding down_at_def by blast
  from node_at_others [OF this assms(2)] show ?thesis unfolding down_at_def by blast
qed

end
