(* ===== verification/Raft_Sample.thy ===== *)
theory Raft_Sample
  imports Raft_Roles Memory Raft_Log_Run
begin

text \<open>
  A sample election, run by simplification: two nodes on the memory engine boot, the first one times out
  and campaigns, the second one grants its vote and the first one becomes leader.  The state machine
  records the commands it applies.
\<close>

section \<open>The recording state machine\<close>

record test_state =
  tst_commands :: "bytes list"
  tst_applied_index :: index

definition test_apply :: "raft_entry \<Rightarrow> (test_state, bytes) op" where
  "test_apply entry = (\<lambda>s. let c = case en_command entry of None \<Rightarrow> [] | Some c \<Rightarrow> [c] in
     (Ok (concat c), s\<lparr>tst_commands := tst_commands s @ c, tst_applied_index := en_index entry\<rparr>))"

definition test_sm :: "test_state state_machine" where
  "test_sm = \<lparr>sm_applied_index = tst_applied_index, sm_apply = test_apply, sm_read = (\<lambda>command _. Ok command)\<rparr>"

section \<open>The nodes\<close>

definition demo_env :: "(memory, test_state) raft_env" where
  "demo_env = \<lparr>rv_engine = memory_engine, rv_bincode = fixed_raft_bincode, rv_state = test_sm,
     rv_peer_order = sorted_list_of_set, rv_id_order = sorted_list_of_set, rv_index_order = sorted_list_of_set\<rparr>"

definition fresh_log :: "memory raft_log" where
  "fresh_log = \<lparr>rl_engine = memory_new, rl_last_index = 0, rl_last_term = 0, rl_commit_index = 0,
     rl_commit_term = 0, rl_sync = False\<rparr>"

definition voted_log :: "memory raft_log" where
  "voted_log = fresh_log\<lparr>rl_engine := \<lparr>mem_data = [([1], to_be_bytes (1::u64) @ [1, 1])]\<rparr>\<rparr>"

definition leader_log :: "memory raft_log" where
  "leader_log = fresh_log\<lparr>rl_engine := \<lparr>mem_data = [(0 # enc_u64 1, to_be_bytes (1::u64) @ [0]),
     ([1], to_be_bytes (1::u64) @ [1, 1])]\<rparr>, rl_last_index := 1, rl_last_term := 1\<rparr>"

definition demo_core :: "node_id \<Rightarrow> (memory, test_state) core" where
  "demo_core i = \<lparr>nd_id = i, nd_peers = {1, 2} - {i}, nd_term = 0, nd_log = fresh_log,
     nd_state = \<lparr>tst_commands = [], tst_applied_index = 0\<rparr>, nd_tx = [], nd_tx_open = True, nd_rand = (\<lambda>_. 0)\<rparr>"

definition demo_follower :: "ticks \<Rightarrow> node_id option \<Rightarrow> follower" where
  "demo_follower k v = \<lparr>fo_leader = None, fo_leader_seen = k, fo_election_timeout = 10, fo_voted_for = v,
     fo_forwarded = {}\<rparr>"

definition demo_candidate :: candidate where
  "demo_candidate = \<lparr>ca_votes = {1}, ca_election_duration = 0, ca_election_timeout = 10\<rparr>"

definition demo_leader :: leader where
  "demo_leader = \<lparr>le_progress = (\<lambda>p. if p \<in> {2} then Some \<lparr>pr_next = 1, pr_last = 0, pr_read_seq = 0\<rparr> else None),
     le_writes = (\<lambda>_. None), le_reads = [], le_read_seq = 0, le_since_heartbeat = 0\<rparr>"

definition campaign_ev :: envelope where
  "campaign_ev = \<lparr>ev_from = 1, ev_to = 2, ev_term = 1, ev_message = Campaign 0 0\<rparr>"

definition vote_ev :: envelope where
  "vote_ev = \<lparr>ev_from = 2, ev_to = 1, ev_term = 1, ev_message = CampaignResponse True\<rparr>"

definition heartbeat_ev :: envelope where
  "heartbeat_ev = \<lparr>ev_from = 1, ev_to = 2, ev_term = 1, ev_message = Heartbeat 0 0 0\<rparr>"

definition append_ev :: envelope where
  "append_ev = \<lparr>ev_from = 1, ev_to = 2, ev_term = 1,
     ev_message = Append 0 0 [\<lparr>en_index = 1, en_term = 1, en_command = None\<rparr>]\<rparr>"

section \<open>The run\<close>

lemmas op_eval = bind_op_def lift_op_def return_op_def gets_op_def modify_op_def on_log_def on_engine_def
  assert_op_def Let_def

lemmas log_eval = log_get_term_def log_set_term_def log_append_def log_maybe_flush_def get_commit_index_def
  get_last_index_def memory_engine_def memory_get_def memory_set_def memory_new_def fixed_raft_bincode_def nth_append

lemmas node_eval = assert_node_def assert_step_def follower_assert_def candidate_assert_def follower_new_def
  rand_election_timeout_def election_timeout_start_def election_timeout_end_def node_send_def broadcast_def
  node_quorum_size_def cluster_size_def quorum_size_def add_u8_def add_u64_def maybe_apply_def
  maybe_apply_with_def test_sm_def sorted_list_of_set_nonempty insert_Diff_if

lemmas demo_eval = op_eval log_eval node_eval demo_env_def fresh_log_def voted_log_def demo_core_def
  demo_follower_def demo_candidate_def campaign_ev_def vote_ev_def

lemma ten_not_le_one: "\<not> 10 \<le> (1 :: u8)"
  by (simp add: word_le_nat_alt)

lemma demo_log_new: "log_new memory_engine fixed_raft_bincode False memory_new = (Ok fresh_log, memory_new)"
  by (simp add: log_new_def scan_prefix_def memory_scan_def btree_range_def op_eval log_eval fresh_log_def)

lemma demo_boot:
  assumes "i = 1 \<or> i = 2"
  shows "node_new demo_env i ({1, 2} - {i}) fresh_log \<lparr>tst_commands = [], tst_applied_index = 0\<rparr> (\<lambda>_. 0) =
    (Ok (Follower (demo_follower 0 None)), demo_core i)"
  using assms by (auto simp: node_new_def raw_node_new_def demo_eval)

lemma demo_tick:
  assumes "k \<in> set [0, 1, 2, 3, 4, 5, 6, 7, 8]"
  shows "node_tick demo_env (Follower (demo_follower k None)) (demo_core 1) =
    (Ok (Follower (demo_follower (k + 1) None)), demo_core 1)"
  using assms by (auto simp: follower_tick_def ten_not_le_one demo_eval)

lemma demo_campaign:
  "node_tick demo_env (Follower (demo_follower 9 None)) (demo_core 1) =
    (Ok (Candidate demo_candidate), (demo_core 1)\<lparr>nd_term := 1, nd_log := voted_log, nd_tx := [campaign_ev]\<rparr>)"
  by (simp add: follower_tick_def follower_into_candidate_def abort_forwarded_def campaign_def candidate_new_def demo_eval)

lemma demo_vote:
  "node_step demo_env campaign_ev (Follower (demo_follower 0 None)) (demo_core 2) =
    (Ok (Follower (demo_follower 0 (Some 1))), (demo_core 2)\<lparr>nd_term := 1, nd_log := voted_log, nd_tx := [vote_ev]\<rparr>)"
  unfolding node_step.simps follower_step_def numeral_2_eq_2
  by (simp add: follower_into_follower_def abort_forwarded_def is_leader_def follower_campaign_def demo_eval)

lemma demo_scan:
  "log_scan memory_engine fixed_raft_bincode (Included 1, Unbounded) leader_log =
    (Ok [Ok \<lparr>en_index = 1, en_term = 1, en_command = None\<rparr>], leader_log)"
  using Entry_bytes_le [of 1 "-1"] rkey_decode_bytes [of "Entry 1"]
  by (simp add: log_scan_def leader_log_def memory_scan_def memory_scan_item_def btree_range_def in_range_def
      decode_entry_def decode_entry_value_def memory_engine_def fixed_raft_bincode_def op_eval nth_append)

lemma demo_lead:
  "node_step demo_env vote_ev (Candidate demo_candidate) ((demo_core 1)\<lparr>nd_term := 1, nd_log := voted_log\<rparr>) =
    (Ok (Leader demo_leader), (demo_core 1)\<lparr>nd_term := 1, nd_log := leader_log, nd_tx := [heartbeat_ev, append_ev]\<rparr>)"
  by (simp add: candidate_step_def candidate_vote_def into_leader_def leader_new_def heartbeat_def propose_def
      send_log_def leader_log_def demo_leader_def heartbeat_ev_def append_ev_def demo_eval
      demo_scan [unfolded leader_log_def fresh_log_def memory_engine_def memory_new_def fixed_raft_bincode_def, simplified])

end
