(* ===== verification/Raft_Cluster.thy ===== *)
theory Raft_Cluster
  imports Raft_Election Raft_Sample
begin

text \<open>
  A cluster of Raft nodes and elections in it.  The network is the set of all envelopes ever sent: a
  step may deliver any of them to its addressee, late, repeatedly, out of order or never.  Nodes tick,
  take client requests, go down when a method fails or panics, and restart at any time from what their
  storage engine holds, with any state machine and any random timeouts.  The cluster is run with any
  storage engine that meets its contract and stores every pair.
\<close>

section \<open>Clusters\<close>

type_synonym ('e, 's) cluster = "(node_id \<Rightarrow> role option \<times> ('e, 's) core) \<times> envelope set"

fun alive :: "role result \<Rightarrow> role option" where
  "alive (Ok r) = Some r"
| "alive _ = None"

definition ran :: "node_id \<Rightarrow> role result \<times> ('e, 's) core \<Rightarrow> ('e, 's) cluster \<Rightarrow> ('e, 's) cluster" where
  "ran i out c = ((fst c)(i := (alive (fst out), (snd out)\<lparr>nd_tx := []\<rparr>)), snd c \<union> set (nd_tx (snd out)))"

inductive cluster_step :: "('e, 's) raft_env \<Rightarrow> node_id set \<Rightarrow> ('e, 's) cluster \<Rightarrow> ('e, 's) cluster \<Rightarrow> bool" for V C where
  deliver: "i \<in> C \<Longrightarrow> nodes i = (Some r, n) \<Longrightarrow> msg \<in> net \<Longrightarrow> ev_to msg = i \<Longrightarrow>
     cluster_step V C (nodes, net) (ran i (node_step V msg r n) (nodes, net))"
| client: "i \<in> C \<Longrightarrow> nodes i = (Some r, n) \<Longrightarrow>
     cluster_step V C (nodes, net) (ran i (node_step V \<lparr>ev_from = i, ev_to = i, ev_term = nd_term n,
       ev_message = ClientRequest rid req\<rparr> r n) (nodes, net))"
| tick: "i \<in> C \<Longrightarrow> nodes i = (Some r, n) \<Longrightarrow>
     cluster_step V C (nodes, net) (ran i (node_tick V r n) (nodes, net))"
| restart: "i \<in> C \<Longrightarrow> nodes i = (ro, n) \<Longrightarrow>
     log_new (rv_engine V) (rv_bincode V) sync (rl_engine (nd_log n)) = (Ok l, e) \<Longrightarrow>
     cluster_step V C (nodes, net) (ran i (node_new V i (C - {i}) l s rand) (nodes, net))"

definition cluster_init :: "('e \<Rightarrow> bool) \<Rightarrow> ('e \<Rightarrow> (bytes \<times> bytes) list) \<Rightarrow> node_id set \<Rightarrow> ('e, 's) cluster \<Rightarrow> bool" where
  "cluster_init einv view C c \<longleftrightarrow> snd c = {} \<and> (\<forall>i \<in> C. \<exists>n. fst c i = (None, n) \<and> nd_id n = i \<and>
     nd_peers n = C - {i} \<and> nd_tx n = [] \<and> einv (rl_engine (nd_log n)) \<and> view (rl_engine (nd_log n)) = [])"

inductive cluster_reach :: "('e, 's) raft_env \<Rightarrow> ('e \<Rightarrow> bool) \<Rightarrow> ('e \<Rightarrow> (bytes \<times> bytes) list) \<Rightarrow> node_id set \<Rightarrow>
    ('e, 's) cluster \<Rightarrow> bool" for V einv view C where
  reach_init: "cluster_init einv view C c \<Longrightarrow> cluster_reach V einv view C c"
| reach_step: "cluster_reach V einv view C c \<Longrightarrow> cluster_step V C c c' \<Longrightarrow> cluster_reach V einv view C c'"

definition node_ok :: "('e \<Rightarrow> bool) \<Rightarrow> ('e \<Rightarrow> (bytes \<times> bytes) list) \<Rightarrow> raft_bincode \<Rightarrow> node_id set \<Rightarrow> envelope set \<Rightarrow>
    node_id \<Rightarrow> role option \<times> ('e, 's) core \<Rightarrow> bool" where
  "node_ok einv view R C net i x \<longleftrightarrow> nd_tx (snd x) = [] \<and> (case fst x of
      Some r \<Rightarrow> role_at einv view R i (C - {i}) net r (snd x)
    | None \<Rightarrow> down_at einv view R i (C - {i}) net (snd x))"

definition cluster_ok :: "('e \<Rightarrow> bool) \<Rightarrow> ('e \<Rightarrow> (bytes \<times> bytes) list) \<Rightarrow> raft_bincode \<Rightarrow> node_id set \<Rightarrow> ('e, 's) cluster \<Rightarrow> bool" where
  "cluster_ok einv view R C c \<longleftrightarrow> (\<forall>ev \<in> snd c. ev_from ev \<in> C) \<and>
     (\<forall>i \<in> C. node_ok einv view R C (snd c) i (fst c i))"

section \<open>The invariant\<close>

lemma role_at_down: "role_at einv view R i P N r n \<Longrightarrow> down_at einv view R i P N n"
  unfolding role_at_def down_at_def by blast

lemma node_ok_down: "node_ok einv view R C net i x \<Longrightarrow> down_at einv view R i (C - {i}) net (snd x)"
  by (auto simp: node_ok_def dest: role_at_down split: option.splits)

lemma down_at_from: "down_at einv view R i P N n \<Longrightarrow> ev \<in> set (nd_tx n) \<Longrightarrow> ev_from ev = i"
  by (auto simp: down_at_def node_at_def)

lemma ran_ok:
  assumes ok: "cluster_ok einv view R C (nodes, net)" and i: "i \<in> C"
    and out: "case r of Ok role \<Rightarrow> role_at einv view R i (C - {i}) net role n
      | _ \<Rightarrow> down_at einv view R i (C - {i}) net n"
  shows "cluster_ok einv view R C (ran i (r, n) (nodes, net))"
proof -
  let ?net = "net \<union> set (nd_tx n)"
  have down: "down_at einv view R i (C - {i}) net n" using out role_at_down by (auto split: result.splits)
  have "node_ok einv view R C ?net i (alive r, n\<lparr>nd_tx := []\<rparr>)"
    using out role_at_sent down_at_sent by (cases r) (auto simp: node_ok_def)
  moreover have "node_ok einv view R C ?net j (nodes j)" if "j \<in> C" "j \<noteq> i" for j
  proof -
    have "\<forall>ev \<in> set (nd_tx n). ev_from ev \<noteq> j" using down_at_from [OF down] that(2) by auto
    moreover have "node_ok einv view R C net j (nodes j)" using ok that(1) by (simp add: cluster_ok_def)
    ultimately show ?thesis using role_at_others down_at_others by (fastforce simp: node_ok_def split: option.splits)
  qed
  moreover have "\<forall>ev \<in> ?net. ev_from ev \<in> C" using ok i down_at_from [OF down] by (auto simp: cluster_ok_def)
  ultimately show ?thesis by (auto simp: cluster_ok_def ran_def)
qed

context raft_nodes
begin

abbreviation okc :: "node_id set \<Rightarrow> ('e, 's) cluster \<Rightarrow> bool" where
  "okc \<equiv> cluster_ok inv view (rv_bincode V)"

lemma log_new_engine:
  assumes "inv e" "log_new (rv_engine V) (rv_bincode V) sync e = (Ok l, e')"
  shows "rl_engine l = e"
  using assms by (auto simp: log_new_def scan_prefix_law get_law bind_op_def split: result.splits prod.splits)

lemma restart_vote:
  assumes "i \<in> C" "nodes i = (ro, n)" "log_new (rv_engine V) (rv_bincode V) sync (rl_engine (nd_log n)) = (Ok l, e)"
    and "okc C (nodes, net)"
  obtains tv where "pv tv l" "msgs_ok (C - {i}) net i tv"
proof -
  have node: "node_ok inv view (rv_bincode V) C net i (ro, n)" using assms by (force simp: cluster_ok_def)
  then have "dn i (C - {i}) net n" using node_ok_down by fastforce
  then obtain tv where "pv tv (nd_log n)" "msgs_ok (C - {i}) (net \<union> set (nd_tx n)) i tv"
    by (auto simp: down_at_def node_at_def)
  moreover have "nd_tx n = []" using node by (simp add: node_ok_def)
  moreover have "pv tv (nd_log n) \<Longrightarrow> pv tv l" for tv
    using log_new_engine [OF _ assms(3)] by (auto simp: pvote_def stored_def)
  ultimately show thesis using that [of tv] by simp
qed

lemma step_keeps_ok:
  assumes "cluster_step V C c c'" "okc C c"
  shows "okc C c'"
  using assms
proof (induction rule: cluster_step.induct)
  case (deliver i nodes r n msg net)
  obtain res n' where run: "node_step V msg r n = (res, n')" by fastforce
  have "rl i (C - {i}) net r n" using deliver by (force simp: cluster_ok_def node_ok_def)
  then have "case res of Ok role \<Rightarrow> rl i (C - {i}) net role n' | _ \<Rightarrow> dn i (C - {i}) net n'"
    using deliver.hyps(3) by (intro tripleD [OF node_step_ok _ run]) auto
  then show ?case unfolding run using deliver by (intro ran_ok) auto
next
  case (client i nodes r n net rid req)
  let ?msg = "\<lparr>ev_from = i, ev_to = i, ev_term = nd_term n, ev_message = ClientRequest rid req\<rparr>"
  obtain res n' where run: "node_step V ?msg r n = (res, n')" by fastforce
  have "rl i (C - {i}) net r n" using client by (force simp: cluster_ok_def node_ok_def)
  then have "case res of Ok role \<Rightarrow> rl i (C - {i}) net role n' | _ \<Rightarrow> dn i (C - {i}) net n'"
    by (intro tripleD [OF node_step_ok _ run]) auto
  then show ?case unfolding run using client by (intro ran_ok) auto
next
  case (tick i nodes r n net)
  obtain res n' where run: "node_tick V r n = (res, n')" by fastforce
  have "rl i (C - {i}) net r n" using tick by (force simp: cluster_ok_def node_ok_def)
  then have "case res of Ok role \<Rightarrow> rl i (C - {i}) net role n' | _ \<Rightarrow> dn i (C - {i}) net n'"
    by (intro tripleD [OF node_tick_ok _ run]) auto
  then show ?case unfolding run using tick by (intro ran_ok) auto
next
  case (restart i nodes ro n sync l e net s rand)
  obtain res n' where run: "node_new V i (C - {i}) l s rand = (res, n')" by fastforce
  obtain tv where "pv tv l" "msgs_ok (C - {i}) net i tv" using restart_vote [OF restart.hyps restart.prems] .
  from node_new_ok [OF this run]
  have "case res of Ok role \<Rightarrow> rl i (C - {i}) net role n' | _ \<Rightarrow> dn i (C - {i}) net n'" .
  then show ?case unfolding run using restart by (intro ran_ok) auto
qed

lemma init_ok: "cluster_init inv view C c \<Longrightarrow> okc C c"
proof -
  assume init: "cluster_init inv view C c"
  have none: "\<not> voted {} q t d" for q t d by (simp add: voted_def)
  have "node_ok inv view (rv_bincode V) C {} i (fst c i)" if "i \<in> C" for i
  proof -
    from init that obtain n where n: "fst c i = (None, n)" "nd_id n = i" "nd_peers n = C - {i}" "nd_tx n = []"
      "inv (rl_engine (nd_log n))" "view (rl_engine (nd_log n)) = []"
      by (auto simp: cluster_init_def)
    then have "pv (0, None) (nd_log n)"
      by (auto simp: pvote_def stored_def intro!: exI [of _ "\<lambda>_. None"])
    with n have "at i (C - {i}) {} (nd_term n) (0, None) False n"
      by (simp add: node_at_def msgs_ok_def none)
    then show ?thesis unfolding node_ok_def down_at_def using n by auto
  qed
  with init show ?thesis by (simp add: cluster_ok_def cluster_init_def)
qed

lemma reach_ok: "cluster_reach V inv view C c \<Longrightarrow> okc C c"
  by (induction rule: cluster_reach.induct) (auto intro: init_ok step_keeps_ok)

end

section \<open>Safety of elections\<close>

lemma quorums_meet:
  assumes "finite C" "A \<subseteq> C" "B \<subseteq> C" "card C < 2 * card A" "card C < 2 * card B"
  shows "A \<inter> B \<noteq> {}"
proof
  assume "A \<inter> B = {}"
  then have "card A + card B \<le> card C"
    using assms(1-3) card_Un_disjoint [of A B] card_mono [of C "A \<union> B"] finite_subset [of _ C] by auto
  with assms(4,5) show False by simp
qed

lemma ok_msgs:
  assumes "cluster_ok einv view R C (nodes, net)" "i \<in> C"
  obtains tv where "pvote einv view R tv (nd_log (snd (nodes i)))" "msgs_ok (C - {i}) net i tv"
proof -
  have node: "node_ok einv view R C net i (nodes i)" using assms by (simp add: cluster_ok_def)
  then have "down_at einv view R i (C - {i}) net (snd (nodes i))" "nd_tx (snd (nodes i)) = []"
    using node_ok_down [OF node] node by (simp_all add: node_ok_def)
  then show thesis using that by (auto simp: down_at_def node_at_def)
qed

lemma backed_unique:
  assumes ok: "cluster_ok einv view R C (nodes, net)" and i: "i \<in> C" "j \<in> C"
    and b: "backed (C - {i}) net i t" "backed (C - {j}) net j t"
  shows "i = j"
proof (rule ccontr)
  assume ne: "i \<noteq> j"
  then have peers: "C - {i} \<noteq> {}" "C - {j} \<noteq> {}" using i by auto
  have C: "insert i (C - {i}) = C" "insert j (C - {j}) = C" using i by auto
  from b(1) obtain A where A: "A \<subseteq> C" "card C < 2 * card A" "\<forall>q \<in> A - {i}. voted net q t i" "voted net i t i"
    using peers(1) unfolding backed_def C(1) by blast
  from b(2) obtain B where B: "B \<subseteq> C" "card C < 2 * card B" "\<forall>q \<in> B - {j}. voted net q t j" "voted net j t j"
    using peers(2) unfolding backed_def C(2) by blast
  obtain q where q: "q \<in> A" "q \<in> B" using quorums_meet [OF _ A(1) B(1) A(2) B(2)] by auto
  have v: "voted net q t i" "voted net q t j" "q \<in> C" using q A B by blast+
  obtain tv where "msgs_ok (C - {q}) net q tv" using ok_msgs [OF ok v(3)] by blast
  then have "i = j" using v(1,2) unfolding msgs_ok_def by blast
  with ne show False ..
qed

section \<open>A sample election\<close>

interpretation memory_raft: raft_total memory_engine memory_inv mem_data fixed_raft_bincode
  by unfold_locales

interpretation demo_raft: raft_nodes demo_env memory_inv mem_data
  by (simp add: raft_nodes_def demo_env_def memory_raft.raft_total_axioms)

definition demo_nodes :: "role option \<times> (memory, test_state) core \<Rightarrow> role option \<times> (memory, test_state) core \<Rightarrow>
    node_id \<Rightarrow> role option \<times> (memory, test_state) core" where
  "demo_nodes a b = (\<lambda>i. (None, demo_core i))(1 := a, 2 := b)"

abbreviation demo_reach :: "role option \<times> (memory, test_state) core \<Rightarrow> role option \<times> (memory, test_state) core \<Rightarrow>
    envelope set \<Rightarrow> bool" where
  "demo_reach a b net \<equiv> cluster_reach demo_env memory_inv mem_data {1, 2} (demo_nodes a b, net)"

lemma demo_nodes_simps [simp]:
  "demo_nodes a b 1 = a" "demo_nodes a b 2 = b"
  "(demo_nodes a b)(1 := x) = demo_nodes x b" "(demo_nodes a b)(2 := x) = demo_nodes a x"
  by (auto simp: demo_nodes_def)

lemma demo_core_tx [simp]: "nd_tx (demo_core i) = []" "(demo_core i)\<lparr>nd_tx := []\<rparr> = demo_core i"
  by (simp_all add: demo_core_def)

lemma demo_start: "demo_reach (None, demo_core 1) (None, demo_core 2) {}"
  by (intro reach_init) (simp add: cluster_init_def demo_core_def fresh_log_def memory_inv_new)

lemma demo_restart:
  assumes "demo_reach a b net" "i = 1 \<or> i = 2" "demo_nodes a b i = (None, demo_core i)"
  shows "cluster_reach demo_env memory_inv mem_data {1, 2}
    ((demo_nodes a b)(i := (Some (Follower (demo_follower 0 None)), demo_core i)), net)"
proof -
  have "log_new (rv_engine demo_env) (rv_bincode demo_env) False (rl_engine (nd_log (demo_core i))) = (Ok fresh_log, memory_new)"
    using demo_log_new by (simp add: demo_env_def demo_core_def fresh_log_def)
  from reach_step [OF assms(1) cluster_step.restart [of i "{1, 2}" "demo_nodes a b", OF _ assms(3) this,
      of net "\<lparr>tst_commands = [], tst_applied_index = 0\<rparr>" "\<lambda>_. 0"]]
  show ?thesis using assms(2) by (simp add: demo_boot ran_def)
qed

lemma demo_tick1:
  assumes "demo_reach (Some r, n) b net" "node_tick demo_env r n = (Ok r', n')"
  shows "demo_reach (Some r', n'\<lparr>nd_tx := []\<rparr>) b (net \<union> set (nd_tx n'))"
  using reach_step [OF assms(1) cluster_step.tick [of 1 "{1, 2}" "demo_nodes (Some r, n) b" r n]] assms(2)
  by (simp add: ran_def)

lemma demo_wait:
  assumes "demo_reach (Some (Follower (demo_follower k None)), demo_core 1) b {}" "k \<in> set [0, 1, 2, 3, 4, 5, 6, 7, 8]"
    "k' = k + 1"
  shows "demo_reach (Some (Follower (demo_follower k' None)), demo_core 1) b {}"
  using demo_tick1 [OF assms(1) demo_tick [OF assms(2)]] assms(3) by simp

lemma demo_booted:
  "demo_reach (Some (Follower (demo_follower 0 None)), demo_core 1) (Some (Follower (demo_follower 0 None)), demo_core 2) {}"
  using demo_restart [OF demo_restart [OF demo_start, of 1, simplified], of 2, simplified] .

lemma demo_waited:
  "demo_reach (Some (Follower (demo_follower 9 None)), demo_core 1) (Some (Follower (demo_follower 0 None)), demo_core 2) {}"
proof -
  let ?R = "\<lambda>k. demo_reach (Some (Follower (demo_follower k None)), demo_core 1)
    (Some (Follower (demo_follower 0 None)), demo_core 2) {}"
  have "?R 1" by (rule demo_wait [OF demo_booted]) simp_all
  then have "?R 2" by (rule demo_wait) simp_all
  then have "?R 3" by (rule demo_wait) simp_all
  then have "?R 4" by (rule demo_wait) simp_all
  then have "?R 5" by (rule demo_wait) simp_all
  then have "?R 6" by (rule demo_wait) simp_all
  then have "?R 7" by (rule demo_wait) simp_all
  then have "?R 8" by (rule demo_wait) simp_all
  then show "?R 9" by (rule demo_wait) simp_all
qed

lemma demo_deliver:
  assumes "demo_reach a b net" "demo_nodes a b (ev_to msg) = (Some r, n)" "msg \<in> net" "ev_to msg \<in> {1, 2}"
    "node_step demo_env msg r n = (Ok r', n')"
  shows "cluster_reach demo_env memory_inv mem_data {1, 2}
    ((demo_nodes a b)(ev_to msg := (Some r', n'\<lparr>nd_tx := []\<rparr>)), net \<union> set (nd_tx n'))"
  using reach_step [OF assms(1) cluster_step.deliver [of "ev_to msg" "{1, 2}" "demo_nodes a b", OF assms(4,2,3) refl, of demo_env]] assms(5) by (simp add: ran_def)

abbreviation demo_voter :: "(memory, test_state) core" where
  "demo_voter \<equiv> (demo_core 2)\<lparr>nd_term := 1, nd_log := voted_log\<rparr>"

abbreviation demo_winner :: "(memory, test_state) core" where
  "demo_winner \<equiv> (demo_core 1)\<lparr>nd_term := 1, nd_log := leader_log\<rparr>"

lemma demo_elected:
  "demo_reach (Some (Leader demo_leader), demo_winner) (Some (Follower (demo_follower 0 (Some 1))), demo_voter)
    {campaign_ev, vote_ev, heartbeat_ev, append_ev}"
proof -
  have tx: "(demo_core i)\<lparr>nd_term := t, nd_log := l, nd_tx := []\<rparr> = (demo_core i)\<lparr>nd_term := t, nd_log := l\<rparr>" for i t l
    by (simp add: demo_core_def)
  have "demo_reach (Some (Candidate demo_candidate), (demo_core 1)\<lparr>nd_term := 1, nd_log := voted_log\<rparr>)
      (Some (Follower (demo_follower 0 None)), demo_core 2) {campaign_ev}"
    using demo_tick1 [OF demo_waited demo_campaign] by (simp add: tx)
  from demo_deliver [OF this, of campaign_ev, OF _ _ _ demo_vote]
  have "demo_reach (Some (Candidate demo_candidate), (demo_core 1)\<lparr>nd_term := 1, nd_log := voted_log\<rparr>)
      (Some (Follower (demo_follower 0 (Some 1))), demo_voter) {campaign_ev, vote_ev}"
    by (simp add: tx campaign_ev_def insert_commute)
  from demo_deliver [OF this, of vote_ev, OF _ _ _ demo_lead]
  show ?thesis by (simp add: tx vote_ev_def insert_commute)
qed

lemma demo_contract:
  "storage_engine (rv_engine demo_env) memory_inv mem_data (\<lambda>_ _. True)" "raft_bincode_ok (rv_bincode demo_env)"
  by (simp_all add: demo_env_def memory_kv.storage_engine_axioms fixed_raft_bincode_ok)

lemma only_one: "P a \<Longrightarrow> (\<And>j. j \<in> C \<Longrightarrow> P j \<Longrightarrow> j = a) \<Longrightarrow> a \<in> C \<Longrightarrow> {j \<in> C. P j} = {a}"
  by blast

lemma only_image: "x \<in> N \<Longrightarrow> P x \<Longrightarrow> f x = a \<Longrightarrow> (\<And>y. y \<in> N \<Longrightarrow> P y \<Longrightarrow> f y = a) \<Longrightarrow> {f y |y. y \<in> N \<and> P y} = {a}"
  by blast

section \<open>Election safety\<close>

text \<open>(C1) Election safety.  In a cluster of nodes, over any storage engine that meets its contract and accepts
  entries of any size, whatever messages are lost, delayed, repeated or reordered and whatever nodes fail and
  restart, two messages that nodes send as leaders,
  heartbeats or log entries, in the same term come from the same node.\<close>

theorem raft_election_safety:
  assumes "storage_engine (rv_engine V) einv view (\<lambda>_ _. True)" and "raft_bincode_ok (rv_bincode V)"
    and "cluster_reach V einv view C (nodes, net)"
    and "ev \<in> net" and "ev' \<in> net" and "leader_msg (ev_message ev)" and "leader_msg (ev_message ev')"
    and "ev_term ev = ev_term ev'"
  shows "ev_from ev = ev_from ev'"
proof -
  have M: "raft_nodes V einv view"
    using raft_storeI [OF assms(1,2)] by (simp add: raft_nodes_def raft_total_def)
  note ok = raft_nodes.reach_ok [OF M assms(3)]
  have C: "ev_from ev \<in> C" "ev_from ev' \<in> C" using ok assms(4,5) by (auto simp: cluster_ok_def)
  have b: "backed (C - {ev_from x}) net (ev_from x) (ev_term x)"
    if x: "x \<in> net" "leader_msg (ev_message x)" "ev_from x \<in> C" for x
  proof -
    obtain tv where "msgs_ok (C - {ev_from x}) net (ev_from x) tv" using ok_msgs [OF ok x(3)] by blast
    with x(1,2) show ?thesis unfolding msgs_ok_def by blast
  qed
  show ?thesis
    by (rule backed_unique [OF ok C b [OF assms(4,6) C(1)]]) (simp add: assms(8) b [OF assms(5,7) C(2)])
qed

theorem raft_election_safety_witness: "heartbeat_ev \<noteq> append_ev \<and> ev_from heartbeat_ev = ev_from append_ev"
  using raft_election_safety [OF demo_contract demo_elected, of heartbeat_ev append_ev]
  by (simp add: heartbeat_ev_def append_ev_def)

text \<open>(C8) One leader per term.  Two nodes of a reachable cluster that are leaders in the same term are the
  same node, over any storage engine that meets its contract and accepts entries of any size.\<close>

theorem raft_one_leader:
  assumes "storage_engine (rv_engine V) einv view (\<lambda>_ _. True)" and "raft_bincode_ok (rv_bincode V)"
    and "cluster_reach V einv view C (nodes, net)" and "i \<in> C" and "j \<in> C"
    and "nodes i = (Some (Leader ld), n)" and "nodes j = (Some (Leader ld'), n')" and "nd_term n = nd_term n'"
  shows "i = j"
proof -
  have M: "raft_nodes V einv view"
    using raft_storeI [OF assms(1,2)] by (simp add: raft_nodes_def raft_total_def)
  note ok = raft_nodes.reach_ok [OF M assms(3)]
  have "backed (C - {x}) net x (nd_term m)" if "nodes x = (Some (Leader l), m)" "x \<in> C" for x l m
  proof -
    have "node_ok einv view (rv_bincode V) C net x (nodes x)" using ok that(2) by (simp add: cluster_ok_def)
    then show ?thesis using that(1) by (auto simp: node_ok_def role_at_simps node_at_def)
  qed
  from this [OF assms(6,4)] this [OF assms(7,5)] show ?thesis
    using backed_unique [OF ok assms(4,5)] assms(8) by simp
qed

theorem raft_one_leader_witness:
  "{j \<in> {1, 2}. \<exists>ld n. demo_nodes (Some (Leader demo_leader), demo_winner)
    (Some (Follower (demo_follower 0 (Some 1))), demo_voter) j = (Some (Leader ld), n) \<and> nd_term n = 1} = {1}"
  (is "{j \<in> ?C. ?leads j} = _")
proof (rule only_one)
  show "?leads 1" by simp
  fix j assume j: "j \<in> ?C" "?leads j"
  then obtain ld n where "demo_nodes (Some (Leader demo_leader), demo_winner)
    (Some (Follower (demo_follower 0 (Some 1))), demo_voter) j = (Some (Leader ld), n)" "nd_term n = 1" by blast
  from raft_one_leader [OF demo_contract demo_elected j(1) _ this(1) demo_nodes_simps(1)] this(2)
  show "j = 1" by simp
qed simp

text \<open>(C9) One vote per term.  A node never grants its vote to two candidates in one term, and never grants it
  to another node in a term in which it campaigned itself, also when it was restarted in between, over
  any storage engine that meets its contract and accepts entries of any size.\<close>

theorem raft_single_vote:
  assumes "storage_engine (rv_engine V) einv view (\<lambda>_ _. True)" and "raft_bincode_ok (rv_bincode V)"
    and "cluster_reach V einv view C (nodes, net)"
    and "ev \<in> net" and "ev' \<in> net" and "ev_from ev = ev_from ev'" and "ev_term ev = ev_term ev'"
    and "ev_message ev = CampaignResponse True"
  shows "(ev_message ev' = CampaignResponse True \<longrightarrow> ev_to ev' = ev_to ev) \<and>
    (\<forall>li lt. ev_message ev' = Campaign li lt \<longrightarrow> ev_to ev = ev_from ev)"
proof -
  have M: "raft_nodes V einv view"
    using raft_storeI [OF assms(1,2)] by (simp add: raft_nodes_def raft_total_def)
  note ok = raft_nodes.reach_ok [OF M assms(3)]
  have "ev_from ev \<in> C" using ok assms(4) by (auto simp: cluster_ok_def)
  then obtain tv where "msgs_ok (C - {ev_from ev}) net (ev_from ev) tv" using ok_msgs [OF ok] by blast
  then have one: "voted net (ev_from ev) t c \<Longrightarrow> voted net (ev_from ev) t d \<Longrightarrow> c = d" for t c d
    unfolding msgs_ok_def by blast
  have "voted net (ev_from ev) (ev_term ev) (ev_to ev)" using assms(4,8) by (auto simp: voted_def)
  moreover have "voted net (ev_from ev) (ev_term ev) (ev_to ev')" if "ev_message ev' = CampaignResponse True"
    using assms(5-7) that by (auto simp: voted_def)
  moreover have "voted net (ev_from ev) (ev_term ev) (ev_from ev)" if "ev_message ev' = Campaign li lt" for li lt
    using assms(5-7) that by (auto simp: voted_def)
  ultimately show ?thesis
    using one [of "ev_term ev" "ev_to ev" "ev_to ev'"] one [of "ev_term ev" "ev_to ev" "ev_from ev"] by auto
qed

theorem raft_single_vote_witness:
  "{ev_to ev |ev. ev \<in> {campaign_ev, vote_ev, heartbeat_ev, append_ev} \<and> ev_from ev = 2 \<and> ev_term ev = 1 \<and>
    ev_message ev = CampaignResponse True} = {1}"
  (is "{ev_to ev |ev. ev \<in> ?net \<and> ?vote ev} = _")
proof -
  have vote: "vote_ev \<in> ?net" "?vote vote_ev" "ev_to vote_ev = 1" by (simp_all add: vote_ev_def)
  have "ev_to ev = 1" if "ev \<in> ?net" "?vote ev" for ev
    using raft_single_vote [OF demo_contract demo_elected vote(1) that(1)] that(2) vote(2,3) by simp
  with vote show ?thesis by (intro only_image)
qed

end
