(* ===== verification/Raft_Apply.thy ===== *)
theory Raft_Apply
  imports Raft_Vote Raft_Sample
begin

text \<open>
  What a single Raft node computes: the quorum value, the end of the recursion in \<open>step\<close>, and the entries
  that are applied to the state machine.
\<close>

section \<open>Quorum values\<close>

lemma unat_u8 [simp]: "n < 256 \<Longrightarrow> unat (of_nat n :: u8) = n"
  by (simp add: unat_of_nat take_bit_eq_mod)

lemma unat_quorum_size: "n < 256 \<Longrightarrow> unat (quorum_size (of_nat n)) = n div 2 + 1"
proof -
  assume n: "n < 256"
  have "unat (of_nat n div 2 :: u8) = n div 2" using n by (simp add: unat_div)
  with n show ?thesis by (simp add: quorum_size_def unat_word_ariths)
qed

lemma count_sorted:
  "length (filter P xs) = card {i. i < length xs \<and> P (rev (sort xs) ! i)}"
proof -
  have "length (filter P xs) = length (filter P (rev (sort xs)))"
    by (simp add: rev_filter [symmetric] filter_sort)
  also have "\<dots> = card {i. i < length xs \<and> P (rev (sort xs) ! i)}"
    by (simp add: length_filter_conv_card)
  finally show ?thesis .
qed

lemma descending: "i \<le> j \<Longrightarrow> j < length xs \<Longrightarrow> rev (sort xs) ! j \<le> rev (sort xs) ! i"
  by (simp add: rev_nth sorted_nth_mono)

lemma quorum_value_nth:
  assumes "vs \<noteq> []" "length vs < 256"
  shows "quorum_value vs = Ok (rev (sort vs) ! (length vs div 2))"
  using assms by (simp add: quorum_value_def unat_quorum_size Let_def)

lemma quorum_value_majority:
  assumes "vs \<noteq> []" and "length vs < 256"
  shows "\<exists>v. quorum_value vs = Ok v \<and> v \<in> set vs \<and>
    length vs < 2 * length (filter (\<lambda>x. v \<le> x) vs) \<and>
    2 * length (filter (\<lambda>x. v < x) vs) \<le> length vs"
proof (intro exI conjI)
  let ?m = "length vs div 2" and ?s = "rev (sort vs)"
  have m: "?m < length vs" using assms(1) by (simp add: div_less_iff_less_mult length_greater_0_conv)
  show "quorum_value vs = Ok (?s ! ?m)" by (rule quorum_value_nth [OF assms])
  show "?s ! ?m \<in> set vs" using m nth_mem [of ?m ?s] by simp
  have "{..?m} \<subseteq> {i. i < length vs \<and> ?s ! ?m \<le> ?s ! i}" using m descending by auto
  then have "Suc ?m \<le> card {i. i < length vs \<and> ?s ! ?m \<le> ?s ! i}"
    using card_mono [of "{i. i < length vs \<and> ?s ! ?m \<le> ?s ! i}" "{..?m}"] by simp
  then show "length vs < 2 * length (filter (\<lambda>x. ?s ! ?m \<le> x) vs)" by (simp add: count_sorted)
  have "i < ?m" if "i < length vs" "?s ! ?m < ?s ! i" for i
    using descending [of ?m i vs] that by (metis leD not_le_imp_less)
  then have "{i. i < length vs \<and> ?s ! ?m < ?s ! i} \<subseteq> {..<?m}" by blast
  then have "card {i. i < length vs \<and> ?s ! ?m < ?s ! i} \<le> ?m"
    using card_mono [of "{..<?m}"] by fastforce
  then show "2 * length (filter (\<lambda>x. ?s ! ?m < x) vs) \<le> length vs" by (simp add: count_sorted)
qed

text \<open>(C34) The quorum value of a list is the largest of its values that a strict majority of them reaches.\<close>

theorem raft_quorum_value:
  assumes "vs \<noteq> []" and "length vs < 256"
  shows "\<exists>v. quorum_value vs = Ok v \<and> v \<in> set vs \<and>
    length vs < 2 * length (filter (\<lambda>x. v \<le> x) vs) \<and>
    2 * length (filter (\<lambda>x. v < x) vs) \<le> length vs"
  using assms by (rule quorum_value_majority)

theorem raft_quorum_value_witness:
  "quorum_value [3 :: index, 9, 5, 4] = Ok 4 \<and> (\<exists>v. quorum_value [3 :: index, 9, 5, 4] = Ok v \<and> v \<in> set [3, 9, 5, 4] \<and>
    length [3 :: index, 9, 5, 4] < 2 * length (filter (\<lambda>x. v \<le> x) [3, 9, 5, 4]) \<and>
    2 * length (filter (\<lambda>x. v < x) [3, 9, 5, 4]) \<le> length [3 :: index, 9, 5, 4])"
proof
  show "quorum_value [3 :: index, 9, 5, 4] = Ok 4" by (simp add: quorum_value_nth)
  show "\<exists>v. quorum_value [3 :: index, 9, 5, 4] = Ok v \<and> v \<in> set [3, 9, 5, 4] \<and>
    length [3 :: index, 9, 5, 4] < 2 * length (filter (\<lambda>x. v \<le> x) [3, 9, 5, 4]) \<and>
    2 * length (filter (\<lambda>x. v < x) [3, 9, 5, 4]) \<le> length [3 :: index, 9, 5, 4]"
    by (rule raft_quorum_value) simp_all
qed

section \<open>The recursion of a step\<close>

lemma keeps_nd_term [triple_rules]:
  "keeps (\<lambda>n. nd_term n = t) (on_log m)" "keeps (\<lambda>n. nd_term n = t) (node_send i msg)"
  "keeps (\<lambda>n. nd_term n = t) (follower_new l v)" "keeps (\<lambda>n. nd_term n = t) (assert_op b s)"
  by (auto simp: triple_def on_log_def node_send_def follower_new_def rand_election_timeout_def bind_op_def assert_op_def
      split: prod.splits result.splits)

lemma follower_assert_term: "keeps (\<lambda>n. nd_term n = t) (follower_assert V f)"
  unfolding follower_assert_def assert_node_def by (auto intro!: triple_rules)

lemma assert_step_term: "keeps (\<lambda>n. nd_term n = t) (assert_step msg)"
  unfolding assert_step_def by (auto intro!: triple_rules)

lemma triple_True: "triple P m (\<lambda>_ _. True) (\<lambda>_. True)"
  by (simp add: triple_def split: prod.split result.split)

lemma new_term_reached:
  "triple (\<lambda>_. True) (follower_into_follower V f None t) (\<lambda>_ n. nd_term n = t) (\<lambda>_. True)"
  unfolding follower_into_follower_def option.case
proof -
  let ?T = "\<lambda>n. nd_term n = t"
  have moved: "triple (\<lambda>_. True) (modify_op (\<lambda>n. n\<lparr>nd_term := t\<rparr>)) (\<lambda>_. ?T) (\<lambda>_. True)" by (intro triple_modify) simp
  have rest: "triple ?T (bind_op (on_log m) (\<lambda>_. follower_new None None)) (\<lambda>_. ?T) (\<lambda>_. True)" for m
    by (rule triple_conseq [where P' = ?T and Q' = "\<lambda>_. ?T" and F' = ?T]) (auto intro!: triple_rules)
  show "triple (\<lambda>_. True) (bind_op (gets_op nd_term) (\<lambda>self_term.
     bind_op (assert_op (self_term \<le> t) ''Term regression {} -> {}'') (\<lambda>_.
     bind_op (abort_forwarded V f) (\<lambda>f.
     bind_op (assert_op (t \<noteq> self_term) ''Can't become leaderless follower in current term'') (\<lambda>_.
     bind_op (modify_op (\<lambda>n. n\<lparr>nd_term := t\<rparr>)) (\<lambda>_.
     bind_op (on_log (log_set_term (rv_engine V) (rv_bincode V) t None)) (\<lambda>_.
     follower_new None None))))))) (\<lambda>_. ?T) (\<lambda>_. True)"
    by (rule triple_bind [OF triple_True], rule triple_bind [OF triple_True], rule triple_bind [OF triple_True],
      rule triple_bind [OF triple_True], rule triple_bind [OF moved rest])
qed

lemma step_fuel_same_term:
  assumes "nd_term n = ev_term msg"
  shows "follower_step_fuel (Suc k) V msg f n = follower_step_fuel (Suc j) V msg f n"
proof -
  obtain r n1 where a: "follower_assert V f n = (r, n1)" by fastforce
  obtain r' n2 where b: "assert_step msg n1 = (r', n2)" by fastforce
  have "nd_term n1 = ev_term msg" using tripleD [OF follower_assert_term assms a] by (cases r) simp_all
  then have "nd_term n2 = ev_term msg" using tripleD [OF assert_step_term _ b] by (cases r') simp_all
  then show ?thesis by (cases r; cases r') (simp_all add: bind_op_def a b)
qed

text \<open>(C35) A follower's \<open>step\<close> calls itself at most once: for a message of a later term it first moves to that
  term, where the second call handles the message.  So two levels of calls suffice for every message and
  every state, and the bound in the definition of \<open>step\<close> is never reached.\<close>

theorem raft_step_terminates:
  assumes "2 \<le> k"
  shows "follower_step_fuel k V msg f n = follower_step V msg f n"
proof -
  obtain j where k: "k = Suc (Suc j)" using assms by (metis Suc_le_D Suc_le_mono numeral_2_eq_2)
  have next_call: "bind_op (follower_into_follower V f None (ev_term msg)) (follower_step_fuel (Suc j) V msg) m =
      bind_op (follower_into_follower V f None (ev_term msg)) (follower_step_fuel (Suc 0) V msg) m" for m
  proof (cases "follower_into_follower V f None (ev_term msg) m")
    case (Pair r m')
    then show ?thesis
      using tripleD [OF new_term_reached _ Pair] step_fuel_same_term [of m' msg j V _ 0]
      by (cases r) (simp_all add: bind_op_def)
  qed
  have "bind_op (follower_into_follower V f None (ev_term msg)) (follower_step_fuel (Suc j) V msg) =
      bind_op (follower_into_follower V f None (ev_term msg)) (follower_step_fuel (Suc 0) V msg)"
    by (rule ext) (rule next_call)
  then have "follower_step_fuel (Suc (Suc j)) V msg f = follower_step_fuel (Suc (Suc 0)) V msg f"
    by (simp only: follower_step_fuel.simps(2) [of "Suc _"])
  then show ?thesis by (simp add: follower_step_def numeral_2_eq_2 k del: follower_step_fuel.simps)
qed

theorem raft_step_terminates_witness:
  "fst (follower_step_fuel 5 demo_env campaign_ev (demo_follower 0 None) (demo_core 2)) = Ok (Follower (demo_follower 0 (Some 1)))"
  using raft_step_terminates [of 5 demo_env campaign_ev "demo_follower 0 None" "demo_core 2"] demo_vote by simp

section \<open>Applying entries\<close>

definition applies :: "'s state_machine \<Rightarrow> bool" where
  "applies sm \<longleftrightarrow> (\<forall>e s. case fst (sm_apply sm e s) of Ok _ \<Rightarrow> True | Err (Internal _) \<Rightarrow> False | Err _ \<Rightarrow> True | Panic _ \<Rightarrow> False)"

definition apply_all :: "'s state_machine \<Rightarrow> raft_entry list \<Rightarrow> 's \<Rightarrow> 's" where
  "apply_all sm es s = fold (\<lambda>e s. snd (sm_apply sm e s)) es s"

definition pending :: "raft_abs \<Rightarrow> index \<Rightarrow> raft_entry list" where
  "pending a applied = take (unat (fst (al_commit a)) - unat applied) (drop (unat applied) (indexed (al_entries a)))"

lemma apply_loop_discard:
  assumes "applies (rv_state V)"
  shows "apply_loop V (\<lambda>_ _ _. return_op ()) (map Ok es) () n =
    (Ok (), n\<lparr>nd_state := apply_all (rv_state V) es (nd_state n)\<rparr>)"
proof (induction es arbitrary: n)
  case (Cons e es)
  obtain r s where r: "sm_apply (rv_state V) e (nd_state n) = (r, s)" by fastforce
  have "case r of Ok _ \<Rightarrow> True | Err (Internal _) \<Rightarrow> False | Err _ \<Rightarrow> True | Panic _ \<Rightarrow> False"
    using assms unfolding applies_def by (metis r fst_conv)
  with Cons r show ?case
    by (cases r) (auto simp: apply_all_def run_state_def bind_op_def split: error.splits)
qed (simp add: apply_all_def)

context raft_total
begin

lemma pending_scan:
  assumes "log_rel inv view R l a" "applied < fst (al_commit a)" "unat (fst (al_commit a)) \<le> length (al_entries a)"
  shows "log_scan E R (Included (applied + 1), Included (fst (al_commit a))) l = (Ok (map Ok (pending a applied)), l)"
proof -
  let ?c = "fst (al_commit a)"
  have len: "length (al_entries a) < 2 ^ 64" using assms(1) by (simp add: log_rel_def)
  have lt: "unat applied < unat ?c" using assms(2) by (simp add: word_less_nat_alt)
  then have u: "unat (applied + 1) = Suc (unat applied)"
    using u64_bound [of ?c] by (simp add: unat_word_ariths)
  have "\<not> range_panics (Included (applied + 1), Included ?c)" using lt u by (simp add: word_less_nat_alt)
  moreover have "0 < applied + 1" using u by (simp add: word_gt_0 unat_eq_0 [symmetric] del: unat_eq_zero)
  moreover have "unat (applied + 1) + (unat ?c - unat applied) = Suc (unat ?c)" using lt u by simp
  ultimately show ?thesis
    using scan_ok [OF assms(1)] indexed_between [OF len, of "applied + 1" "unat ?c - unat applied" ?c] u
    by (simp add: pending_def)
qed

end

text \<open>(C7) A node applies exactly the committed entries after the last applied one, in the order of the log and
  each once: with a state machine whose commands never end in an internal error or a panic, and over an
  engine that accepts entries of any size, \<open>maybe_apply\<close> succeeds and folds those entries into the state, and
  changes nothing else.  The variant in which a leader answers its clients is not covered.\<close>

theorem raft_applies_committed:
  assumes "storage_engine (rv_engine V) einv view (\<lambda>_ _. True)" and "raft_bincode_ok (rv_bincode V)"
    and "log_rel einv view (rv_bincode V) (nd_log n) a"
    and "sm_applied_index (rv_state V) (nd_state n) \<le> fst (al_commit a)"
    and "unat (fst (al_commit a)) \<le> length (al_entries a)"
    and "applies (rv_state V)"
  shows "maybe_apply V n = (Ok (), n\<lparr>nd_state :=
    apply_all (rv_state V) (pending a (sm_applied_index (rv_state V) (nd_state n))) (nd_state n)\<rparr>)"
proof -
  let ?i = "sm_applied_index (rv_state V) (nd_state n)" and ?c = "fst (al_commit a)"
  have M: "raft_total (rv_engine V) einv view (rv_bincode V)"
    using raft_storeI [OF assms(1,2)] by (simp add: raft_total_def)
  have c: "fst (get_commit_index (nd_log n)) = ?c" using assms(3) by (simp add: log_rel_def)
  show ?thesis
  proof (cases "?c \<le> ?i")
    case True
    then have "pending a ?i = []" by (simp add: pending_def word_le_nat_alt)
    with True assms(4) show ?thesis
      by (simp add: maybe_apply_def maybe_apply_with_def c assert_op_def apply_all_def bind_op_def)
  next
    case False
    then have lt: "?i < ?c" by simp
    then have "add_u64 ?i 1 = Ok (?i + 1)"
      using u64_bound [of ?c] by (simp add: add_u64_def word_less_nat_alt)
    moreover have "on_log (log_scan (rv_engine V) (rv_bincode V) (Included (?i + 1), Included ?c)) n =
        (Ok (map Ok (pending a ?i)), n)"
      using raft_total.pending_scan [OF M assms(3) lt assms(5)] by (simp add: on_log_def)
    ultimately show ?thesis
      using False assms(4) apply_loop_discard [OF assms(6)]
      by (simp add: maybe_apply_def maybe_apply_with_def c assert_op_def bind_op_def)
  qed
qed

definition demo_abs :: raft_abs where
  "demo_abs = \<lparr>al_entries = [(1, None), (1, Some [7])], al_commit = (2, 1), al_term = (0, None)\<rparr>"

lemma fresh_rel: "log_rel memory_inv mem_data fixed_raft_bincode fresh_log empty_log"
  by (auto simp: log_rel_def fresh_log_def empty_log_def stored_def store_means_def memory_inv_new get_last_index_def
      get_commit_index_def last_term_of_def log_lookup_def unat_eq_zero intro!: exI [of _ "\<lambda>_. None"])

lemma demo_abs_reached: "\<exists>l. log_rel memory_inv mem_data fixed_raft_bincode l demo_abs"
proof -
  obtain l1 where l1: "log_rel memory_inv mem_data fixed_raft_bincode l1 \<lparr>al_entries = [(1, None)], al_commit = (0, 0), al_term = (0, None)\<rparr>"
    using memory_log.append_ok [OF fresh_rel, of 1 None] by (auto simp: empty_log_def entry_fits_def)
  obtain l2 where l2: "log_rel memory_inv mem_data fixed_raft_bincode l2
      \<lparr>al_entries = [(1, None), (1, Some [7])], al_commit = (0, 0), al_term = (0, None)\<rparr>"
    using memory_log.append_ok [OF l1, of 1 "Some [7]"] by (auto simp: entry_fits_def)
  then have "\<not> 2 < rl_commit_index l2" by (simp add: log_rel_def get_commit_index_def)
  from memory_log.commit_ok [OF l2 this, of 1 "Some [7]"] show ?thesis
    by (auto simp: demo_abs_def log_lookup_def)
qed

theorem raft_applies_committed_witness:
  "\<exists>n. sm_applied_index test_sm (nd_state n) = 0 \<and>
    maybe_apply demo_env n = (Ok (), n\<lparr>nd_state := \<lparr>tst_commands = [[7]], tst_applied_index = 2\<rparr>\<rparr>)"
proof -
  obtain l where l: "log_rel memory_inv mem_data fixed_raft_bincode l demo_abs" using demo_abs_reached ..
  let ?n = "(demo_core 1)\<lparr>nd_log := l\<rparr>"
  have "applies test_sm" by (simp add: applies_def test_sm_def test_apply_def Let_def)
  with l have "maybe_apply demo_env ?n = (Ok (), ?n\<lparr>nd_state := apply_all test_sm (pending demo_abs 0) (nd_state ?n)\<rparr>)"
    using raft_applies_committed [of demo_env memory_inv mem_data ?n demo_abs]
    by (simp add: demo_env_def memory_kv.storage_engine_axioms fixed_raft_bincode_ok demo_core_def test_sm_def demo_abs_def)
  moreover have "apply_all test_sm (pending demo_abs 0) (nd_state ?n) = \<lparr>tst_commands = [[7]], tst_applied_index = 2\<rparr>"
    by (simp add: apply_all_def pending_def demo_abs_def indexed_def mk_entry_def test_sm_def test_apply_def demo_core_def Let_def)
  ultimately show ?thesis by (intro exI [of _ ?n]) (simp add: test_sm_def demo_core_def)
qed

end
