(* ===== verification/Raft_Commit.thy ===== *)
theory Raft_Commit
  imports Raft_Cluster Raft_Apply
begin

text \<open>
  What a leader commits.  A leader counts, for every peer, the last index that the peer has acknowledged.  In
  every reachable cluster these counts are backed by messages: each is 0 or the index of an
  acknowledgement that the peer sent to the leader in the leader's term.  So an entry that the leader
  commits has been acknowledged by a majority.
\<close>

definition acked :: "envelope set \<Rightarrow> node_id \<Rightarrow> node_id \<Rightarrow> term_id \<Rightarrow> index \<Rightarrow> bool" where
  "acked N p i t ix \<longleftrightarrow> (\<exists>ev \<in> N. ev_from ev = p \<and> ev_to ev = i \<and> ev_term ev = t \<and>
     (\<exists>lt. ev_message ev = AppendResponse False ix lt))"

definition prog :: "envelope set \<Rightarrow> node_id set \<Rightarrow> node_id \<Rightarrow> term_id \<Rightarrow> leader \<Rightarrow> bool" where
  "prog N P i t ld \<longleftrightarrow> dom (le_progress ld) = P \<and>
     (\<forall>p x. le_progress ld p = Some x \<longrightarrow> pr_last x = 0 \<or> acked N p i t (pr_last x))"

fun role_prog :: "envelope set \<Rightarrow> node_id set \<Rightarrow> node_id \<Rightarrow> role \<Rightarrow> ('e, 's) core \<Rightarrow> bool" where
  "role_prog N P i (Leader ld) n \<longleftrightarrow> prog N P i (nd_term n) ld"
| "role_prog N P i _ n \<longleftrightarrow> True"

lemma acked_mono: "acked N p i t ix \<Longrightarrow> N \<subseteq> N' \<Longrightarrow> acked N' p i t ix"
  by (auto simp: acked_def)

lemma role_prog_mono: "role_prog N P i r n \<Longrightarrow> N \<subseteq> N' \<Longrightarrow> role_prog N' P i r n"
  by (cases r) (auto simp: prog_def intro: acked_mono)

lemma role_prog_tx [simp]: "role_prog N P i r (n\<lparr>nd_tx := x\<rparr>) = role_prog N P i r n"
  by (cases r) simp_all

lemma prog_cong: "prog N P i t ld \<Longrightarrow> le_progress ld' = le_progress ld \<Longrightarrow> prog N P i t ld'"
  by (simp add: prog_def)

lemma prog_fields [simp]:
  "prog N P i t (ld\<lparr>le_writes := w\<rparr>) = prog N P i t ld" "prog N P i t (ld\<lparr>le_since_heartbeat := s\<rparr>) = prog N P i t ld"
  "prog N P i t (ld\<lparr>le_read_seq := q, le_reads := rs\<rparr>) = prog N P i t ld"
  by (simp_all add: prog_def)

lemma not_leader: "\<forall>ld. r \<noteq> Leader ld \<Longrightarrow> role_prog N P i r n"
  by (cases r) auto

lemma prog_upd:
  assumes "prog N P i t ld" "le_progress ld p = Some x" "pr_last y = pr_last x \<or> acked N p i t (pr_last y)"
  shows "prog N P i t (ld\<lparr>le_progress := (le_progress ld)(p \<mapsto> y)\<rparr>)"
  using assms by (fastforce simp: prog_def)

section \<open>Results of operations\<close>

abbreviation gives :: "('s, 'a) op \<Rightarrow> ('a \<Rightarrow> bool) \<Rightarrow> bool" where
  "gives m Q \<equiv> triple (\<lambda>_. True) m (\<lambda>a _. Q a) (\<lambda>_. True)"

lemma gives_bind: "gives m A \<Longrightarrow> (\<And>a. A a \<Longrightarrow> gives (f a) Q) \<Longrightarrow> gives (bind_op m f) Q"
  by (rule triple_bind [where S = "\<lambda>a _. A a"]) (auto simp: triple_def)

lemma gives_tail: "(\<And>a. gives (f a) Q) \<Longrightarrow> gives (bind_op m f) Q"
  by (rule triple_bind [OF triple_True])

lemma gives_lift_bind: "(\<And>a. r = Ok a \<Longrightarrow> gives (f a) Q) \<Longrightarrow> gives (bind_op (lift_op r) f) Q"
  by (rule step_lift) auto

lemma gives_pure: "Q a \<Longrightarrow> gives (return_op a) Q" "gives (lift_op (Panic s)) Q" "gives (lift_op (Err e)) Q"
  by (auto simp: triple_def)

lemma gives_triple: "gives m Q \<Longrightarrow> triple P m (\<lambda>a _. Q a) (\<lambda>_. True)"
  by (erule triple_conseq) auto

lemma triple_and: "triple P m Q (\<lambda>_. True) \<Longrightarrow> triple P m Q' F \<Longrightarrow> triple P m (\<lambda>a s. Q a s \<and> Q' a s) (\<lambda>_. True)"
  by (fastforce simp: triple_def split: prod.splits result.splits)

lemma respond_write_progress: "gives (respond_write j r ld) (\<lambda>ld'. le_progress ld' = le_progress ld)"
  by (auto simp: respond_write_def intro!: triple_rules gives_tail gives_pure split: option.split)

lemma apply_loop_progress: "gives (apply_loop V respond_write items ld) (\<lambda>ld'. le_progress ld' = le_progress ld)"
proof (induction items arbitrary: ld)
  case (Cons item items)
  have "gives (bind_op (respond_write j r ld) (apply_loop V respond_write items)) (\<lambda>ld'. le_progress ld' = le_progress ld)" for j r
    by (rule gives_bind [OF respond_write_progress]) (metis Cons.IH)
  then show ?case by (auto intro!: gives_tail gives_pure split: result.split error.split)
qed (simp add: gives_pure)

lemma maybe_apply_progress: "gives (maybe_apply_with V respond_write ld) (\<lambda>ld'. le_progress ld' = le_progress ld)"
  unfolding maybe_apply_with_def by (auto intro!: gives_tail gives_pure triple_if apply_loop_progress)

lemma commit_progress: "gives (maybe_commit_and_apply V ld) (\<lambda>(_, ld'). le_progress ld' = le_progress ld)"
  unfolding maybe_commit_and_apply_def
  by (intro gives_tail triple_if triple_option gives_bind [OF maybe_apply_progress] gives_pure) simp_all

lemma read_progress: "gives (maybe_read V ld) (\<lambda>ld'. le_progress ld' = le_progress ld)"
  unfolding maybe_read_def by (intro gives_tail triple_if gives_pure) simp_all

lemma follower_gives: "gives (follower_step V msg f) (\<lambda>r. \<forall>ld. r \<noteq> Leader ld)"
proof -
  have handle: "gives (follower_handle V msg m f) (\<lambda>r. \<forall>ld. r \<noteq> Leader ld)" for m f
    by (cases m) (auto simp: follower_heartbeat_def follower_append_def follower_campaign_def follower_client_request_def
      follower_client_response_def intro!: gives_tail gives_pure triple_rules)
  have "gives (follower_step_fuel k V msg f) (\<lambda>r. \<forall>ld. r \<noteq> Leader ld)" for k
    by (induction k arbitrary: f) (auto intro!: gives_tail gives_pure triple_if handle)
  then show ?thesis by (simp add: follower_step_def)
qed

lemma follower_tick_gives: "gives (follower_tick V f) (\<lambda>r. \<forall>ld. r \<noteq> Leader ld)"
  unfolding follower_tick_def Let_def by (intro gives_tail triple_if gives_pure) simp_all

section \<open>New leaders\<close>

lemma leader_new_prog: "leader_new P j = Ok ld \<Longrightarrow> prog N P i t ld"
  by (cases "add_u64 j 1") (auto simp: leader_new_def prog_def split: if_splits)

lemma keeps_peers [triple_rules]:
  "keeps (\<lambda>n. nd_peers n = P) (on_log m)" "keeps (\<lambda>n. nd_peers n = P) (node_send j msg)"
  "keeps (\<lambda>n. nd_peers n = P) (run_state m')" "keeps (\<lambda>n. nd_peers n = P) rand_election_timeout"
  "keeps (\<lambda>n. nd_peers n = P) (modify_op (\<lambda>n. n\<lparr>nd_term := t\<rparr>))" "keeps (\<lambda>n. nd_peers n = P) (assert_op b s)"
  by (auto simp: triple_def on_log_def node_send_def run_state_def rand_election_timeout_def assert_op_def
      split: prod.splits result.splits)

lemma apply_loop_peers [triple_rules]:
  "(\<And>j r a. keeps (\<lambda>n. nd_peers n = P) (g j r a)) \<Longrightarrow> keeps (\<lambda>n. nd_peers n = P) (apply_loop V g scan acc)"
  by (induction scan arbitrary: acc) (auto intro!: triple_rules split: result.split error.split)

lemma asserts_peers:
  "keeps (\<lambda>n. nd_peers n = P) (candidate_assert V c)" "keeps (\<lambda>n. nd_peers n = P) (assert_step msg)"
  unfolding candidate_assert_def assert_node_def assert_step_def by (auto intro!: triple_rules)

lemma into_leader_prog: "triple (\<lambda>n. nd_peers n = P) (into_leader V) (\<lambda>ld _. \<forall>N i t. prog N P i t ld) (\<lambda>_. True)"
proof -
  have "gives (bind_op (gets_op (\<lambda>n. fst (get_last_index (nd_log n)))) (\<lambda>last_index.
     bind_op (lift_op (leader_new P last_index)) (\<lambda>ld.
     bind_op (heartbeat ld) (\<lambda>_. bind_op (propose V ld None) (\<lambda>_. return_op ld))))) (\<lambda>ld. \<forall>N i t. prog N P i t ld)"
    by (rule gives_tail, rule gives_lift_bind, intro gives_tail gives_pure) (simp add: leader_new_prog)
  then show ?thesis by (auto simp: into_leader_def triple_def bind_op_def)
qed

lemma candidate_gives:
  "triple (\<lambda>n. nd_peers n = P) (candidate_step V msg c) (\<lambda>r _. \<forall>ld. r = Leader ld \<longrightarrow> (\<forall>N i t. prog N P i t ld)) (\<lambda>_. True)"
proof -
  let ?Q = "\<lambda>r. \<forall>ld. r = Leader ld \<longrightarrow> (\<forall>N i t. prog N P i t ld)"
  have follow: "gives (bind_op (candidate_into_follower V t l) (follower_step V msg)) ?Q" for t l
    by (rule gives_tail) (rule triple_conseq [OF follower_gives], auto)
  have vote: "triple (\<lambda>n. nd_peers n = P) (candidate_vote V msg c) (\<lambda>r _. ?Q r) (\<lambda>_. True)"
    unfolding candidate_vote_def Let_def
    by (intro step_keeps [OF keeps_pure(3)] step_keeps [OF keeps_pure(2)] triple_if triple_bind [OF into_leader_prog] triple_return) auto
  have handle: "triple (\<lambda>n. nd_peers n = P) (candidate_handle V msg m c) (\<lambda>r _. ?Q r) (\<lambda>_. True)" for m
    using vote gives_triple [OF follow] by (cases m) (auto intro!: gives_triple gives_tail gives_pure triple_if)
  show ?thesis
    unfolding candidate_step_def
    by (intro step_keeps [OF asserts_peers(1)] step_keeps [OF asserts_peers(2)] step_keeps [OF keeps_pure(3)] triple_if
        handle gives_triple [OF follow] triple_return) auto
qed

lemma candidate_tick_gives: "gives (candidate_tick V c) (\<lambda>r. \<forall>ld. r \<noteq> Leader ld)"
  unfolding candidate_tick_def Let_def by (intro gives_tail triple_if gives_pure) simp_all

section \<open>Leaders\<close>

lemma leader_handle_gives:
  assumes "prog N P i t ld" "\<And>ix lt. m = AppendResponse False ix lt \<Longrightarrow> acked N (ev_from msg) i t ix"
  shows "gives (leader_handle V msg m ld) (\<lambda>r. \<exists>ld'. r = Leader ld' \<and> prog N P i t ld')"
proof -
  let ?Q = "\<lambda>r. \<exists>ld'. r = Leader ld' \<and> prog N P i t ld'"
  have read: "gives (maybe_read V ld') (prog N P i t)" if "prog N P i t ld'" for ld'
    by (rule triple_conseq [OF read_progress]) (auto intro: prog_cong [OF that])
  have commit: "gives (bind_op (maybe_commit_and_apply V ld') (\<lambda>(_, ld). return_op (Leader ld))) ?Q" if "prog N P i t ld'" for ld'
    by (rule gives_bind [OF commit_progress]) (auto intro!: gives_pure intro: prog_cong [OF that])
  have heartbeat: "gives (leader_heartbeat_response V msg li lt rs ld) ?Q" for li lt rs
    unfolding leader_heartbeat_response_def
    by (rule gives_tail, rule gives_lift_bind, rule gives_bind [where A = "prog N P i t"])
      (auto intro!: triple_if read gives_pure gives_tail prog_upd [OF assms(1)] assms(1) split: option.splits)
  have accepted: "gives (leader_append_accepted V msg li lt ld) ?Q" if "m = AppendResponse False li lt" for li lt
    unfolding leader_append_accepted_def
    by (rule gives_tail, rule triple_prod, rule gives_tail, rule gives_tail, rule gives_lift_bind)
      (auto intro!: triple_if gives_tail commit gives_pure prog_upd [OF assms(1)] assms that split: option.splits)
  have rejected: "gives (leader_append_rejected V msg ld) ?Q"
    unfolding leader_append_rejected_def Let_def
    by (auto intro!: gives_tail gives_pure prog_upd [OF assms(1)] assms(1) split: option.split)
  have client: "gives (leader_client_read V msg rid c ld) ?Q" "gives (leader_client_write V msg rid c ld) ?Q" for rid c
    unfolding leader_client_read_def leader_client_write_def Let_def
    by (rule gives_tail, rule gives_tail, rule gives_bind [where A = "prog N P i t"])
      (auto intro!: triple_if gives_tail read commit gives_pure assms(1))
  have status: "gives (leader_client_status V msg rid ld) ?Q" for rid
    unfolding leader_client_status_def by (intro gives_tail gives_pure) (simp add: assms(1))
  show ?thesis
    using heartbeat accepted rejected client status assms(1)
    by (cases "(V, msg, m, ld)" rule: leader_handle.cases) (auto intro!: gives_pure)
qed

lemma leader_tick_gives: "prog N P i t ld \<Longrightarrow> gives (leader_tick V ld) (\<lambda>r. \<exists>ld'. r = Leader ld' \<and> prog N P i t ld')"
  unfolding leader_tick_def by (auto intro!: gives_tail triple_if gives_pure)

context raft_nodes
begin

lemma keeps_leader_handle: "keeps (at i P N t (t, Some i) True) (leader_handle V msg m ld)"
  by (cases "(V, msg, m, ld)" rule: leader_handle.cases)
    (auto simp: leader_heartbeat_response_def leader_append_rejected_def leader_append_accepted_def Let_def
      leader_client_read_def leader_client_write_def leader_client_status_def intro!: triple_rules)

lemma keeps_leader_tick: "keeps (at i P N t (t, Some i) True) (leader_tick V ld)"
  unfolding leader_tick_def by (auto intro!: triple_rules)

lemma keeps_prog:
  assumes "gives m (\<lambda>r. \<exists>ld'. r = Leader ld' \<and> prog N P i t ld')" "keeps (at i P N t (t, Some i) True) m"
  shows "triple (at i P N t (t, Some i) True) m (role_prog N P i) (\<lambda>_. True)"
  by (rule triple_conseq [OF triple_and [OF gives_triple [OF assms(1)] assms(2)]]) (auto simp: node_at_def)

lemma leader_step_prog:
  assumes "prog N P i t ld"
    and "\<And>ix lt. ev_message msg = AppendResponse False ix lt \<Longrightarrow> msg \<in> N \<and> ev_to msg = i"
  shows "triple (at i P N t (t, Some i) True) (leader_step V msg ld) (role_prog N P i) (\<lambda>_. True)"
proof -
  have handle: "triple (at i P N t (t, Some i) True) (leader_handle V msg (ev_message msg) ld) (role_prog N P i) (\<lambda>_. True)"
    if "ev_term msg = t"
    by (rule keeps_prog [OF leader_handle_gives [OF assms(1)] keeps_leader_handle])
      (use assms(2) that in \<open>auto simp: acked_def\<close>)
  have down: "triple (at i P N t (t, Some i) True) (bind_op (leader_into_follower V ld u) (follower_step V msg))
      (role_prog N P i) (\<lambda>_. True)" for u
    by (rule triple_conseq [OF gives_triple [OF gives_tail [OF follower_gives]]]) (auto intro: not_leader)
  have stay: "triple (at i P N t (t, Some i) True) (return_op (Leader ld)) (role_prog N P i) (\<lambda>_. True)"
    using assms(1) by (intro triple_return) (auto simp: node_at_def)
  show ?thesis
    unfolding leader_step_def
    by (intro step_keeps [OF keeps_asserts(5)] step_keeps [OF keeps_asserts(2)] step_reads triple_if stay down handle) auto
qed

lemma node_step_prog:
  assumes "rl i P N r n" "role_prog N P i r n" "node_step V msg r n = (Ok r', n')"
    and "\<And>ix lt. ev_message msg = AppendResponse False ix lt \<Longrightarrow> msg \<in> N \<and> ev_to msg = i"
  shows "role_prog N P i r' n'"
proof (cases r)
  case (Leader ld)
  with assms(1) obtain t where t: "at i P N t (t, Some i) True n" by (auto simp: rl_leader)
  then have "prog N P i t ld" using assms(2) Leader by (simp add: node_at_def)
  from tripleD_Ok [OF leader_step_prog [OF this assms(4)] t] assms(3) Leader show ?thesis by simp
next
  case (Candidate c)
  then have "nd_peers n = P" using assms(1) by (auto simp: rl_candidate node_at_def)
  from tripleD_Ok [OF candidate_gives this] assms(3) Candidate show ?thesis by (cases r') auto
next
  case (Follower f)
  with assms(3) not_leader [OF tripleD_Ok [OF follower_gives TrueI]] show ?thesis by simp
qed

lemma node_tick_prog:
  assumes "rl i P N r n" "role_prog N P i r n" "node_tick V r n = (Ok r', n')"
  shows "role_prog N P i r' n'"
proof (cases r)
  case (Leader ld)
  with assms(1) obtain t where t: "at i P N t (t, Some i) True n" by (auto simp: rl_leader)
  then have "prog N P i t ld" using assms(2) Leader by (simp add: node_at_def)
  from tripleD_Ok [OF keeps_prog [OF leader_tick_gives [OF this] keeps_leader_tick] t] assms(3) Leader
  show ?thesis by simp
next
  case (Candidate c)
  with assms(3) not_leader [OF tripleD_Ok [OF candidate_tick_gives TrueI]] show ?thesis by simp
next
  case (Follower f)
  with assms(3) not_leader [OF tripleD_Ok [OF follower_tick_gives TrueI]] show ?thesis by simp
qed

lemma node_new_prog:
  assumes "pv tv l" "msgs_ok P N i tv" "node_new V i P l s rand = (Ok r', n')"
  shows "role_prog N P i r' n'"
proof -
  obtain r1 n1 where raw: "raw_node_new V i P l s rand = (r1, n1)" by fastforce
  show ?thesis
  proof (cases "(\<exists>f. r1 = Ok f) \<and> nd_peers n1 = {}")
    case True
    then obtain f c ld n2 where c: "follower_into_candidate V f n1 = (Ok c, n2)" "into_leader V n2 = (Ok ld, n')" "r' = Leader ld"
      using assms(3) raw by (auto simp: node_new_def bind_op_eq_Ok)
    have "keeps (\<lambda>n. nd_peers n = Q) (follower_into_candidate V f)" for Q
      unfolding follower_into_candidate_def abort_forwarded_def maybe_apply_def maybe_apply_with_def candidate_new_def campaign_def
        broadcast_def by (auto intro!: triple_rules)
    from keepsD [OF this [of "nd_peers n1"], of n1] c(1) have n2: "nd_peers n2 = {}" using True by simp
    have "rl i P N r' n'" using node_new_ok [OF assms] by simp
    then have "nd_peers n' = P" by (auto simp: c(3) rl_leader node_at_def)
    moreover have "nd_peers n' = {}"
    proof -
      have "keeps (\<lambda>n. nd_peers n = {}) (into_leader V)"
        unfolding into_leader_def heartbeat_def broadcast_def propose_def send_log_def by (auto intro!: triple_rules)
      from keepsD [OF this n2] c(2) show ?thesis by simp
    qed
    ultimately show ?thesis using tripleD_Ok [OF into_leader_prog n2 c(2)] c(3) by auto
  qed (use assms(3) raw in \<open>auto simp: node_new_def split: result.splits if_splits\<close>)
qed

end

section \<open>Clusters\<close>

definition cluster_prog :: "node_id set \<Rightarrow> ('e, 's) cluster \<Rightarrow> bool" where
  "cluster_prog C c \<longleftrightarrow> (\<forall>i \<in> C. \<forall>r. fst (fst c i) = Some r \<longrightarrow> role_prog (snd c) (C - {i}) i r (snd (fst c i)))"

lemma ran_prog:
  assumes "cluster_prog C (nodes, net)" "\<And>r. res = Ok r \<Longrightarrow> role_prog net (C - {i}) i r n"
  shows "cluster_prog C (ran i (res, n) (nodes, net))"
proof -
  have "role_prog (net \<union> set (nd_tx n)) (C - {j}) j r (snd (nodes j))" if "j \<in> C" "fst (nodes j) = Some r" for j r
    using assms(1) that by (intro role_prog_mono [OF _ Un_upper1]) (simp add: cluster_prog_def)
  moreover have "role_prog (net \<union> set (nd_tx n)) (C - {i}) i r n" if "res = Ok r" for r
    by (rule role_prog_mono [OF assms(2) [OF that] Un_upper1])
  ultimately show ?thesis by (cases res) (auto simp: cluster_prog_def ran_def)
qed

context raft_nodes
begin

lemma step_keeps_prog:
  assumes "cluster_step V C c c'" "okc C c" "cluster_prog C c"
  shows "cluster_prog C c'"
  using assms
proof (induction rule: cluster_step.induct)
  case (deliver i nodes r n msg net)
  have "rl i (C - {i}) net r n" "role_prog net (C - {i}) i r n"
    using deliver by (force simp: cluster_ok_def node_ok_def, force simp: cluster_prog_def)
  note step = node_step_prog [OF this]
  show ?case
    using deliver.hyps(3,4) by (cases "node_step V msg r n") (auto intro!: ran_prog deliver.prems(2) dest: step)
next
  case (client i nodes r n net rid req)
  have "rl i (C - {i}) net r n" "role_prog net (C - {i}) i r n"
    using client by (force simp: cluster_ok_def node_ok_def, force simp: cluster_prog_def)
  note step = node_step_prog [OF this]
  show ?case
    by (cases "node_step V \<lparr>ev_from = i, ev_to = i, ev_term = nd_term n, ev_message = ClientRequest rid req\<rparr> r n")
      (auto intro!: ran_prog client.prems(2) dest: step)
next
  case (tick i nodes r n net)
  have "rl i (C - {i}) net r n" "role_prog net (C - {i}) i r n"
    using tick by (force simp: cluster_ok_def node_ok_def, force simp: cluster_prog_def)
  note step = node_tick_prog [OF this]
  show ?case by (cases "node_tick V r n") (auto intro!: ran_prog tick.prems(2) dest: step)
next
  case (restart i nodes ro n sync l e net s rand)
  obtain tv where tv: "pv tv l" "msgs_ok (C - {i}) net i tv" using restart_vote [OF restart.hyps restart.prems(1)] .
  show ?case
    by (cases "node_new V i (C - {i}) l s rand") (auto intro!: ran_prog restart.prems(2) dest: node_new_prog [OF tv])
qed

lemma reach_prog: "cluster_reach V inv view C c \<Longrightarrow> cluster_prog C c"
proof (induction rule: cluster_reach.induct)
  case (reach_init c)
  then show ?case by (fastforce simp: cluster_init_def cluster_prog_def)
qed (auto intro: step_keeps_prog reach_ok)

end

section \<open>Committing entries\<close>

lemma keeps_nd_log [triple_rules]:
  "keeps (\<lambda>n. nd_log n = l) (node_send i msg)" "keeps (\<lambda>n. nd_log n = l) (run_state m)"
  "keeps (\<lambda>n. nd_log n = l) (assert_op b s)"
  by (auto simp: triple_def node_send_def run_state_def assert_op_def split: prod.splits result.splits)

lemma respond_write_log [triple_rules]: "keeps (\<lambda>n. nd_log n = l) (respond_write i r ld)"
  unfolding respond_write_def by (auto intro!: triple_rules)

lemma apply_loop_log [triple_rules]: "keeps (\<lambda>n. nd_log n = l) (apply_loop V respond_write items ld)"
proof (induction items arbitrary: ld)
  case (Cons item items)
  have "keeps (\<lambda>n. nd_log n = l) (bind_op (respond_write i r ld) (apply_loop V respond_write items))" for i r ld
    using Cons.IH by (auto intro!: triple_rules)
  then show ?case by (auto intro!: triple_rules split: result.split error.split)
qed (simp add: keeps_pure)

lemma node_quorum_majority:
  assumes "set order = nd_peers n" "distinct order" "card (nd_peers n) < 255"
  shows "\<exists>v. node_quorum_value (map f order @ [x]) n = Ok v \<and> v \<in> f ` nd_peers n \<union> {x} \<and>
    card (nd_peers n) + 1 < 2 * (card {p \<in> nd_peers n. v \<le> f p} + 1)"
proof -
  let ?vs = "map f order @ [x]"
  have len: "length ?vs = card (nd_peers n) + 1" using assms(1,2) distinct_card by fastforce
  have "cluster_size n = Ok (of_nat (card (nd_peers n) + 1))"
    using assms(3) by (simp add: cluster_size_def add_u8_def)
  then have "node_quorum_value ?vs n = quorum_value ?vs"
    using assms(3) len by (simp add: node_quorum_value_def del: of_nat_Suc of_nat_add)
  moreover obtain v where v: "quorum_value ?vs = Ok v" "v \<in> set ?vs" "length ?vs < 2 * length (filter (\<lambda>y. v \<le> y) ?vs)"
    using quorum_value_majority [of ?vs] len assms(3) by auto
  moreover have "length (filter (\<lambda>p. v \<le> f p) order) = card {p \<in> nd_peers n. v \<le> f p}"
    using assms(1,2) distinct_card [of "filter (\<lambda>p. v \<le> f p) order"] by simp
  ultimately show ?thesis using assms(1) len by (auto simp: filter_map comp_def split: if_splits)
qed

context raft_total
begin

lemma get_same: "pv tv l \<Longrightarrow> \<exists>r. log_get E R q l = (r, l)"
  by (auto simp: pvote_def log_get_def get_stored bind_op_Ok simp del: rkey_bytes.simps)

lemma scan_same: "pv tv l \<Longrightarrow> \<not> range_panics r \<Longrightarrow> \<exists>x. log_scan E R r l = (x, l)"
  using scan_bounds [of r]
  by (auto simp: pvote_def stored_def log_scan_def on_engine_def scan_law bind_op_def simp del: range_panics.simps)

lemma commit_run:
  assumes "pv tv l" "log_get E R q l = (Ok (Some e), l)" "\<not> q < rl_commit_index l"
  obtains l' where "log_commit E R q l = (Ok q, l')" "get_commit_index l' = (q, en_term e)"
    "log_get E R q l' = (Ok (Some e), l')" "pv tv l'"
proof -
  obtain s where s: "holds l s" using assms(1) by (auto simp: pvote_def)
  obtain x where x: "s (Entry q) = Some x" "decode_entry_value R q x = Ok e"
    using assms(2) by (cases "s (Entry q)"; cases "decode_entry_value R q (the (s (Entry q)))")
      (auto simp: log_get_def get_stored [OF s] bind_op_Ok simp del: rkey_bytes.simps)
  then have e: "en_index e = q" by (auto simp: decode_entry_value_def bind_r_eq_Ok)
  obtain b where b: "ser (r_commit R) (q, en_term e) = Ok b" using ser_commit_ok by blast
  obtain e1 e2 where w: "on_engine (e_set E (rkey_bytes CommitIndex) b) l = (Ok (), l\<lparr>rl_engine := e1\<rparr>)"
    "log_maybe_flush E (l\<lparr>rl_engine := e1\<rparr>) = (Ok (), l\<lparr>rl_engine := e2\<rparr>)"
    "stored inv view e2 (s(CommitIndex \<mapsto> b))"
    by (rule write_stored [OF s TrueI])
  let ?l = "l\<lparr>rl_engine := e2, rl_commit_index := q, rl_commit_term := en_term e\<rparr>"
  have run: "log_commit E R q l = (Ok q, ?l)"
    using assms(2,3) w b e by (simp add: log_commit_def bind_op_Ok del: rkey_bytes.simps)
  have "pv tv ?l"
    using keepsD [OF keeps_log_commit assms(1), of q] run by simp
  moreover have "log_get E R q ?l = (Ok (Some e), ?l)"
    using get_stored [of ?l "s(CommitIndex \<mapsto> b)"] w(3) x by (simp add: log_get_def bind_op_Ok del: rkey_bytes.simps)
  ultimately show thesis using that [OF run] by (simp add: get_commit_index_def)
qed

end

definition majority_commit :: "('e, 's) raft_env \<Rightarrow> node_id set \<Rightarrow> envelope set \<Rightarrow> node_id \<Rightarrow> term_id \<Rightarrow> index \<Rightarrow> 'e raft_log \<Rightarrow> bool" where
  "majority_commit V C N i t c l \<longleftrightarrow> c < rl_commit_index l \<and> rl_commit_term l = t \<and>
     (\<exists>e. log_get (rv_engine V) (rv_bincode V) (rl_commit_index l) l = (Ok (Some e), l) \<and> en_term e = t) \<and>
     card C < 2 * card {p \<in> C. p = i \<or> (\<exists>ix \<ge> rl_commit_index l. acked N p i t ix)}"

context raft_nodes
begin

lemma apply_same: "pv tv l \<Longrightarrow> keeps (\<lambda>n. nd_log n = l) (maybe_apply_with V respond_write ld)"
proof -
  assume l: "pv tv l"
  have "keeps (\<lambda>n. nd_log n = l) (on_log (log_scan (rv_engine V) (rv_bincode V) (Included start, Included c)))"
    if "add_u64 a 1 = Ok start" "\<not> c \<le> a" for start a c :: index
  proof -
    have "\<not> range_panics (Included start, Included c)"
      using add_u64_unat [OF that(1)] that(2) by (simp add: word_le_nat_alt word_less_nat_alt not_le)
    from scan_same [OF l this] show ?thesis by (auto simp: keeps_iff on_log_def)
  qed
  then show ?thesis unfolding maybe_apply_with_def by (auto intro!: triple_rules)
qed

abbreviation moved :: "node_id set \<Rightarrow> envelope set \<Rightarrow> node_id \<Rightarrow> term_id \<Rightarrow> index \<times> term_id \<Rightarrow> ('e, 's) core \<Rightarrow> bool" where
  "moved C N i t c n \<equiv> get_commit_index (nd_log n) = c \<or> majority_commit V C N i t (fst c) (nd_log n)"

lemma quorum_acked:
  assumes "prog N P i t ld" "i \<notin> P" "0 < q"
    and "card P + 1 < 2 * (card {p \<in> P. q \<le> pr_last (the (le_progress ld p))} + 1)"
  shows "card (insert i P) < 2 * card {p \<in> insert i P. p = i \<or> (\<exists>ix \<ge> q. acked N p i t ix)}"
proof -
  let ?A = "{p \<in> P. q \<le> pr_last (the (le_progress ld p))}" and ?B = "{p \<in> insert i P. p = i \<or> (\<exists>ix \<ge> q. acked N p i t ix)}"
  have "p \<in> ?B" if p: "p \<in> ?A" for p
  proof -
    obtain x where x: "le_progress ld p = Some x" using p assms(1) by (auto simp: prog_def)
    with p have "q \<le> pr_last x" by simp
    moreover have "pr_last x = 0 \<or> acked N p i t (pr_last x)" using assms(1) x by (simp add: prog_def)
    moreover have "pr_last x \<noteq> 0" using calculation(1) assms(3) by auto
    ultimately show ?thesis using p by blast
  qed
  then have "insert i ?A \<subseteq> ?B" by blast
  then have "card (insert i ?A) \<le> card ?B" by (intro card_mono) auto
  moreover have "card (insert i ?A) = card ?A + 1" "card (insert i P) = card P + 1" using assms(2) by simp_all
  ultimately have "2 * (card ?A + 1) \<le> 2 * card ?B" "card (insert i P) = card P + 1" by (simp_all only: mult_le_mono2)
  then show ?thesis using less_le_trans [OF assms(4)] by simp
qed

lemma commit_moves:
  assumes order: "\<And>S. set (rv_peer_order V S) = S" "\<And>S. distinct (rv_peer_order V S)"
    and i: "i \<notin> P" and ld: "prog N P i t ld"
  shows "triple (\<lambda>n. at i P N t tv b n \<and> get_commit_index (nd_log n) = c) (maybe_commit_and_apply V ld)
    (\<lambda>_. moved (insert i P) N i t c) (moved (insert i P) N i t c)"
proof (rule tripleI)
  fix n r n' assume n: "at i P N t tv b n \<and> get_commit_index (nd_log n) = c" and run: "maybe_commit_and_apply V ld n = (r, n')"
  let ?f = "\<lambda>p. pr_last (the (le_progress ld p))" and ?l = "nd_log n"
  let ?vs = "map ?f (rv_peer_order V (dom (le_progress ld))) @ [fst (get_last_index ?l)]"
  have P: "dom (le_progress ld) = P" "nd_peers n = P" "nd_term n = t" and pv: "pv tv ?l"
    using n ld by (simp_all add: prog_def node_at_def)
  have "moved (insert i P) N i t c n'"
  proof (cases "node_quorum_value ?vs n")
    case (Ok q)
    have "card P \<le> card (UNIV - {i} :: node_id set)" using i by (intro card_mono) auto
    then have "unat (of_nat (card P) :: u8) = card P" by (intro unat_u8) (simp add: card_word)
    then have "card P < 255"
      using Ok P(2) by (auto simp: node_quorum_value_def cluster_size_def add_u8_def bind_r_eq_Ok split: if_splits)
    then have maj: "card P + 1 < 2 * (card {p \<in> P. q \<le> ?f p} + 1)"
      using node_quorum_majority [of "rv_peer_order V P" n ?f "fst (get_last_index ?l)"] order P Ok by auto
    obtain g where g: "log_get (rv_engine V) (rv_bincode V) q ?l = (g, ?l)" using get_same [OF pv] by blast
    note eval = maybe_commit_and_apply_def Ok on_log_def bind_op_def g P(3)
    consider "q \<le> fst (get_commit_index ?l)" | "\<nexists>e. g = Ok (Some e) \<and> en_term e = t"
      | e where "\<not> q \<le> fst (get_commit_index ?l)" "g = Ok (Some e)" "en_term e = t" by blast
    then show ?thesis
    proof cases
      case 1 with run n show ?thesis by (auto simp: eval)
    next
      case 2 with run n show ?thesis by (cases g) (auto simp: eval split: if_splits option.splits)
    next
      case 3
      then have q: "\<not> q < rl_commit_index ?l" "rl_commit_index ?l < q" by (auto simp: get_commit_index_def)
      obtain l where l: "log_commit (rv_engine V) (rv_bincode V) q ?l = (Ok q, l)" "get_commit_index l = (q, t)"
        "log_get (rv_engine V) (rv_bincode V) q l = (Ok (Some e), l)" "pv tv l"
        using commit_run [OF pv g [unfolded 3(2)] q(1)] 3(3) by metis
      obtain r1 n1 where n1: "maybe_apply_with V respond_write ld (n\<lparr>nd_log := l\<rparr>) = (r1, n1)" by fastforce
      have "nd_log n1 = l" using keepsD [OF apply_same [OF l(4)], of "n\<lparr>nd_log := l\<rparr>" ld] n1 by simp
      moreover have "n' = n1" using 3 run l(1) n1 by (cases r1) (simp_all add: eval)
      moreover have "majority_commit V (insert i P) N i t (fst c) l"
        using l(2,3) 3(3) q(2) n quorum_acked [OF ld i _ maj]
        by (auto simp: majority_commit_def get_commit_index_def intro: le_less_trans [OF word_zero_le])
      ultimately show ?thesis by simp
    qed
  qed (use run n in \<open>auto simp: maybe_commit_and_apply_def bind_op_def\<close>)
  then show "case r of Ok a \<Rightarrow> moved (insert i P) N i t c n' | _ \<Rightarrow> moved (insert i P) N i t c n'" by (cases r) auto
qed

end

section \<open>Operations that do not commit\<close>

lemma log_position [triple_rules]:
  "keeps (\<lambda>l. get_commit_index l = c) (on_engine m)" "keeps (\<lambda>l. get_commit_index l = c) (log_maybe_flush E)"
  "keeps (\<lambda>l. get_commit_index l = c) (modify_op (\<lambda>l. l\<lparr>rl_last_index := i, rl_last_term := t\<rparr>))"
  by (auto simp: keeps_iff on_engine_def log_maybe_flush_def get_commit_index_def split: prod.splits)

lemma log_reads_position [triple_rules]:
  "keeps (\<lambda>l. get_commit_index l = c) (log_get E R i)" "keeps (\<lambda>l. get_commit_index l = c) (log_get_term E R)"
  "keeps (\<lambda>l. get_commit_index l = c) (log_append E R t cmd)" "keeps (\<lambda>l. get_commit_index l = c) (log_scan E R r)"
  "keeps (\<lambda>l. get_commit_index l = c) (log_status E)"
  unfolding log_get_def log_get_term_def log_append_def log_scan_def log_status_def
  by (auto simp del: rkey_bytes.simps intro!: triple_rules)

lemma log_has_position [triple_rules]: "keeps (\<lambda>l. get_commit_index l = c) (log_has E R i t)"
  unfolding log_has_def by (auto intro!: triple_rules)

abbreviation position :: "index \<times> term_id \<Rightarrow> ('e, 's) core \<Rightarrow> bool" where
  "position c n \<equiv> get_commit_index (nd_log n) = c"

lemma node_position [triple_rules]:
  "keeps (\<lambda>l. get_commit_index l = c) m \<Longrightarrow> keeps (position c) (on_log m)"
  "keeps (position c) (node_send j msg)" "keeps (position c) (run_state m')" "keeps (position c) (assert_op b s)"
  by (auto simp: keeps_iff on_log_def node_send_def run_state_def assert_op_def split: prod.splits)

lemma leader_position [triple_rules]:
  "keeps (position c) (heartbeat ld)" "keeps (position c) (send_log V ld peer)" "keeps (position c) (propose V ld cmd)"
  "keeps (position c) (leader_assert V)" "keeps (position c) (assert_step msg)"
proof -
  show send: "keeps (position c) (send_log V ld peer)" for ld :: leader and peer
    unfolding send_log_def by (auto intro!: triple_rules)
  show "keeps (position c) (heartbeat ld)" "keeps (position c) (leader_assert V)" "keeps (position c) (assert_step msg)"
    unfolding heartbeat_def broadcast_def leader_assert_def assert_node_def assert_step_def by (auto intro!: triple_rules)
  show "keeps (position c) (propose V ld cmd)" unfolding propose_def using send by (auto intro!: triple_rules)
qed

lemma read_position [triple_rules]: "keeps (position c) (maybe_read V ld)"
proof -
  have "keeps (position c) (case r of Panic p \<Rightarrow> lift_op (Panic p) | _ \<Rightarrow> return_op ())" for r :: "bytes result"
    by (cases r) (auto intro!: triple_rules)
  then have "keeps (position c) (read_loop V q rs)" for q rs
    by (induction rs) (auto intro!: triple_rules)
  then show ?thesis unfolding maybe_read_def by (auto intro!: triple_rules)
qed

lemma handlers_position:
  "keeps (position c) (leader_heartbeat_response V msg li lt rs ld)" "keeps (position c) (leader_append_rejected V msg ld)"
  "keeps (position c) (leader_client_read V msg rid cmd ld)" "keeps (position c) (leader_client_status V msg rid ld)"
  "keeps (position c) (leader_tick V ld)"
  unfolding leader_heartbeat_response_def leader_append_rejected_def leader_client_read_def leader_client_status_def
    leader_tick_def Let_def
  by (auto intro!: triple_rules)

section \<open>Committing by a majority\<close>

context raft_nodes
begin

abbreviation from_position :: "node_id \<Rightarrow> node_id set \<Rightarrow> envelope set \<Rightarrow> term_id \<Rightarrow> index \<times> term_id \<Rightarrow> ('e, 's) core \<Rightarrow> bool" where
  "from_position i P N t c n \<equiv> at i P N t (t, Some i) True n \<and> position c n"

lemma position_moved:
  "keeps (position c) m \<Longrightarrow> triple (from_position i P N t c) m (\<lambda>_. moved (insert i P) N i t c) (moved (insert i P) N i t c)"
  by (erule triple_conseq) auto

lemma handle_moves:
  assumes order: "\<And>S. set (rv_peer_order V S) = S" "\<And>S. distinct (rv_peer_order V S)"
    and i: "i \<notin> P" and ld: "prog N P i t ld"
    and ack: "\<And>ix lt. m = AppendResponse False ix lt \<Longrightarrow> acked N (ev_from msg) i t ix"
  shows "triple (from_position i P N t c) (leader_handle V msg m ld)
    (\<lambda>_. moved (insert i P) N i t c) (moved (insert i P) N i t c)" (is "triple ?A _ (\<lambda>_. ?Q) ?Q")
proof -
  have commit: "triple ?A (bind_op (maybe_commit_and_apply V ld') (\<lambda>(_, ld). return_op (Leader ld))) (\<lambda>_. ?Q) ?Q"
    if "prog N P i t ld'" for ld'
    by (rule triple_bind [OF commit_moves [OF order i that]]) (auto intro!: triple_return triple_prod)
  have keep: "triple ?A (bind_op m' f) (\<lambda>_. ?Q) ?Q"
    if "keeps (at i P N t (t, Some i) True) m'" "keeps (position c) m'" "\<And>a. triple ?A (f a) (\<lambda>_. ?Q) ?Q"
    for m' :: "(('e, 's) core, 'a) op" and f :: "'a \<Rightarrow> (('e, 's) core, role) op"
    using that by (intro step_keeps keeps_conj) auto
  have accepted: "triple ?A (leader_append_accepted V msg li lt ld) (\<lambda>_. ?Q) ?Q" if "m = AppendResponse False li lt" for li lt
    unfolding leader_append_accepted_def
    by (auto intro!: keep step_lift triple_if triple_return commit prog_upd [OF ld] ack that keeps_pure keeps_assert
        node_position position_moved [OF keeps_pure(2)] split: option.splits)
  have writes: "triple ?A (leader_client_write V msg rid cmd ld) (\<lambda>_. ?Q) ?Q" for rid cmd
    unfolding leader_client_write_def Let_def
    by (auto intro!: keep keeps_leader_methods leader_position keeps_pure triple_if triple_return commit ld)
  show ?thesis
    using accepted writes position_moved [OF handlers_position(1)] position_moved [OF handlers_position(2)]
      position_moved [OF handlers_position(3)] position_moved [OF handlers_position(4)]
      position_moved [OF keeps_pure(1)] position_moved [OF keeps_pure(2)]
    by (cases "(V, msg, m, ld)" rule: leader_handle.cases) simp_all
qed

lemma step_moves:
  assumes "\<And>S. set (rv_peer_order V S) = S" "\<And>S. distinct (rv_peer_order V S)" "i \<notin> P" "prog N P i t ld"
    and "ev_term msg \<le> t" "\<And>ix lt. ev_message msg = AppendResponse False ix lt \<Longrightarrow> msg \<in> N \<and> ev_to msg = i"
  shows "triple (from_position i P N t c) (leader_step V msg ld)
    (\<lambda>_. moved (insert i P) N i t c) (moved (insert i P) N i t c)"
proof -
  have "triple (from_position i P N t c) (leader_handle V msg (ev_message msg) ld)
    (\<lambda>_. moved (insert i P) N i t c) (moved (insert i P) N i t c)" if "ev_term msg = t"
    using assms(6) that by (intro handle_moves [OF assms(1-4)]) (auto simp: acked_def)
  then have "triple (\<lambda>n. from_position i P N t c n \<and> nd_term n = u)
     (if ev_term msg < u then return_op (Leader ld)
      else if u < ev_term msg then bind_op (leader_into_follower V ld (ev_term msg)) (follower_step V msg)
      else leader_handle V msg (ev_message msg) ld) (\<lambda>_. moved (insert i P) N i t c) (moved (insert i P) N i t c)" for u
    using assms(5) by (cases "u = t") (auto simp: node_at_def triple_def intro!: triple_return)
  then show ?thesis
    unfolding leader_step_def
    by (intro step_keeps [OF keeps_conj [OF keeps_asserts(5) leader_position(4)]]
        step_keeps [OF keeps_conj [OF keeps_asserts(2) leader_position(5)]] step_gets) auto
qed

end

section \<open>Acknowledgements\<close>

lemma follow_sender_core:
  assumes "follow_sender V msg f n = (Ok f', n1)"
  shows "nd_log n1 = nd_log n \<and> nd_id n1 = nd_id n \<and> nd_term n1 = nd_term n"
proof -
  have "keeps (\<lambda>m. nd_log m = nd_log n \<and> nd_id m = nd_id n \<and> nd_term m = nd_term n) (follow_sender V msg f)"
  proof -
    let ?S = "\<lambda>m. nd_log m = nd_log n \<and> nd_id m = nd_id n \<and> nd_term m = nd_term n"
    have "keeps ?S (node_send j m')" "keeps ?S (assert_op b s)" "keeps ?S (follower_new l v)" for j m' b s l v
      by (auto simp: keeps_iff node_send_def assert_op_def follower_new_def rand_election_timeout_def bind_op_def)
    then show ?thesis
      unfolding follow_sender_def follower_into_follower_def abort_forwarded_def by (auto intro!: triple_rules)
  qed
  from keepsD [OF this, of n] assms show ?thesis by simp
qed

text \<open>(C38) A follower acknowledges what it holds.  When a follower has handled entries from a leader, over a storage
  engine that accepts entries of any size, its last message answers the leader with the last position of its
  log.  It rejects exactly when it does not have the entry before the new ones, and then its log is as
  before.  Otherwise the acknowledged index is that of the last new entry, and at the index of each new entry
  the follower's log has an entry of its term.\<close>

theorem raft_append_response:
  assumes "storage_engine (rv_engine V) einv view (\<lambda>_ _. True)" and "raft_bincode_ok (rv_bincode V)"
    and "log_rel einv view (rv_bincode V) (nd_log n) a" and "cmd_ok (rv_bincode V) (\<lambda>_ _. True) (C_splice es) a" and "es \<noteq> []"
    and "follower_append V msg base_index base_term es f n = (Ok role, n')"
  shows "\<exists>reject li lt. last (nd_tx n') = \<lparr>ev_from = nd_id n, ev_to = ev_from msg, ev_term = nd_term n,
      ev_message = AppendResponse reject li lt\<rparr> \<and> get_last_index (nd_log n') = (li, lt) \<and>
    (reject \<longleftrightarrow> 0 < base_index \<and>
      log_has (rv_engine V) (rv_bincode V) base_index base_term (nd_log n) = (Ok False, nd_log n)) \<and>
    (if reject then nd_log n' = nd_log n
     else li = en_index (last es) \<and> (\<forall>e \<in> set es. \<exists>e'.
       log_get (rv_engine V) (rv_bincode V) (en_index e) (nd_log n') = (Ok (Some e'), nd_log n') \<and> en_term e' = en_term e))"
proof -
  have M: "raft_store (rv_engine V) einv view (\<lambda>_ _. True) (rv_bincode V)" by (rule raft_storeI [OF assms(1,2)])
  obtain f' n1 where n1: "follow_sender V msg f n = (Ok f', n1)"
    using assms(6) by (auto simp: follower_append_def bind_op_eq_Ok)
  note core = follow_sender_core [OF n1]
  define reject where "reject \<longleftrightarrow> 0 < base_index \<and>
    log_has (rv_engine V) (rv_bincode V) base_index base_term (nd_log n) = (Ok False, nd_log n)"
  obtain has where has: "log_has (rv_engine V) (rv_bincode V) base_index base_term (nd_log n) = (Ok has, nd_log n)"
    using raft_store.has_ok [OF M assms(3)] by blast
  have log: "nd_log (n1\<lparr>nd_log := nd_log n\<rparr>) = nd_log n1" using core by simp
  note eval = follower_append_def bind_op_def n1 on_log_def core has reject_def node_send_def
  show ?thesis
  proof (cases reject)
    case True
    then have "last (nd_tx n') = \<lparr>ev_from = nd_id n, ev_to = ev_from msg, ev_term = nd_term n,
        ev_message = AppendResponse True (fst (get_last_index (nd_log n))) (snd (get_last_index (nd_log n)))\<rparr>" "nd_log n' = nd_log n"
      using assms(6) core by (auto simp: eval split: if_splits prod.splits)
    with True show ?thesis unfolding reject_def [symmetric]
      by (intro exI [of _ True] exI [of _ "fst (get_last_index (nd_log n))"] exI [of _ "snd (get_last_index (nd_log n))"]) simp
  next
    case False
    obtain r l where l: "log_splice (rv_engine V) (rv_bincode V) es (nd_log n) = (r, l)" by fastforce
    with False assms(6) obtain i where i: "r = Ok i"
      by (cases r) (auto simp: eval split: if_splits)
    note sp = splice_exact [OF assms(1-5) l [unfolded i]]
    have "last (nd_tx n') = \<lparr>ev_from = nd_id n, ev_to = ev_from msg, ev_term = nd_term n,
        ev_message = AppendResponse False (fst (get_last_index l)) (snd (get_last_index l))\<rparr>" "nd_log n' = l"
      using False assms(6) core l i by (auto simp: eval split: if_splits prod.splits)
    with False sp show ?thesis unfolding reject_def [symmetric]
      by (intro exI [of _ False] exI [of _ "fst (get_last_index l)"] exI [of _ "snd (get_last_index l)"]) auto
  qed
qed

text \<open>In the sample election, the second node takes the new leader's first entry and acknowledges it.\<close>

definition ack_ev :: envelope where
  "ack_ev = \<lparr>ev_from = 2, ev_to = 1, ev_term = 1, ev_message = AppendResponse False 1 1\<rparr>"

lemma demo_splice:
  "log_splice memory_engine fixed_raft_bincode [\<lparr>en_index = 1, en_term = 1, en_command = None\<rparr>] voted_log = (Ok 1, leader_log)"
  by (simp add: log_splice_def log_scan_def voted_log_def leader_log_def fresh_log_def memory_scan_def btree_range_def in_range_def
      write_spliced_def index_range_def memory_engine_def memory_set_def memory_new_def fixed_raft_bincode_def log_maybe_flush_def
      add_u64_def op_eval)

lemma demo_append:
  "node_step demo_env append_ev (Follower (demo_follower 0 (Some 1))) demo_voter =
    (Ok (Follower ((demo_follower 0 (Some 1))\<lparr>fo_leader := Some 1\<rparr>)), demo_voter\<lparr>nd_log := leader_log, nd_tx := [ack_ev]\<rparr>)"
  unfolding node_step.simps follower_step_def numeral_2_eq_2
  by (simp add: follower_append_def follow_sender_def follower_into_follower_def abort_forwarded_def is_leader_def
      append_ev_def ack_ev_def demo_eval leader_log_def
      demo_splice [unfolded leader_log_def voted_log_def fresh_log_def memory_engine_def memory_new_def fixed_raft_bincode_def, simplified])

lemma voted_rel:
  "log_rel memory_inv mem_data fixed_raft_bincode voted_log \<lparr>al_entries = [], al_commit = (0, 0), al_term = (1, Some 1)\<rparr>"
proof -
  have "log_set_term memory_engine fixed_raft_bincode 1 (Some 1) fresh_log = (Ok (), voted_log)"
    by (simp add: log_set_term_def log_maybe_flush_def voted_log_def fresh_log_def memory_engine_def memory_set_def memory_new_def
        fixed_raft_bincode_def op_eval)
  then show ?thesis using memory_log.set_term_ok [OF fresh_rel, of 1 "Some 1"] by (auto simp: empty_log_def)
qed

theorem raft_append_response_witness:
  "\<exists>r n' e'. follower_append demo_env append_ev 0 0 [\<lparr>en_index = 1, en_term = 1, en_command = None\<rparr>] (demo_follower 0 (Some 1)) demo_voter =
     (Ok r, n') \<and> last (nd_tx n') = ack_ev \<and>
     log_get memory_engine fixed_raft_bincode 1 (nd_log n') = (Ok (Some e'), nd_log n') \<and> en_term e' = 1"
proof -
  let ?e = "\<lparr>en_index = 1, en_term = 1, en_command = None\<rparr> :: raft_entry"
  let ?a = "\<lparr>al_entries = [], al_commit = (0, 0), al_term = (1, Some 1)\<rparr> :: raft_abs"
  have "\<exists>r n'. follower_append demo_env append_ev 0 0 [?e] (demo_follower 0 (Some 1)) demo_voter = (Ok r, n') \<and> last (nd_tx n') = ack_ev"
    by (simp add: follower_append_def follow_sender_def follower_into_follower_def abort_forwarded_def is_leader_def
      append_ev_def ack_ev_def demo_eval leader_log_def
      demo_splice [unfolded leader_log_def voted_log_def fresh_log_def memory_engine_def memory_new_def fixed_raft_bincode_def, simplified])
  then obtain r n' where run: "follower_append demo_env append_ev 0 0 [?e] (demo_follower 0 (Some 1)) demo_voter = (Ok r, n')"
    "last (nd_tx n') = ack_ev" by blast
  have rel: "log_rel memory_inv mem_data (rv_bincode demo_env) (nd_log demo_voter) ?a" using voted_rel by (simp add: demo_env_def)
  have ok: "cmd_ok (rv_bincode demo_env) (\<lambda>_ _. True) (C_splice [?e]) ?a" by (simp add: entry_fits_def)
  have "\<exists>e'. log_get memory_engine fixed_raft_bincode 1 (nd_log n') = (Ok (Some e'), nd_log n') \<and> en_term e' = 1"
    using raft_append_response [OF demo_contract rel ok _ run(1)] by (auto simp: demo_env_def)
  with run show ?thesis by blast
qed

section \<open>Majorities\<close>

text \<open>(C6) A leader commits only what a majority has acknowledged.  In a reachable cluster, over a storage engine
  that accepts entries of any size, let a leader tick, take a client request or receive any message of the
  network that is not of a later term.  Whatever the outcome, the commit index of its log either stays or
  moves forward to an entry of the leader's own term, and then a strict majority of the cluster, the leader
  itself included, has acknowledged that index or a later one: the acknowledgements are messages on the
  network, sent to the leader in this term.\<close>

theorem raft_commits_majority:
  assumes "storage_engine (rv_engine V) einv view (\<lambda>_ _. True)" and "raft_bincode_ok (rv_bincode V)"
    and "\<And>S. set (rv_peer_order V S) = S" and "\<And>S. distinct (rv_peer_order V S)"
    and "cluster_reach V einv view C (nodes, net)" and "i \<in> C" and "nodes i = (Some (Leader ld), n)"
    and "(r, n') = node_tick V (Leader ld) n \<or> (\<exists>msg. (r, n') = node_step V msg (Leader ld) n \<and> ev_term msg \<le> nd_term n \<and>
      (msg \<in> net \<and> ev_to msg = i \<or> (\<exists>rid req. ev_message msg = ClientRequest rid req)))"
  shows "get_commit_index (nd_log n') = get_commit_index (nd_log n) \<or>
    (\<exists>q e. get_commit_index (nd_log n') = (q, nd_term n) \<and> rl_commit_index (nd_log n) < q \<and>
      log_get (rv_engine V) (rv_bincode V) q (nd_log n') = (Ok (Some e), nd_log n') \<and> en_term e = nd_term n \<and>
      card C < 2 * card {p \<in> C. p = i \<or> (\<exists>ix \<ge> q. acked net p i (nd_term n) ix)})"
proof -
  have M: "raft_nodes V einv view"
    using raft_storeI [OF assms(1,2)] by (simp add: raft_nodes_def raft_total_def)
  let ?P = "C - {i}" and ?t = "nd_term n" and ?c = "get_commit_index (nd_log n)"
  have C: "insert i ?P = C" "i \<notin> ?P" using assms(6) by auto
  have "node_ok einv view (rv_bincode V) C net i (nodes i)"
    using raft_nodes.reach_ok [OF M assms(5)] assms(6) by (simp add: cluster_ok_def)
  then have at: "node_at einv view (rv_bincode V) i ?P net ?t (?t, Some i) True n"
    using assms(7) by (auto simp: node_ok_def role_at_simps node_at_def)
  have ld: "prog net ?P i ?t ld"
    using raft_nodes.reach_prog [OF M assms(5)] assms(6,7) by (force simp: cluster_prog_def)
  have "get_commit_index (nd_log n') = ?c \<or> majority_commit V C net i ?t (fst ?c) (nd_log n')"
    using assms(8)
  proof
    assume tick: "(r, n') = node_tick V (Leader ld) n"
    then show ?thesis using keepsD [OF handlers_position(5) [of ?c V ld], of n] by (metis node_tick.simps(3) snd_conv)
  next
    assume "\<exists>msg. (r, n') = node_step V msg (Leader ld) n \<and> ev_term msg \<le> nd_term n \<and>
      (msg \<in> net \<and> ev_to msg = i \<or> (\<exists>rid req. ev_message msg = ClientRequest rid req))"
    then obtain msg where m: "(r, n') = node_step V msg (Leader ld) n" "ev_term msg \<le> ?t"
      "msg \<in> net \<and> ev_to msg = i \<or> (\<exists>rid req. ev_message msg = ClientRequest rid req)" by blast
    then have msg: "leader_step V msg ld n = (r, n')" "ev_term msg \<le> ?t"
      "\<And>ix lt. ev_message msg = AppendResponse False ix lt \<Longrightarrow> msg \<in> net \<and> ev_to msg = i" by auto
    show ?thesis
      using tripleD [OF raft_nodes.step_moves [OF M assms(3,4) C(2) ld msg(2,3), where c = ?c] _ msg(1)] at
      unfolding C(1) by (cases r) auto
  qed
  then show ?thesis by (auto simp: majority_commit_def get_commit_index_def)
qed

text \<open>The sample election goes on: the leader commits the entry that the second node has acknowledged.\<close>

definition committed_log :: "memory raft_log" where
  "committed_log = leader_log\<lparr>rl_engine := \<lparr>mem_data = [(0 # enc_u64 1, to_be_bytes (1::u64) @ [0]),
     ([1], to_be_bytes (1::u64) @ [1, 1]), ([2], to_be_bytes (1::u64) @ to_be_bytes (1::u64))]\<rparr>,
     rl_commit_index := 1, rl_commit_term := 1\<rparr>"

lemma demo_get: "log_get memory_engine fixed_raft_bincode 1 leader_log = (Ok (Some \<lparr>en_index = 1, en_term = 1, en_command = None\<rparr>), leader_log)"
  by (simp add: log_get_def leader_log_def memory_engine_def memory_get_def decode_entry_value_def fixed_raft_bincode_def op_eval nth_append)

lemma demo_commit: "log_commit memory_engine fixed_raft_bincode 1 leader_log = (Ok 1, committed_log)"
  by (simp add: log_commit_def demo_get bind_op_Ok)
    (simp add: leader_log_def committed_log_def fresh_log_def memory_engine_def memory_set_def memory_new_def fixed_raft_bincode_def
      log_maybe_flush_def op_eval)

lemma demo_applied:
  "log_scan memory_engine fixed_raft_bincode (Included 1, Included 1) committed_log =
    (Ok [Ok \<lparr>en_index = 1, en_term = 1, en_command = None\<rparr>], committed_log)"
  using rkey_decode_bytes [of "Entry 1"]
  by (simp add: log_scan_def committed_log_def leader_log_def memory_scan_def memory_scan_item_def btree_range_def in_range_def
      decode_entry_def decode_entry_value_def memory_engine_def fixed_raft_bincode_def op_eval nth_append)

lemma demo_committed: "nd_log (snd (node_step demo_env ack_ev (Leader demo_leader) demo_winner)) = committed_log"
proof -
  define ld where "ld = demo_leader\<lparr>le_progress := (le_progress demo_leader)(2 \<mapsto> \<lparr>pr_next = 2, pr_last = 1, pr_read_seq = 0\<rparr>)\<rparr>"
  have dom: "dom (le_progress ld) = {2}" and last: "pr_last (the (le_progress ld 2)) = 1" and writes: "le_writes ld = (\<lambda>_. None)"
    by (auto simp: ld_def demo_leader_def split: if_splits)
  have get: "log_get_term memory_engine fixed_raft_bincode leader_log = (Ok (1, Some 1), leader_log)"
    by (simp add: log_get_term_def leader_log_def memory_engine_def memory_get_def fixed_raft_bincode_def op_eval nth_append)
  have q: "node_quorum_value [1, 1 :: index] demo_winner = Ok 1"
    by (simp add: node_quorum_value_def cluster_size_def add_u8_def demo_core_def insert_Diff_if quorum_value_nth)
  have c: "get_commit_index leader_log = (0, 0)" "get_commit_index committed_log = (1, 1)" "get_last_index leader_log = (1, 1)"
    by (simp_all add: get_commit_index_def get_last_index_def leader_log_def committed_log_def fresh_log_def)
  have "nd_log (snd (maybe_commit_and_apply demo_env ld demo_winner)) = committed_log"
    using q by (simp add: maybe_commit_and_apply_def dom last writes demo_env_def on_log_def bind_op_def c demo_get demo_commit
      maybe_apply_with_def assert_op_def test_sm_def demo_core_def add_u64_def demo_applied run_state_def test_apply_def
      respond_write_def insert_Diff_if Let_def)
  then have "nd_log (snd (bind_op (maybe_commit_and_apply demo_env ld) (\<lambda>(_, ld). return_op (Leader ld)) demo_winner)) = committed_log"
    by (cases "maybe_commit_and_apply demo_env ld demo_winner") (auto simp: bind_op_def split: result.split prod.split)
  moreover have "node_step demo_env ack_ev (Leader demo_leader) demo_winner =
      bind_op (maybe_commit_and_apply demo_env ld) (\<lambda>(_, ld). return_op (Leader ld)) demo_winner"
    unfolding node_step.simps leader_step_def leader_assert_def assert_node_def assert_step_def
    by (simp add: leader_append_accepted_def ack_ev_def ld_def demo_leader_def add_u64_def c
      bind_op_def on_log_def assert_op_def get demo_env_def demo_core_def insert_Diff_if)
  ultimately show ?thesis by simp
qed

theorem raft_commits_majority_witness:
  "\<exists>nodes net r n'. cluster_reach demo_env memory_inv mem_data {1, 2} (nodes, net) \<and>
    nodes 1 = (Some (Leader demo_leader), demo_winner) \<and> get_commit_index (nd_log demo_winner) = (0, 0) \<and>
    node_step demo_env ack_ev (Leader demo_leader) demo_winner = (r, n') \<and> get_commit_index (nd_log n') = (1, 1) \<and>
    card {1, 2 :: node_id} < 2 * card {p \<in> {1, 2}. p = 1 \<or> (\<exists>ix \<ge> 1. acked net p 1 1 ix)}"
proof -
  let ?net = "insert ack_ev {campaign_ev, vote_ev, heartbeat_ev, append_ev}"
  let ?nodes = "demo_nodes (Some (Leader demo_leader), demo_winner)
    (Some (Follower ((demo_follower 0 (Some 1))\<lparr>fo_leader := Some 1\<rparr>)), demo_voter\<lparr>nd_log := leader_log\<rparr>)"
  have tx: "(demo_core i)\<lparr>nd_term := t, nd_log := l, nd_tx := []\<rparr> = (demo_core i)\<lparr>nd_term := t, nd_log := l\<rparr>" for i t l
    by (simp add: demo_core_def)
  have reach: "cluster_reach demo_env memory_inv mem_data {1, 2} (?nodes, ?net)"
    using demo_deliver [OF demo_elected, of append_ev, OF _ _ _ demo_append] by (simp add: tx append_ev_def)
  obtain r n' where run: "node_step demo_env ack_ev (Leader demo_leader) demo_winner = (r, n')" by fastforce
  then have n': "get_commit_index (nd_log n') = (1, 1)"
    using demo_committed by (simp add: get_commit_index_def committed_log_def)
  have n: "get_commit_index (nd_log demo_winner) = (0, 0)" "nd_term demo_winner = 1"
    by (simp_all add: get_commit_index_def leader_log_def fresh_log_def)
  have order: "set (rv_peer_order demo_env S) = S" "distinct (rv_peer_order demo_env S)" for S :: "node_id set"
    by (simp_all add: demo_env_def)
  have "\<exists>msg. (r, n') = node_step demo_env msg (Leader demo_leader) demo_winner \<and> ev_term msg \<le> nd_term demo_winner \<and>
      (msg \<in> ?net \<and> ev_to msg = 1 \<or> (\<exists>rid req. ev_message msg = ClientRequest rid req))"
    using run by (intro exI [of _ ack_ev]) (simp add: ack_ev_def)
  from raft_commits_majority [OF demo_contract order reach _ demo_nodes_simps(1) disjI2 [OF this]] n n'
  have "card {1, 2 :: node_id} < 2 * card {p \<in> {1, 2}. p = 1 \<or> (\<exists>ix \<ge> 1. acked ?net p 1 1 ix)}" by auto
  with reach run n(1) n' show ?thesis by (intro exI [of _ ?nodes] exI [of _ ?net] exI [of _ r] exI [of _ n']) simp
qed

end
