(* ===== verification/Sql_Types.thy ===== *)
theory Sql_Types
  imports Keycode
begin

text \<open>
  SQL values and result columns: \<^verbatim>\<open>src/src/sql/types/mod.rs\<close>.  An \<open>i64\<close> is a 64-bit word read with
  \<open>sint\<close>, an \<open>f64\<close> its IEEE 754 bit pattern, a \<open>String\<close> its UTF-8 bytes.  Comparison and sign of
  floats are defined on the bit patterns; their arithmetic, the conversion of integers to floats and
  the printing of floats are the hardware's and the standard library's and are passed in, as is the
  regular expression crate.
\<close>

section \<open>Floats\<close>

record sql_env =
  fp_of_i64 :: "u64 \<Rightarrow> u64"
  fp_add :: "u64 \<Rightarrow> u64 \<Rightarrow> u64"
  fp_sub :: "u64 \<Rightarrow> u64 \<Rightarrow> u64"
  fp_mul :: "u64 \<Rightarrow> u64 \<Rightarrow> u64"
  fp_div :: "u64 \<Rightarrow> u64 \<Rightarrow> u64"
  fp_rem :: "u64 \<Rightarrow> u64 \<Rightarrow> u64"
  fp_powf :: "u64 \<Rightarrow> u64 \<Rightarrow> u64"
  fp_powi :: "u64 \<Rightarrow> u32 \<Rightarrow> u64"
  fp_show :: "u64 \<Rightarrow> bytes"
  regex_escape :: "bytes \<Rightarrow> bytes"
  regex_match :: "bytes \<Rightarrow> bytes \<Rightarrow> bool result"

definition f64_magnitude :: "u64 \<Rightarrow> nat" where
  "f64_magnitude w = unat w mod 2 ^ 63"

definition f64_is_nan :: "u64 \<Rightarrow> bool" where
  "f64_is_nan w \<longleftrightarrow> 0x7FF0000000000000 < f64_magnitude w"

definition f64_eq :: "u64 \<Rightarrow> u64 \<Rightarrow> bool" where
  "f64_eq a b \<longleftrightarrow> \<not> f64_is_nan a \<and> \<not> f64_is_nan b \<and>
     (a = b \<or> f64_magnitude a = 0 \<and> f64_magnitude b = 0)"

definition f64_lt :: "u64 \<Rightarrow> u64 \<Rightarrow> bool" where
  "f64_lt a b \<longleftrightarrow> \<not> f64_is_nan a \<and> \<not> f64_is_nan b \<and> \<not> f64_eq a b \<and> f64_less a b"

definition f64_neg :: "u64 \<Rightarrow> u64" where
  "f64_neg w = w XOR push_bit 63 1"

section \<open>Values\<close>

datatype data_type = T_Boolean | T_Integer | T_Float | T_String

fun show_data_type :: "data_type \<Rightarrow> string" where
  "show_data_type T_Boolean = ''BOOLEAN''"
| "show_data_type T_Integer = ''INTEGER''"
| "show_data_type T_Float = ''FLOAT''"
| "show_data_type T_String = ''STRING''"

datatype sql_value = Null | Boolean bool | Integer u64 | Float u64 | String bytes

fun datatype_of :: "sql_value \<Rightarrow> data_type option" where
  "datatype_of Null = None"
| "datatype_of (Boolean _) = Some T_Boolean"
| "datatype_of (Integer _) = Some T_Integer"
| "datatype_of (Float _) = Some T_Float"
| "datatype_of (String _) = Some T_String"

fun value_boolean :: "sql_value \<Rightarrow> bool result" where
  "value_boolean (Boolean b) = Ok b"
| "value_boolean v = Err (Value ''Not a boolean: {:?}'')"

fun value_float :: "sql_value \<Rightarrow> u64 result" where
  "value_float (Float f) = Ok f"
| "value_float v = Err (Value ''Not a float: {:?}'')"

fun value_integer :: "sql_value \<Rightarrow> u64 result" where
  "value_integer (Integer i) = Ok i"
| "value_integer v = Err (Value ''Not an integer: {:?}'')"

fun value_string :: "sql_value \<Rightarrow> bytes result" where
  "value_string (String s) = Ok s"
| "value_string v = Err (Value ''Not a string: {:?}'')"

text \<open>The derived \<^verbatim>\<open>==\<close> on values: that of \<open>f64\<close> on floats.\<close>

fun value_eq :: "sql_value \<Rightarrow> sql_value \<Rightarrow> bool" where
  "value_eq (Float a) (Float b) \<longleftrightarrow> f64_eq a b"
| "value_eq a b \<longleftrightarrow> a = b"

text \<open>Printing: decimal digits of an integer, the words of the literals.\<close>

definition ascii :: "string \<Rightarrow> bytes" where
  "ascii s = map (\<lambda>c. of_nat (of_char c)) s"

fun digits :: "nat \<Rightarrow> nat \<Rightarrow> bytes" where
  "digits 0 n = []"
| "digits (Suc k) n = (if n < 10 then [of_nat (48 + n)] else digits k (n div 10) @ [of_nat (48 + n mod 10)])"

definition show_i64 :: "u64 \<Rightarrow> bytes" where
  "show_i64 i = (let n = sint i in (if n < 0 then [45] else []) @ digits 20 (nat \<bar>n\<bar>))"

fun show_value :: "sql_env \<Rightarrow> sql_value \<Rightarrow> bytes" where
  "show_value X Null = ascii ''NULL''"
| "show_value X (Boolean b) = (if b then ascii ''TRUE'' else ascii ''FALSE'')"
| "show_value X (Integer i) = show_i64 i"
| "show_value X (Float f) = fp_show X f"
| "show_value X (String s) = s"

datatype ordering = Less | Equal_to | Greater

definition order_by :: "('a \<Rightarrow> 'a \<Rightarrow> bool) \<Rightarrow> 'a \<Rightarrow> 'a \<Rightarrow> ordering" where
  "order_by lt a b = (if lt a b then Less else if lt b a then Greater else Equal_to)"

definition f64_partial_cmp :: "u64 \<Rightarrow> u64 \<Rightarrow> ordering option" where
  "f64_partial_cmp a b = (if f64_is_nan a \<or> f64_is_nan b then None else Some (order_by f64_lt a b))"

fun partial_cmp :: "sql_env \<Rightarrow> sql_value \<Rightarrow> sql_value \<Rightarrow> ordering option" where
  "partial_cmp X Null Null = Some Equal_to"
| "partial_cmp X Null _ = Some Less"
| "partial_cmp X _ Null = Some Greater"
| "partial_cmp X (Boolean a) (Boolean b) = Some (order_by (<) a b)"
| "partial_cmp X (Float a) (Float b) = f64_partial_cmp a b"
| "partial_cmp X (Float a) (Integer b) = f64_partial_cmp a (fp_of_i64 X b)"
| "partial_cmp X (Integer a) (Float b) = f64_partial_cmp (fp_of_i64 X a) b"
| "partial_cmp X (Integer a) (Integer b) = Some (order_by i64_less a b)"
| "partial_cmp X (String a) (String b) = Some (order_by (<) a b)"
| "partial_cmp X _ _ = None"

text \<open>What \<^verbatim>\<open>hash\<close> feeds to the hasher: the data type and the content.  A call that never returns is
  \<open>None\<close>.\<close>

datatype hash_input = H_datatype "data_type option" | H_bool bool | H_i64 u64 | H_bytes bytes

partial_function (option) hash_value :: "sql_value \<Rightarrow> hash_input list \<Rightarrow> hash_input list option" where
  "hash_value v state0 =
     (let state = state0 @ [H_datatype (datatype_of v)] in case v of
        Null \<Rightarrow> hash_value v state
      | Boolean b \<Rightarrow> Some (state @ [H_bool b])
      | Integer i \<Rightarrow> Some (state @ [H_i64 i])
      | Float f \<Rightarrow> Some (state @ [H_bytes (to_be_bytes f)])
      | String s \<Rightarrow> Some (state @ [H_bytes s]))"

type_synonym row = "sql_value list"

record result_column =
  rc_name :: "bytes option"

type_synonym columns = "result_column list"

section \<open>Hashing\<close>

lemma hash_value_Null: "hash_value Null state = None"
proof -
  have "v \<noteq> Null" if "hash_value v state = Some y" for v state y
    by (rule hash_value.raw_induct [where P = "\<lambda>v _ _. v \<noteq> Null", OF _ that])
      (auto simp: Let_def split: sql_value.splits)
  then show ?thesis by (metis option.exhaust)
qed

text \<open>Hashing a value returns, and feeds the hasher the type and the content of the value, except for
  the null value: there \<^verbatim>\<open>hash\<close> calls itself on the same value and never returns.\<close>

lemma hash_value_cases:
  "hash_value v state = (case v of
      Null \<Rightarrow> None
    | Boolean b \<Rightarrow> Some (state @ [H_datatype (Some T_Boolean), H_bool b])
    | Integer i \<Rightarrow> Some (state @ [H_datatype (Some T_Integer), H_i64 i])
    | Float f \<Rightarrow> Some (state @ [H_datatype (Some T_Float), H_bytes (to_be_bytes f)])
    | String s \<Rightarrow> Some (state @ [H_datatype (Some T_String), H_bytes s]))"
proof (cases v)
  case Null then show ?thesis using hash_value_Null by simp
qed (simp_all add: hash_value.simps)

end
