(* ===== verification/Sql_Expression.thy ===== *)
theory Sql_Expression
  imports Sql_Types "HOL-Library.Signed_Division"
begin

text \<open>
  SQL expressions: \<^verbatim>\<open>src/src/sql/types/expression.rs\<close>.  Integer overflow is an error where the source uses
  checked arithmetic and a panic where it uses plain operators, as in a build with overflow checks.
  \<open>transform\<close> is a partial function, since its closures may rewrite an expression into a larger one; that
  the source's own rewrites end is proved in \<open>Sql_Normal_Form\<close>.
\<close>

section \<open>Expressions\<close>

type_synonym field_label = "(bytes option \<times> bytes) option"

datatype expr =
    Constant sql_value
  | Field nat field_label
  | And expr expr
  | Not expr
  | Or expr expr
  | Equal expr expr
  | GreaterThan expr expr
  | IsNull expr
  | LessThan expr expr
  | Add expr expr
  | Assert expr
  | Divide expr expr
  | Exponentiate expr expr
  | Factorial expr
  | Modulo expr expr
  | Multiply expr expr
  | Negate expr
  | Subtract expr expr
  | Like expr expr

section \<open>Evaluation\<close>

fun and_values :: "sql_value \<Rightarrow> sql_value \<Rightarrow> sql_value result" where
  "and_values (Boolean a) (Boolean b) = Ok (Boolean (a \<and> b))"
| "and_values (Boolean a) Null = (if \<not> a then Ok (Boolean False) else Ok Null)"
| "and_values Null (Boolean b) = (if \<not> b then Ok (Boolean False) else Ok Null)"
| "and_values Null Null = Ok Null"
| "and_values a b = Err (Value ''Can't and {} and {}'')"

fun not_value :: "sql_value \<Rightarrow> sql_value result" where
  "not_value (Boolean b) = Ok (Boolean (\<not> b))"
| "not_value Null = Ok Null"
| "not_value v = Err (Value ''Can't negate {}'')"

fun or_values :: "sql_value \<Rightarrow> sql_value \<Rightarrow> sql_value result" where
  "or_values (Boolean a) (Boolean b) = Ok (Boolean (a \<or> b))"
| "or_values (Boolean a) Null = (if a then Ok (Boolean True) else Ok Null)"
| "or_values Null (Boolean b) = (if b then Ok (Boolean True) else Ok Null)"
| "or_values Null Null = Ok Null"
| "or_values a b = Err (Value ''Can't or {} and {}'')"

fun equal_values :: "sql_env \<Rightarrow> sql_value \<Rightarrow> sql_value \<Rightarrow> sql_value result" where
  "equal_values X (Boolean a) (Boolean b) = Ok (Boolean (a = b))"
| "equal_values X (Integer a) (Integer b) = Ok (Boolean (a = b))"
| "equal_values X (Integer a) (Float b) = Ok (Boolean (f64_eq (fp_of_i64 X a) b))"
| "equal_values X (Float a) (Integer b) = Ok (Boolean (f64_eq a (fp_of_i64 X b)))"
| "equal_values X (Float a) (Float b) = Ok (Boolean (f64_eq a b))"
| "equal_values X (String a) (String b) = Ok (Boolean (a = b))"
| "equal_values X Null _ = Ok Null"
| "equal_values X _ Null = Ok Null"
| "equal_values X a b = Err (Value ''Can't compare {} and {}'')"

fun greater_values :: "sql_env \<Rightarrow> sql_value \<Rightarrow> sql_value \<Rightarrow> sql_value result" where
  "greater_values X (Boolean a) (Boolean b) = Ok (Boolean (b < a))"
| "greater_values X (Integer a) (Integer b) = Ok (Boolean (i64_less b a))"
| "greater_values X (Integer a) (Float b) = Ok (Boolean (f64_lt b (fp_of_i64 X a)))"
| "greater_values X (Float a) (Integer b) = Ok (Boolean (f64_lt (fp_of_i64 X b) a))"
| "greater_values X (Float a) (Float b) = Ok (Boolean (f64_lt b a))"
| "greater_values X (String a) (String b) = Ok (Boolean (b < a))"
| "greater_values X Null _ = Ok Null"
| "greater_values X _ Null = Ok Null"
| "greater_values X a b = Err (Value ''Can't compare {} and {}'')"

fun less_values :: "sql_env \<Rightarrow> sql_value \<Rightarrow> sql_value \<Rightarrow> sql_value result" where
  "less_values X (Boolean a) (Boolean b) = Ok (Boolean (a < b))"
| "less_values X (Integer a) (Integer b) = Ok (Boolean (i64_less a b))"
| "less_values X (Integer a) (Float b) = Ok (Boolean (f64_lt (fp_of_i64 X a) b))"
| "less_values X (Float a) (Integer b) = Ok (Boolean (f64_lt a (fp_of_i64 X b)))"
| "less_values X (Float a) (Float b) = Ok (Boolean (f64_lt a b))"
| "less_values X (String a) (String b) = Ok (Boolean (a < b))"
| "less_values X Null _ = Ok Null"
| "less_values X _ Null = Ok Null"
| "less_values X a b = Err (Value ''Can't compare {} and {}'')"

fun is_null_value :: "sql_value \<Rightarrow> sql_value result" where
  "is_null_value Null = Ok (Boolean True)"
| "is_null_value _ = Ok (Boolean False)"

text \<open>The result of an integer operation that fits an \<open>i64\<close>: \<^verbatim>\<open>checked_add\<close> and the like, with the error
  that the source makes of \<open>None\<close>, and plain operators, which panic.\<close>

definition fits_i64 :: "int \<Rightarrow> bool" where
  "fits_i64 n \<longleftrightarrow> - (2 ^ 63) \<le> n \<and> n < 2 ^ 63"

definition checked_i64 :: "int \<Rightarrow> sql_value result" where
  "checked_i64 n = (if fits_i64 n then Ok (Integer (of_int n)) else Err (Value ''Integer overflow''))"

definition plain_i64 :: "string \<Rightarrow> int \<Rightarrow> sql_value result" where
  "plain_i64 msg n = (if fits_i64 n then Ok (Integer (of_int n)) else Panic msg)"

text \<open>The arms that the arithmetic operators share: nulls, and the error for other types.\<close>

fun numeric :: "sql_value \<Rightarrow> bool" where
  "numeric Null = True"
| "numeric (Integer _) = True"
| "numeric (Float _) = True"
| "numeric _ = False"

definition null_operand :: "string \<Rightarrow> sql_value \<Rightarrow> sql_value \<Rightarrow> sql_value result" where
  "null_operand msg a b = (if numeric a \<and> numeric b \<and> (a = Null \<or> b = Null) then Ok Null else Err (Value msg))"

fun add_values :: "sql_env \<Rightarrow> sql_value \<Rightarrow> sql_value \<Rightarrow> sql_value result" where
  "add_values X (Integer a) (Integer b) = checked_i64 (sint a + sint b)"
| "add_values X (Integer a) (Float b) = Ok (Float (fp_add X (fp_of_i64 X a) b))"
| "add_values X (Float a) (Float b) = Ok (Float (fp_add X a b))"
| "add_values X (Float a) (Integer b) = Ok (Float (fp_add X a (fp_of_i64 X b)))"
| "add_values X a b = null_operand ''Can't add {} and {}'' a b"

fun assert_value :: "sql_value \<Rightarrow> sql_value result" where
  "assert_value (Float f) = Ok (Float f)"
| "assert_value (Integer i) = Ok (Integer i)"
| "assert_value Null = Ok Null"
| "assert_value v = Err (Value ''Can't take the positive of {}'')"

fun divide_values :: "sql_env \<Rightarrow> sql_value \<Rightarrow> sql_value \<Rightarrow> sql_value result" where
  "divide_values X (Integer a) (Integer b) =
     (if b = 0 then Err (Value ''Can't divide by zero'')
      else plain_i64 ''attempt to divide with overflow'' (sint a sdiv sint b))"
| "divide_values X (Integer a) (Float b) = Ok (Float (fp_div X (fp_of_i64 X a) b))"
| "divide_values X (Float a) (Integer b) = Ok (Float (fp_div X a (fp_of_i64 X b)))"
| "divide_values X (Float a) (Float b) = Ok (Float (fp_div X a b))"
| "divide_values X a b = null_operand ''Can't divide {} and {}'' a b"

text \<open>The casts \<^verbatim>\<open>rhs as u32\<close> and \<^verbatim>\<open>rhs as i32\<close> keep the low 32 bits.\<close>

fun exponentiate_values :: "sql_env \<Rightarrow> sql_value \<Rightarrow> sql_value \<Rightarrow> sql_value result" where
  "exponentiate_values X (Integer a) (Integer b) =
     (if 0 \<le> sint b then checked_i64 (sint a ^ unat (ucast b :: u32))
      else Ok (Float (fp_powf X (fp_of_i64 X a) (fp_of_i64 X b))))"
| "exponentiate_values X (Integer a) (Float b) = Ok (Float (fp_powf X (fp_of_i64 X a) b))"
| "exponentiate_values X (Float a) (Integer b) = Ok (Float (fp_powi X a (ucast b)))"
| "exponentiate_values X (Float a) (Float b) = Ok (Float (fp_powf X a b))"
| "exponentiate_values X a b = null_operand ''Can't exponentiate {} and {}'' a b"

text \<open>\<^verbatim>\<open>(1..=i).product()\<close>: the factors left, the next factor and the product so far.\<close>

fun product_loop :: "nat \<Rightarrow> int \<Rightarrow> int \<Rightarrow> sql_value result" where
  "product_loop 0 i acc = Ok (Integer (of_int acc))"
| "product_loop (Suc n) i acc =
     (if fits_i64 (acc * i) then product_loop n (i + 1) (acc * i)
      else Panic ''attempt to multiply with overflow'')"

fun factorial_value :: "sql_value \<Rightarrow> sql_value result" where
  "factorial_value (Integer i) =
     (if sint i < 0 then Err (Value ''Can't take factorial of negative number'')
      else product_loop (nat (sint i)) 1 1)"
| "factorial_value Null = Ok Null"
| "factorial_value v = Err (Value ''Can't take factorial of {}'')"

text \<open>The remainder panics where the quotient overflows.\<close>

fun modulo_values :: "sql_env \<Rightarrow> sql_value \<Rightarrow> sql_value \<Rightarrow> sql_value result" where
  "modulo_values X (Integer a) (Integer b) =
     (if b = 0 then Err (Value ''Can't divide by zero'')
      else if fits_i64 (sint a sdiv sint b) then Ok (Integer (of_int (sint a smod sint b)))
      else Panic ''attempt to calculate the remainder with overflow'')"
| "modulo_values X (Integer a) (Float b) = Ok (Float (fp_rem X (fp_of_i64 X a) b))"
| "modulo_values X (Float a) (Integer b) = Ok (Float (fp_rem X a (fp_of_i64 X b)))"
| "modulo_values X (Float a) (Float b) = Ok (Float (fp_rem X a b))"
| "modulo_values X a b = null_operand ''Can't take modulo of {} and {}'' a b"

fun multiply_values :: "sql_env \<Rightarrow> sql_value \<Rightarrow> sql_value \<Rightarrow> sql_value result" where
  "multiply_values X (Integer a) (Integer b) = checked_i64 (sint a * sint b)"
| "multiply_values X (Integer a) (Float b) = Ok (Float (fp_mul X (fp_of_i64 X a) b))"
| "multiply_values X (Float a) (Integer b) = Ok (Float (fp_mul X a (fp_of_i64 X b)))"
| "multiply_values X (Float a) (Float b) = Ok (Float (fp_mul X a b))"
| "multiply_values X a b = null_operand ''Can't multiply {} and {}'' a b"

fun negate_value :: "sql_value \<Rightarrow> sql_value result" where
  "negate_value (Integer i) = plain_i64 ''attempt to negate with overflow'' (- sint i)"
| "negate_value (Float f) = Ok (Float (f64_neg f))"
| "negate_value Null = Ok Null"
| "negate_value v = Err (Value ''Can't negate {}'')"

fun subtract_values :: "sql_env \<Rightarrow> sql_value \<Rightarrow> sql_value \<Rightarrow> sql_value result" where
  "subtract_values X (Integer a) (Integer b) = checked_i64 (sint a - sint b)"
| "subtract_values X (Integer a) (Float b) = Ok (Float (fp_sub X (fp_of_i64 X a) b))"
| "subtract_values X (Float a) (Integer b) = Ok (Float (fp_sub X a (fp_of_i64 X b)))"
| "subtract_values X (Float a) (Float b) = Ok (Float (fp_sub X a b))"
| "subtract_values X a b = null_operand ''Can't subtract {} and {}'' a b"

text \<open>\<^verbatim>\<open>str::replace\<close>, for a pattern that is not empty.\<close>

function replace_all :: "bytes \<Rightarrow> bytes \<Rightarrow> bytes \<Rightarrow> bytes" where
  "replace_all pat new [] = []"
| "replace_all pat new (b # s) =
     (if pat \<noteq> [] \<and> prefix pat (b # s) then new @ replace_all pat new (drop (length pat) (b # s))
      else b # replace_all pat new s)"
  by pat_completeness auto
termination
  by (relation "measure (\<lambda>(pat, new, s). length s)") (auto simp: prefix_def)

definition like_pattern :: "sql_env \<Rightarrow> bytes \<Rightarrow> bytes" where
  "like_pattern X rhs = ascii ''^'' @
     replace_all (ascii ''..'') (ascii ''_'') (replace_all (ascii ''_'') (ascii ''.'')
       (replace_all (ascii ''.*.*'') (ascii ''%'') (replace_all (ascii ''%'') (ascii ''.*'') (regex_escape X rhs))))
     @ ascii ''$''"

fun like_values :: "sql_env \<Rightarrow> sql_value \<Rightarrow> sql_value \<Rightarrow> sql_value result" where
  "like_values X (String a) (String b) = map_result Boolean (regex_match X (like_pattern X b) a)"
| "like_values X (String a) Null = Ok Null"
| "like_values X Null (String b) = Ok Null"
| "like_values X a b = Err (Value ''Can't LIKE {} and {}'')"

definition field_value :: "row option \<Rightarrow> nat \<Rightarrow> sql_value" where
  "field_value r i = (case r of Some row \<Rightarrow> if i < length row then row ! i else Null | None \<Rightarrow> Null)"

definition eval1 :: "(sql_value \<Rightarrow> sql_value result) \<Rightarrow> sql_value result \<Rightarrow> sql_value result" where
  "eval1 f e = bind_r e f"

definition eval2 :: "(sql_value \<Rightarrow> sql_value \<Rightarrow> sql_value result) \<Rightarrow> sql_value result \<Rightarrow> sql_value result \<Rightarrow>
    sql_value result" where
  "eval2 f l r = bind_r l (\<lambda>a. bind_r r (f a))"

fun evaluate :: "sql_env \<Rightarrow> row option \<Rightarrow> expr \<Rightarrow> sql_value result" where
  "evaluate X row (Constant c) = Ok c"
| "evaluate X row (Field i label) = Ok (field_value row i)"
| "evaluate X row (And l r) = eval2 and_values (evaluate X row l) (evaluate X row r)"
| "evaluate X row (Not e) = eval1 not_value (evaluate X row e)"
| "evaluate X row (Or l r) = eval2 or_values (evaluate X row l) (evaluate X row r)"
| "evaluate X row (Equal l r) = eval2 (equal_values X) (evaluate X row l) (evaluate X row r)"
| "evaluate X row (GreaterThan l r) = eval2 (greater_values X) (evaluate X row l) (evaluate X row r)"
| "evaluate X row (IsNull e) = eval1 is_null_value (evaluate X row e)"
| "evaluate X row (LessThan l r) = eval2 (less_values X) (evaluate X row l) (evaluate X row r)"
| "evaluate X row (Add l r) = eval2 (add_values X) (evaluate X row l) (evaluate X row r)"
| "evaluate X row (Assert e) = eval1 assert_value (evaluate X row e)"
| "evaluate X row (Divide l r) = eval2 (divide_values X) (evaluate X row l) (evaluate X row r)"
| "evaluate X row (Exponentiate l r) = eval2 (exponentiate_values X) (evaluate X row l) (evaluate X row r)"
| "evaluate X row (Factorial e) = eval1 factorial_value (evaluate X row e)"
| "evaluate X row (Modulo l r) = eval2 (modulo_values X) (evaluate X row l) (evaluate X row r)"
| "evaluate X row (Multiply l r) = eval2 (multiply_values X) (evaluate X row l) (evaluate X row r)"
| "evaluate X row (Negate e) = eval1 negate_value (evaluate X row e)"
| "evaluate X row (Subtract l r) = eval2 (subtract_values X) (evaluate X row l) (evaluate X row r)"
| "evaluate X row (Like l r) = eval2 (like_values X) (evaluate X row l) (evaluate X row r)"

section \<open>Walking and transforming\<close>

text \<open>The arms of \<open>transform\<close> and \<open>walk\<close>: the children of an expression, and the expression with other
  children in their place.\<close>

fun children :: "expr \<Rightarrow> expr list" where
  "children (Constant c) = []"
| "children (Field i label) = []"
| "children (And l r) = [l, r]"
| "children (Not e) = [e]"
| "children (Or l r) = [l, r]"
| "children (Equal l r) = [l, r]"
| "children (GreaterThan l r) = [l, r]"
| "children (IsNull e) = [e]"
| "children (LessThan l r) = [l, r]"
| "children (Add l r) = [l, r]"
| "children (Assert e) = [e]"
| "children (Divide l r) = [l, r]"
| "children (Exponentiate l r) = [l, r]"
| "children (Factorial e) = [e]"
| "children (Modulo l r) = [l, r]"
| "children (Multiply l r) = [l, r]"
| "children (Negate e) = [e]"
| "children (Subtract l r) = [l, r]"
| "children (Like l r) = [l, r]"

definition with_children :: "expr \<Rightarrow> expr list \<Rightarrow> expr" where
  "with_children e cs = (case e of
      Constant c \<Rightarrow> Constant c
    | Field i label \<Rightarrow> Field i label
    | And _ _ \<Rightarrow> And (cs ! 0) (cs ! 1)
    | Not _ \<Rightarrow> Not (cs ! 0)
    | Or _ _ \<Rightarrow> Or (cs ! 0) (cs ! 1)
    | Equal _ _ \<Rightarrow> Equal (cs ! 0) (cs ! 1)
    | GreaterThan _ _ \<Rightarrow> GreaterThan (cs ! 0) (cs ! 1)
    | IsNull _ \<Rightarrow> IsNull (cs ! 0)
    | LessThan _ _ \<Rightarrow> LessThan (cs ! 0) (cs ! 1)
    | Add _ _ \<Rightarrow> Add (cs ! 0) (cs ! 1)
    | Assert _ \<Rightarrow> Assert (cs ! 0)
    | Divide _ _ \<Rightarrow> Divide (cs ! 0) (cs ! 1)
    | Exponentiate _ _ \<Rightarrow> Exponentiate (cs ! 0) (cs ! 1)
    | Factorial _ \<Rightarrow> Factorial (cs ! 0)
    | Modulo _ _ \<Rightarrow> Modulo (cs ! 0) (cs ! 1)
    | Multiply _ _ \<Rightarrow> Multiply (cs ! 0) (cs ! 1)
    | Negate _ \<Rightarrow> Negate (cs ! 0)
    | Subtract _ _ \<Rightarrow> Subtract (cs ! 0) (cs ! 1)
    | Like _ _ \<Rightarrow> Like (cs ! 0) (cs ! 1))"

lemma children_size: "c \<in> set (children e) \<Longrightarrow> size c < size e"
  by (cases e) auto

function walk :: "(expr \<Rightarrow> bool) \<Rightarrow> expr \<Rightarrow> bool" where
  "walk visitor e \<longleftrightarrow> visitor e \<and> (\<forall>c \<in> set (children e). walk visitor c)"
  by pat_completeness auto
termination
  by (relation "measure (\<lambda>(visitor, e). size e)") (auto simp: children_size)

declare walk.simps [simp del]

definition expr_contains :: "(expr \<Rightarrow> bool) \<Rightarrow> expr \<Rightarrow> bool" where
  "expr_contains visitor e \<longleftrightarrow> \<not> walk (\<lambda>e. \<not> visitor e) e"

text \<open>A computation that may fail and may not return.\<close>

definition bind_ro :: "'a result option \<Rightarrow> ('a \<Rightarrow> 'b result option) \<Rightarrow> 'b result option" where
  "bind_ro m f = Option.bind m (\<lambda>r. case r of Ok a \<Rightarrow> f a | Err e \<Rightarrow> Some (Err e) | Panic p \<Rightarrow> Some (Panic p))"

lemma bind_ro_mono [partial_function_mono]:
  assumes "mono_option B" "\<And>y. mono_option (\<lambda>f. C y f)"
  shows "mono_option (\<lambda>f. bind_ro (B f) (\<lambda>y. C y f))"
  unfolding bind_ro_def
proof (intro bind_mono assms(1))
  show "mono_option (\<lambda>f. case r of Ok a \<Rightarrow> C a f | Err e \<Rightarrow> Some (Err e) | Panic p \<Rightarrow> Some (Panic p))" for r
    by (cases r) (simp_all add: assms(2) option.const_mono)
qed

partial_function (option) transform :: "(expr \<Rightarrow> expr result) \<Rightarrow> (expr \<Rightarrow> expr result) \<Rightarrow> expr \<Rightarrow> expr result option" where
  "transform before after e0 =
     bind_ro (Some (before e0)) (\<lambda>e. case children e of
        [l, r] \<Rightarrow> bind_ro (transform before after l) (\<lambda>l'. bind_ro (transform before after r) (\<lambda>r'.
          Some (after (with_children e [l', r']))))
      | [c] \<Rightarrow> bind_ro (transform before after c) (\<lambda>c'. Some (after (with_children e [c'])))
      | _ \<Rightarrow> Some (after e))"

text \<open>\<^verbatim>\<open>unwrap\<close>.\<close>

fun unwrap_result :: "'a result \<Rightarrow> 'a result" where
  "unwrap_result (Ok a) = Ok a"
| "unwrap_result (Err e) = Panic ''called `Result::unwrap()` on an `Err` value: {:?}''"
| "unwrap_result (Panic p) = Panic p"

definition nnf_rule :: "expr \<Rightarrow> expr result" where
  "nnf_rule e = (case e of
      Not inner \<Rightarrow> (case inner of
          And l r \<Rightarrow> Ok (Or (Not l) (Not r))
        | Or l r \<Rightarrow> Ok (And (Not l) (Not r))
        | Not inner \<Rightarrow> Ok inner
        | _ \<Rightarrow> Ok (Not inner))
    | _ \<Rightarrow> Ok e)"

definition into_nnf :: "expr \<Rightarrow> expr result option" where
  "into_nnf e = map_option unwrap_result (transform nnf_rule Ok e)"

definition cnf_rule :: "expr \<Rightarrow> expr result" where
  "cnf_rule e = (case e of
      Or l r \<Rightarrow> (case l of
          And ll lr \<Rightarrow> Ok (And (Or ll r) (Or lr r))
        | _ \<Rightarrow> (case r of
              And rl rr \<Rightarrow> Ok (And (Or l rl) (Or l rr))
            | _ \<Rightarrow> Ok (Or l r)))
    | _ \<Rightarrow> Ok e)"

definition into_cnf :: "expr \<Rightarrow> expr result option" where
  "into_cnf e = bind_ro (into_nnf e) (\<lambda>e. map_option unwrap_result (transform cnf_rule Ok e))"

text \<open>The loop of \<open>into_cnf_vec\<close>: the stack, its top first, and the conjuncts so far.\<close>

function cnf_loop :: "expr list \<Rightarrow> expr list \<Rightarrow> expr list" where
  "cnf_loop [] cnf = cnf"
| "cnf_loop (e # stack) cnf = (case e of
      And l r \<Rightarrow> cnf_loop (l # r # stack) cnf
    | _ \<Rightarrow> cnf_loop stack (cnf @ [e]))"
  by pat_completeness auto
termination
  by (relation "measure (\<lambda>(stack, cnf). sum_list (map (\<lambda>e. Suc (2 * size e)) stack))") auto

definition into_cnf_vec :: "expr \<Rightarrow> expr list result option" where
  "into_cnf_vec e = bind_ro (into_cnf e) (\<lambda>e. Some (Ok (cnf_loop [e] [])))"

definition dnf_rule :: "expr \<Rightarrow> expr result" where
  "dnf_rule e = (case e of
      And l r \<Rightarrow> (case l of
          Or ll lr \<Rightarrow> Ok (Or (And ll r) (And lr r))
        | _ \<Rightarrow> (case r of
              Or rl rr \<Rightarrow> Ok (Or (And l rl) (And l rr))
            | _ \<Rightarrow> Ok (And l r)))
    | _ \<Rightarrow> Ok e)"

definition into_dnf :: "expr \<Rightarrow> expr result option" where
  "into_dnf e = bind_ro (into_nnf e) (\<lambda>e. map_option unwrap_result (transform dnf_rule Ok e))"

function dnf_loop :: "expr list \<Rightarrow> expr list \<Rightarrow> expr list" where
  "dnf_loop [] dnf = dnf"
| "dnf_loop (e # stack) dnf = (case e of
      Or l r \<Rightarrow> dnf_loop (l # r # stack) dnf
    | _ \<Rightarrow> dnf_loop stack (dnf @ [e]))"
  by pat_completeness auto
termination
  by (relation "measure (\<lambda>(stack, dnf). sum_list (map (\<lambda>e. Suc (2 * size e)) stack))") auto

definition into_dnf_vec :: "expr \<Rightarrow> expr list result option" where
  "into_dnf_vec e = bind_ro (into_dnf e) (\<lambda>e. Some (Ok (dnf_loop [e] [])))"

fun from_cnf_vec :: "expr list \<Rightarrow> expr option" where
  "from_cnf_vec [] = None"
| "from_cnf_vec (e # es) = Some (foldl And e es)"

fun from_dnf_vec :: "expr list \<Rightarrow> expr option" where
  "from_dnf_vec [] = None"
| "from_dnf_vec (e # es) = Some (foldl Or e es)"

section \<open>Lookups\<close>

fun as_lookup :: "nat \<Rightarrow> expr \<Rightarrow> sql_value list option" where
  "as_lookup field (Equal l r) = (case l of
      Field i _ \<Rightarrow> (case r of Constant v \<Rightarrow> if i = field then Some [v] else None | _ \<Rightarrow> None)
    | Constant v \<Rightarrow> (case r of Field i _ \<Rightarrow> if i = field then Some [v] else None | _ \<Rightarrow> None)
    | _ \<Rightarrow> None)"
| "as_lookup field (IsNull e) = (case e of Field i _ \<Rightarrow> if i = field then Some [Null] else None | _ \<Rightarrow> None)"
| "as_lookup field (Or l r) = (case (as_lookup field l, as_lookup field r) of
      (Some lvalues, Some rvalues) \<Rightarrow> Some (lvalues @ rvalues)
    | _ \<Rightarrow> None)"
| "as_lookup field _ = None"

definition from_lookup :: "nat \<Rightarrow> field_label \<Rightarrow> sql_value list \<Rightarrow> expr result" where
  "from_lookup field label vs =
     (if vs = [] then Ok (Equal (Field field label) (Constant Null))
      else case from_dnf_vec (map (\<lambda>v. Equal (Field field label) (Constant v)) vs) of
        Some e \<Rightarrow> Ok e
      | None \<Rightarrow> Panic ''called `Option::unwrap()` on a `None` value'')"

section \<open>Printing\<close>

fun show_expr :: "sql_env \<Rightarrow> expr \<Rightarrow> bytes" where
  "show_expr X (Constant v) = show_value X v"
| "show_expr X (Field i None) = ascii ''#'' @ digits 20 i"
| "show_expr X (Field i (Some (None, name))) = name"
| "show_expr X (Field i (Some (Some table, name))) = table @ ascii ''.'' @ name"
| "show_expr X (And l r) = show_expr X l @ ascii '' AND '' @ show_expr X r"
| "show_expr X (Or l r) = show_expr X l @ ascii '' OR '' @ show_expr X r"
| "show_expr X (Not e) = ascii ''NOT '' @ show_expr X e"
| "show_expr X (Equal l r) = show_expr X l @ ascii '' = '' @ show_expr X r"
| "show_expr X (GreaterThan l r) = show_expr X l @ ascii '' > '' @ show_expr X r"
| "show_expr X (LessThan l r) = show_expr X l @ ascii '' < '' @ show_expr X r"
| "show_expr X (IsNull e) = show_expr X e @ ascii '' IS NULL''"
| "show_expr X (Add l r) = show_expr X l @ ascii '' + '' @ show_expr X r"
| "show_expr X (Assert e) = show_expr X e"
| "show_expr X (Divide l r) = show_expr X l @ ascii '' / '' @ show_expr X r"
| "show_expr X (Exponentiate l r) = show_expr X l @ ascii '' ^ '' @ show_expr X r"
| "show_expr X (Factorial e) = ascii ''!'' @ show_expr X e"
| "show_expr X (Modulo l r) = show_expr X l @ ascii '' % '' @ show_expr X r"
| "show_expr X (Multiply l r) = show_expr X l @ ascii '' * '' @ show_expr X r"
| "show_expr X (Negate e) = ascii ''-'' @ show_expr X e"
| "show_expr X (Subtract l r) = show_expr X l @ ascii '' - '' @ show_expr X r"
| "show_expr X (Like l r) = show_expr X l @ ascii '' LIKE '' @ show_expr X r"

end
