(* ===== verification/Sql_Normal_Form.thy ===== *)
theory Sql_Normal_Form
  imports Sql_Expression
begin

text \<open>
  Normal forms of expressions.  A rewrite that \<open>transform\<close> applies on the way down is described by the
  locale \<open>rewriting\<close>: it never fails, what it leaves to descend into is lighter than what it was given,
  and it keeps the value of every expression that has one.  Then the transformation returns, and keeps
  the value too.  The rewrites of \<open>into_nnf\<close>, \<open>into_cnf\<close> and \<open>into_dnf\<close> are interpretations.
\<close>

section \<open>Evaluation\<close>

lemma eval1_Ok: "eval1 f e = Ok v \<longleftrightarrow> (\<exists>a. e = Ok a \<and> f a = Ok v)"
  by (simp add: eval1_def bind_r_eq_Ok)

lemma eval2_Ok: "eval2 f l r = Ok v \<longleftrightarrow> (\<exists>a b. l = Ok a \<and> r = Ok b \<and> f a b = Ok v)"
  by (auto simp: eval2_def bind_r_eq_Ok)

lemma bind_ro_simps [simp]:
  "bind_ro (Some (Ok a)) f = f a" "bind_ro (Some (Err e)) f = Some (Err e)" "bind_ro (Some (Panic p)) f = Some (Panic p)"
  "bind_ro None f = None"
  by (simp_all add: bind_ro_def)

definition keeps_value :: "expr \<Rightarrow> expr \<Rightarrow> bool" where
  "keeps_value e e' \<longleftrightarrow> (\<forall>X row v. evaluate X row e = Ok v \<longrightarrow> evaluate X row e' = Ok v)"

lemma keeps_value_refl [simp]: "keeps_value e e"
  by (simp add: keeps_value_def)

lemma keeps_value_trans [trans]: "keeps_value a b \<Longrightarrow> keeps_value b c \<Longrightarrow> keeps_value a c"
  by (simp add: keeps_value_def)

lemma children_cases:
  obtains "children e = []" | c where "children e = [c]" | l r where "children e = [l, r]"
  by (cases e) auto

lemma with_children_keeps:
  assumes "list_all2 keeps_value (children e) cs"
  shows "keeps_value e (with_children e cs)"
  using assms unfolding keeps_value_def
  by (cases e) (auto simp: with_children_def list_all2_Cons1 eval1_Ok eval2_Ok; blast)+

section \<open>Rewriting on the way down\<close>

locale rewriting =
  fixes rule :: "expr \<Rightarrow> expr result" and weight :: "expr \<Rightarrow> nat"
  assumes rule_returns: "\<exists>e'. rule e = Ok e'"
    and rule_descends: "rule e = Ok e' \<Longrightarrow> c \<in> set (children e') \<Longrightarrow> weight c < weight e"
    and rule_keeps: "rule e = Ok e' \<Longrightarrow> keeps_value e e'"
begin

lemma transform_keeps: "\<exists>e'. transform rule Ok e = Some (Ok e') \<and> keeps_value e e'"
proof (induction "weight e" arbitrary: e rule: less_induct)
  case less
  obtain e1 where e1: "rule e = Ok e1" using rule_returns by blast
  have IH: "\<exists>c'. transform rule Ok c = Some (Ok c') \<and> keeps_value c c'" if "c \<in> set (children e1)" for c
    using less rule_descends [OF e1 that] by blast
  note unfold = transform.simps [of rule Ok e] e1
  show ?case
  proof (cases rule: children_cases [of e1])
    case 1
    then show ?thesis using rule_keeps [OF e1] by (simp add: unfold)
  next
    case (2 c)
    obtain c' where c': "transform rule Ok c = Some (Ok c')" "keeps_value c c'" using IH 2 by auto
    then have "keeps_value e1 (with_children e1 [c'])" using 2 by (intro with_children_keeps) simp
    then show ?thesis using 2 c'(1) rule_keeps [OF e1] by (auto simp: unfold intro: keeps_value_trans)
  next
    case (3 l r)
    obtain l' where l': "transform rule Ok l = Some (Ok l')" "keeps_value l l'" using IH 3 by auto
    obtain r' where r': "transform rule Ok r = Some (Ok r')" "keeps_value r r'" using IH 3 by auto
    have "keeps_value e1 (with_children e1 [l', r'])" using 3 l' r' by (intro with_children_keeps) simp
    then show ?thesis using 3 l'(1) r'(1) rule_keeps [OF e1] by (auto simp: unfold intro: keeps_value_trans)
  qed
qed

end

section \<open>The rewrites of the source\<close>

text \<open>Weights under which the distributed copies are lighter than the expression they come from.\<close>

fun cnf_weight :: "expr \<Rightarrow> nat" where
  "cnf_weight (And l r) = cnf_weight l + cnf_weight r + 1"
| "cnf_weight (Or l r) = cnf_weight l * cnf_weight r"
| "cnf_weight (Constant _) = 2"
| "cnf_weight (Field _ _) = 2"
| "cnf_weight (Not e) = cnf_weight e + 1"
| "cnf_weight (Equal l r) = cnf_weight l + cnf_weight r"
| "cnf_weight (GreaterThan l r) = cnf_weight l + cnf_weight r"
| "cnf_weight (IsNull e) = cnf_weight e + 1"
| "cnf_weight (LessThan l r) = cnf_weight l + cnf_weight r"
| "cnf_weight (Add l r) = cnf_weight l + cnf_weight r"
| "cnf_weight (Assert e) = cnf_weight e + 1"
| "cnf_weight (Divide l r) = cnf_weight l + cnf_weight r"
| "cnf_weight (Exponentiate l r) = cnf_weight l + cnf_weight r"
| "cnf_weight (Factorial e) = cnf_weight e + 1"
| "cnf_weight (Modulo l r) = cnf_weight l + cnf_weight r"
| "cnf_weight (Multiply l r) = cnf_weight l + cnf_weight r"
| "cnf_weight (Negate e) = cnf_weight e + 1"
| "cnf_weight (Subtract l r) = cnf_weight l + cnf_weight r"
| "cnf_weight (Like l r) = cnf_weight l + cnf_weight r"

fun swap_and_or :: "expr \<Rightarrow> expr" where
  "swap_and_or (And l r) = Or (swap_and_or l) (swap_and_or r)"
| "swap_and_or (Or l r) = And (swap_and_or l) (swap_and_or r)"
| "swap_and_or (Constant c) = Constant c"
| "swap_and_or (Field i l) = Field i l"
| "swap_and_or (Not e) = Not (swap_and_or e)"
| "swap_and_or (Equal l r) = Equal (swap_and_or l) (swap_and_or r)"
| "swap_and_or (GreaterThan l r) = GreaterThan (swap_and_or l) (swap_and_or r)"
| "swap_and_or (IsNull e) = IsNull (swap_and_or e)"
| "swap_and_or (LessThan l r) = LessThan (swap_and_or l) (swap_and_or r)"
| "swap_and_or (Add l r) = Add (swap_and_or l) (swap_and_or r)"
| "swap_and_or (Assert e) = Assert (swap_and_or e)"
| "swap_and_or (Divide l r) = Divide (swap_and_or l) (swap_and_or r)"
| "swap_and_or (Exponentiate l r) = Exponentiate (swap_and_or l) (swap_and_or r)"
| "swap_and_or (Factorial e) = Factorial (swap_and_or e)"
| "swap_and_or (Modulo l r) = Modulo (swap_and_or l) (swap_and_or r)"
| "swap_and_or (Multiply l r) = Multiply (swap_and_or l) (swap_and_or r)"
| "swap_and_or (Negate e) = Negate (swap_and_or e)"
| "swap_and_or (Subtract l r) = Subtract (swap_and_or l) (swap_and_or r)"
| "swap_and_or (Like l r) = Like (swap_and_or l) (swap_and_or r)"

definition dnf_weight :: "expr \<Rightarrow> nat" where
  "dnf_weight e = cnf_weight (swap_and_or e)"

lemma cnf_weight_ge: "2 \<le> cnf_weight e"
proof (induction e)
  case (Or l r)
  then have "2 * 2 \<le> cnf_weight l * cnf_weight r" by (intro mult_le_mono)
  then show ?case by simp
qed auto

lemma weight_less_product: "2 \<le> (b :: nat) \<Longrightarrow> 2 \<le> a \<Longrightarrow> a < a * b" "2 \<le> (b :: nat) \<Longrightarrow> 2 \<le> a \<Longrightarrow> a < b * a"
  by simp_all

lemma cnf_weight_pos [simp]: "0 < cnf_weight e"
  using cnf_weight_ge [of e] by simp

lemma children_lighter: "c \<in> set (children e) \<Longrightarrow> cnf_weight c < cnf_weight e"
  using cnf_weight_ge [of c] by (cases e) (auto simp: weight_less_product cnf_weight_ge)

lemma swap_children: "children (swap_and_or e) = map swap_and_or (children e)"
  by (cases e) simp_all

lemma children_lighter_dnf: "c \<in> set (children e) \<Longrightarrow> dnf_weight c < dnf_weight e"
  using children_lighter [of "swap_and_or c" "swap_and_or e"] by (simp add: dnf_weight_def swap_children)

lemma nnf_rule_cases:
  obtains l r where "e = Not (And l r)" "nnf_rule e = Ok (Or (Not l) (Not r))"
  | l r where "e = Not (Or l r)" "nnf_rule e = Ok (And (Not l) (Not r))"
  | e' where "e = Not (Not e')" "nnf_rule e = Ok e'"
  | "nnf_rule e = Ok e"
proof (cases e)
  case (Not e') then show thesis using that by (cases e') (simp_all add: nnf_rule_def)
qed (use that in \<open>simp_all add: nnf_rule_def\<close>)

lemma cnf_rule_cases:
  obtains a b r where "e = Or (And a b) r" "cnf_rule e = Ok (And (Or a r) (Or b r))"
  | l a b where "e = Or l (And a b)" "cnf_rule e = Ok (And (Or l a) (Or l b))"
  | "cnf_rule e = Ok e"
proof (cases e)
  case (Or l r) then show thesis using that by (cases l; cases r) (simp_all add: cnf_rule_def)
qed (use that in \<open>simp_all add: cnf_rule_def\<close>)

lemma dnf_rule_cases:
  obtains a b r where "e = And (Or a b) r" "dnf_rule e = Ok (Or (And a r) (And b r))"
  | l a b where "e = And l (Or a b)" "dnf_rule e = Ok (Or (And l a) (And l b))"
  | "dnf_rule e = Ok e"
proof (cases e)
  case (And l r) then show thesis using that by (cases l; cases r) (simp_all add: dnf_rule_def)
qed (use that in \<open>simp_all add: dnf_rule_def\<close>)

text \<open>The laws of three-valued logic behind the rewrites, on the values that the operators accept.\<close>

lemma not_and: "and_values a b = Ok c \<Longrightarrow> not_value c = Ok v \<Longrightarrow>
    \<exists>x y. not_value a = Ok x \<and> not_value b = Ok y \<and> or_values x y = Ok v"
  and not_or: "or_values a b = Ok c \<Longrightarrow> not_value c = Ok v \<Longrightarrow>
    \<exists>x y. not_value a = Ok x \<and> not_value b = Ok y \<and> and_values x y = Ok v"
  and not_not: "not_value a = Ok c \<Longrightarrow> not_value c = Ok v \<Longrightarrow> a = v"
  by (cases a; cases b; auto split: if_splits)+

lemma or_and: "and_values a b = Ok c \<Longrightarrow> or_values c r = Ok v \<Longrightarrow>
    \<exists>x y. or_values a r = Ok x \<and> or_values b r = Ok y \<and> and_values x y = Ok v"
  and and_or: "or_values a b = Ok c \<Longrightarrow> and_values c r = Ok v \<Longrightarrow>
    \<exists>x y. and_values a r = Ok x \<and> and_values b r = Ok y \<and> or_values x y = Ok v"
  and or_and_left: "and_values a b = Ok c \<Longrightarrow> or_values r c = Ok v \<Longrightarrow>
    \<exists>x y. or_values r a = Ok x \<and> or_values r b = Ok y \<and> and_values x y = Ok v"
  and and_or_left: "or_values a b = Ok c \<Longrightarrow> and_values r c = Ok v \<Longrightarrow>
    \<exists>x y. and_values r a = Ok x \<and> and_values r b = Ok y \<and> or_values x y = Ok v"
  by (cases a; cases b; cases r; auto split: if_splits)+

lemma keeps_valueI: "(\<And>X row v. evaluate X row e = Ok v \<Longrightarrow> evaluate X row e' = Ok v) \<Longrightarrow> keeps_value e e'"
  by (simp add: keeps_value_def)

lemma de_morgan:
  "keeps_value (Not (And l r)) (Or (Not l) (Not r))" "keeps_value (Not (Or l r)) (And (Not l) (Not r))"
  "keeps_value (Not (Not e)) e"
  by (intro keeps_valueI; clarsimp simp: eval1_Ok eval2_Ok; drule (1) not_and not_or not_not; clarsimp)+

lemma distribute:
  "keeps_value (Or (And a b) r) (And (Or a r) (Or b r))" "keeps_value (Or l (And a b)) (And (Or l a) (Or l b))"
  "keeps_value (And (Or a b) r) (Or (And a r) (And b r))" "keeps_value (And l (Or a b)) (Or (And l a) (And l b))"
  by (intro keeps_valueI; clarsimp simp: eval1_Ok eval2_Ok; drule (1) or_and or_and_left and_or and_or_left; clarsimp)+

lemma weight_distrib:
  "0 < (r :: nat) \<Longrightarrow> a * r < r + (a + b) * r" "0 < (r :: nat) \<Longrightarrow> b * r < r + (a + b) * r"
  "0 < (r :: nat) \<Longrightarrow> r * a < r + r * (a + b)" "0 < (r :: nat) \<Longrightarrow> r * b < r + r * (a + b)"
  by (simp_all add: algebra_simps)

interpretation nnf: rewriting nnf_rule size
proof
  fix e e' c
  show "\<exists>e'. nnf_rule e = Ok e'" by (cases rule: nnf_rule_cases [of e]) auto
  show "nnf_rule e = Ok e' \<Longrightarrow> c \<in> set (children e') \<Longrightarrow> size c < size e"
    by (cases rule: nnf_rule_cases [of e]) (auto dest!: children_size)
  show "nnf_rule e = Ok e' \<Longrightarrow> keeps_value e e'"
    by (cases rule: nnf_rule_cases [of e]) (auto simp: de_morgan)
qed

interpretation cnf: rewriting cnf_rule cnf_weight
proof
  fix e e' c
  show "\<exists>e'. cnf_rule e = Ok e'" by (cases rule: cnf_rule_cases [of e]) auto
  show "cnf_rule e = Ok e' \<Longrightarrow> c \<in> set (children e') \<Longrightarrow> cnf_weight c < cnf_weight e"
    by (cases rule: cnf_rule_cases [of e]) (auto simp: weight_distrib dest: children_lighter)
  show "cnf_rule e = Ok e' \<Longrightarrow> keeps_value e e'"
    by (cases rule: cnf_rule_cases [of e]) (auto simp: distribute)
qed

interpretation dnf: rewriting dnf_rule dnf_weight
proof
  fix e e' c
  show "\<exists>e'. dnf_rule e = Ok e'" by (cases rule: dnf_rule_cases [of e]) auto
  show "dnf_rule e = Ok e' \<Longrightarrow> c \<in> set (children e') \<Longrightarrow> dnf_weight c < dnf_weight e"
    by (cases rule: dnf_rule_cases [of e]) (auto simp: dnf_weight_def weight_distrib dest: children_lighter_dnf [unfolded dnf_weight_def])
  show "dnf_rule e = Ok e' \<Longrightarrow> keeps_value e e'"
    by (cases rule: dnf_rule_cases [of e]) (auto simp: distribute)
qed

lemma into_nnf_keeps: "\<exists>n. into_nnf e = Some (Ok n) \<and> keeps_value e n"
  using nnf.transform_keeps [of e] by (auto simp: into_nnf_def)

lemma into_cnf_keeps: "\<exists>c. into_cnf e = Some (Ok c) \<and> keeps_value e c"
proof -
  obtain n where n: "into_nnf e = Some (Ok n)" "keeps_value e n" using into_nnf_keeps by blast
  obtain c where "transform cnf_rule Ok n = Some (Ok c)" "keeps_value n c" using cnf.transform_keeps by blast
  with n show ?thesis by (auto simp: into_cnf_def intro: keeps_value_trans)
qed

lemma into_dnf_keeps: "\<exists>d. into_dnf e = Some (Ok d) \<and> keeps_value e d"
proof -
  obtain n where n: "into_nnf e = Some (Ok n)" "keeps_value e n" using into_nnf_keeps by blast
  obtain d where "transform dnf_rule Ok n = Some (Ok d)" "keeps_value n d" using dnf.transform_keeps by blast
  with n show ?thesis by (auto simp: into_dnf_def intro: keeps_value_trans)
qed

section \<open>Lists of conjuncts and disjuncts\<close>

fun conjuncts :: "expr \<Rightarrow> expr list" where
  "conjuncts (And l r) = conjuncts l @ conjuncts r"
| "conjuncts e = [e]"

fun disjuncts :: "expr \<Rightarrow> expr list" where
  "disjuncts (Or l r) = disjuncts l @ disjuncts r"
| "disjuncts e = [e]"

lemma cnf_loop_conjuncts: "cnf_loop stack cnf = cnf @ concat (map conjuncts stack)"
  by (induction stack cnf rule: cnf_loop.induct) (auto split: expr.split)

lemma dnf_loop_disjuncts: "dnf_loop stack dnf = dnf @ concat (map disjuncts stack)"
  by (induction stack dnf rule: dnf_loop.induct) (auto split: expr.split)

lemma and_assoc: "and_values a b = Ok c \<Longrightarrow> and_values x c = Ok v \<Longrightarrow> \<exists>y. and_values x a = Ok y \<and> and_values y b = Ok v"
  and or_assoc: "or_values a b = Ok c \<Longrightarrow> or_values x c = Ok v \<Longrightarrow> \<exists>y. or_values x a = Ok y \<and> or_values y b = Ok v"
  by (cases a; cases b; cases x; auto split: if_splits)+

lemma assoc_keeps:
  "keeps_value (And x (And a b)) (And (And x a) b)" "keeps_value (Or x (Or a b)) (Or (Or x a) b)"
  by (intro keeps_valueI; clarsimp simp: eval1_Ok eval2_Ok; drule (1) and_assoc or_assoc; clarsimp)+

lemma foldl_And_keeps: "keeps_value x y \<Longrightarrow> keeps_value (foldl And x es) (foldl And y es)"
proof (induction es arbitrary: x y)
  case (Cons e es)
  then have "keeps_value (And x e) (And y e)" unfolding keeps_value_def by (auto simp: eval2_Ok)
  with Cons show ?case by simp
qed simp

lemma foldl_Or_keeps: "keeps_value x y \<Longrightarrow> keeps_value (foldl Or x es) (foldl Or y es)"
proof (induction es arbitrary: x y)
  case (Cons e es)
  then have "keeps_value (Or x e) (Or y e)" unfolding keeps_value_def by (auto simp: eval2_Ok)
  with Cons show ?case by simp
qed simp

lemma conjuncts_keep: "keeps_value (foldl And (And x e) es) (foldl And x (conjuncts e @ es))"
proof (induction e arbitrary: x es rule: conjuncts.induct)
  case (1 l r)
  have "keeps_value (foldl And (And x (And l r)) es) (foldl And (And (And x l) r) es)"
    by (intro foldl_And_keeps assoc_keeps)
  also have "keeps_value \<dots> (foldl And (And x l) (conjuncts r @ es))" by (rule 1)
  also have "keeps_value \<dots> (foldl And x (conjuncts l @ conjuncts r @ es))" by (rule 1)
  finally show ?case by simp
qed simp_all

lemma disjuncts_keep: "keeps_value (foldl Or (Or x e) es) (foldl Or x (disjuncts e @ es))"
proof (induction e arbitrary: x es rule: disjuncts.induct)
  case (1 l r)
  have "keeps_value (foldl Or (Or x (Or l r)) es) (foldl Or (Or (Or x l) r) es)"
    by (intro foldl_Or_keeps assoc_keeps)
  also have "keeps_value \<dots> (foldl Or (Or x l) (disjuncts r @ es))" by (rule 1)
  also have "keeps_value \<dots> (foldl Or x (disjuncts l @ disjuncts r @ es))" by (rule 1)
  finally show ?case by simp
qed simp_all

lemma from_conjuncts: "\<exists>c. from_cnf_vec (conjuncts e @ es) = Some c \<and> keeps_value (foldl And e es) c"
proof (induction e arbitrary: es rule: conjuncts.induct)
  case (1 l r)
  then obtain c where "from_cnf_vec (conjuncts l @ conjuncts r @ es) = Some c"
    "keeps_value (foldl And l (conjuncts r @ es)) c" by blast
  then show ?case using conjuncts_keep [of l r es] by (auto intro: keeps_value_trans)
qed simp_all

lemma from_disjuncts: "\<exists>d. from_dnf_vec (disjuncts e @ es) = Some d \<and> keeps_value (foldl Or e es) d"
proof (induction e arbitrary: es rule: disjuncts.induct)
  case (1 l r)
  then obtain d where "from_dnf_vec (disjuncts l @ disjuncts r @ es) = Some d"
    "keeps_value (foldl Or l (disjuncts r @ es)) d" by blast
  then show ?case using disjuncts_keep [of l r es] by (auto intro: keeps_value_trans)
qed simp_all

lemma cnf_vec_keeps:
  "\<exists>cs c. into_cnf_vec e = Some (Ok cs) \<and> from_cnf_vec cs = Some c \<and> keeps_value e c"
proof -
  obtain n where "into_cnf e = Some (Ok n)" "keeps_value e n" using into_cnf_keeps by blast
  moreover obtain c where "from_cnf_vec (conjuncts n) = Some c" "keeps_value n c" using from_conjuncts [of n "[]"] by auto
  ultimately show ?thesis by (auto simp: into_cnf_vec_def cnf_loop_conjuncts intro: keeps_value_trans)
qed

lemma dnf_vec_keeps:
  "\<exists>ds d. into_dnf_vec e = Some (Ok ds) \<and> from_dnf_vec ds = Some d \<and> keeps_value e d"
proof -
  obtain n where "into_dnf e = Some (Ok n)" "keeps_value e n" using into_dnf_keeps by blast
  moreover obtain d where "from_dnf_vec (disjuncts n) = Some d" "keeps_value n d" using from_disjuncts [of n "[]"] by auto
  ultimately show ?thesis by (auto simp: into_dnf_vec_def dnf_loop_disjuncts intro: keeps_value_trans)
qed

section \<open>Properties\<close>

text \<open>(C33) The conversions to normal forms end on every expression and do not panic, although distributing
  duplicates subexpressions.\<close>

theorem sql_normal_forms_terminate:
  "\<exists>n c d cs ds. into_nnf e = Some (Ok n) \<and> into_cnf e = Some (Ok c) \<and> into_dnf e = Some (Ok d) \<and>
    into_cnf_vec e = Some (Ok cs) \<and> into_dnf_vec e = Some (Ok ds)"
  using into_nnf_keeps [of e] into_cnf_keeps [of e] into_dnf_keeps [of e] cnf_vec_keeps [of e] dnf_vec_keeps [of e]
  by blast

text \<open>(C13) Normal forms are equivalent to the expression they come from: where an expression has a value in a
  row, also null in three-valued logic, its negation, conjunctive and disjunctive normal forms and the
  expressions joined from its lists of conjuncts and of disjuncts have the same value.\<close>

theorem sql_normal_forms_equivalent:
  assumes "evaluate X row e = Ok v"
  shows "\<exists>n c d cs ds c' d'. into_nnf e = Some (Ok n) \<and> evaluate X row n = Ok v \<and>
    into_cnf e = Some (Ok c) \<and> evaluate X row c = Ok v \<and> into_dnf e = Some (Ok d) \<and> evaluate X row d = Ok v \<and>
    into_cnf_vec e = Some (Ok cs) \<and> from_cnf_vec cs = Some c' \<and> evaluate X row c' = Ok v \<and>
    into_dnf_vec e = Some (Ok ds) \<and> from_dnf_vec ds = Some d' \<and> evaluate X row d' = Ok v"
proof -
  obtain n where "into_nnf e = Some (Ok n)" "evaluate X row n = Ok v"
    using into_nnf_keeps [of e] assms unfolding keeps_value_def by blast
  moreover obtain c where "into_cnf e = Some (Ok c)" "evaluate X row c = Ok v"
    using into_cnf_keeps [of e] assms unfolding keeps_value_def by blast
  moreover obtain d where "into_dnf e = Some (Ok d)" "evaluate X row d = Ok v"
    using into_dnf_keeps [of e] assms unfolding keeps_value_def by blast
  moreover obtain cs c' where "into_cnf_vec e = Some (Ok cs)" "from_cnf_vec cs = Some c'" "evaluate X row c' = Ok v"
    using cnf_vec_keeps [of e] assms unfolding keeps_value_def by blast
  moreover obtain ds d' where "into_dnf_vec e = Some (Ok ds)" "from_dnf_vec ds = Some d'" "evaluate X row d' = Ok v"
    using dnf_vec_keeps [of e] assms unfolding keeps_value_def by blast
  ultimately show ?thesis by blast
qed

definition sample_expr :: expr where
  "sample_expr = Not (And (Or (Field 0 None) (Constant Null)) (And (Field 1 None) (IsNull (Field 2 None))))"

theorem sql_normal_forms_equivalent_witness:
  "\<exists>X row c. evaluate X row sample_expr = Ok (Boolean False) \<and> into_cnf sample_expr = Some (Ok c) \<and>
    evaluate X row c = Ok (Boolean False)"
proof -
  have "evaluate X (Some [Boolean True, Boolean True, Null]) sample_expr = Ok (Boolean False)" for X
    by (simp add: sample_expr_def eval1_def eval2_def field_value_def)
  from sql_normal_forms_equivalent [OF this] this show ?thesis by blast
qed

text \<open>The conversion to negation normal form stops short: it removes a double negation but does not look
  at what is left in its place, so that three negations of a conjunction leave one in front of it.
  Likewise the conversion to conjunctive normal form distributes on the way down only, and leaves an OR
  above the AND that a nested distribution brings up.\<close>

theorem sql_normal_forms_incomplete:
  "into_nnf (Not (Not (Not (And (Field 0 None) (Field 1 None))))) = Some (Ok (Not (And (Field 0 None) (Field 1 None)))) \<and>
   into_cnf (Or (Or (And (Field 0 None) (Field 1 None)) (Field 2 None)) (Field 3 None)) =
    Some (Ok (Or (And (Or (Field 0 None) (Field 2 None)) (Or (Field 1 None) (Field 2 None))) (Field 3 None)))"
  by (simp add: into_nnf_def into_cnf_def transform.simps nnf_rule_def cnf_rule_def with_children_def)

end
