(* ===== verification/Sql_Typing.thy ===== *)
theory Sql_Typing
  imports Sql_Normal_Form
begin

text \<open>
  What evaluating an expression can result in.  The source has no static types; \<open>has_type\<close> is the
  discipline that its operators' runtime checks follow, and the theorems relate the two: an expression
  that follows it in a row of the given column types fails only for arithmetic reasons, and panics
  only where a plain operator overflows.
\<close>

section \<open>Types of expressions\<close>

fun comparable :: "data_type \<Rightarrow> data_type \<Rightarrow> bool" where
  "comparable T_Integer T_Float = True"
| "comparable T_Float T_Integer = True"
| "comparable s t = (s = t)"

fun arith_type :: "data_type \<Rightarrow> data_type \<Rightarrow> data_type option" where
  "arith_type T_Integer T_Integer = Some T_Integer"
| "arith_type T_Integer T_Float = Some T_Float"
| "arith_type T_Float T_Integer = Some T_Float"
| "arith_type T_Float T_Float = Some T_Float"
| "arith_type _ _ = None"

definition is_a :: "sql_value \<Rightarrow> data_type \<Rightarrow> bool" where
  "is_a v t \<longleftrightarrow> datatype_of v = None \<or> datatype_of v = Some t"

inductive has_type :: "(nat \<Rightarrow> data_type) \<Rightarrow> expr \<Rightarrow> data_type \<Rightarrow> bool" for G where
  T_Const: "is_a c t \<Longrightarrow> has_type G (Constant c) t"
| T_Field: "has_type G (Field i label) (G i)"
| T_And: "has_type G l T_Boolean \<Longrightarrow> has_type G r T_Boolean \<Longrightarrow> has_type G (And l r) T_Boolean"
| T_Or: "has_type G l T_Boolean \<Longrightarrow> has_type G r T_Boolean \<Longrightarrow> has_type G (Or l r) T_Boolean"
| T_Not: "has_type G e T_Boolean \<Longrightarrow> has_type G (Not e) T_Boolean"
| T_IsNull: "has_type G e t \<Longrightarrow> has_type G (IsNull e) T_Boolean"
| T_Equal: "has_type G l s \<Longrightarrow> has_type G r t \<Longrightarrow> comparable s t \<Longrightarrow> has_type G (Equal l r) T_Boolean"
| T_Greater: "has_type G l s \<Longrightarrow> has_type G r t \<Longrightarrow> comparable s t \<Longrightarrow> has_type G (GreaterThan l r) T_Boolean"
| T_Less: "has_type G l s \<Longrightarrow> has_type G r t \<Longrightarrow> comparable s t \<Longrightarrow> has_type G (LessThan l r) T_Boolean"
| T_Add: "has_type G l s \<Longrightarrow> has_type G r t \<Longrightarrow> arith_type s t = Some u \<Longrightarrow> has_type G (Add l r) u"
| T_Subtract: "has_type G l s \<Longrightarrow> has_type G r t \<Longrightarrow> arith_type s t = Some u \<Longrightarrow> has_type G (Subtract l r) u"
| T_Multiply: "has_type G l s \<Longrightarrow> has_type G r t \<Longrightarrow> arith_type s t = Some u \<Longrightarrow> has_type G (Multiply l r) u"
| T_Divide: "has_type G l s \<Longrightarrow> has_type G r t \<Longrightarrow> arith_type s t = Some u \<Longrightarrow> has_type G (Divide l r) u"
| T_Modulo: "has_type G l s \<Longrightarrow> has_type G r t \<Longrightarrow> arith_type s t = Some u \<Longrightarrow> has_type G (Modulo l r) u"
| T_Power: "has_type G l s \<Longrightarrow> has_type G r t \<Longrightarrow> arith_type s t = Some T_Float \<Longrightarrow> has_type G (Exponentiate l r) T_Float"
| T_Assert: "has_type G e t \<Longrightarrow> arith_type t t = Some t \<Longrightarrow> has_type G (Assert e) t"
| T_Negate: "has_type G e t \<Longrightarrow> arith_type t t = Some t \<Longrightarrow> has_type G (Negate e) t"
| T_Factorial: "has_type G e T_Integer \<Longrightarrow> has_type G (Factorial e) T_Integer"
| T_Like: "has_type G l T_String \<Longrightarrow> has_type G r T_String \<Longrightarrow> has_type G (Like l r) T_Boolean"

text \<open>The errors of arithmetic, and the match of two nulls, which \<open>LIKE\<close> rejects.\<close>

definition typed_errors :: "string set" where
  "typed_errors = {''Integer overflow'', ''Can't divide by zero'', ''Can't take factorial of negative number'',
     ''Can't LIKE {} and {}''}"

definition overflow_panics :: "string set" where
  "overflow_panics = {''attempt to divide with overflow'', ''attempt to calculate the remainder with overflow'',
     ''attempt to multiply with overflow'', ''attempt to negate with overflow''}"

text \<open>What the regular expression crate makes of a pattern it rejects.\<close>

definition pattern_failure :: "sql_env \<Rightarrow> sql_value result \<Rightarrow> bool" where
  "pattern_failure X r \<longleftrightarrow> (\<exists>a b. map_result Boolean (regex_match X (like_pattern X b) a) = r) \<and> (\<nexists>v. r = Ok v)"

text \<open>The results that a typed expression may have.\<close>

definition typed_result :: "sql_env \<Rightarrow> data_type \<Rightarrow> sql_value result \<Rightarrow> bool" where
  "typed_result X t r \<longleftrightarrow> (\<exists>v. r = Ok v \<and> is_a v t) \<or> (\<exists>m \<in> typed_errors. r = Err (Value m)) \<or>
     (\<exists>p \<in> overflow_panics. r = Panic p) \<or> pattern_failure X r"

lemma typed_result_simps [simp]:
  "typed_result X t (Ok v) \<longleftrightarrow> is_a v t"
  "m \<in> typed_errors \<Longrightarrow> typed_result X t (Err (Value m))"
  "p \<in> overflow_panics \<Longrightarrow> typed_result X t (Panic p)"
  by (auto simp: typed_result_def pattern_failure_def)

lemma typed_failures:
  "typed_result X s (Err e) \<Longrightarrow> typed_result X t (Err e)" "typed_result X s (Panic p) \<Longrightarrow> typed_result X t (Panic p)"
  for s t and e :: error and p :: string
proof -
  have map: "map_result Boolean q = Err e \<longleftrightarrow> q = Err e" "map_result Boolean q = Panic p \<longleftrightarrow> q = Panic p" for q e p
    by (cases q; simp)+
  show "typed_result X s (Err e) \<Longrightarrow> typed_result X t (Err e)" "typed_result X s (Panic p) \<Longrightarrow> typed_result X t (Panic p)"
    by (auto simp: typed_result_def pattern_failure_def map)
qed

section \<open>Operators\<close>

lemma typed_eval1:
  assumes "typed_result X s e" "\<And>a. is_a a s \<Longrightarrow> typed_result X t (f a)"
  shows "typed_result X t (eval1 f e)"
  using assms by (cases e) (auto simp: eval1_def intro: typed_failures)

lemma typed_eval2:
  assumes "typed_result X s l" "typed_result X s' r" "\<And>a b. is_a a s \<Longrightarrow> is_a b s' \<Longrightarrow> typed_result X t (f a b)"
  shows "typed_result X t (eval2 f l r)"
proof -
  have "typed_result X t (eval1 (f a) r)" if "is_a a s" for a
    using assms(2,3) that by (intro typed_eval1)
  then have "typed_result X t (eval1 (\<lambda>a. bind_r r (f a)) l)"
    using assms(1) by (intro typed_eval1 [where s = s]) (simp_all add: eval1_def)
  then show ?thesis by (simp add: eval1_def eval2_def)
qed

lemma is_a_cases:
  "is_a v T_Boolean \<Longrightarrow> (v = Null \<Longrightarrow> P) \<Longrightarrow> (\<And>b. v = Boolean b \<Longrightarrow> P) \<Longrightarrow> P"
  "is_a v T_Integer \<Longrightarrow> (v = Null \<Longrightarrow> P) \<Longrightarrow> (\<And>i. v = Integer i \<Longrightarrow> P) \<Longrightarrow> P"
  "is_a v T_Float \<Longrightarrow> (v = Null \<Longrightarrow> P) \<Longrightarrow> (\<And>f. v = Float f \<Longrightarrow> P) \<Longrightarrow> P"
  "is_a v T_String \<Longrightarrow> (v = Null \<Longrightarrow> P) \<Longrightarrow> (\<And>s. v = String s \<Longrightarrow> P) \<Longrightarrow> P"
  by (cases v; simp add: is_a_def)+

lemma is_a_simps [simp]:
  "is_a Null t" "is_a (Boolean b) T_Boolean" "is_a (Integer i) T_Integer" "is_a (Float f) T_Float" "is_a (String s) T_String"
  by (simp_all add: is_a_def)

lemma messages [simp]:
  "''attempt to divide with overflow'' \<in> overflow_panics" "''attempt to calculate the remainder with overflow'' \<in> overflow_panics"
  "''attempt to multiply with overflow'' \<in> overflow_panics" "''attempt to negate with overflow'' \<in> overflow_panics"
  "''Integer overflow'' \<in> typed_errors" "''Can't divide by zero'' \<in> typed_errors"
  "''Can't take factorial of negative number'' \<in> typed_errors" "''Can't LIKE {} and {}'' \<in> typed_errors"
  by (simp_all add: overflow_panics_def typed_errors_def)

lemma product_loop_typed: "typed_result X T_Integer (product_loop n i acc)"
  by (induction n i acc rule: product_loop.induct) simp_all

lemma checked_typed: "typed_result X T_Integer (checked_i64 n)"
  by (simp add: checked_i64_def)

lemma plain_typed: "msg \<in> overflow_panics \<Longrightarrow> typed_result X T_Integer (plain_i64 msg n)"
  by (simp add: plain_i64_def)

lemma logical_typed:
  "is_a a T_Boolean \<Longrightarrow> is_a b T_Boolean \<Longrightarrow> typed_result X T_Boolean (and_values a b)"
  "is_a a T_Boolean \<Longrightarrow> is_a b T_Boolean \<Longrightarrow> typed_result X T_Boolean (or_values a b)"
  "is_a a T_Boolean \<Longrightarrow> typed_result X T_Boolean (not_value a)"
  by (auto elim!: is_a_cases)

lemma is_null_typed: "typed_result X T_Boolean (is_null_value a)"
  by (cases a) simp_all

lemma compare_typed:
  assumes "is_a a s" "is_a b t" "comparable s t"
  shows "typed_result X T_Boolean (equal_values X a b)" "typed_result X T_Boolean (greater_values X a b)"
    "typed_result X T_Boolean (less_values X a b)"
  using assms by (cases s; cases t; simp; auto elim!: is_a_cases)+

lemma arith_typed:
  assumes "is_a a s" "is_a b t" "arith_type s t = Some u"
  shows "typed_result X u (add_values X a b)" "typed_result X u (subtract_values X a b)"
    "typed_result X u (multiply_values X a b)" "typed_result X u (divide_values X a b)" "typed_result X u (modulo_values X a b)"
  using assms
  by (cases s; cases t; simp; auto elim!: is_a_cases simp: null_operand_def checked_typed plain_typed)+

lemma power_typed:
  assumes "is_a a s" "is_a b t" "arith_type s t = Some T_Float"
  shows "typed_result X T_Float (exponentiate_values X a b)"
  using assms by (cases s; cases t; simp; auto elim!: is_a_cases simp: null_operand_def)

lemma unary_typed:
  assumes "is_a a t" "arith_type t t = Some t"
  shows "typed_result X t (assert_value a)" "typed_result X t (negate_value a)"
  using assms by (cases t; simp; auto elim!: is_a_cases simp: plain_typed)+

lemma factorial_typed: "is_a a T_Integer \<Longrightarrow> typed_result X T_Integer (factorial_value a)"
  by (auto elim!: is_a_cases simp: product_loop_typed)

lemma like_typed:
  assumes "is_a a T_String" "is_a b T_String"
  shows "typed_result X T_Boolean (like_values X a b)"
proof -
  have "typed_result X T_Boolean (map_result Boolean (regex_match X (like_pattern X y) x))" for x y
  proof (cases "\<exists>m. regex_match X (like_pattern X y) x = Ok m")
    case False
    then have "\<nexists>v. map_result Boolean (regex_match X (like_pattern X y) x) = Ok v"
      by (cases "regex_match X (like_pattern X y) x") simp_all
    then have "pattern_failure X (map_result Boolean (regex_match X (like_pattern X y) x))"
      unfolding pattern_failure_def by blast
    then show ?thesis by (simp add: typed_result_def)
  qed auto
  with assms show ?thesis by (auto elim!: is_a_cases)
qed

lemmas operator_typed = logical_typed is_null_typed compare_typed arith_typed power_typed unary_typed factorial_typed like_typed

section \<open>Type soundness\<close>

lemma evaluate_typed:
  assumes "has_type G e t" "\<And>i. is_a (field_value row i) (G i)"
  shows "typed_result X t (evaluate X row e)"
  using assms(1)
proof (induction rule: has_type.induct)
  case (T_Const c t) then show ?case by simp
next
  case (T_Field i label) then show ?case using assms(2) by simp
qed (unfold evaluate.simps, ((erule typed_eval2, assumption | erule typed_eval1), blast intro: operator_typed)+)

text \<open>(C14) Type soundness of evaluation.  In a row whose fields are null or of their column's type, an
  expression of type \<open>t\<close> evaluates to null or to a value of type \<open>t\<close>, or fails with an arithmetic error, with
  the error of a match of two nulls, with the overflow panic of a plain operator, or with the failure that the
  regular expression crate reported for the pattern of a match; it never fails for the types of its
  operands.  Nothing is assumed of the regular expression crate or of float arithmetic.\<close>

theorem sql_type_soundness:
  assumes "has_type G e t" and "\<And>i. is_a (field_value row i) (G i)"
  shows "(\<exists>v. evaluate X row e = Ok v \<and> (v = Null \<or> datatype_of v = Some t)) \<or>
    (\<exists>m \<in> typed_errors. evaluate X row e = Err (Value m)) \<or>
    (\<exists>p \<in> overflow_panics. evaluate X row e = Panic p) \<or>
    (\<exists>a b. (\<nexists>m. regex_match X (like_pattern X b) a = Ok m) \<and>
      evaluate X row e = map_result Boolean (regex_match X (like_pattern X b) a))"
proof -
  have "typed_result X t (evaluate X row e)" using assms by (rule evaluate_typed)
  moreover have "is_a v t \<longleftrightarrow> v = Null \<or> datatype_of v = Some t" for v by (cases v) (simp_all add: is_a_def)
  moreover have "\<exists>a b. (\<nexists>m. regex_match X (like_pattern X b) a = Ok m) \<and> r = map_result Boolean (regex_match X (like_pattern X b) a)"
    if "pattern_failure X r" for r
    using that unfolding pattern_failure_def by (metis map_result.simps(1))
  ultimately show ?thesis unfolding typed_result_def by blast
qed

definition plain_env :: sql_env where
  "plain_env = \<lparr>fp_of_i64 = (\<lambda>i. i), fp_add = (\<lambda>a b. a), fp_sub = (\<lambda>a b. a), fp_mul = (\<lambda>a b. a),
     fp_div = (\<lambda>a b. a), fp_rem = (\<lambda>a b. a), fp_powf = (\<lambda>a b. a), fp_powi = (\<lambda>a b. a), fp_show = (\<lambda>a. []),
     regex_escape = (\<lambda>s. s), regex_match = (\<lambda>p s. Ok (p = s))\<rparr>"

theorem sql_type_soundness_witness:
  "evaluate plain_env (Some [Integer 6, Boolean True]) (And (Field 1 None) (LessThan (Field 0 None) (Constant (Integer 7)))) = Ok (Boolean True) \<and>
   (\<exists>v. evaluate plain_env (Some [Integer 6, Boolean True]) (And (Field 1 None) (LessThan (Field 0 None) (Constant (Integer 7)))) = Ok v \<and>
     (v = Null \<or> datatype_of v = Some T_Boolean))"
proof -
  let ?G = "\<lambda>i. if i = 0 then T_Integer else T_Boolean" and ?row = "Some [Integer 6, Boolean True]"
  let ?e = "And (Field 1 None) (LessThan (Field 0 None) (Constant (Integer 7)))"
  have run: "evaluate plain_env ?row ?e = Ok (Boolean True)"
    by (simp add: eval2_def field_value_def i64_less_def)
  have "has_type ?G (Field 1 None) T_Boolean" "has_type ?G (Field 0 None) T_Integer"
    using T_Field [of ?G 1 None] T_Field [of ?G 0 None] by simp_all
  then have "has_type ?G ?e T_Boolean"
    using T_Less [of ?G _ T_Integer _ T_Integer] T_Const [of "Integer 7" T_Integer ?G] by (auto intro!: T_And)
  moreover have "is_a (field_value ?row i) (?G i)" for i
    by (auto simp: field_value_def less_Suc_eq numeral_2_eq_2 nth_Cons split: nat.split)
  ultimately show ?thesis
    using run sql_type_soundness [of ?G ?e T_Boolean ?row plain_env] by auto
qed

section \<open>Lookups\<close>

lemma equal_commute: "equal_values X a b = Ok (Boolean True) \<longleftrightarrow> equal_values X b a = Ok (Boolean True)"
  by (cases a; cases b) (auto simp: f64_eq_def)

lemma or_True: "or_values a b = Ok (Boolean True) \<Longrightarrow> a = Boolean True \<or> b = Boolean True"
  by (cases a; cases b) (auto split: if_splits)

lemma lookup_hit:
  assumes "as_lookup f e = Some vs" "evaluate X row e = Ok (Boolean True)"
  shows "\<exists>v \<in> set vs. field_value row f = Null \<and> v = Null \<or> equal_values X (field_value row f) v = Ok (Boolean True)"
  using assms
proof (induction f e arbitrary: vs rule: as_lookup.induct)
  case (1 f l r)
  then show ?case by (auto simp: eval2_def equal_commute split: expr.splits if_splits)
next
  case (2 f e)
  then show ?case by (auto simp: eval1_def split: expr.splits if_splits) (metis is_null_value.elims result.inject(1) sql_value.inject(1))
next
  case (3 f l r)
  from 3(3) obtain lv rv where lv: "as_lookup f l = Some lv" "as_lookup f r = Some rv" "vs = lv @ rv"
    by (auto split: option.splits)
  from 3(4) obtain a b where ab: "evaluate X row l = Ok a" "evaluate X row r = Ok b" "or_values a b = Ok (Boolean True)"
    by (auto simp: eval2_Ok)
  from or_True [OF ab(3)] show ?case
  proof
    assume "a = Boolean True"
    with 3(1) [OF lv(1)] ab(1) lv(3) show ?thesis by auto
  next
    assume "b = Boolean True"
    with 3(2) [OF lv(2)] ab(2) lv(3) show ?thesis by auto
  qed
qed simp_all

lemma as_lookup_foldl:
  "as_lookup f e = Some us \<Longrightarrow> as_lookup f (foldl Or e (map (\<lambda>v. Equal (Field f l) (Constant v)) vs)) = Some (us @ vs)"
  by (induction vs arbitrary: e us) simp_all

lemma as_lookup_nonempty: "as_lookup f e = Some vs \<Longrightarrow> vs \<noteq> []"
  by (induction f e arbitrary: vs rule: as_lookup.induct) (auto split: expr.splits if_splits option.splits)

lemma lookup_roundtrip: "vs \<noteq> [] \<Longrightarrow> \<exists>e. from_lookup f label vs = Ok e \<and> as_lookup f e = Some vs"
  by (cases vs) (simp_all add: from_lookup_def as_lookup_foldl)

text \<open>(C31) Lookups.  When an expression is read as a lookup of a field, every row in which it holds has in that
  field a value equal to one of the values to look up, or is null in it where null is one of them.
  Conversely the expression built from these values is read as the lookup of just them.\<close>

theorem sql_lookup_correct:
  assumes "as_lookup f e = Some vs"
  shows "(evaluate X row e = Ok (Boolean True) \<longrightarrow> (\<exists>v \<in> set vs. field_value row f = Null \<and> v = Null \<or>
      equal_values X (field_value row f) v = Ok (Boolean True))) \<and>
    (\<exists>e'. from_lookup f label vs = Ok e' \<and> as_lookup f e' = Some vs)"
  using lookup_hit [OF assms] lookup_roundtrip as_lookup_nonempty [OF assms] by blast

definition sample_lookup :: expr where
  "sample_lookup = Or (Equal (Field 0 None) (Constant (Integer 1))) (Equal (Constant (Integer 2)) (Field 0 None))"

theorem sql_lookup_correct_witness:
  "as_lookup 0 sample_lookup = Some [Integer 1, Integer 2] \<and>
   evaluate plain_env (Some [Integer 2]) sample_lookup = Ok (Boolean True) \<and>
   (\<exists>v \<in> {Integer 1, Integer 2}. equal_values plain_env (Integer 2) v = Ok (Boolean True))"
proof -
  have l: "as_lookup 0 sample_lookup = Some [Integer 1, Integer 2]" by (simp add: sample_lookup_def)
  moreover have e: "evaluate plain_env (Some [Integer 2]) sample_lookup = Ok (Boolean True)"
    by (simp add: sample_lookup_def eval2_def field_value_def)
  ultimately show ?thesis
    using sql_lookup_correct [OF l, of plain_env "Some [Integer 2]" None] by (simp add: field_value_def)
qed

end
