(* ===== verification/Sql_Arithmetic.thy ===== *)
theory Sql_Arithmetic
  imports Sql_Typing
begin

text \<open>
  Integer arithmetic of SQL expressions (\<^verbatim>\<open>src/src/sql/types/expression.rs\<close>) against the arithmetic of unbounded
  integers: \<open>int_value\<close> is the value that an expression over integers has in mathematics.  Evaluation gives this value
  when every intermediate result fits an \<open>i64\<close>, and fails otherwise; it never wraps around.
\<close>

section \<open>Exact values\<close>

text \<open>The exact value of an expression of integer constants, integer fields and arithmetic operators.  Division and
  remainder truncate toward zero.  Powers are covered for exponents of 32 bits, to which the source cuts an exponent.\<close>

fun int_value :: "row option \<Rightarrow> expr \<Rightarrow> int option" where
  "int_value row (Constant (Integer i)) = Some (sint i)"
| "int_value row (Field f label) = (case field_value row f of Integer i \<Rightarrow> Some (sint i) | _ \<Rightarrow> None)"
| "int_value row (Add l r) = (case (int_value row l, int_value row r) of (Some a, Some b) \<Rightarrow> Some (a + b) | _ \<Rightarrow> None)"
| "int_value row (Subtract l r) = (case (int_value row l, int_value row r) of (Some a, Some b) \<Rightarrow> Some (a - b) | _ \<Rightarrow> None)"
| "int_value row (Multiply l r) = (case (int_value row l, int_value row r) of (Some a, Some b) \<Rightarrow> Some (a * b) | _ \<Rightarrow> None)"
| "int_value row (Divide l r) = (case (int_value row l, int_value row r) of
     (Some a, Some b) \<Rightarrow> if b = 0 then None else Some (a sdiv b) | _ \<Rightarrow> None)"
| "int_value row (Modulo l r) = (case (int_value row l, int_value row r) of
     (Some a, Some b) \<Rightarrow> if b = 0 then None else Some (a smod b) | _ \<Rightarrow> None)"
| "int_value row (Exponentiate l r) = (case (int_value row l, int_value row r) of
     (Some a, Some b) \<Rightarrow> if 0 \<le> b \<and> b < 2 ^ 32 then Some (a ^ nat b) else None | _ \<Rightarrow> None)"
| "int_value row (Factorial e) = (case int_value row e of Some a \<Rightarrow> if 0 \<le> a then Some (fact (nat a)) else None | None \<Rightarrow> None)"
| "int_value row (Negate e) = map_option uminus (int_value row e)"
| "int_value row (Assert e) = int_value row e"
| "int_value row _ = None"

text \<open>Every subexpression has a value that fits.  A remainder by minus one is computed by a division, which overflows
  for the smallest integer.\<close>

definition fits_at :: "row option \<Rightarrow> expr \<Rightarrow> bool" where
  "fits_at row e \<longleftrightarrow> (case int_value row e of Some n \<Rightarrow> fits_i64 n | None \<Rightarrow> False) \<and>
     (case e of Modulo l r \<Rightarrow> \<not> (int_value row l = Some (- (2 ^ 63)) \<and> int_value row r = Some (- 1)) | _ \<Rightarrow> True)"

definition in_bounds :: "row option \<Rightarrow> expr \<Rightarrow> bool" where
  "in_bounds row e \<longleftrightarrow> walk (fits_at row) e"

lemma in_bounds_simps [simp]:
  "in_bounds row (Constant c) \<longleftrightarrow> fits_at row (Constant c)"
  "in_bounds row (Field i label) \<longleftrightarrow> fits_at row (Field i label)"
  "in_bounds row (Add l r) \<longleftrightarrow> fits_at row (Add l r) \<and> in_bounds row l \<and> in_bounds row r"
  "in_bounds row (Subtract l r) \<longleftrightarrow> fits_at row (Subtract l r) \<and> in_bounds row l \<and> in_bounds row r"
  "in_bounds row (Multiply l r) \<longleftrightarrow> fits_at row (Multiply l r) \<and> in_bounds row l \<and> in_bounds row r"
  "in_bounds row (Divide l r) \<longleftrightarrow> fits_at row (Divide l r) \<and> in_bounds row l \<and> in_bounds row r"
  "in_bounds row (Modulo l r) \<longleftrightarrow> fits_at row (Modulo l r) \<and> in_bounds row l \<and> in_bounds row r"
  "in_bounds row (Exponentiate l r) \<longleftrightarrow> fits_at row (Exponentiate l r) \<and> in_bounds row l \<and> in_bounds row r"
  "in_bounds row (Factorial e) \<longleftrightarrow> fits_at row (Factorial e) \<and> in_bounds row e"
  "in_bounds row (Negate e) \<longleftrightarrow> fits_at row (Negate e) \<and> in_bounds row e"
  "in_bounds row (Assert e) \<longleftrightarrow> fits_at row (Assert e) \<and> in_bounds row e"
  unfolding in_bounds_def by (subst walk.simps, simp)+

lemma in_bounds_value: "in_bounds row e \<Longrightarrow> int_value row e = Some n \<Longrightarrow> fits_i64 n"
  unfolding in_bounds_def by (subst (asm) walk.simps) (simp add: fits_at_def)

section \<open>Words\<close>

lemma sint_fits: "fits_i64 n \<Longrightarrow> sint (of_int n :: u64) = n"
  unfolding fits_i64_def by transfer (simp add: signed_take_bit_int_eq_self)

lemma sint_fits_i64 [simp]: "fits_i64 (sint (w :: u64))"
  using sint_range_size [of w] by (simp add: fits_i64_def word_size)

lemma of_int_zero_iff: "fits_i64 n \<Longrightarrow> (of_int n :: u64) = 0 \<longleftrightarrow> n = 0"
  by (metis of_int_0 sint_0 sint_fits)

lemma exponent_cast:
  assumes "0 \<le> b" "b < 2 ^ 32"
  shows "unat (ucast (of_int b :: u64) :: u32) = nat b"
  using assms by transfer (simp add: take_bit_int_eq_self)

text \<open>Only the quotient of the smallest integer by minus one does not fit.\<close>

lemma sdiv_fits:
  assumes "fits_i64 a" "b \<noteq> 0"
  shows "fits_i64 (a sdiv b) \<longleftrightarrow> \<not> (a = - (2 ^ 63) \<and> b = - 1)"
proof -
  have a: "\<bar>a\<bar> \<le> 2 ^ 63" using assms(1) by (auto simp: fits_i64_def)
  consider "b = - 1" | "b = 1" | "2 \<le> \<bar>b\<bar>" using assms(2) by linarith
  then show ?thesis
  proof cases
    case 1 with assms(1) show ?thesis by (auto simp: fits_i64_def signed_divide_int_def sgn_if)
  next
    case 2 with assms(1) show ?thesis by (auto simp: fits_i64_def signed_divide_int_def sgn_if)
  next
    case 3
    have "\<bar>a\<bar> div \<bar>b\<bar> \<le> \<bar>a\<bar> div 2" using 3 by (intro zdiv_mono2) auto
    moreover have "\<bar>a\<bar> div 2 < 2 ^ 63" using zdiv_mono1 [OF a, of 2] by simp
    moreover have "0 \<le> \<bar>a\<bar> div \<bar>b\<bar>" using 3 by (simp add: pos_imp_zdiv_nonneg_iff)
    then have "\<bar>a sdiv b\<bar> \<le> \<bar>a\<bar> div \<bar>b\<bar>" by (simp add: signed_divide_int_def abs_mult abs_sgn_eq)
    ultimately have "\<bar>a sdiv b\<bar> < 2 ^ 63" by linarith
    then have "fits_i64 (a sdiv b)" unfolding fits_i64_def by linarith
    with 3 show ?thesis by auto
  qed
qed

lemma smod_fits: "fits_i64 a \<Longrightarrow> fits_i64 b \<Longrightarrow> b \<noteq> 0 \<Longrightarrow> fits_i64 (a smod b)"
proof -
  assume ab: "fits_i64 a" "fits_i64 b" "b \<noteq> 0"
  have "\<bar>a\<bar> mod \<bar>b\<bar> < \<bar>b\<bar>" "0 \<le> \<bar>a\<bar> mod \<bar>b\<bar>" using ab(3) by simp_all
  moreover have "\<bar>b\<bar> \<le> 2 ^ 63" using ab(2) by (auto simp: fits_i64_def)
  moreover have "a smod b = sgn a * (\<bar>a\<bar> mod \<bar>b\<bar>)"
    by (simp add: signed_modulo_int_def signed_divide_int_def sgn_if minus_mult_div_eq_mod [symmetric] algebra_simps)
  ultimately show ?thesis by (auto simp: fits_i64_def sgn_if)
qed

section \<open>Factorials\<close>

lemma product_loop_value:
  assumes "0 < i" "0 < acc" "fits_i64 acc"
  shows "product_loop n i acc = (if fits_i64 (acc * (\<Prod>k<n. i + int k)) then Ok (Integer (of_int (acc * (\<Prod>k<n. i + int k))))
    else Panic ''attempt to multiply with overflow'')"
  using assms
proof (induction n arbitrary: i acc)
  case (Suc n)
  let ?p = "\<Prod>k<n. i + 1 + int k"
  have first: "(\<Prod>k<Suc n. i + int k) = i * ?p"
    by (subst prod.lessThan_Suc_shift) (simp add: algebra_simps)
  have p: "1 \<le> ?p" using Suc.prems(1) by (intro prod_ge_1) auto
  have pos: "0 < acc * i" using Suc.prems by simp
  have le: "acc * i \<le> acc * i * ?p" using mult_left_mono [OF p, of "acc * i"] pos by simp
  have mono: "fits_i64 (acc * i)" if "fits_i64 (acc * i * ?p)"
    using that pos le unfolding fits_i64_def by linarith
  show ?case
  proof (cases "fits_i64 (acc * i)")
    case True
    with Suc.IH [of "i + 1" "acc * i"] Suc.prems show ?thesis by (simp add: first mult.assoc del: prod.lessThan_Suc of_int_mult of_int_prod)
  next
    case False
    with mono have "\<not> fits_i64 (acc * (i * ?p))" by (auto simp: mult.assoc)
    with False show ?thesis by (simp add: first del: prod.lessThan_Suc of_int_mult of_int_prod)
  qed
qed simp

lemma factorial_exact:
  assumes "fits_i64 a" "0 \<le> a"
  shows "product_loop (nat a) 1 1 = (if fits_i64 (fact (nat a)) then Ok (Integer (of_int (fact (nat a))))
    else Panic ''attempt to multiply with overflow'')"
proof -
  have "(\<Prod>k<n. 1 + int k) = fact n" for n
    by (induction n) (simp_all add: algebra_simps)
  then show ?thesis using product_loop_value [of 1 1 "nat a"] by (simp add: fits_i64_def)
qed

section \<open>Evaluation\<close>

text \<open>A failure for lack of room.\<close>

definition overflows :: "sql_value result \<Rightarrow> bool" where
  "overflows r \<longleftrightarrow> r = Err (Value ''Integer overflow'') \<or> (\<exists>p \<in> overflow_panics. r = Panic p)"

definition exact_or_fails :: "bool \<Rightarrow> int \<Rightarrow> sql_value result \<Rightarrow> bool" where
  "exact_or_fails b n r \<longleftrightarrow> (if b then r = Ok (Integer (of_int n)) \<and> fits_i64 n else overflows r)"

lemma overflows_simps [simp]:
  "overflows (Err (Value ''Integer overflow''))" "p \<in> overflow_panics \<Longrightarrow> overflows (Panic p)"
  by (simp_all add: overflows_def)

lemma overflows_bind: "overflows r \<Longrightarrow> overflows (bind_r r f)"
  by (auto simp: overflows_def)

lemma exact_checked: "exact_or_fails (fits_i64 n) n (checked_i64 n)"
  by (simp add: exact_or_fails_def checked_i64_def)

lemma exact_plain: "p \<in> overflow_panics \<Longrightarrow> exact_or_fails (fits_i64 n) n (plain_i64 p n)"
  by (simp add: exact_or_fails_def plain_i64_def)

lemma exact_eval1:
  assumes "exact_or_fails b a r" "fits_i64 a \<Longrightarrow> exact_or_fails c n (f (Integer (of_int a)))" "b' \<longleftrightarrow> b \<and> c"
  shows "exact_or_fails b' n (eval1 f r)"
  using assms by (cases b) (auto simp: exact_or_fails_def eval1_def overflows_bind)

lemma exact_eval2:
  assumes "exact_or_fails bl a l" "exact_or_fails br b r" "fits_i64 a \<Longrightarrow> fits_i64 b \<Longrightarrow> exact_or_fails c n (f (Integer (of_int a)) (Integer (of_int b)))"
    and "b' \<longleftrightarrow> bl \<and> br \<and> c"
  shows "exact_or_fails b' n (eval2 f l r)"
proof (cases bl)
  case True
  then have l: "l = Ok (Integer (of_int a))" "fits_i64 a" using assms(1) by (simp_all add: exact_or_fails_def)
  then have "exact_or_fails b' n (eval1 (f (Integer (of_int a))) r)"
    using True assms by (intro exact_eval1 [OF assms(2)]) auto
  with l show ?thesis by (simp add: eval1_def eval2_def)
qed (use assms in \<open>simp add: exact_or_fails_def eval2_def overflows_bind\<close>)

lemma evaluate_exact: "int_value row e = Some n \<Longrightarrow> exact_or_fails (in_bounds row e) n (evaluate X row e)"
proof (induction row e arbitrary: n rule: int_value.induct)
  case (1 row i)
  then have "n = sint i" by simp
  then show ?case by (simp add: exact_or_fails_def fits_at_def)
next
  case (2 row f label)
  then obtain i where "field_value row f = Integer i" "n = sint i" by (auto split: sql_value.splits)
  then show ?case by (simp add: exact_or_fails_def fits_at_def)
next
  case (3 row l r)
  from 3(3) obtain a b where ab: "int_value row l = Some a" "int_value row r = Some b" "n = a + b"
    by (auto split: option.splits)
  show ?case unfolding evaluate.simps
    by (rule exact_eval2 [OF 3(1) [OF ab(1)] 3(2) [OF ab(2)]], simp add: sint_fits ab(3), rule exact_checked)
      (auto simp: fits_at_def ab)
next
  case (4 row l r)
  from 4(3) obtain a b where ab: "int_value row l = Some a" "int_value row r = Some b" "n = a - b"
    by (auto split: option.splits)
  show ?case unfolding evaluate.simps
    by (rule exact_eval2 [OF 4(1) [OF ab(1)] 4(2) [OF ab(2)]], simp add: sint_fits ab(3), rule exact_checked)
      (auto simp: fits_at_def ab)
next
  case (5 row l r)
  from 5(3) obtain a b where ab: "int_value row l = Some a" "int_value row r = Some b" "n = a * b"
    by (auto split: option.splits)
  show ?case unfolding evaluate.simps
    by (rule exact_eval2 [OF 5(1) [OF ab(1)] 5(2) [OF ab(2)]], simp add: sint_fits ab(3), rule exact_checked)
      (auto simp: fits_at_def ab)
next
  case (6 row l r)
  from 6(3) obtain a b where ab: "int_value row l = Some a" "int_value row r = Some b" "b \<noteq> 0" "n = a sdiv b"
    by (auto split: option.splits if_splits)
  show ?case unfolding evaluate.simps
    by (rule exact_eval2 [OF 6(1) [OF ab(1)] 6(2) [OF ab(2)]], simp add: sint_fits ab(3,4) of_int_zero_iff, rule exact_plain, simp)
      (auto simp: fits_at_def ab)
next
  case (7 row l r)
  from 7(3) obtain a b where ab: "int_value row l = Some a" "int_value row r = Some b" "b \<noteq> 0" "n = a smod b"
    by (auto split: option.splits if_splits)
  show ?case unfolding evaluate.simps
  proof (rule exact_eval2 [OF 7(1) [OF ab(1)] 7(2) [OF ab(2)]])
    assume f: "fits_i64 a" "fits_i64 b"
    then show "exact_or_fails (\<not> (a = - (2 ^ 63) \<and> b = - 1) \<and> fits_i64 n) n (modulo_values X (Integer (of_int a)) (Integer (of_int b)))"
      using sdiv_fits [OF f(1) ab(3)] smod_fits [OF f ab(3)]
      by (simp add: sint_fits ab(3,4) of_int_zero_iff exact_or_fails_def)
  qed (auto simp: fits_at_def ab)
next
  case (8 row l r)
  from 8(3) obtain a b where ab: "int_value row l = Some a" "int_value row r = Some b" "0 \<le> b" "b < 2 ^ 32" "n = a ^ nat b"
    by (auto split: option.splits if_splits)
  show ?case unfolding evaluate.simps
    by (rule exact_eval2 [OF 8(1) [OF ab(1)] 8(2) [OF ab(2)]], simp add: sint_fits exponent_cast [OF ab(3,4)] ab(3,5), rule exact_checked)
      (use ab(3,4) in \<open>auto simp: fits_at_def ab(1,2,5)\<close>)
next
  case (9 row e)
  from 9(2) obtain a where a: "int_value row e = Some a" "0 \<le> a" "n = fact (nat a)"
    by (auto split: option.splits if_splits)
  show ?case unfolding evaluate.simps
  proof (rule exact_eval1 [OF 9(1) [OF a(1)]])
    assume f: "fits_i64 a"
    then show "exact_or_fails (fits_i64 n) n (factorial_value (Integer (of_int a)))"
      using factorial_exact [OF f a(2)] a(2) by (simp add: sint_fits a(3) exact_or_fails_def)
  qed (use a(2) in \<open>auto simp: fits_at_def a(1,3)\<close>)
next
  case (10 row e)
  from 10(2) obtain a where a: "int_value row e = Some a" "n = - a" by auto
  show ?case unfolding evaluate.simps
    by (rule exact_eval1 [OF 10(1) [OF a(1)]], simp add: sint_fits a(2), rule exact_plain, simp)
      (auto simp: fits_at_def a)
next
  case (11 row e)
  then have e: "int_value row e = Some n" by simp
  show ?case unfolding evaluate.simps
    by (rule exact_eval1 [OF 11(1) [OF e], of True]) (auto simp: exact_or_fails_def fits_at_def e dest: in_bounds_value [OF _ e])
qed simp_all



end
