(* ===== verification/Sql_Schema.thy ===== *)
theory Sql_Schema
  imports Sql_Expression Op_Logic
begin

text \<open>
  Table schemas and the interface of SQL transactions: \<^verbatim>\<open>src/src/sql/schema.rs\<close> and the traits of
  \<^verbatim>\<open>src/src/sql/engine/mod.rs\<close>.  A transaction is a record of operations on a state of any type; what the
  traits provide by default is defined from them.  An iterator that the source collects before it
  hands it out is a list of results.  An index entry is the list of its keys.
\<close>

section \<open>Schemas\<close>

record column =
  co_name :: bytes
  co_datatype :: data_type
  co_primary_key :: bool
  co_nullable :: bool
  co_default :: "sql_value option"
  co_unique :: bool
  co_references :: "bytes option"
  co_index :: bool

record table =
  ta_name :: bytes
  ta_columns :: "column list"

definition table_new :: "bytes \<Rightarrow> column list \<Rightarrow> table result" where
  "table_new name cols = Ok \<lparr>ta_name = name, ta_columns = cols\<rparr>"

text \<open>\<^verbatim>\<open>iter().position()\<close>.\<close>

fun position :: "('a \<Rightarrow> bool) \<Rightarrow> 'a list \<Rightarrow> nat option" where
  "position p [] = None"
| "position p (x # xs) = (if p x then Some 0 else map_option Suc (position p xs))"

definition ok_or :: "'a option \<Rightarrow> error \<Rightarrow> 'a result" where
  "ok_or x e = (case x of Some a \<Rightarrow> Ok a | None \<Rightarrow> Err e)"

definition get_column :: "table \<Rightarrow> bytes \<Rightarrow> column result" where
  "get_column t name = ok_or (find (\<lambda>c. co_name c = name) (ta_columns t)) (Value ''Column {} not found in table {}'')"

definition get_column_index :: "table \<Rightarrow> bytes \<Rightarrow> nat result" where
  "get_column_index t name =
     ok_or (position (\<lambda>c. co_name c = name) (ta_columns t)) (Value ''Column {} not found in table {}'')"

definition get_primary_key :: "table \<Rightarrow> column result" where
  "get_primary_key t = ok_or (find co_primary_key (ta_columns t)) (Value ''Primary key not found in table {}'')"

definition get_row_key :: "table \<Rightarrow> row \<Rightarrow> sql_value result" where
  "get_row_key t row = bind_r (ok_or (position co_primary_key (ta_columns t)) (Value ''Primary key not found'')) (\<lambda>i.
     if i < length row then Ok (row ! i) else Err (Value ''Primary key value not found for row''))"

section \<open>Transactions\<close>

record 't sql_txn =
  tx_create_table :: "table \<Rightarrow> ('t, unit) op"
  tx_delete_table :: "bytes \<Rightarrow> ('t, unit) op"
  tx_read_table :: "bytes \<Rightarrow> ('t, table option) op"
  tx_scan_tables :: "('t, table list) op"
  tx_create :: "bytes \<Rightarrow> row \<Rightarrow> ('t, unit) op"
  tx_delete :: "bytes \<Rightarrow> sql_value \<Rightarrow> ('t, unit) op"
  tx_read :: "bytes \<Rightarrow> sql_value \<Rightarrow> ('t, row option) op"
  tx_read_index :: "bytes \<Rightarrow> bytes \<Rightarrow> sql_value \<Rightarrow> ('t, sql_value list) op"
  tx_scan :: "bytes \<Rightarrow> expr option \<Rightarrow> ('t, row result list) op"
  tx_scan_index :: "bytes \<Rightarrow> bytes \<Rightarrow> ('t, (sql_value \<times> sql_value list) result list) op"
  tx_update :: "bytes \<Rightarrow> sql_value \<Rightarrow> row \<Rightarrow> ('t, unit) op"

definition must_read_table :: "('t, table option) op \<Rightarrow> ('t, table) op" where
  "must_read_table read = bind_op read (\<lambda>t. lift_op (ok_or t (Value ''Table {} does not exist'')))"

definition table_references :: "('t, table list) op \<Rightarrow> bytes \<Rightarrow> bool \<Rightarrow> ('t, (bytes \<times> bytes list) list) op" where
  "table_references scan_tables table with_self = bind_op scan_tables (\<lambda>tables.
     return_op (filter (\<lambda>(_, cs). cs \<noteq> [])
       (map (\<lambda>t. (ta_name t, map co_name (filter (\<lambda>c. co_references c = Some table) (ta_columns t))))
         (filter (\<lambda>t. with_self \<or> ta_name t \<noteq> table) tables))))"

section \<open>Validation\<close>

definition column_validate :: "(bytes \<Rightarrow> ('t, table option) op) \<Rightarrow> table \<Rightarrow> column \<Rightarrow> ('t, unit) op" where
  "column_validate read_table t c =
     (if co_primary_key c \<and> co_nullable c then lift_op (Err (Value ''Primary key {} cannot be nullable''))
      else if co_primary_key c \<and> \<not> co_unique c then lift_op (Err (Value ''Primary key {} must be unique''))
      else bind_op (lift_op (case co_default c of
          Some d \<Rightarrow> (case datatype_of d of
              Some dt \<Rightarrow> if dt \<noteq> co_datatype c
                then Err (Value ''Default value for column {} has datatype {}, must be {}'') else Ok ()
            | None \<Rightarrow> if \<not> co_nullable c
                then Err (Value ''Can't use NULL as default value for non-nullable column {}'') else Ok ())
        | None \<Rightarrow> if co_nullable c then Err (Value ''Nullable column {} must have a default value'') else Ok ())) (\<lambda>_.
      case co_references c of
        None \<Rightarrow> return_op ()
      | Some reference \<Rightarrow>
          bind_op (if reference = ta_name t then return_op t
            else bind_op (read_table reference) (\<lambda>found. case found of
                Some target \<Rightarrow> return_op target
              | None \<Rightarrow> lift_op (Err (Value ''Table {} referenced by column {} does not exist'')))) (\<lambda>target.
          bind_op (lift_op (get_primary_key target)) (\<lambda>pk.
          if co_datatype c \<noteq> co_datatype pk
          then lift_op (Err (Value ''Can't reference {} primary key of table {} from {} column {}''))
          else return_op ()))))"

definition table_validate :: "(bytes \<Rightarrow> ('t, table option) op) \<Rightarrow> table \<Rightarrow> ('t, unit) op" where
  "table_validate read_table t =
     (if ta_columns t = [] then lift_op (Err (Value ''Table {} has no columns''))
      else let keys = length (filter co_primary_key (ta_columns t)) in
        if keys = 1 then for_each (column_validate read_table t) (ta_columns t)
        else if keys = 0 then lift_op (Err (Value ''No primary key in table {}''))
        else lift_op (Err (Value ''Multiple primary keys in table {}'')))"

text \<open>The scan for another row with the same value in a unique column.\<close>

fun unique_loop :: "table \<Rightarrow> nat \<Rightarrow> sql_value \<Rightarrow> sql_value \<Rightarrow> row result list \<Rightarrow> unit result" where
  "unique_loop t i pk v [] = Ok ()"
| "unique_loop t i pk v (item # scan) = bind_r item (\<lambda>row.
     bind_r (if value_eq (if i < length row then row ! i else Null) v
         then map_result (\<lambda>key. \<not> value_eq key pk) (get_row_key t row) else Ok False) (\<lambda>clash.
     if clash then Err (Value ''Unique value {} already exists for column {}'') else unique_loop t i pk v scan))"

definition validate_value :: "(bytes \<Rightarrow> sql_value \<Rightarrow> ('t, row option) op) \<Rightarrow>
    (bytes \<Rightarrow> expr option \<Rightarrow> ('t, row result list) op) \<Rightarrow> table \<Rightarrow> sql_value \<Rightarrow> column \<Rightarrow> sql_value \<Rightarrow> ('t, unit) op" where
  "validate_value read scan t pk c v =
     bind_op (lift_op (case datatype_of v of
        None \<Rightarrow> if co_nullable c then Ok () else Err (Value ''NULL value not allowed for column {}'')
      | Some dt \<Rightarrow> if dt \<noteq> co_datatype c then Err (Value ''Invalid datatype {} for {} column {}'') else Ok ())) (\<lambda>_.
     bind_op (lift_op (case v of
        String s \<Rightarrow> if 1024 < length s then Err (Value ''Strings cannot be more than 1024 bytes'') else Ok ()
      | _ \<Rightarrow> Ok ())) (\<lambda>_.
     bind_op (case co_references c of
        None \<Rightarrow> return_op ()
      | Some target \<Rightarrow>
          if v = Null \<or> (case v of Float f \<Rightarrow> f64_is_nan f | _ \<Rightarrow> False) \<or> target = ta_name t \<and> value_eq v pk
          then return_op ()
          else bind_op (read target v) (\<lambda>found. case found of
              None \<Rightarrow> lift_op (Err (Value ''Referenced primary key {} in table {} does not exist''))
            | Some _ \<Rightarrow> return_op ())) (\<lambda>_.
     if co_unique c \<and> \<not> co_primary_key c \<and> \<not> value_eq v Null
     then bind_op (lift_op (get_column_index t (co_name c))) (\<lambda>i.
       bind_op (scan (ta_name t) None) (\<lambda>items. lift_op (unique_loop t i pk v items)))
     else return_op ())))"

definition validate_row :: "(bytes \<Rightarrow> sql_value \<Rightarrow> ('t, row option) op) \<Rightarrow>
    (bytes \<Rightarrow> expr option \<Rightarrow> ('t, row result list) op) \<Rightarrow> table \<Rightarrow> row \<Rightarrow> ('t, unit) op" where
  "validate_row read scan t row =
     (if length row \<noteq> length (ta_columns t) then lift_op (Err (Value ''Invalid row size for table {}''))
      else bind_op (lift_op (get_row_key t row)) (\<lambda>pk.
        for_each (\<lambda>(c, v). validate_value read scan t pk c v) (zip (ta_columns t) row)))"

section \<open>Valid rows\<close>

text \<open>What validation establishes: every value has its column's type, nulls are where they may be, and
  strings are short enough.\<close>

definition cell_ok :: "column \<Rightarrow> sql_value \<Rightarrow> bool" where
  "cell_ok c v \<longleftrightarrow> (if v = Null then co_nullable c else datatype_of v = Some (co_datatype c)) \<and>
     (case v of String s \<Rightarrow> length s \<le> 1024 | _ \<Rightarrow> True)"

definition row_ok :: "table \<Rightarrow> row \<Rightarrow> bool" where
  "row_ok t row \<longleftrightarrow> list_all2 cell_ok (ta_columns t) row"

lemma validate_value_ok:
  assumes "validate_value read scan t pk c v s = (Ok (), s')"
  shows "cell_ok c v"
  using assms by (cases v) (auto simp: validate_value_def cell_ok_def bind_op_eq_Ok not_less split: if_splits)

lemma for_each_Ok:
  "for_each f xs s = (Ok (), s') \<Longrightarrow> x \<in> set xs \<Longrightarrow> \<exists>s1 s2. f x s1 = (Ok (), s2)"
  by (induction xs arbitrary: s) (auto simp: bind_op_eq_Ok)

lemma validate_row_ok:
  assumes "validate_row read scan t row s = (Ok (), s')"
  shows "row_ok t row"
proof -
  obtain pk where len: "length row = length (ta_columns t)" and each:
    "for_each (\<lambda>(c, v). validate_value read scan t pk c v) (zip (ta_columns t) row) s = (Ok (), s')"
    using assms by (auto simp: validate_row_def bind_op_eq_Ok split: if_splits)
  have "cell_ok c v" if "(c, v) \<in> set (zip (ta_columns t) row)" for c v
    using for_each_Ok [OF each that] validate_value_ok by fastforce
  with len show ?thesis by (auto simp: row_ok_def list_all2_iff)
qed

end
