(* ===== verification/Sql_Plan.thy ===== *)
theory Sql_Plan
  imports Sql_Schema
begin

text \<open>
  Query plans and their optimizer: \<^verbatim>\<open>src/src/sql/plan/mod.rs\<close> and \<^verbatim>\<open>src/src/sql/plan/optimizer.rs\<close>.  A
  computation that may fail and may not return is a \<open>result option\<close>, as in \<open>Sql_Expression\<close>.  The
  optimizer reads the catalog through \<^verbatim>\<open>&self\<close>, which is a function from table names here.
\<close>

section \<open>Nodes\<close>

datatype aggregate = Average | Count | Max | Min | Sum

datatype direction = Ascending | Descending

datatype node =
    Aggregation node "aggregate list"
  | CreateTable table
  | Delete bytes node
  | DropTable bytes bool
  | Filter node expr
  | HashJoin node "nat \<times> field_label" node "nat \<times> field_label" bool
  | IndexLookup bytes "bytes option" bytes "sql_value list"
  | Insert bytes "bytes list" "expr list list"
  | KeyLookup bytes "bytes option" "sql_value list"
  | Limit node u64
  | NestedLoopJoin node nat node "expr option" bool
  | Nothing
  | Offset node u64
  | Order node "(expr \<times> direction) list"
  | Projection node "(expr \<times> bytes option) list"
  | Scan bytes "bytes option" "expr option"
  | Update bytes node "(nat \<times> bytes option \<times> expr) list"

fun show_aggregate :: "aggregate \<Rightarrow> string" where
  "show_aggregate Average = ''average''"
| "show_aggregate Count = ''count''"
| "show_aggregate Max = ''maximum''"
| "show_aggregate Min = ''minimum''"
| "show_aggregate Sum = ''sum''"

fun show_direction :: "direction \<Rightarrow> string" where
  "show_direction Ascending = ''asc''"
| "show_direction Descending = ''desc''"

type_synonym 'a ro = "'a result option"

text \<open>The arms of \<open>transform\<close>: the sources of a node, and the node with other sources in their place.\<close>

definition sources :: "node \<Rightarrow> node list" where
  "sources n = (case n of
      Aggregation source _ \<Rightarrow> [source]
    | Delete _ source \<Rightarrow> [source]
    | Filter source _ \<Rightarrow> [source]
    | HashJoin left _ right _ _ \<Rightarrow> [left, right]
    | Limit source _ \<Rightarrow> [source]
    | NestedLoopJoin left _ right _ _ \<Rightarrow> [left, right]
    | Offset source _ \<Rightarrow> [source]
    | Order source _ \<Rightarrow> [source]
    | Projection source _ \<Rightarrow> [source]
    | Update _ source _ \<Rightarrow> [source]
    | _ \<Rightarrow> [])"

definition with_sources :: "node \<Rightarrow> node list \<Rightarrow> node" where
  "with_sources n ss = (case n of
      Aggregation _ aggregates \<Rightarrow> Aggregation (ss ! 0) aggregates
    | Delete table _ \<Rightarrow> Delete table (ss ! 0)
    | Filter _ predicate \<Rightarrow> Filter (ss ! 0) predicate
    | HashJoin _ left_field _ right_field outer \<Rightarrow> HashJoin (ss ! 0) left_field (ss ! 1) right_field outer
    | Limit _ limit \<Rightarrow> Limit (ss ! 0) limit
    | NestedLoopJoin _ left_size _ predicate outer \<Rightarrow> NestedLoopJoin (ss ! 0) left_size (ss ! 1) predicate outer
    | Offset _ offset \<Rightarrow> Offset (ss ! 0) offset
    | Order _ orders \<Rightarrow> Order (ss ! 0) orders
    | Projection _ expressions \<Rightarrow> Projection (ss ! 0) expressions
    | Update table _ expressions \<Rightarrow> Update table (ss ! 0) expressions
    | _ \<Rightarrow> n)"

partial_function (option) node_transform :: "(node \<Rightarrow> node ro) \<Rightarrow> (node \<Rightarrow> node ro) \<Rightarrow> node \<Rightarrow> node ro" where
  "node_transform before after n0 = bind_ro (before n0) (\<lambda>n. case sources n of
      [l, r] \<Rightarrow> bind_ro (node_transform before after l) (\<lambda>l'. bind_ro (node_transform before after r) (\<lambda>r'.
        after (with_sources n [l', r'])))
    | [s] \<Rightarrow> bind_ro (node_transform before after s) (\<lambda>s'. after (with_sources n [s']))
    | _ \<Rightarrow> after n)"

text \<open>\<^verbatim>\<open>map(...).collect::<Result<_>>()\<close>, for a closure that may not return.\<close>

fun collect_ro :: "('a \<Rightarrow> 'b ro) \<Rightarrow> 'a list \<Rightarrow> 'b list ro" where
  "collect_ro f [] = Some (Ok [])"
| "collect_ro f (x # xs) = bind_ro (f x) (\<lambda>y. bind_ro (collect_ro f xs) (\<lambda>ys. Some (Ok (y # ys))))"

definition transform_expressions :: "(expr \<Rightarrow> expr result) \<Rightarrow> (expr \<Rightarrow> expr result) \<Rightarrow> node \<Rightarrow> node ro" where
  "transform_expressions before after n = (let tr = transform before after in case n of
      Filter source predicate \<Rightarrow> bind_ro (tr predicate) (\<lambda>p. Some (Ok (Filter source p)))
    | Insert table cols expressions \<Rightarrow> bind_ro (collect_ro (collect_ro tr) expressions) (\<lambda>es. Some (Ok (Insert table cols es)))
    | Order source orders \<Rightarrow> bind_ro (collect_ro (\<lambda>(e, d). bind_ro (tr e) (\<lambda>e. Some (Ok (e, d)))) orders) (\<lambda>os.
        Some (Ok (Order source os)))
    | NestedLoopJoin left left_size right predicate outer \<Rightarrow> (case predicate of
          None \<Rightarrow> Some (Ok n)
        | Some p \<Rightarrow> bind_ro (tr p) (\<lambda>p. Some (Ok (NestedLoopJoin left left_size right (Some p) outer))))
    | Projection source expressions \<Rightarrow> bind_ro (collect_ro (\<lambda>(e, l). bind_ro (tr e) (\<lambda>e. Some (Ok (e, l)))) expressions) (\<lambda>es.
        Some (Ok (Projection source es)))
    | Scan table alias flt \<Rightarrow> (case flt of
          None \<Rightarrow> Some (Ok n)
        | Some f \<Rightarrow> bind_ro (tr f) (\<lambda>f. Some (Ok (Scan table alias (Some f)))))
    | Update table source expressions \<Rightarrow>
        bind_ro (collect_ro (\<lambda>(i, l, e). bind_ro (tr e) (\<lambda>e. Some (Ok (i, l, e)))) expressions) (\<lambda>es.
        Some (Ok (Update table source es)))
    | _ \<Rightarrow> Some (Ok n))"

section \<open>Printing\<close>

text \<open>\<^verbatim>\<open>join\<close> of strings, and \<^verbatim>\<open>trim_end\<close>: the white space of Unicode at the end of a UTF-8 string, which is
  matched against the reversed bytes.\<close>

fun join_bytes :: "bytes \<Rightarrow> bytes list \<Rightarrow> bytes" where
  "join_bytes sep [] = []"
| "join_bytes sep [x] = x"
| "join_bytes sep (x # xs) = x @ sep @ join_bytes sep xs"

definition wide_spaces :: "bytes list" where
  "wide_spaces = map rev ([[0xC2, 0x85], [0xC2, 0xA0], [0xE1, 0x9A, 0x80], [0xE2, 0x80, 0xA8], [0xE2, 0x80, 0xA9],
     [0xE2, 0x80, 0xAF], [0xE2, 0x81, 0x9F], [0xE3, 0x80, 0x80]] @ map (\<lambda>i. [0xE2, 0x80, 0x80 + of_nat i]) [0..<11])"

function trim_rev :: "bytes \<Rightarrow> bytes" where
  "trim_rev b = (case b of
      [] \<Rightarrow> []
    | c # rest \<Rightarrow> if c \<in> {9, 10, 11, 12, 13, 32} then trim_rev rest
      else if take 2 b \<in> set wide_spaces then trim_rev (drop 2 b)
      else if take 3 b \<in> set wide_spaces then trim_rev (drop 3 b)
      else b)"
  by pat_completeness auto
termination
  by (relation "measure length") auto

definition trim_end :: "bytes \<Rightarrow> bytes" where
  "trim_end s = rev (trim_rev (rev s))"

definition show_nat :: "nat \<Rightarrow> bytes" where
  "show_nat n = digits 20 n"

definition show_join_field :: "string \<Rightarrow> nat \<times> field_label \<Rightarrow> bytes" where
  "show_join_field side f = (case f of
      (_, Some (Some t, n)) \<Rightarrow> t @ ascii ''.'' @ n
    | (_, Some (None, n)) \<Rightarrow> n
    | (i, None) \<Rightarrow> ascii side @ ascii '' #'' @ show_nat i)"

definition show_lookup :: "sql_env \<Rightarrow> string \<Rightarrow> sql_value list \<Rightarrow> bytes" where
  "show_lookup X what vs =
     (if vs \<noteq> [] \<and> length vs < 10 then ascii '' ('' @ join_bytes (ascii '', '') (map (show_value X) vs) @ ascii '')''
      else ascii '' ('' @ show_nat (length vs) @ ascii '' '' @ ascii what @ ascii '')'')"

definition show_alias :: "bytes option \<Rightarrow> bytes" where
  "show_alias alias = (case alias of None \<Rightarrow> [] | Some a \<Rightarrow> ascii '' as '' @ a)"

text \<open>The line of a node, without its sources.\<close>

definition node_line :: "sql_env \<Rightarrow> node \<Rightarrow> bytes" where
  "node_line X n = (case n of
      Aggregation _ aggregates \<Rightarrow> ascii ''Aggregation: '' @ join_bytes (ascii '', '') (map (ascii \<circ> show_aggregate) aggregates)
    | CreateTable schema \<Rightarrow> ascii ''CreateTable: '' @ ta_name schema
    | Delete table _ \<Rightarrow> ascii ''Delete: '' @ table
    | DropTable table _ \<Rightarrow> ascii ''DropTable: '' @ table
    | Filter _ predicate \<Rightarrow> ascii ''Filter: '' @ show_expr X predicate
    | HashJoin _ left_field _ right_field outer \<Rightarrow> ascii ''HashJoin: '' @ ascii (if outer then ''outer'' else ''inner'') @
        ascii '' on '' @ show_join_field ''left'' left_field @ ascii '' = '' @ show_join_field ''right'' right_field
    | IndexLookup table alias col vs \<Rightarrow>
        ascii ''IndexLookup: '' @ table @ show_alias alias @ ascii '' column '' @ col @ show_lookup X ''values'' vs
    | Insert table _ expressions \<Rightarrow> ascii ''Insert: '' @ table @ ascii '' ('' @ show_nat (length expressions) @ ascii '' rows)''
    | KeyLookup table alias keys \<Rightarrow> ascii ''KeyLookup: '' @ table @ show_alias alias @ show_lookup X ''keys'' keys
    | Limit _ limit \<Rightarrow> ascii ''Limit: '' @ show_nat (unat limit)
    | NestedLoopJoin _ _ _ predicate outer \<Rightarrow> ascii ''NestedLoopJoin: '' @ ascii (if outer then ''outer'' else ''inner'') @
        (case predicate of None \<Rightarrow> [] | Some e \<Rightarrow> ascii '' on '' @ show_expr X e)
    | Nothing \<Rightarrow> ascii ''Nothing''
    | Offset _ offset \<Rightarrow> ascii ''Offset: '' @ show_nat (unat offset)
    | Order _ orders \<Rightarrow> ascii ''Order: '' @
        join_bytes (ascii '', '') (map (\<lambda>(e, d). show_expr X e @ ascii '' '' @ ascii (show_direction d)) orders)
    | Projection _ expressions \<Rightarrow> ascii ''Projection: '' @ join_bytes (ascii '', '') (map (\<lambda>(e, _). show_expr X e) expressions)
    | Scan table alias flt \<Rightarrow> ascii ''Scan: '' @ table @ show_alias alias @
        (case flt of None \<Rightarrow> [] | Some e \<Rightarrow> ascii '' ('' @ show_expr X e @ ascii '')'')
    | Update table _ expressions \<Rightarrow> ascii ''Update: '' @ table @ ascii '' ('' @
        join_bytes (ascii '','') (map (\<lambda>(i, l, e). (case l of Some l \<Rightarrow> l | None \<Rightarrow> ascii ''#'' @ show_nat i) @ ascii ''='' @ show_expr X e)
          expressions) @ ascii '')'')"

text \<open>The branches are the box-drawing characters in UTF-8.\<close>

fun node_format :: "sql_env \<Rightarrow> node \<Rightarrow> bytes \<Rightarrow> bool \<Rightarrow> bool \<Rightarrow> bytes"
  and sources_format :: "sql_env \<Rightarrow> node \<Rightarrow> bytes \<Rightarrow> bytes" where
  "node_format X n indent root is_last =
     (let s = indent @ (if \<not> is_last then [0xE2, 0x94, 0x9C, 0xE2, 0x94, 0x80, 32]
            else if \<not> root then [0xE2, 0x94, 0x94, 0xE2, 0x94, 0x80, 32] else []);
          below = indent @ (if \<not> is_last then [0xE2, 0x94, 0x82, 32, 32] else if \<not> root then [32, 32, 32] else []);
          text = s @ node_line X n @ [10] @ sources_format X n below in
      if root then trim_end text else text)"
| "sources_format X (HashJoin l _ r _ _) indent = node_format X l indent False False @ node_format X r indent False True"
| "sources_format X (NestedLoopJoin l _ r _ _) indent = node_format X l indent False False @ node_format X r indent False True"
| "sources_format X (Aggregation s _) indent = node_format X s indent False True"
| "sources_format X (Delete _ s) indent = node_format X s indent False True"
| "sources_format X (Filter s _) indent = node_format X s indent False True"
| "sources_format X (Limit s _) indent = node_format X s indent False True"
| "sources_format X (Offset s _) indent = node_format X s indent False True"
| "sources_format X (Order s _) indent = node_format X s indent False True"
| "sources_format X (Projection s _) indent = node_format X s indent False True"
| "sources_format X (Update _ s _) indent = node_format X s indent False True"
| "sources_format X _ indent = []"

definition show_node :: "sql_env \<Rightarrow> node \<Rightarrow> bytes" where
  "show_node X n = node_format X n [] True True"

section \<open>Constant folding\<close>

definition is_field :: "expr \<Rightarrow> bool" where
  "is_field e = (case e of Field _ _ \<Rightarrow> True | _ \<Rightarrow> False)"

definition fold_rule :: "sql_env \<Rightarrow> expr \<Rightarrow> expr result" where
  "fold_rule X e = (if \<not> expr_contains is_field e then map_result Constant (evaluate X None e) else Ok e)"

definition constant_folder :: "sql_env \<Rightarrow> node \<Rightarrow> node ro" where
  "constant_folder X n = node_transform (\<lambda>n. Some (Ok n)) (transform_expressions (fold_rule X) Ok) n"

section \<open>Filter pushdown\<close>

text \<open>The remaining expression, if any, and the target with the rest.\<close>

definition pushdown :: "expr \<Rightarrow> node \<Rightarrow> expr option \<times> node" where
  "pushdown e target = (case target of
      Scan table alias flt \<Rightarrow>
        (None, Scan table alias (Some (case flt of Some f \<Rightarrow> And e f | None \<Rightarrow> e)))
    | NestedLoopJoin left left_size right predicate outer \<Rightarrow>
        (None, NestedLoopJoin left left_size right (Some (case predicate of Some p \<Rightarrow> And e p | None \<Rightarrow> e)) outer)
    | Filter source p \<Rightarrow> (None, Filter source (And p e))
    | _ \<Rightarrow> (Some e, target))"

definition refers_right :: "nat \<Rightarrow> expr \<Rightarrow> bool" where
  "refers_right boundary e = expr_contains (\<lambda>e. case e of Field i _ \<Rightarrow> boundary \<le> i | _ \<Rightarrow> False) e"

definition refers_left :: "nat \<Rightarrow> expr \<Rightarrow> bool" where
  "refers_left boundary e = expr_contains (\<lambda>e. case e of Field i _ \<Rightarrow> i < boundary | _ \<Rightarrow> False) e"

fun find_map :: "('a \<Rightarrow> 'b option) \<Rightarrow> 'a list \<Rightarrow> 'b option" where
  "find_map f [] = None"
| "find_map f (x # xs) = (case f x of Some y \<Rightarrow> Some y | None \<Rightarrow> find_map f xs)"

text \<open>The loop that carries the constants of a lookup over to the other side of an equijoin.\<close>

fun transfer_lookups :: "expr list \<Rightarrow> expr list \<Rightarrow> expr list \<Rightarrow> (expr list \<times> expr list) result" where
  "transfer_lookups [] push_left push_right = Ok (push_left, push_right)"
| "transfer_lookups (e # cnf) push_left push_right = (case e of
      Equal (Field i iname) (Field j jname) \<Rightarrow>
        let (l, ln, r, rn) = (if j < i then (j, jname, i, iname) else (i, iname, j, jname)) in
        (case find_map (as_lookup l) push_left of
          Some lvals \<Rightarrow> bind_r (from_lookup r rn lvals) (\<lambda>x. transfer_lookups cnf push_left (push_right @ [x]))
        | None \<Rightarrow> (case find_map (as_lookup r) push_right of
            Some rvals \<Rightarrow> bind_r (from_lookup l ln rvals) (\<lambda>x. transfer_lookups cnf (push_left @ [x]) push_right)
          | None \<Rightarrow> transfer_lookups cnf push_left push_right))
    | _ \<Rightarrow> transfer_lookups cnf push_left push_right)"

definition shift_rule :: "nat \<Rightarrow> expr \<Rightarrow> expr result" where
  "shift_rule boundary e = (case e of
      Field i label \<Rightarrow> if boundary \<le> i then Ok (Field (i - boundary) label) else Panic ''attempt to subtract with overflow''
    | _ \<Rightarrow> Ok e)"

text \<open>Pushing a joined list of predicates into a source; what remains is added to the join's predicates.\<close>

definition push_into :: "expr option \<Rightarrow> node \<Rightarrow> expr list \<Rightarrow> node \<times> expr list" where
  "push_into e target cnf = (case e of
      None \<Rightarrow> (target, cnf)
    | Some e \<Rightarrow> (case pushdown e target of
          (Some remainder, t) \<Rightarrow> (t, cnf @ [remainder])
        | (None, t) \<Rightarrow> (t, cnf)))"

definition pushdown_join :: "expr \<Rightarrow> node \<Rightarrow> node \<Rightarrow> nat \<Rightarrow> (expr option \<times> node \<times> node) ro" where
  "pushdown_join predicate left right boundary =
     bind_ro (into_cnf_vec predicate) (\<lambda>cnf0.
     let push_left0 = filter (\<lambda>e. \<not> refers_right boundary e) cnf0;
         cnf1 = filter (refers_right boundary) cnf0;
         push_right0 = filter (\<lambda>e. \<not> refers_left boundary e) cnf1;
         cnf2 = filter (refers_left boundary) cnf1 in
     bind_ro (Some (transfer_lookups cnf2 push_left0 push_right0)) (\<lambda>(push_left, push_right).
     let (left', cnf3) = push_into (from_cnf_vec push_left) left cnf2 in
     bind_ro (case from_cnf_vec push_right of
        None \<Rightarrow> Some (Ok None)
      | Some e \<Rightarrow> bind_ro (map_option unwrap_result (transform (shift_rule boundary) Ok e)) (\<lambda>e. Some (Ok (Some e)))) (\<lambda>shifted.
     let (right', cnf4) = push_into shifted right cnf3 in
     Some (Ok (from_cnf_vec cnf4, left', right')))))"

definition pushdown_rule :: "node \<Rightarrow> node ro" where
  "pushdown_rule n = (case n of
      Filter source predicate \<Rightarrow> (case pushdown predicate source of
          (Some remainder, s) \<Rightarrow> Some (Ok (Filter s remainder))
        | (None, s) \<Rightarrow> Some (Ok (Filter s (Constant (Boolean True)))))
    | NestedLoopJoin left left_size right predicate outer \<Rightarrow> (case predicate of
          Some p \<Rightarrow> bind_ro (pushdown_join p left right left_size) (\<lambda>(p, l, r).
            Some (Ok (NestedLoopJoin l left_size r p outer)))
        | None \<Rightarrow> Some (Ok n))
    | _ \<Rightarrow> Some (Ok n))"

definition filter_pushdown :: "node \<Rightarrow> node ro" where
  "filter_pushdown n = node_transform pushdown_rule (\<lambda>n. Some (Ok n)) n"

section \<open>Index lookups\<close>

definition wrap_cnf :: "node \<Rightarrow> expr list \<Rightarrow> node" where
  "wrap_cnf n cnf = (case from_cnf_vec cnf of Some predicate \<Rightarrow> Filter n predicate | None \<Rightarrow> n)"

fun find_index :: "(nat \<times> column) list \<Rightarrow> expr \<Rightarrow> (column \<times> sql_value list) option" where
  "find_index [] e = None"
| "find_index ((ci, c) # cs) e = (case as_lookup ci e of Some vs \<Rightarrow> Some (c, vs) | None \<Rightarrow> find_index cs e)"

text \<open>The loop over the conjuncts: those before the current one, and those from it on.\<close>

fun lookup_loop :: "bytes \<Rightarrow> bytes option \<Rightarrow> nat \<Rightarrow> (nat \<times> column) list \<Rightarrow> expr list \<Rightarrow> expr list \<Rightarrow> node option" where
  "lookup_loop table alias pk indexes seen [] = None"
| "lookup_loop table alias pk indexes seen (e # cnf) = (case as_lookup pk e of
      Some keys \<Rightarrow> Some (wrap_cnf (KeyLookup table alias keys) (seen @ cnf))
    | None \<Rightarrow> (case find_index indexes e of
        Some (c, vs) \<Rightarrow> Some (wrap_cnf (IndexLookup table alias (co_name c) vs) (seen @ cnf))
      | None \<Rightarrow> lookup_loop table alias pk indexes (seen @ [e]) cnf))"

definition lookup_rule :: "(bytes \<Rightarrow> table result) \<Rightarrow> node \<Rightarrow> node ro" where
  "lookup_rule catalog n = (case n of
      Scan table alias (Some flt) \<Rightarrow>
        bind_ro (Some (catalog table)) (\<lambda>t.
        case position co_primary_key (ta_columns t) of
          None \<Rightarrow> Some (Panic ''called `Option::unwrap()` on a `None` value'')
        | Some pk \<Rightarrow> bind_ro (into_cnf_vec flt) (\<lambda>cnf.
            Some (Ok (case lookup_loop table alias pk (filter (\<lambda>(_, c). co_index c) (enumerate 0 (ta_columns t))) [] cnf of
                Some found \<Rightarrow> found
              | None \<Rightarrow> Scan table alias (Some flt)))))
    | _ \<Rightarrow> Some (Ok n))"

definition index_lookup :: "(bytes \<Rightarrow> table result) \<Rightarrow> node \<Rightarrow> node ro" where
  "index_lookup catalog n = node_transform (\<lambda>n. Some (Ok n)) (lookup_rule catalog) n"

section \<open>Cleaning up\<close>

definition false_or_null :: "expr \<Rightarrow> bool" where
  "false_or_null e \<longleftrightarrow> e = Constant (Boolean False) \<or> e = Constant Null"

definition noop_rule :: "expr \<Rightarrow> expr result" where
  "noop_rule e = (case e of
      And l r \<Rightarrow>
        if false_or_null l \<or> false_or_null r then Ok (Constant (Boolean False))
        else if l = Constant (Boolean True) then Ok r
        else if r = Constant (Boolean True) then Ok l
        else Ok e
    | Or l r \<Rightarrow>
        if false_or_null l then Ok r
        else if false_or_null r then Ok l
        else if l = Constant (Boolean True) \<or> r = Constant (Boolean True) then Ok (Constant (Boolean True))
        else Ok e
    | _ \<Rightarrow> Ok e)"

definition drop_noop_filter :: "node \<Rightarrow> node ro" where
  "drop_noop_filter n = (case n of
      Filter source predicate \<Rightarrow> if predicate = Constant (Boolean True) then Some (Ok source) else Some (Ok n)
    | _ \<Rightarrow> Some (Ok n))"

definition noop_cleaner :: "node \<Rightarrow> node ro" where
  "noop_cleaner n = node_transform (transform_expressions Ok noop_rule) drop_noop_filter n"

section \<open>Join types\<close>

definition join_rule :: "node \<Rightarrow> node ro" where
  "join_rule n = (case n of
      NestedLoopJoin left left_size right (Some (Equal (Field a a_label) (Field b b_label))) outer \<Rightarrow>
        if a < left_size
        then if left_size \<le> b then Some (Ok (HashJoin left (a, a_label) right (b - left_size, b_label) outer))
          else Some (Panic ''attempt to subtract with overflow'')
        else Some (Ok (HashJoin left (b, b_label) right (a - left_size, a_label) outer))
    | _ \<Rightarrow> Some (Ok n))"

definition join_type :: "node \<Rightarrow> node ro" where
  "join_type n = node_transform join_rule (\<lambda>n. Some (Ok n)) n"

definition optimize :: "sql_env \<Rightarrow> (bytes \<Rightarrow> table result) \<Rightarrow> node \<Rightarrow> node ro" where
  "optimize X catalog root =
     bind_ro (constant_folder X root) (\<lambda>root.
     bind_ro (filter_pushdown root) (\<lambda>root.
     bind_ro (index_lookup catalog root) (\<lambda>root.
     bind_ro (noop_cleaner root) join_type)))"

end
