(* ===== verification/Sql_Execution.thy ===== *)
theory Sql_Execution
  imports Sql_Plan
begin

text \<open>
  Plan execution: \<^verbatim>\<open>src/src/sql/execution\<close>.  \<open>execute\<close> is \<^verbatim>\<open>Executor::build\<close> followed by \<open>execute\<close> of the
  executor it builds.  A row iterator is the list of the items it will yield; one that has met an error in
  the left source of a nested loop join yields that error for ever, which is the second component of
  \<open>rows\<close>.  Hash maps are association lists whose keys match when they are equal and hash the same; the
  environment picks the order in which their entries (by index) and the keys of a set are iterated.  A key that cannot be hashed, because hashing it never
  returns, overflows the stack.
\<close>

section \<open>Rows and result sets\<close>

datatype rows = Rows "row result list" "error option"

record exec_env =
  ex_sql :: sql_env
  ex_group_order :: "row list \<Rightarrow> nat list"
  ex_key_order :: "sql_value list \<Rightarrow> sql_value list"

datatype result_set =
    RS_Begin u64 bool
  | RS_Commit u64
  | RS_Rollback u64
  | RS_Create u64
  | RS_Delete u64
  | RS_Update u64
  | RS_CreateTable bytes
  | RS_DropTable bytes bool
  | RS_Query columns rows
  | RS_Explain node

fun rows_next :: "rows \<Rightarrow> row result option \<times> rows" where
  "rows_next (Rows (x # xs) tail) = (Some x, Rows xs tail)"
| "rows_next (Rows [] (Some e)) = (Some (Err e), Rows [] (Some e))"
| "rows_next (Rows [] None) = (None, Rows [] None)"

text \<open>\<^verbatim>\<open>collect::<Result<Vec<_>>>()\<close>, and a \<^verbatim>\<open>while let\<close> loop over the items: both stop at the first error.\<close>

fun collect_rows :: "rows \<Rightarrow> row list result" where
  "collect_rows (Rows xs tail) = bind_r (collect_results xs) (\<lambda>rs. case tail of None \<Rightarrow> Ok rs | Some e \<Rightarrow> Err e)"

fun map_rows :: "(row \<Rightarrow> row result option) \<Rightarrow> rows \<Rightarrow> rows" where
  "map_rows f (Rows xs tail) = Rows (List.map_filter (\<lambda>x. case x of
      Ok row \<Rightarrow> f row | Err e \<Rightarrow> Some (Err e) | Panic p \<Rightarrow> Some (Panic p)) xs) tail"

fun take_rows :: "nat \<Rightarrow> rows \<Rightarrow> rows" where
  "take_rows n (Rows xs tail) = Rows (take n (xs @ (case tail of None \<Rightarrow> [] | Some e \<Rightarrow> replicate n (Err e)))) None"

definition is_panic :: "'a result \<Rightarrow> bool" where
  "is_panic r = (case r of Panic _ \<Rightarrow> True | _ \<Rightarrow> False)"

fun skip_rows :: "nat \<Rightarrow> rows \<Rightarrow> rows" where
  "skip_rows n (Rows xs tail) = (case find is_panic (take n xs) of
      Some p \<Rightarrow> Rows [p] None
    | None \<Rightarrow> Rows (drop n xs) tail)"

fun into_rows :: "result_set \<Rightarrow> rows result" where
  "into_rows (RS_Query _ rows) = Ok rows"
| "into_rows _ = Err (Value ''Not a query result: {:?}'')"

definition into_row :: "result_set \<Rightarrow> row result" where
  "into_row rs = bind_r (into_rows rs) (\<lambda>rows. case fst (rows_next rows) of
      Some item \<Rightarrow> item
    | None \<Rightarrow> Err (Value ''No rows returned''))"

definition into_value :: "result_set \<Rightarrow> sql_value result" where
  "into_value rs = bind_r (into_row rs) (\<lambda>row. case row of v # _ \<Rightarrow> Ok v | [] \<Rightarrow> Err (Value ''No value returned''))"

text \<open>\<^verbatim>\<open>if let ResultSet::Query\<close>.\<close>

definition with_query :: "string \<Rightarrow> result_set \<Rightarrow> (columns \<Rightarrow> rows \<Rightarrow> ('t, 'a) op) \<Rightarrow> ('t, 'a) op" where
  "with_query msg rs f = (case rs of RS_Query cols rows \<Rightarrow> f cols rows | _ \<Rightarrow> lift_op (Err (Internal msg)))"

section \<open>Hash maps\<close>

definition hashable :: "sql_value \<Rightarrow> bool" where
  "hashable v \<longleftrightarrow> hash_value v [] \<noteq> None"

definition hash_all :: "sql_value list \<Rightarrow> unit result" where
  "hash_all vs = (if list_all hashable vs then Ok () else Panic ''stack overflow'')"

definition same_value :: "sql_value \<Rightarrow> sql_value \<Rightarrow> bool" where
  "same_value a b \<longleftrightarrow> a = b \<and> value_eq a b"

definition same_values :: "sql_value list \<Rightarrow> sql_value list \<Rightarrow> bool" where
  "same_values a b \<longleftrightarrow> list_all2 same_value a b"

text \<open>Insertion replaces the value of a key that is there.  A lookup in an empty map does not hash.\<close>

fun hash_put :: "('k \<Rightarrow> 'k \<Rightarrow> bool) \<Rightarrow> 'k \<Rightarrow> 'v \<Rightarrow> ('k \<times> 'v) list \<Rightarrow> ('k \<times> 'v) list" where
  "hash_put eq k v [] = [(k, v)]"
| "hash_put eq k v ((k', v') # m) = (if eq k k' then (k', v) # m else (k', v') # hash_put eq k v m)"

definition hash_find :: "('k \<Rightarrow> 'k \<Rightarrow> bool) \<Rightarrow> 'k \<Rightarrow> ('k \<times> 'v) list \<Rightarrow> 'v option" where
  "hash_find eq k m = map_option snd (find (\<lambda>(k', _). eq k k') m)"

definition hash_get :: "sql_value \<Rightarrow> (sql_value \<times> 'v) list \<Rightarrow> 'v option result" where
  "hash_get k m = (if m = [] then Ok None else bind_r (hash_all [k]) (\<lambda>_. Ok (hash_find same_value k m)))"

section \<open>Sources\<close>

definition table_columns :: "table \<Rightarrow> columns" where
  "table_columns t = map (\<lambda>c. \<lparr>rc_name = Some (co_name c)\<rparr>) (ta_columns t)"

definition exec_scan :: "'t sql_txn \<Rightarrow> bytes \<Rightarrow> expr option \<Rightarrow> ('t, result_set) op" where
  "exec_scan T table flt = bind_op (must_read_table (tx_read_table T table)) (\<lambda>t.
     bind_op (tx_scan T (ta_name t) flt) (\<lambda>items. return_op (RS_Query (table_columns t) (Rows items None))))"

text \<open>\<^verbatim>\<open>filter_map(|key| txn.read(...).transpose()).collect()\<close>.\<close>

fun read_keys :: "(sql_value \<Rightarrow> ('t, row option) op) \<Rightarrow> sql_value list \<Rightarrow> ('t, row list) op" where
  "read_keys read [] = return_op []"
| "read_keys read (k # ks) = bind_op (read k) (\<lambda>found. bind_op (read_keys read ks) (\<lambda>rows.
     return_op (case found of Some row \<Rightarrow> row # rows | None \<Rightarrow> rows)))"

definition exec_key_lookup :: "'t sql_txn \<Rightarrow> bytes \<Rightarrow> sql_value list \<Rightarrow> ('t, result_set) op" where
  "exec_key_lookup T table keys = bind_op (must_read_table (tx_read_table T table)) (\<lambda>t.
     bind_op (read_keys (tx_read T (ta_name t)) keys) (\<lambda>rs. return_op (RS_Query (table_columns t) (Rows (map Ok rs) None))))"

text \<open>The set of primary keys is extended with the keys of every value; extending a hash set hashes the keys.\<close>

fun set_extend :: "sql_value list \<Rightarrow> sql_value list \<Rightarrow> sql_value list" where
  "set_extend pks [] = pks"
| "set_extend pks (k # ks) = set_extend (if list_ex (same_value k) pks then pks else pks @ [k]) ks"

fun index_keys :: "(sql_value \<Rightarrow> ('t, sql_value list) op) \<Rightarrow> sql_value list \<Rightarrow> sql_value list \<Rightarrow> ('t, sql_value list) op" where
  "index_keys read_index [] pks = return_op pks"
| "index_keys read_index (v # vs) pks = bind_op (read_index v) (\<lambda>ks. bind_op (lift_op (hash_all ks)) (\<lambda>_.
     index_keys read_index vs (set_extend pks ks)))"

definition exec_index_lookup :: "exec_env \<Rightarrow> 't sql_txn \<Rightarrow> bytes \<Rightarrow> bytes \<Rightarrow> sql_value list \<Rightarrow> ('t, result_set) op" where
  "exec_index_lookup V T table col vs = bind_op (must_read_table (tx_read_table T table)) (\<lambda>t.
     bind_op (index_keys (tx_read_index T table col) vs []) (\<lambda>pks.
     bind_op (read_keys (tx_read T (ta_name t)) (ex_key_order V pks)) (\<lambda>rs.
     return_op (RS_Query (table_columns t) (Rows (map Ok rs) None)))))"

definition exec_nothing :: "('t, result_set) op" where
  "exec_nothing = return_op (RS_Query [] (Rows [Ok []] None))"

section \<open>Filters, projections, limits\<close>

definition filter_row :: "sql_env \<Rightarrow> expr \<Rightarrow> row \<Rightarrow> row result option" where
  "filter_row X p row = (case evaluate X (Some row) p of
      Ok (Boolean b) \<Rightarrow> if b then Some (Ok row) else None
    | Ok Null \<Rightarrow> None
    | Ok _ \<Rightarrow> Some (Err (Value ''Filter returned {}, expected boolean''))
    | Err e \<Rightarrow> Some (Err e)
    | Panic m \<Rightarrow> Some (Panic m))"

definition exec_filter :: "exec_env \<Rightarrow> expr \<Rightarrow> result_set \<Rightarrow> ('t, result_set) op" where
  "exec_filter V p rs = with_query ''Unexpected result'' rs (\<lambda>cols rows.
     return_op (RS_Query cols (map_rows (filter_row (ex_sql V) p) rows)))"

definition projected_column :: "columns \<Rightarrow> expr \<times> bytes option \<Rightarrow> result_column" where
  "projected_column cols = (\<lambda>(e, label). case label of
      Some l \<Rightarrow> \<lparr>rc_name = Some l\<rparr>
    | None \<Rightarrow> (case e of
        Field i _ \<Rightarrow> if i < length cols then cols ! i else \<lparr>rc_name = None\<rparr>
      | _ \<Rightarrow> \<lparr>rc_name = None\<rparr>))"

definition exec_projection :: "exec_env \<Rightarrow> (expr \<times> bytes option) list \<Rightarrow> result_set \<Rightarrow> ('t, result_set) op" where
  "exec_projection V expressions rs = with_query ''Unexpected result'' rs (\<lambda>cols rows.
     return_op (RS_Query (map (projected_column cols) expressions)
       (map_rows (\<lambda>row. Some (collect_results (map (\<lambda>(e, _). evaluate (ex_sql V) (Some row) e) expressions))) rows)))"

definition exec_limit :: "u64 \<Rightarrow> result_set \<Rightarrow> ('t, result_set) op" where
  "exec_limit n rs = with_query ''Unexpected result'' rs (\<lambda>cols rows. return_op (RS_Query cols (take_rows (unat n) rows)))"

definition exec_offset :: "u64 \<Rightarrow> result_set \<Rightarrow> ('t, result_set) op" where
  "exec_offset n rs = with_query ''Unexpected result'' rs (\<lambda>cols rows. return_op (RS_Query cols (skip_rows (unat n) rows)))"

section \<open>Order\<close>

fun reverse_ordering :: "ordering \<Rightarrow> ordering" where
  "reverse_ordering Less = Greater"
| "reverse_ordering Equal_to = Equal_to"
| "reverse_ordering Greater = Less"

fun compare_items :: "sql_env \<Rightarrow> direction list \<Rightarrow> row \<Rightarrow> row \<Rightarrow> ordering" where
  "compare_items X (d # ds) (a # as) (b # bs) = (case partial_cmp X a b of
      Some Equal_to \<Rightarrow> compare_items X ds as bs
    | Some c \<Rightarrow> if d = Ascending then c else reverse_ordering c
    | None \<Rightarrow> compare_items X ds as bs)"
| "compare_items X _ _ _ = Equal_to"

text \<open>\<^verbatim>\<open>sort_by\<close>: a stable sort.  Where nulls, values of several types or NaN make the comparison no order at
  all, the library leaves the result open, and this is one of those it allows.\<close>

fun insert_by :: "('a \<Rightarrow> 'a \<Rightarrow> ordering) \<Rightarrow> 'a \<Rightarrow> 'a list \<Rightarrow> 'a list" where
  "insert_by cmp x [] = [x]"
| "insert_by cmp x (y # ys) = (if cmp y x = Less then y # insert_by cmp x ys else x # y # ys)"

definition sort_by :: "('a \<Rightarrow> 'a \<Rightarrow> ordering) \<Rightarrow> 'a list \<Rightarrow> 'a list" where
  "sort_by cmp xs = foldr (insert_by cmp) xs []"

definition order_item :: "sql_env \<Rightarrow> (expr \<times> direction) list \<Rightarrow> row \<Rightarrow> (row \<times> row) result" where
  "order_item X orders row = map_result (Pair row) (collect_results (map (\<lambda>(e, _). evaluate X (Some row) e) orders))"

fun order_items :: "sql_env \<Rightarrow> (expr \<times> direction) list \<Rightarrow> rows \<Rightarrow> (row \<times> row) list result" where
  "order_items X orders (Rows xs tail) = bind_r (collect_results (map (\<lambda>x. bind_r x (order_item X orders)) xs)) (\<lambda>items.
     case tail of None \<Rightarrow> Ok items | Some e \<Rightarrow> Err e)"

definition exec_order :: "exec_env \<Rightarrow> (expr \<times> direction) list \<Rightarrow> result_set \<Rightarrow> ('t, result_set) op" where
  "exec_order V orders rs = with_query ''Unexpected result {:?}'' rs (\<lambda>cols rows.
     bind_op (lift_op (order_items (ex_sql V) orders rows)) (\<lambda>items.
     return_op (RS_Query cols (Rows (map (\<lambda>i. Ok (fst i))
       (sort_by (\<lambda>a b. compare_items (ex_sql V) (map snd orders) (snd a) (snd b)) items)) None))))"

section \<open>Aggregation\<close>

datatype accumulator =
    A_Average u64 "sql_value option"
  | A_Count u64
  | A_Max "sql_value option"
  | A_Min "sql_value option"
  | A_Sum "sql_value option"

fun accumulator_from :: "aggregate \<Rightarrow> accumulator" where
  "accumulator_from Average = A_Average 0 None"
| "accumulator_from Count = A_Count 0"
| "accumulator_from Max = A_Max None"
| "accumulator_from Min = A_Min None"
| "accumulator_from Sum = A_Sum None"

definition count_accumulate :: "u64 \<Rightarrow> sql_value \<Rightarrow> u64 result" where
  "count_accumulate count v = (if v = Null then Ok count else add_u64 count 1)"

definition sum_accumulate :: "sql_env \<Rightarrow> sql_value option \<Rightarrow> sql_value \<Rightarrow> sql_value option result" where
  "sum_accumulate X sm v = (case (sm, v) of
      (Some (Integer s), Integer i) \<Rightarrow> map_result Some (plain_i64 ''attempt to add with overflow'' (sint s + sint i))
    | (Some (Float s), Float f) \<Rightarrow> Ok (Some (Float (fp_add X s f)))
    | (None, Integer i) \<Rightarrow> Ok (Some (Integer i))
    | (None, Float f) \<Rightarrow> Ok (Some (Float f))
    | _ \<Rightarrow> Ok (Some Null))"

text \<open>\<open>Max\<close> and \<open>Min\<close>: a value of another type, or one that does not compare, makes the result null.\<close>

definition extreme_accumulate :: "sql_env \<Rightarrow> ordering \<Rightarrow> sql_value option \<Rightarrow> sql_value \<Rightarrow> sql_value option" where
  "extreme_accumulate X better best v = (case best of
      None \<Rightarrow> Some v
    | Some m \<Rightarrow> Some (
        if datatype_of m \<noteq> datatype_of v then Null
        else case partial_cmp X v m of
          None \<Rightarrow> Null
        | Some c \<Rightarrow> if c = better then v else m))"

fun accumulate :: "sql_env \<Rightarrow> accumulator \<Rightarrow> sql_value \<Rightarrow> accumulator result" where
  "accumulate X (A_Average count sm) v = bind_r (count_accumulate count v) (\<lambda>c.
     map_result (A_Average c) (sum_accumulate X sm v))"
| "accumulate X (A_Count count) v = map_result A_Count (count_accumulate count v)"
| "accumulate X (A_Max m) v = Ok (A_Max (extreme_accumulate X Greater m v))"
| "accumulate X (A_Min m) v = Ok (A_Min (extreme_accumulate X Less m v))"
| "accumulate X (A_Sum sm) v = map_result A_Sum (sum_accumulate X sm v)"

definition or_null :: "sql_value option \<Rightarrow> sql_value" where
  "or_null m = (case m of Some v \<Rightarrow> v | None \<Rightarrow> Null)"

fun aggregate_value :: "sql_env \<Rightarrow> accumulator \<Rightarrow> sql_value result" where
  "aggregate_value X (A_Average count sm) = (case or_null sm of
      Integer s \<Rightarrow> if count = 0 then Panic ''attempt to divide by zero''
        else plain_i64 ''attempt to divide with overflow'' (sint s sdiv sint count)
    | Float s \<Rightarrow> Ok (Float (fp_div X s (fp_of_i64 X count)))
    | _ \<Rightarrow> Ok Null)"
| "aggregate_value X (A_Count count) = Ok (Integer count)"
| "aggregate_value X (A_Max m) = Ok (or_null m)"
| "aggregate_value X (A_Min m) = Ok (or_null m)"
| "aggregate_value X (A_Sum sm) = Ok (or_null sm)"

text \<open>\<^verbatim>\<open>zip\<close> and \<^verbatim>\<open>try_for_each\<close>: accumulators without a value keep their state.\<close>

fun accumulate_all :: "sql_env \<Rightarrow> accumulator list \<Rightarrow> row \<Rightarrow> accumulator list result" where
  "accumulate_all X (a # as) (v # vs) = bind_r (accumulate X a v) (\<lambda>a'. map_result (Cons a') (accumulate_all X as vs))"
| "accumulate_all X as _ = Ok as"

type_synonym groups = "(row \<times> accumulator list) list"

definition aggregate_row :: "sql_env \<Rightarrow> aggregate list \<Rightarrow> row \<Rightarrow> groups \<Rightarrow> groups result" where
  "aggregate_row X aggregates row groups =
     (if length row < length aggregates then Panic ''`at` split index (is {at}) should be <= len (is {len})''
      else let bucket = drop (length aggregates) row in
        bind_r (hash_all bucket) (\<lambda>_.
        let accs = (case hash_find same_values bucket groups of
            Some accs \<Rightarrow> accs | None \<Rightarrow> map accumulator_from aggregates) in
        bind_r (accumulate_all X accs (take (length aggregates) row)) (\<lambda>accs'.
        Ok (hash_put same_values bucket accs' groups))))"

fun aggregate_loop :: "sql_env \<Rightarrow> aggregate list \<Rightarrow> row result list \<Rightarrow> groups \<Rightarrow> groups result" where
  "aggregate_loop X aggregates [] groups = Ok groups"
| "aggregate_loop X aggregates (item # items) groups = bind_r item (\<lambda>row.
     bind_r (aggregate_row X aggregates row groups) (aggregate_loop X aggregates items))"

definition aggregate_output :: "sql_env \<Rightarrow> row \<times> accumulator list \<Rightarrow> row result" where
  "aggregate_output X = (\<lambda>(bucket, accs). map_result (\<lambda>vs. vs @ bucket) (collect_results (map (aggregate_value X) accs)))"

definition exec_aggregation :: "exec_env \<Rightarrow> aggregate list \<Rightarrow> result_set \<Rightarrow> ('t, result_set) op" where
  "exec_aggregation V aggregates rs = with_query ''Unexpected result {:?}'' rs (\<lambda>cols rows. case rows of Rows items tail \<Rightarrow>
     bind_op (lift_op (aggregate_loop (ex_sql V) aggregates items [])) (\<lambda>groups0.
     bind_op (lift_op (case tail of None \<Rightarrow> Ok () | Some e \<Rightarrow> Err e)) (\<lambda>_.
     let groups = (if groups0 = [] \<and> length aggregates = length cols
         then [([], map accumulator_from aggregates)] else groups0) in
     return_op (RS_Query
       (map (\<lambda>(i, c). if i < length aggregates then \<lparr>rc_name = None\<rparr> else c) (enumerate 0 cols))
       (Rows (map (aggregate_output (ex_sql V))
         (map ((!) groups) (ex_group_order V (map fst groups)))) None)))))"

section \<open>Nested loop joins\<close>

record nested_loop =
  nl_left :: rows
  nl_left_row :: "row result option"
  nl_right :: "row list"
  nl_right_vec :: "row list"
  nl_right_empty :: row
  nl_right_hit :: bool
  nl_predicate :: "expr option"
  nl_outer :: bool

definition nl_new :: "rows \<Rightarrow> row list \<Rightarrow> nat \<Rightarrow> expr option \<Rightarrow> bool \<Rightarrow> nested_loop" where
  "nl_new left right right_width predicate outer = (case rows_next left of (first, rest) \<Rightarrow>
     \<lparr>nl_left = rest, nl_left_row = first, nl_right = right, nl_right_vec = right,
      nl_right_empty = replicate right_width Null, nl_right_hit = False, nl_predicate = predicate, nl_outer = outer\<rparr>)"

text \<open>The next combined row that matches, and the right rows left.\<close>

fun try_next_hit :: "sql_env \<Rightarrow> expr option \<Rightarrow> row \<Rightarrow> row list \<Rightarrow> row option result \<times> row list" where
  "try_next_hit X predicate left_row [] = (Ok None, [])"
| "try_next_hit X predicate left_row (right_row # right) = (case predicate of
      None \<Rightarrow> (Ok (Some (left_row @ right_row)), right)
    | Some p \<Rightarrow> (case evaluate X (Some (left_row @ right_row)) p of
        Ok (Boolean b) \<Rightarrow> if b then (Ok (Some (left_row @ right_row)), right) else try_next_hit X predicate left_row right
      | Ok Null \<Rightarrow> try_next_hit X predicate left_row right
      | Ok _ \<Rightarrow> (Err (Value ''Join predicate returned {}, expected boolean''), right)
      | Err e \<Rightarrow> (Err e, right)
      | Panic m \<Rightarrow> (Panic m, right)))"

fun rows_length :: "rows \<Rightarrow> nat" where
  "rows_length (Rows xs tail) = length xs"

definition left_weight :: "nested_loop \<Rightarrow> nat" where
  "left_weight s = rows_length (nl_left s) + (case nl_left_row s of Some (Ok _) \<Rightarrow> 1 | _ \<Rightarrow> 0)"

lemma rows_next_length: "rows_next l = (x, l') \<Longrightarrow> rows_length l' + (case x of Some (Ok _) \<Rightarrow> 1 | _ \<Rightarrow> 0) \<le> rows_length l"
  by (cases l rule: rows_next.cases) (auto split: result.splits)

function try_next :: "sql_env \<Rightarrow> nested_loop \<Rightarrow> row option result \<times> nested_loop" where
  "try_next X s = (case nl_left_row s of
      Some (Ok left_row) \<Rightarrow> (case try_next_hit X (nl_predicate s) left_row (nl_right s) of
          (Ok (Some row), right) \<Rightarrow> (Ok (Some row), s\<lparr>nl_right := right, nl_right_hit := True\<rparr>)
        | (Ok None, _) \<Rightarrow> (case rows_next (nl_left s) of (nxt, left) \<Rightarrow>
            let s' = s\<lparr>nl_left_row := nxt, nl_left := left, nl_right := nl_right_vec s\<rparr> in
            if nl_outer s \<and> \<not> nl_right_hit s then (Ok (Some (left_row @ nl_right_empty s)), s')
            else try_next X (s'\<lparr>nl_right_hit := False\<rparr>))
        | (Err e, right) \<Rightarrow> (Err e, s\<lparr>nl_right := right\<rparr>)
        | (Panic m, right) \<Rightarrow> (Panic m, s\<lparr>nl_right := right\<rparr>))
    | Some (Err e) \<Rightarrow> (Err e, s)
    | Some (Panic m) \<Rightarrow> (Panic m, s)
    | None \<Rightarrow> (Ok None, s))"
  by pat_completeness auto
termination
  by (relation "measure (\<lambda>(X, s). left_weight s)")
    (auto simp: left_weight_def dest!: rows_next_length [OF sym] split: option.splits result.splits)

declare try_next.simps [simp del]

lemma try_next_hit_shorter:
  "try_next_hit X p l right = (r, right') \<Longrightarrow> r \<noteq> Ok None \<Longrightarrow> length right' < length right"
  by (induction X p l right rule: try_next_hit.induct)
    (fastforce split: option.splits result.splits sql_value.splits bool.splits if_splits)+

lemma try_next_progress:
  assumes "try_next X s = (r, s')" "nl_left_row s = Some (Ok l)" "r \<noteq> Ok None"
  shows "left_weight s' < left_weight s \<or> left_weight s' = left_weight s \<and> length (nl_right s') < length (nl_right s)"
  using assms
proof (induction X s arbitrary: l r s' rule: try_next.induct)
  case (1 X s)
  obtain h right where h: "try_next_hit X (nl_predicate s) l (nl_right s) = (h, right)" by fastforce
  obtain nxt left where nxt: "rows_next (nl_left s) = (nxt, left)" by fastforce
  let ?s = "s\<lparr>nl_left_row := nxt, nl_left := left, nl_right := nl_right_vec s\<rparr>"
  have lighter: "left_weight (?s\<lparr>nl_right_hit := b\<rparr>) < left_weight s" "left_weight ?s < left_weight s" for b
    using rows_next_length [OF nxt] 1(3) by (auto simp: left_weight_def split: option.splits result.splits)
  consider "h = Ok None" "nl_outer s \<and> \<not> nl_right_hit s" | "h = Ok None" "\<not> (nl_outer s \<and> \<not> nl_right_hit s)" | "h \<noteq> Ok None"
    by blast
  then show ?case
  proof cases
    case 1
    then show ?thesis using lighter(2) "1.prems" h nxt by (simp add: try_next.simps [of X s] Let_def)
  next
    case 2
    then have run: "try_next X (?s\<lparr>nl_right_hit := False\<rparr>) = (r, s')"
      using "1.prems" h nxt by (auto simp: try_next.simps [of X s] Let_def split: if_splits)
    show ?thesis
    proof (cases "\<exists>l'. nxt = Some (Ok l')")
      case True
      then obtain l' where "nl_left_row (?s\<lparr>nl_right_hit := False\<rparr>) = Some (Ok l')" by auto
      from "1.IH" [OF "1.prems"(2) refl h [symmetric] \<open>h = Ok None\<close> refl nxt [symmetric] refl 2(2) run this "1.prems"(3)]
      show ?thesis using lighter(1) [of False] by linarith
    next
      case False
      then have "s' = ?s\<lparr>nl_right_hit := False\<rparr>"
        using run by (auto simp: try_next.simps [of X "?s\<lparr>nl_right_hit := False\<rparr>"] split: option.splits result.splits)
      then show ?thesis using lighter(1) [of False] by simp
    qed
  next
    case 3
    from try_next_hit_shorter [OF h 3] show ?thesis
      using 3 "1.prems" h by (auto simp: try_next.simps [of X s] left_weight_def split: result.splits option.splits)
  qed
qed

fun cons_row :: "row result \<Rightarrow> rows \<Rightarrow> rows" where
  "cons_row x (Rows xs tail) = Rows (x # xs) tail"

text \<open>All items that the iterator yields.\<close>

function nl_rows :: "sql_env \<Rightarrow> nested_loop \<Rightarrow> rows" where
  "nl_rows X s = (case nl_left_row s of
      Some (Ok _) \<Rightarrow> (case try_next X s of
          (Ok (Some row), s') \<Rightarrow> cons_row (Ok row) (nl_rows X s')
        | (Ok None, _) \<Rightarrow> Rows [] None
        | (Err e, s') \<Rightarrow> cons_row (Err e) (nl_rows X s')
        | (Panic m, _) \<Rightarrow> Rows [Panic m] None)
    | Some (Err e) \<Rightarrow> Rows [] (Some e)
    | Some (Panic m) \<Rightarrow> Rows [Panic m] None
    | None \<Rightarrow> Rows [] None)"
  by pat_completeness auto
termination
  by (relation "measures [\<lambda>(X, s). left_weight s, \<lambda>(X, s). length (nl_right s)]")
    (auto dest!: try_next_progress [OF sym])

declare nl_rows.simps [simp del]

definition exec_nested_loop_join :: "exec_env \<Rightarrow> expr option \<Rightarrow> bool \<Rightarrow> result_set \<Rightarrow> result_set \<Rightarrow> ('t, result_set) op" where
  "exec_nested_loop_join V predicate outer lrs rrs =
     with_query ''Unexpected result set'' lrs (\<lambda>cols rows. with_query ''Unexpected result set'' rrs (\<lambda>rcols rrows.
     bind_op (lift_op (collect_rows rrows)) (\<lambda>right.
     return_op (RS_Query (cols @ rcols) (nl_rows (ex_sql V) (nl_new rows right (length rcols) predicate outer))))))"

section \<open>Hash joins\<close>

text \<open>Collecting the right source: its items up to the first error, and the error that ends it.\<close>

definition hash_row :: "nat \<Rightarrow> row \<Rightarrow> (sql_value \<times> row) list \<Rightarrow> (sql_value \<times> row) list result" where
  "hash_row r row m =
     (if length row \<le> r then Err (Internal ''Right index {} out of bounds'')
      else bind_r (hash_all [row ! r]) (\<lambda>_. Ok (hash_put same_value (row ! r) row m)))"

fun hash_right :: "nat \<Rightarrow> row result list \<Rightarrow> error option \<Rightarrow> (sql_value \<times> row) list \<Rightarrow> (sql_value \<times> row) list result" where
  "hash_right r [] tail m = (case tail of None \<Rightarrow> Ok m | Some e \<Rightarrow> Err e)"
| "hash_right r (x # xs) tail m = bind_r x (\<lambda>row. bind_r (hash_row r row m) (hash_right r xs tail))"

definition hash_join_row :: "nat \<Rightarrow> bool \<Rightarrow> row \<Rightarrow> (sql_value \<times> row) list \<Rightarrow> row \<Rightarrow> row result option" where
  "hash_join_row l outer nulls right row =
     (if length row \<le> l then Some (Err (Value ''Left index {} out of bounds''))
      else case hash_get (row ! l) right of
        Ok (Some hit) \<Rightarrow> Some (Ok (row @ hit))
      | Ok None \<Rightarrow> if outer then Some (Ok (row @ nulls)) else None
      | Err e \<Rightarrow> Some (Err e)
      | Panic m \<Rightarrow> Some (Panic m))"

definition exec_hash_join :: "nat \<Rightarrow> nat \<Rightarrow> bool \<Rightarrow> result_set \<Rightarrow> result_set \<Rightarrow> ('t, result_set) op" where
  "exec_hash_join l r outer lrs rrs =
     with_query ''Unexpected result set'' lrs (\<lambda>cols rows. with_query ''Unexpected result set'' rrs (\<lambda>rcols rrows. case rrows of Rows items tail \<Rightarrow>
     bind_op (lift_op (hash_right r items tail [])) (\<lambda>right.
     return_op (RS_Query (cols @ rcols)
       (map_rows (hash_join_row l outer (replicate (length rcols) Null) right) rows)))))"

section \<open>Mutations\<close>

text \<open>The inputs of a row by column name; the check for a repeated column is made after the insertion.\<close>

fun row_inputs :: "table \<Rightarrow> bytes list \<Rightarrow> row \<Rightarrow> (bytes \<times> sql_value) list \<Rightarrow> (bytes \<times> sql_value) list result" where
  "row_inputs t (c # cs) (v # vs) inputs = bind_r (get_column t c) (\<lambda>_.
     if map_of inputs c \<noteq> None then Err (Value ''Column {} given multiple times'')
     else row_inputs t cs vs ((c, v) # inputs))"
| "row_inputs t _ _ inputs = Ok inputs"

fun fill_row :: "(bytes \<times> sql_value) list \<Rightarrow> column list \<Rightarrow> row result" where
  "fill_row inputs [] = Ok []"
| "fill_row inputs (c # cs) = (case map_of inputs (co_name c) of
      Some v \<Rightarrow> map_result (Cons v) (fill_row inputs cs)
    | None \<Rightarrow> (case co_default c of
        Some v \<Rightarrow> map_result (Cons v) (fill_row inputs cs)
      | None \<Rightarrow> Err (Value ''No value given for column {}'')))"

definition make_row :: "table \<Rightarrow> bytes list \<Rightarrow> row \<Rightarrow> row result" where
  "make_row t cols vs =
     (if length cols \<noteq> length vs then Err (Value ''Column and value counts do not match'')
      else bind_r (row_inputs t cols vs []) (\<lambda>inputs. fill_row inputs (ta_columns t)))"

fun pad_defaults :: "column list \<Rightarrow> row result" where
  "pad_defaults [] = Ok []"
| "pad_defaults (c # cs) = (case co_default c of
      Some d \<Rightarrow> map_result (Cons d) (pad_defaults cs)
    | None \<Rightarrow> Err (Value ''No default value for column {}''))"

definition pad_row :: "table \<Rightarrow> row \<Rightarrow> row result" where
  "pad_row t row = map_result (\<lambda>ds. row @ ds) (pad_defaults (drop (length row) (ta_columns t)))"

definition insert_row :: "exec_env \<Rightarrow> 't sql_txn \<Rightarrow> table \<Rightarrow> bytes list \<Rightarrow> expr list \<Rightarrow> ('t, unit) op" where
  "insert_row V T t cols expressions =
     bind_op (lift_op (collect_results (map (evaluate (ex_sql V) None) expressions))) (\<lambda>vs.
     bind_op (lift_op (if cols = [] then pad_row t vs else make_row t cols vs)) (tx_create T (ta_name t)))"

definition exec_insert :: "exec_env \<Rightarrow> 't sql_txn \<Rightarrow> bytes \<Rightarrow> bytes list \<Rightarrow> expr list list \<Rightarrow> ('t, result_set) op" where
  "exec_insert V T table cols rows = bind_op (must_read_table (tx_read_table T table)) (\<lambda>t.
     bind_op (for_each (insert_row V T t cols) rows) (\<lambda>_. return_op (RS_Create (of_nat (length rows)))))"

text \<open>The assignments of an update: all expressions are evaluated in the old row.\<close>

fun assign_fields :: "sql_env \<Rightarrow> row \<Rightarrow> (nat \<times> bytes option \<times> expr) list \<Rightarrow> row \<Rightarrow> row result" where
  "assign_fields X old [] new = Ok new"
| "assign_fields X old ((i, _, e) # es) new = bind_r (evaluate X (Some old) e) (\<lambda>v.
     if i < length new then assign_fields X old es (new[i := v])
     else Panic ''index out of bounds: the len is {} but the index is {}'')"

fun update_loop :: "exec_env \<Rightarrow> 't sql_txn \<Rightarrow> table \<Rightarrow> (nat \<times> bytes option \<times> expr) list \<Rightarrow> row result list \<Rightarrow>
    sql_value list \<Rightarrow> ('t, sql_value list) op" where
  "update_loop V T t es [] updated = return_op updated"
| "update_loop V T t es (item # items) updated =
     bind_op (lift_op item) (\<lambda>row.
     bind_op (lift_op (get_row_key t row)) (\<lambda>id.
     bind_op (lift_op (if updated = [] then Ok () else hash_all [id])) (\<lambda>_.
     if list_ex (same_value id) updated then update_loop V T t es items updated
     else bind_op (lift_op (assign_fields (ex_sql V) row es row)) (\<lambda>new.
       bind_op (tx_update T (ta_name t) id new) (\<lambda>_.
       bind_op (lift_op (hash_all [id])) (\<lambda>_.
       update_loop V T t es items (updated @ [id])))))))"

definition exec_update :: "exec_env \<Rightarrow> 't sql_txn \<Rightarrow> bytes \<Rightarrow> (nat \<times> bytes option \<times> expr) list \<Rightarrow> result_set \<Rightarrow> ('t, result_set) op" where
  "exec_update V T table es rs = with_query ''Unexpected response {:?}'' rs (\<lambda>_ rows. case rows of Rows items tail \<Rightarrow>
     bind_op (must_read_table (tx_read_table T table)) (\<lambda>t.
     bind_op (update_loop V T t es items []) (\<lambda>updated.
     bind_op (lift_op (case tail of None \<Rightarrow> Ok () | Some e \<Rightarrow> Err e)) (\<lambda>_.
     return_op (RS_Update (of_nat (length updated)))))))"

fun delete_loop :: "'t sql_txn \<Rightarrow> table \<Rightarrow> row result list \<Rightarrow> ('t, unit) op" where
  "delete_loop T t [] = return_op ()"
| "delete_loop T t (item # items) =
     bind_op (lift_op item) (\<lambda>row.
     bind_op (lift_op (get_row_key t row)) (\<lambda>id.
     bind_op (tx_delete T (ta_name t) id) (\<lambda>_. delete_loop T t items)))"

text \<open>The table is read before the source is executed.\<close>

definition exec_delete :: "'t sql_txn \<Rightarrow> bytes \<Rightarrow> ('t, result_set) op \<Rightarrow> ('t, result_set) op" where
  "exec_delete T table source = bind_op (must_read_table (tx_read_table T table)) (\<lambda>t.
     bind_op source (\<lambda>rs. with_query ''Unexpected result {:?}'' rs (\<lambda>_ rows. case rows of Rows items tail \<Rightarrow>
     bind_op (delete_loop T t items) (\<lambda>_.
     bind_op (lift_op (case tail of None \<Rightarrow> Ok () | Some e \<Rightarrow> Err e)) (\<lambda>_.
     return_op (RS_Delete (of_nat (length items))))))))"

section \<open>Schema changes\<close>

definition exec_create_table :: "'t sql_txn \<Rightarrow> table \<Rightarrow> ('t, result_set) op" where
  "exec_create_table T t = bind_op (tx_create_table T t) (\<lambda>_. return_op (RS_CreateTable (ta_name t)))"

definition exec_drop_table :: "'t sql_txn \<Rightarrow> bytes \<Rightarrow> bool \<Rightarrow> ('t, result_set) op" where
  "exec_drop_table T table if_exists =
     bind_op (if if_exists then bind_op (tx_read_table T table) (\<lambda>t. return_op (t = None)) else return_op False) (\<lambda>missing.
     if missing then return_op (RS_DropTable table False)
     else bind_op (tx_delete_table T table) (\<lambda>_. return_op (RS_DropTable table True)))"

section \<open>Execution\<close>

fun execute :: "exec_env \<Rightarrow> 't sql_txn \<Rightarrow> node \<Rightarrow> ('t, result_set) op" where
  "execute V T (Aggregation source aggregates) = bind_op (execute V T source) (exec_aggregation V aggregates)"
| "execute V T (CreateTable schema) = exec_create_table T schema"
| "execute V T (Delete table source) = exec_delete T table (execute V T source)"
| "execute V T (DropTable table if_exists) = exec_drop_table T table if_exists"
| "execute V T (Filter source predicate) = bind_op (execute V T source) (exec_filter V predicate)"
| "execute V T (HashJoin left left_field right right_field outer) = bind_op (execute V T left) (\<lambda>lrs.
     with_query ''Unexpected result set'' lrs (\<lambda>_ _. bind_op (execute V T right)
       (exec_hash_join (fst left_field) (fst right_field) outer lrs)))"
| "execute V T (IndexLookup table alias col vs) = exec_index_lookup V T table col vs"
| "execute V T (Insert table cols expressions) = exec_insert V T table cols expressions"
| "execute V T (KeyLookup table alias keys) = exec_key_lookup T table keys"
| "execute V T (Limit source limit) = bind_op (execute V T source) (exec_limit limit)"
| "execute V T (NestedLoopJoin left left_size right predicate outer) = bind_op (execute V T left) (\<lambda>lrs.
     with_query ''Unexpected result set'' lrs (\<lambda>_ _. bind_op (execute V T right)
       (exec_nested_loop_join V predicate outer lrs)))"
| "execute V T Nothing = exec_nothing"
| "execute V T (Offset source offset) = bind_op (execute V T source) (exec_offset offset)"
| "execute V T (Order source orders) = bind_op (execute V T source) (exec_order V orders)"
| "execute V T (Projection source expressions) = bind_op (execute V T source) (exec_projection V expressions)"
| "execute V T (Scan table alias flt) = exec_scan T table flt"
| "execute V T (Update table source expressions) = bind_op (execute V T source) (exec_update V T table expressions)"

end
