(* ===== verification/Sql_Join.thy ===== *)
theory Sql_Join
  imports Sql_Execution Sql_Typing
begin

text \<open>
  Joins.  The iterator of the nested loop join yields what the definition of a join asks for; the hash join
  that the optimizer puts in its place yields the same when no two right rows have the same key and no
  key is null, and loses rows otherwise.
\<close>

section \<open>A sample database\<close>

text \<open>A transaction that only reads, over tables whose primary key is the first column.\<close>

definition fixed_txn :: "sql_env \<Rightarrow> (bytes \<Rightarrow> (table \<times> row list) option) \<Rightarrow> unit sql_txn" where
  "fixed_txn X db = \<lparr>tx_create_table = (\<lambda>_. lift_op (Err ReadOnly)), tx_delete_table = (\<lambda>_. lift_op (Err ReadOnly)),
     tx_read_table = (\<lambda>t. return_op (map_option fst (db t))), tx_scan_tables = return_op [],
     tx_create = (\<lambda>_ _. lift_op (Err ReadOnly)), tx_delete = (\<lambda>_ _. lift_op (Err ReadOnly)),
     tx_read = (\<lambda>t k. return_op (Option.bind (db t) (\<lambda>(_, rows). find (\<lambda>row. row ! 0 = k) rows))),
     tx_read_index = (\<lambda>_ _ _. return_op []),
     tx_scan = (\<lambda>t flt. return_op (case db t of None \<Rightarrow> [] | Some (_, rows) \<Rightarrow>
       List.map_filter (case flt of None \<Rightarrow> (\<lambda>row. Some (Ok row)) | Some f \<Rightarrow> filter_row X f) rows)),
     tx_scan_index = (\<lambda>_ _. return_op []), tx_update = (\<lambda>_ _ _. lift_op (Err ReadOnly))\<rparr>"

definition int_column :: "string \<Rightarrow> bool \<Rightarrow> column" where
  "int_column n pk = \<lparr>co_name = ascii n, co_datatype = T_Integer, co_primary_key = pk, co_nullable = \<not> pk, co_default = None,
     co_unique = pk, co_references = None, co_index = False\<rparr>"

definition sample_a :: table where
  "sample_a = \<lparr>ta_name = ascii ''a'', ta_columns = [int_column ''id'' True]\<rparr>"

definition sample_b :: table where
  "sample_b = \<lparr>ta_name = ascii ''b'', ta_columns = [int_column ''id'' True, int_column ''a'' False]\<rparr>"

definition sample_db :: "row list \<Rightarrow> bytes \<Rightarrow> (table \<times> row list) option" where
  "sample_db b t = (if t = ta_name sample_a then Some (sample_a, [[Integer 1], [Integer 2]])
     else if t = ta_name sample_b then Some (sample_b, b) else None)"

definition plain_exec :: exec_env where
  "plain_exec = \<lparr>ex_sql = plain_env, ex_group_order = (\<lambda>g. [0..<length g]), ex_key_order = (\<lambda>k. k)\<rparr>"

abbreviation scan_of :: "table \<Rightarrow> node" where
  "scan_of t \<equiv> Scan (ta_name t) None None"

lemma sample_tables:
  "sample_db b (ta_name sample_a) = Some (sample_a, [[Integer 1], [Integer 2]])"
  "sample_db b (ta_name sample_b) = Some (sample_b, b)"
  by (simp_all add: sample_db_def sample_a_def sample_b_def ascii_def)

lemma scan_sample:
  assumes "db (ta_name t) = Some (t, rows)"
  shows "execute plain_exec (fixed_txn X db) (scan_of t) () = (Ok (RS_Query (table_columns t) (Rows (map Ok rows) None)), ())"
  using assms by (simp add: exec_scan_def must_read_table_def fixed_txn_def ok_or_def bind_op_def List.map_filter_def comp_def)

lemma scan_samples:
  "execute plain_exec (fixed_txn plain_env (sample_db b)) (scan_of sample_a) () =
    (Ok (RS_Query (table_columns sample_a) (Rows (map Ok [[Integer 1], [Integer 2]]) None)), ())"
  "execute plain_exec (fixed_txn plain_env (sample_db b)) (scan_of sample_b) () =
    (Ok (RS_Query (table_columns sample_b) (Rows (map Ok b) None)), ())"
  by (rule scan_sample, rule sample_tables)+

definition sample_equi :: expr where
  "sample_equi = Equal (Field 0 None) (Field 2 None)"

section \<open>The nested loop join\<close>

definition decides :: "sql_env \<Rightarrow> expr option \<Rightarrow> row \<Rightarrow> bool" where
  "decides X p row \<longleftrightarrow> (case p of None \<Rightarrow> True | Some e \<Rightarrow> evaluate X (Some row) e \<in> {Ok Null, Ok (Boolean False), Ok (Boolean True)})"

definition matches :: "sql_env \<Rightarrow> expr option \<Rightarrow> row \<Rightarrow> bool" where
  "matches X p row \<longleftrightarrow> (case p of None \<Rightarrow> True | Some e \<Rightarrow> evaluate X (Some row) e = Ok (Boolean True))"

text \<open>The rows of the join for one left row: its matches, or in an outer join a row padded with nulls.\<close>

definition join_left :: "sql_env \<Rightarrow> expr option \<Rightarrow> bool \<Rightarrow> row \<Rightarrow> row list \<Rightarrow> row \<Rightarrow> row list" where
  "join_left X p outer nulls right l = (case filter (matches X p) (map ((@) l) right) of
      [] \<Rightarrow> if outer then [l @ nulls] else []
    | hits \<Rightarrow> hits)"

lemma try_next_hit_correct:
  assumes "\<forall>r \<in> set right. decides X p (l @ r)"
  shows "try_next_hit X p l right = (case dropWhile (\<lambda>r. \<not> matches X p (l @ r)) right of
      [] \<Rightarrow> (Ok None, []) | r # rest \<Rightarrow> (Ok (Some (l @ r)), rest))"
  using assms by (induction right) (auto simp: decides_def matches_def split: option.splits)

lemma filter_dropWhile: "filter P xs = (case dropWhile (\<lambda>x. \<not> P x) xs of [] \<Rightarrow> [] | x # rest \<Rightarrow> x # filter P rest)"
  by (induction xs) auto

lemma length_dropWhile_Cons: "dropWhile P xs = y # ys \<Longrightarrow> length ys < length xs \<and> set ys \<subseteq> set xs"
  by (induction xs) (auto split: if_splits)

definition nl_at :: "expr option \<Rightarrow> bool \<Rightarrow> row \<Rightarrow> row list \<Rightarrow> row list \<Rightarrow> row list \<Rightarrow> bool \<Rightarrow> nested_loop" where
  "nl_at p outer nulls vec ls right hit = \<lparr>nl_left = Rows (map Ok (tl ls)) None,
     nl_left_row = (case ls of [] \<Rightarrow> None | l # _ \<Rightarrow> Some (Ok l)), nl_right = right,
     nl_right_vec = vec, nl_right_empty = nulls, nl_right_hit = hit, nl_predicate = p, nl_outer = outer\<rparr>"

lemma rows_next_tl:
  "rows_next (Rows (map Ok ls) None) = (case ls of [] \<Rightarrow> None | l # _ \<Rightarrow> Some (Ok l), Rows (map Ok (tl ls)) None)"
  by (cases ls) simp_all

lemma try_next_at:
  "try_next X (nl_at p outer nulls vec [] right hit) = (Ok None, nl_at p outer nulls vec [] right hit)"
  "try_next_hit X p l right = (Ok (Some row), right') \<Longrightarrow>
    try_next X (nl_at p outer nulls vec (l # ls) right hit) = (Ok (Some row), nl_at p outer nulls vec (l # ls) right' True)"
  "try_next_hit X p l right = (Ok None, right') \<Longrightarrow>
    try_next X (nl_at p outer nulls vec (l # ls) right hit) =
      (if outer \<and> \<not> hit then (Ok (Some (l @ nulls)), nl_at p outer nulls vec ls vec hit)
       else try_next X (nl_at p outer nulls vec ls vec False))"
    apply (subst try_next.simps, simp add: nl_at_def)
   apply (subst try_next.simps, simp add: nl_at_def)
  apply (subst try_next.simps [of X "nl_at p outer nulls vec (l # ls) right hit"], simp add: nl_at_def rows_next_tl Let_def)
  done

lemma nl_rows_at:
  "nl_rows X (nl_at p outer nulls vec ls right hit) = (case try_next X (nl_at p outer nulls vec ls right hit) of
      (Ok (Some row), s') \<Rightarrow> cons_row (Ok row) (nl_rows X s')
    | (Ok None, _) \<Rightarrow> Rows [] None
    | (Err e, s') \<Rightarrow> cons_row (Err e) (nl_rows X s')
    | (Panic m, _) \<Rightarrow> Rows [Panic m] None)"
  by (cases ls; subst nl_rows.simps) (simp_all add: try_next_at(1), simp_all add: nl_at_def)

lemma cons_row_Ok: "cons_row (Ok r) (Rows (map Ok rs) None) = Rows (map Ok (r # rs)) None"
  by simp

lemma join_left_eq: "join_left X p outer nulls vec l = (let hits = filter (matches X p) (map ((@) l) vec) in
    hits @ (if hits = [] \<and> outer then [l @ nulls] else []))"
  by (simp add: join_left_def split: list.split)

lemma nl_rows_rest:
  assumes "\<forall>l \<in> set ls. \<forall>r \<in> set vec. decides X p (l @ r)"
  shows "nl_rows X (nl_at p outer nulls vec ls vec False) = Rows (map Ok (concat (map (join_left X p outer nulls vec) ls))) None"
  using assms
proof (induction ls)
  case Nil
  then show ?case by (simp add: nl_rows_at try_next_at)
next
  case (Cons l ls)
  have "set right \<subseteq> set vec \<Longrightarrow> nl_rows X (nl_at p outer nulls vec (l # ls) right hit) =
      Rows (map Ok ((let hits = filter (matches X p) (map ((@) l) right) in
        hits @ (if hits = [] \<and> \<not> hit \<and> outer then [l @ nulls] else [])) @ concat (map (join_left X p outer nulls vec) ls))) None"
    for right hit
  proof (induction "length right" arbitrary: right hit rule: less_induct)
    case less
    have d: "\<forall>r \<in> set right. decides X p (l @ r)" using less(2) Cons.prems by auto
    let ?P = "\<lambda>r. matches X p (l @ r)"
    have f: "filter (matches X p) (map ((@) l) right) = map ((@) l) (filter ?P right)" for right
      by (simp add: filter_map comp_def)
    show ?case
    proof (cases "dropWhile (\<lambda>r. \<not> ?P r) right")
      case Nil
      have h: "try_next_hit X p l right = (Ok None, [])" unfolding try_next_hit_correct [OF d] Nil by simp
      have none: "filter ?P right = []" by (simp add: filter_dropWhile [of _ right] Nil)
      have IH: "nl_rows X (nl_at p outer nulls vec ls vec False) = Rows (map Ok (concat (map (join_left X p outer nulls vec) ls))) None"
        using Cons by simp
      show ?thesis
      proof (cases "outer \<and> \<not> hit")
        case True
        then show ?thesis unfolding f none nl_rows_at [of X p outer nulls vec "l # ls"] try_next_at(3) [OF h] using IH by simp
      next
        case False
        then have "nl_rows X (nl_at p outer nulls vec (l # ls) right hit) = nl_rows X (nl_at p outer nulls vec ls vec False)"
          unfolding nl_rows_at [of X p outer nulls vec "l # ls"] try_next_at(3) [OF h] nl_rows_at [of X p outer nulls vec ls]
          using False by (simp only: if_False refl)
        then show ?thesis unfolding f none IH using False by auto
      qed
    next
      case (Cons r rest)
      have h: "try_next_hit X p l right = (Ok (Some (l @ r)), rest)" unfolding try_next_hit_correct [OF d] Cons by simp
      have some: "filter ?P right = r # filter ?P rest" by (simp add: filter_dropWhile [of _ right] Cons)
      from length_dropWhile_Cons [OF Cons] less(2)
      have "length rest < length right" "set rest \<subseteq> set vec" by auto
      from less(1) [OF this, of True] show ?thesis
        unfolding f some nl_rows_at [of X p outer nulls vec "l # ls" right] try_next_at(2) [OF h] by (simp add: Let_def)
    qed
  qed
  from this [of vec False] show ?case by (simp add: join_left_eq [of X p outer nulls vec l] Let_def)
qed

lemma nl_rows_correct:
  assumes "\<forall>l \<in> set ls. \<forall>r \<in> set right. decides X p (l @ r)"
  shows "nl_rows X (nl_new (Rows (map Ok ls) None) right w p outer) =
    Rows (map Ok (concat (map (join_left X p outer (replicate w Null) right) ls))) None"
proof -
  have "nl_new (Rows (map Ok ls) None) right w p outer = nl_at p outer (replicate w Null) right ls right False"
    by (simp add: nl_new_def nl_at_def rows_next_tl)
  then show ?thesis using nl_rows_rest [OF assms] by simp
qed

text \<open>(C27) Nested loop joins.  When both sources yield rows and the predicate has a truth value on every
  combination, the join yields, for every left row in order, its combinations with the right rows that
  match, in order; an outer join yields the left row padded with nulls when nothing matches.\<close>

theorem sql_nested_loop_join_correct:
  assumes left: "execute V T left s = (Ok (RS_Query cols (Rows (map Ok ls) None)), s')"
    and right: "execute V T right s' = (Ok (RS_Query rcols (Rows (map Ok rs) None)), s'')"
    and truth: "\<forall>l \<in> set ls. \<forall>r \<in> set rs. decides (ex_sql V) p (l @ r)"
  shows "execute V T (NestedLoopJoin left n right p outer) s =
    (Ok (RS_Query (cols @ rcols)
      (Rows (map Ok (concat (map (join_left (ex_sql V) p outer (replicate (length rcols) Null) rs) ls))) None)), s'')"
proof -
  note run_left = bind_op_Ok [where m = "execute V T left" and s = s, OF left]
  note run_right = bind_op_Ok [where m = "execute V T right" and s = s', OF right]
  show ?thesis
    by (simp add: run_left run_right with_query_def exec_nested_loop_join_def nl_rows_correct [OF truth])
qed

theorem sql_nested_loop_join_correct_witness:
  "execute plain_exec (fixed_txn plain_env (sample_db [[Integer 10, Integer 1], [Integer 20, Integer 1]]))
     (NestedLoopJoin (scan_of sample_a) 1 (scan_of sample_b) (Some sample_equi) True) () =
   (Ok (RS_Query (table_columns sample_a @ table_columns sample_b) (Rows [Ok [Integer 1, Integer 10, Integer 1],
     Ok [Integer 1, Integer 20, Integer 1], Ok [Integer 2, Null, Null]] None)), ())"
proof -
  let ?b = "[[Integer 10, Integer 1], [Integer 20, Integer 1]]"
  have "\<forall>l \<in> set [[Integer 1], [Integer 2]]. \<forall>r \<in> set ?b. decides (ex_sql plain_exec) (Some sample_equi) (l @ r)"
    by (simp add: decides_def sample_equi_def eval2_def field_value_def)
  from sql_nested_loop_join_correct [OF scan_samples this, where n = 1 and outer = True]
  show ?thesis
    by (simp add: join_left_def matches_def sample_equi_def eval2_def field_value_def table_columns_def sample_b_def)
qed

section \<open>The hash join\<close>

definition key_of :: "data_type \<Rightarrow> sql_value \<Rightarrow> bool" where
  "key_of ty v \<longleftrightarrow> ty \<noteq> T_Float \<and> datatype_of v = Some ty"

lemma key_of_equal: "key_of ty a \<Longrightarrow> key_of ty b \<Longrightarrow> equal_values X a b = Ok (Boolean (a = b))"
  by (cases a; cases b) (auto simp: key_of_def)

lemma key_of_hashable: "key_of ty v \<Longrightarrow> hashable v"
  by (cases v) (auto simp: key_of_def hashable_def hash_value.simps [of "Boolean _"] hash_value.simps [of "Integer _"]
      hash_value.simps [of "Float _"] hash_value.simps [of "String _"])

lemma key_of_same: "key_of ty a \<Longrightarrow> same_value a b \<longleftrightarrow> a = b"
  by (cases a; cases b) (auto simp: key_of_def same_value_def)

lemma hash_put_new: "\<forall>(k', _) \<in> set m. \<not> same_value k k' \<Longrightarrow> hash_put same_value k v m = m @ [(k, v)]"
  by (induction m) auto

lemma hash_right_distinct:
  assumes "\<forall>row \<in> set rs. r < length row \<and> key_of ty (row ! r)" "distinct (map (\<lambda>row. row ! r) rs)"
    and "\<forall>row \<in> set rs. \<forall>(k, _) \<in> set m. k \<noteq> row ! r"
  shows "hash_right r (map Ok rs) None m = Ok (m @ map (\<lambda>row. (row ! r, row)) rs)"
  using assms
proof (induction rs arbitrary: m)
  case (Cons row rs)
  have key: "key_of ty (row ! r)" using Cons by simp
  then have new: "hash_put same_value (row ! r) row m = m @ [(row ! r, row)]"
    using Cons.prems(3) by (intro hash_put_new) (auto simp: key_of_same)
  have "hash_right r (map Ok rs) None (m @ [(row ! r, row)]) = Ok ((m @ [(row ! r, row)]) @ map (\<lambda>row. (row ! r, row)) rs)"
    using Cons.prems by (intro Cons.IH) auto
  then show ?case using Cons.prems(1) key new by (simp add: hash_row_def hash_all_def key_of_hashable)
qed simp

lemma filter_find_distinct:
  assumes "distinct (map g xs)"
  shows "filter (\<lambda>x. k = g x) xs = (case find (\<lambda>x. k = g x) xs of None \<Rightarrow> [] | Some x \<Rightarrow> [x])"
  using assms
proof (induction xs)
  case (Cons x xs)
  have "k = g x \<Longrightarrow> filter (\<lambda>x. k = g x) xs = []"
    using Cons.prems by (auto simp: filter_empty_conv)
  then show ?case using Cons by auto
qed simp

lemma hash_join_left:
  assumes l: "l < length row" "key_of ty (row ! l)"
    and rs: "\<forall>row \<in> set rs. r < length row \<and> key_of ty (row ! r)" "distinct (map (\<lambda>row. row ! r) rs)"
    and p: "\<And>x. x \<in> set rs \<Longrightarrow> matches X p (row @ x) \<longleftrightarrow> row ! l = x ! r"
  shows "(case hash_join_row l outer nulls (map (\<lambda>row. (row ! r, row)) rs) row of None \<Rightarrow> [] | Some x \<Rightarrow> [x]) =
    map Ok (join_left X p outer nulls rs row)"
proof -
  have "filter (\<lambda>x. matches X p (row @ x)) rs = filter (\<lambda>x. row ! l = x ! r) rs"
    using p by (intro filter_cong) auto
  then have hits: "filter (matches X p) (map ((@) row) rs) = map ((@) row) (case find (\<lambda>x. row ! l = x ! r) rs of None \<Rightarrow> [] | Some x \<Rightarrow> [x])"
    unfolding filter_map comp_def filter_find_distinct [OF rs(2), of "row ! l"] by (rule arg_cong)
  have "hash_find same_value (row ! l) (map (\<lambda>row. (row ! r, row)) rs) = find (\<lambda>x. row ! l = x ! r) rs"
    unfolding key_of_same [OF l(2), abs_def] by (induction rs) (simp_all add: hash_find_def key_of_same [OF l(2)])
  then have "hash_get (row ! l) (map (\<lambda>row. (row ! r, row)) rs) = Ok (find (\<lambda>x. row ! l = x ! r) rs)"
    using key_of_hashable [OF l(2)] by (cases rs) (simp_all add: hash_get_def hash_all_def)
  then show ?thesis
    using l(1) by (cases "find (\<lambda>x. row ! l = x ! r) rs") (simp_all add: hash_join_row_def join_left_def hits)
qed

lemma map_rows_Ok:
  assumes "\<And>row. row \<in> set ls \<Longrightarrow> (case f row of None \<Rightarrow> [] | Some x \<Rightarrow> [x]) = map Ok (g row)"
  shows "map_rows f (Rows (map Ok ls) None) = Rows (map Ok (concat (map g ls))) None"
  using assms
proof (induction ls)
  case (Cons row ls)
  then have "(case f row of None \<Rightarrow> [] | Some x \<Rightarrow> [x]) = map Ok (g row)" by simp
  then show ?case using Cons by (cases "f row") (simp_all add: List.map_filter_simps)
qed (simp add: List.map_filter_simps)

lemma matches_equi:
  assumes "length row = w" "l < w" "r < length x" "key_of ty (row ! l)" "key_of ty (x ! r)"
    and "p = Equal (Field l ll) (Field (w + r) rl) \<or> p = Equal (Field (w + r) rl) (Field l ll)"
  shows "evaluate X (Some (row @ x)) p = Ok (Boolean (row ! l = x ! r))"
  using assms key_of_equal [OF assms(4,5), of X] key_of_equal [OF assms(5,4), of X]
  by (auto simp: eval2_def field_value_def nth_append)

text \<open>Rows that are hashed one after another: a later row replaces an earlier one with the same key.\<close>

lemma find_append: "find P (xs @ ys) = (case find P xs of None \<Rightarrow> find P ys | Some x \<Rightarrow> Some x)"
  by (induction xs) auto

lemma hash_find_put:
  assumes "key_of ty k" "key_of ty k'"
  shows "hash_find same_value k (hash_put same_value k' v m) = (if k = k' then Some v else hash_find same_value k m)"
  by (induction m) (auto simp: hash_find_def key_of_same [OF assms(1)] key_of_same [OF assms(2)])

lemma hash_right_last:
  assumes "\<forall>row \<in> set rs. r < length row \<and> key_of ty (row ! r)"
  shows "\<exists>m'. hash_right r (map Ok rs) None m = Ok m' \<and> (\<forall>k. key_of ty k \<longrightarrow>
    hash_find same_value k m' = (case find (\<lambda>x. k = x ! r) (rev rs) of None \<Rightarrow> hash_find same_value k m | Some x \<Rightarrow> Some x))"
  using assms
proof (induction rs arbitrary: m)
  case (Cons row rs)
  have key: "key_of ty (row ! r)" "r < length row" using Cons.prems by auto
  from Cons.IH [of "hash_put same_value (row ! r) row m"] Cons.prems obtain m' where
    m': "hash_right r (map Ok rs) None (hash_put same_value (row ! r) row m) = Ok m'"
      "\<And>k. key_of ty k \<Longrightarrow> hash_find same_value k m' = (case find (\<lambda>x. k = x ! r) (rev rs) of
          None \<Rightarrow> hash_find same_value k (hash_put same_value (row ! r) row m) | Some x \<Rightarrow> Some x)" by auto
  from m'(1) key have "hash_right r (map Ok (row # rs)) None m = Ok m'"
    by (simp add: hash_row_def hash_all_def key_of_hashable)
  with m'(2) key(1) show ?case by (auto simp: find_append hash_find_put split: option.splits)
qed simp

lemma hash_join_last:
  assumes "l < length row" "key_of ty (row ! l)"
    and "hash_find same_value (row ! l) m = hit"
  shows "(case hash_join_row l outer nulls m row of None \<Rightarrow> [] | Some x \<Rightarrow> [x]) =
    map Ok (case hit of Some x \<Rightarrow> [row @ x] | None \<Rightarrow> if outer then [row @ nulls] else [])"
proof -
  have "hash_get (row ! l) m = Ok hit"
    using assms(3) key_of_hashable [OF assms(2)] by (auto simp: hash_get_def hash_all_def hash_find_def)
  with assms(1) show ?thesis by (cases hit) (simp_all add: hash_join_row_def)
qed



text \<open>(C28) Hash joins replace nested loop joins.  An equality of a left and a right field, written either way
  round, makes the optimizer replace the nested loop join by a hash join on the two fields.  When all key values
  have one type other than float and no two right rows have the same key, both give the same columns and the
  same rows in the same order.\<close>

theorem sql_hash_join_equivalent:
  fixes T :: "'t sql_txn"
  assumes left: "execute V T left s = (Ok (RS_Query cols (Rows (map Ok ls) None)), s')"
    and right: "execute V T right s' = (Ok (RS_Query rcols (Rows (map Ok rs) None)), s'')"
    and ls: "\<forall>row \<in> set ls. length row = w \<and> key_of ty (row ! l)"
    and rs: "\<forall>row \<in> set rs. r < length row \<and> key_of ty (row ! r)" "distinct (map (\<lambda>row. row ! r) rs)"
    and l: "l < w"
    and p: "p = Equal (Field l ll) (Field (w + r) rl) \<or> p = Equal (Field (w + r) rl) (Field l ll)"
  shows "\<exists>n. join_rule (NestedLoopJoin left w right (Some p) outer) = Some (Ok n) \<and>
    n = HashJoin left (l, ll) right (r, rl) outer \<and>
    execute V T n s = execute V T (NestedLoopJoin left w right (Some p) outer) s"
proof -
  let ?nulls = "replicate (length rcols) Null"
  have e: "evaluate (ex_sql V) (Some (row @ x)) p = Ok (Boolean (row ! l = x ! r))"
    if "row \<in> set ls" "x \<in> set rs" for row x
    using that ls rs l p by (intro matches_equi) auto
  then have d: "\<forall>l \<in> set ls. \<forall>r \<in> set rs. decides (ex_sql V) (Some p) (l @ r)"
    by (auto simp: decides_def)
  have "hash_right r (map Ok rs) None [] = Ok (map (\<lambda>row. (row ! r, row)) rs)"
    using hash_right_distinct [OF rs, of "[]"] by simp
  moreover have "map_rows (hash_join_row l outer ?nulls (map (\<lambda>row. (row ! r, row)) rs)) (Rows (map Ok ls) None) =
      Rows (map Ok (concat (map (join_left (ex_sql V) (Some p) outer ?nulls rs) ls))) None"
    using ls l rs e by (intro map_rows_Ok hash_join_left) (auto simp: matches_def)
  moreover note run_left = bind_op_Ok [where m = "execute V T left" and s = s, OF left]
    and run_right = bind_op_Ok [where m = "execute V T right" and s = s', OF right]
  ultimately have "execute V T (HashJoin left (l, ll) right (r, rl) outer) s =
      execute V T (NestedLoopJoin left w right (Some p) outer) s"
    by (simp add: run_left run_right with_query_def exec_nested_loop_join_def exec_hash_join_def
        nl_rows_correct [OF d])
  then show ?thesis using l p by (auto simp: join_rule_def)
qed

theorem sql_hash_join_equivalent_witness:
  "execute plain_exec (fixed_txn plain_env (sample_db [[Integer 10, Integer 2], [Integer 20, Integer 1]]))
     (HashJoin (scan_of sample_a) (0, None) (scan_of sample_b) (1, None) True) () =
   execute plain_exec (fixed_txn plain_env (sample_db [[Integer 10, Integer 2], [Integer 20, Integer 1]]))
     (NestedLoopJoin (scan_of sample_a) 1 (scan_of sample_b) (Some (Equal (Field 2 None) (Field 0 None))) True) ()"
proof -
  let ?b = "[[Integer 10, Integer 2], [Integer 20, Integer 1]]"
  have "\<forall>row \<in> set [[Integer 1], [Integer 2]]. length row = 1 \<and> key_of T_Integer (row ! 0)"
    "\<forall>row \<in> set ?b. 1 < length row \<and> key_of T_Integer (row ! 1)" "distinct (map (\<lambda>row. row ! 1) ?b)"
    by (simp_all add: key_of_def)
  from sql_hash_join_equivalent [OF scan_samples this, where ll = None and rl = None and outer = True
      and p = "Equal (Field 2 None) (Field 0 None)"]
  show ?thesis by (simp only: one_add_one) simp
qed

end
