(* ===== verification/Sql_Optimizer.thy ===== *)
theory Sql_Optimizer
  imports Sql_Join
begin

text \<open>
  The optimizer.  A rewrite of plan nodes that keeps what a node does is described by the locale
  \<open>plan_rewriting\<close>; transforming a whole plan with it keeps what the plan does.  Constant folding is such a
  rewrite on every transaction whose scan depends only on what its filter evaluates to.  The other
  passes are not: three plans show what they change.
\<close>

section \<open>Rewriting plans\<close>

lemma sources_cases:
  obtains "sources n = []" | s where "sources n = [s]" | l r where "sources n = [l, r]"
  by (cases n) (auto simp: sources_def)

lemma sources_size: "s \<in> set (sources n) \<Longrightarrow> size s < size n"
  by (cases n) (auto simp: sources_def)

lemma with_sources_execute:
  assumes "list_all2 (\<lambda>s s'. execute V T s' = execute V T s) (sources n) ss"
  shows "execute V T (with_sources n ss) = execute V T n"
  using assms by (cases n) (auto simp: sources_def with_sources_def list_all2_Cons1)

lemma bind_ro_Ok: "bind_ro m f = Some (Ok b) \<longleftrightarrow> (\<exists>a. m = Some (Ok a) \<and> f a = Some (Ok b))"
  by (auto simp: bind_ro_def split: option.splits result.splits bind_splits)

locale plan_rewriting =
  fixes V :: exec_env and T :: "'t sql_txn" and rule :: "node \<Rightarrow> node ro"
  assumes rule_keeps: "rule n = Some (Ok n') \<Longrightarrow> execute V T n' = execute V T n"
begin

lemma node_transform_keeps:
  "node_transform (\<lambda>n. Some (Ok n)) rule n = Some (Ok n') \<Longrightarrow> execute V T n' = execute V T n"
proof (induction "size n" arbitrary: n n' rule: less_induct)
  case less
  note IH = less(1) [OF sources_size]
  have run: "bind_ro (Some (Ok n)) (\<lambda>n. case sources n of
      [l, r] \<Rightarrow> bind_ro (node_transform (\<lambda>n. Some (Ok n)) rule l) (\<lambda>l'. bind_ro (node_transform (\<lambda>n. Some (Ok n)) rule r) (\<lambda>r'.
        rule (with_sources n [l', r'])))
    | [s] \<Rightarrow> bind_ro (node_transform (\<lambda>n. Some (Ok n)) rule s) (\<lambda>s'. rule (with_sources n [s']))
    | _ \<Rightarrow> rule n) = Some (Ok n')"
    using less(2) by (subst (asm) node_transform.simps)
  show ?case
  proof (cases rule: sources_cases [of n])
    case 1
    then show ?thesis using run by (auto intro: rule_keeps)
  next
    case (2 s)
    then obtain s' where s': "node_transform (\<lambda>n. Some (Ok n)) rule s = Some (Ok s')" "rule (with_sources n [s']) = Some (Ok n')"
      using run by (auto simp: bind_ro_Ok)
    have "execute V T (with_sources n [s']) = execute V T n"
      using 2 IH [of s] s'(1) by (intro with_sources_execute) simp
    then show ?thesis using rule_keeps [OF s'(2)] by simp
  next
    case (3 l r)
    then obtain l' r' where l': "node_transform (\<lambda>n. Some (Ok n)) rule l = Some (Ok l')"
        "node_transform (\<lambda>n. Some (Ok n)) rule r = Some (Ok r')" "rule (with_sources n [l', r']) = Some (Ok n')"
      using run by (auto simp: bind_ro_Ok)
    have "execute V T (with_sources n [l', r']) = execute V T n"
      using 3 IH [of l] IH [of r] l'(1,2) by (intro with_sources_execute) simp
    then show ?thesis using rule_keeps [OF l'(3)] by simp
  qed
qed

end

section \<open>Constant folding\<close>

text \<open>Two expressions with the same value in every row, which name a projected column the same way.\<close>

definition same_expr :: "sql_env \<Rightarrow> expr \<Rightarrow> expr \<Rightarrow> bool" where
  "same_expr X e e' \<longleftrightarrow> (\<forall>row. evaluate X row e' = evaluate X row e) \<and> (is_field e \<or> is_field e' \<longrightarrow> e' = e)"

lemma same_expr_refl [simp]: "same_expr X e e"
  by (simp add: same_expr_def)

lemma no_field_evaluate: "\<not> expr_contains is_field e \<Longrightarrow> evaluate X row e = evaluate X row' e"
  by (induction e) (simp_all add: expr_contains_def walk.simps [of _ "Constant _"] walk.simps [of _ "Field _ _"]
      walk.simps [of _ "And _ _"] walk.simps [of _ "Not _"] walk.simps [of _ "Or _ _"] walk.simps [of _ "Equal _ _"]
      walk.simps [of _ "GreaterThan _ _"] walk.simps [of _ "IsNull _"] walk.simps [of _ "LessThan _ _"]
      walk.simps [of _ "Add _ _"] walk.simps [of _ "Assert _"] walk.simps [of _ "Divide _ _"]
      walk.simps [of _ "Exponentiate _ _"] walk.simps [of _ "Factorial _"] walk.simps [of _ "Modulo _ _"]
      walk.simps [of _ "Multiply _ _"] walk.simps [of _ "Negate _"] walk.simps [of _ "Subtract _ _"]
      walk.simps [of _ "Like _ _"] is_field_def)

lemma contains_self: "visitor e \<Longrightarrow> expr_contains visitor e"
  by (simp add: expr_contains_def walk.simps [of _ e])

lemma fold_rule_same:
  assumes "fold_rule X e = Ok e'"
  shows "same_expr X e e'"
proof (cases "expr_contains is_field e")
  case True
  then show ?thesis using assms by (simp add: fold_rule_def)
next
  case False
  then obtain v where v: "evaluate X None e = Ok v" "e' = Constant v"
    using assms by (cases "evaluate X None e") (auto simp: fold_rule_def)
  moreover have "evaluate X row e = Ok v" for row
    using no_field_evaluate [OF False, of X row None] v(1) by simp
  moreover have "\<not> is_field e" using False contains_self by blast
  ultimately show ?thesis by (simp add: same_expr_def) (simp add: is_field_def)
qed

lemma with_children_same:
  assumes "list_all2 (same_expr X) (children e) cs"
  shows "same_expr X e (with_children e cs)"
  using assms by (cases e) (auto simp: with_children_def same_expr_def is_field_def list_all2_Cons1)

lemma same_expr_trans:
  assumes "same_expr X a b" "same_expr X b c"
  shows "same_expr X a c"
proof -
  have eval: "evaluate X row b = evaluate X row a" "evaluate X row c = evaluate X row b" for row
    using assms unfolding same_expr_def by blast+
  have "is_field a \<or> is_field b \<longrightarrow> b = a" "is_field b \<or> is_field c \<longrightarrow> c = b"
    using assms unfolding same_expr_def by blast+
  then have "is_field a \<or> is_field c \<longrightarrow> c = a" by metis
  moreover have "evaluate X row c = evaluate X row a" for row by (rule trans [OF eval(2) eval(1)])
  ultimately show ?thesis unfolding same_expr_def by blast
qed

lemma transform_fold: "transform (fold_rule X) Ok e = Some (Ok e') \<Longrightarrow> same_expr X e e'"
proof (induction "size e" arbitrary: e e' rule: less_induct)
  case less
  obtain e1 where e1: "fold_rule X e = Ok e1"
    and run: "(case children e1 of
      [l, r] \<Rightarrow> bind_ro (transform (fold_rule X) Ok l) (\<lambda>l'. bind_ro (transform (fold_rule X) Ok r) (\<lambda>r'.
        Some (Ok (with_children e1 [l', r']))))
    | [c] \<Rightarrow> bind_ro (transform (fold_rule X) Ok c) (\<lambda>c'. Some (Ok (with_children e1 [c'])))
    | _ \<Rightarrow> Some (Ok e1)) = Some (Ok e')"
    using less(2) by (subst (asm) transform.simps) (auto simp: bind_ro_Ok)
  have smaller: "size c < size e" if "c \<in> set (children e1)" for c
  proof -
    have "e1 = e \<or> (\<exists>v. e1 = Constant v)"
      using e1 by (auto simp: fold_rule_def split: if_splits elim: map_result.elims)
    then show ?thesis using that children_size by auto
  qed
  have "same_expr X e1 e'"
  proof (cases rule: children_cases [of e1])
    case 1
    then show ?thesis using run by simp
  next
    case (2 c)
    then obtain c' where "transform (fold_rule X) Ok c = Some (Ok c')" "e' = with_children e1 [c']"
      using run by (auto simp: bind_ro_Ok)
    then show ?thesis using 2 less(1) [OF smaller] by (auto intro!: with_children_same)
  next
    case (3 l r)
    then obtain l' r' where "transform (fold_rule X) Ok l = Some (Ok l')" "transform (fold_rule X) Ok r = Some (Ok r')"
        "e' = with_children e1 [l', r']"
      using run by (auto simp: bind_ro_Ok)
    then show ?thesis using 3 less(1) [OF smaller] by (auto intro!: with_children_same)
  qed
  then show ?case using fold_rule_same [OF e1] same_expr_trans by blast
qed

lemma same_exprD: "same_expr X e e' \<Longrightarrow> evaluate X row e' = evaluate X row e"
  by (simp add: same_expr_def)

lemma collect_ro_Ok: "collect_ro f xs = Some (Ok ys) \<Longrightarrow> list_all2 (\<lambda>x y. f x = Some (Ok y)) xs ys"
  by (induction xs arbitrary: ys) (auto simp: bind_ro_Ok)

lemma collect_fold:
  assumes "collect_ro f xs = Some (Ok ys)" "\<And>x y. f x = Some (Ok y) \<Longrightarrow> P x y"
  shows "list_all2 P xs ys"
  using collect_ro_Ok [OF assms(1)] assms(2) by (rule list_all2_mono)

lemma map_list_all2: "list_all2 (\<lambda>x y. f y = f x) xs ys \<Longrightarrow> map f ys = map f xs"
  by (induction rule: list_all2_induct) simp_all

lemma for_each_list_all2: "list_all2 (\<lambda>x y. f y = f x) xs ys \<Longrightarrow> for_each f ys = for_each f xs"
  by (induction rule: list_all2_induct) simp_all

lemma filter_row_same: "same_expr X e e' \<Longrightarrow> filter_row X e' = filter_row X e"
  by (intro ext) (simp add: filter_row_def same_exprD)

lemma try_next_hit_same: "same_expr X p p' \<Longrightarrow> try_next_hit X (Some p') l right = try_next_hit X (Some p) l right"
  by (induction right) (simp_all add: same_exprD split: result.split sql_value.split)

lemma try_next_same:
  "same_expr X p p' \<Longrightarrow> nl_predicate s = Some p \<Longrightarrow>
    try_next X (s\<lparr>nl_predicate := Some p'\<rparr>) = (case try_next X s of (r, s') \<Rightarrow> (r, s'\<lparr>nl_predicate := Some p'\<rparr>)) \<and>
    nl_predicate (snd (try_next X s)) = Some p"
proof (induction X s rule: try_next.induct)
  case (1 X s)
  note unfold = try_next.simps [of X s] try_next.simps [of X "s\<lparr>nl_predicate := Some p'\<rparr>"]
  show ?case
  proof (cases "\<exists>l. nl_left_row s = Some (Ok l)")
    case True
    then obtain l where l: "nl_left_row s = Some (Ok l)" by blast
    obtain h right where h: "try_next_hit X (Some p) l (nl_right s) = (h, right)" by fastforce
    obtain nxt left where nxt: "rows_next (nl_left s) = (nxt, left)" by fastforce
    let ?s = "s\<lparr>nl_left_row := nxt, nl_left := left, nl_right := nl_right_vec s\<rparr>"
    have swap: "s\<lparr>nl_predicate := Some p', nl_left_row := nxt, nl_left := left, nl_right := nl_right_vec s, nl_right_hit := False\<rparr> =
        ?s\<lparr>nl_right_hit := False, nl_predicate := Some p'\<rparr>"
      by (cases s) simp
    show ?thesis
    proof (cases "h = Ok None \<and> \<not> (nl_outer s \<and> \<not> nl_right_hit s)")
      case True
      have h': "(Ok None, right) = try_next_hit X (nl_predicate s) l (nl_right s)" using True h 1(3) by simp
      from "1.IH" [OF l refl h' refl refl nxt [symmetric] refl conjunct2 [OF True] "1.prems"(1)] 1(3)
      have IH: "try_next X (?s\<lparr>nl_right_hit := False, nl_predicate := Some p'\<rparr>) =
          (case try_next X (?s\<lparr>nl_right_hit := False\<rparr>) of (r, s') \<Rightarrow> (r, s'\<lparr>nl_predicate := Some p'\<rparr>))"
        "nl_predicate (snd (try_next X (?s\<lparr>nl_right_hit := False\<rparr>))) = Some p"
        by simp_all
      have "try_next X s = try_next X (?s\<lparr>nl_right_hit := False\<rparr>)"
        using True h l nxt 1(3) by (auto simp: unfold(1) Let_def)
      moreover have "try_next X (s\<lparr>nl_predicate := Some p'\<rparr>) = try_next X (?s\<lparr>nl_right_hit := False, nl_predicate := Some p'\<rparr>)"
        using True h l nxt by (auto simp: unfold(2) try_next_hit_same [OF 1(2)] Let_def swap)
      ultimately show ?thesis using IH by simp
    next
      case False
      then show ?thesis unfolding unfold using h l nxt 1(3)
        by (cases s) (auto simp: try_next_hit_same [OF 1(2)] Let_def split: result.splits option.splits)
    qed
  next
    case False
    then show ?thesis using 1(3) by (auto simp: unfold split: option.splits result.splits)
  qed
qed

lemma nl_rows_same:
  "same_expr X p p' \<Longrightarrow> nl_predicate s = Some p \<Longrightarrow> nl_rows X (s\<lparr>nl_predicate := Some p'\<rparr>) = nl_rows X s"
proof (induction X s rule: nl_rows.induct)
  case (1 X s)
  note unfold = nl_rows.simps [of X s] nl_rows.simps [of X "s\<lparr>nl_predicate := Some p'\<rparr>"]
  show ?case
  proof (cases "\<exists>l. nl_left_row s = Some (Ok l)")
    case True
    then obtain l where l: "nl_left_row s = Some (Ok l)" by blast
    obtain r s' where r: "try_next X s = (r, s')" by fastforce
    from try_next_same [OF 1(3,4)] r
    have r': "try_next X (s\<lparr>nl_predicate := Some p'\<rparr>) = (r, s'\<lparr>nl_predicate := Some p'\<rparr>)" "nl_predicate s' = Some p" by simp_all
    show ?thesis
    proof (cases r)
      case (Ok x)
      show ?thesis
      proof (cases x)
        case (Some row)
        from "1.IH"(1) [OF l refl r [symmetric] Ok Some "1.prems"(1) r'(2)]
        show ?thesis using l r r' Ok Some by (simp add: unfold)
      qed (use l r r' Ok in \<open>simp add: unfold\<close>)
    next
      case (Err e)
      from "1.IH"(2) [OF l refl r [symmetric] Err "1.prems"(1) r'(2)]
      show ?thesis using l r r' Err by (simp add: unfold)
    qed (use l r r' in \<open>simp add: unfold\<close>)
  next
    case False
    then show ?thesis by (auto simp: unfold split: option.splits result.splits)
  qed
qed

lemma assign_fields_same:
  "list_all2 (\<lambda>(i, l, e) (j, k, e'). i = j \<and> same_expr X e e') es es' \<Longrightarrow> assign_fields X old es' = assign_fields X old es"
proof (induction rule: list_all2_induct)
  case (Cons a es b es')
  then show ?case by (cases a; cases b) (auto simp: fun_eq_iff same_exprD cong: if_cong)
qed simp

lemma update_loop_same:
  assumes "list_all2 (\<lambda>(i, l, e) (j, k, e'). i = j \<and> same_expr (ex_sql V) e e') es es'"
  shows "update_loop V T t es' items updated = update_loop V T t es items updated"
  by (induction items arbitrary: updated) (simp_all add: assign_fields_same [OF assms] cong: if_cong)

locale filtered_scans =
  fixes V :: exec_env and T :: "'t sql_txn"
  assumes scan_filter: "(\<And>row. evaluate (ex_sql V) row f' = evaluate (ex_sql V) row f) \<Longrightarrow>
    tx_scan T t (Some f') = tx_scan T t (Some f)"
begin

lemma transform_expressions_keeps:
  assumes "transform_expressions (fold_rule (ex_sql V)) Ok n = Some (Ok n')"
  shows "execute V T n' = execute V T n"
proof (cases n)
  case (Filter source p)
  then obtain p' where "n' = Filter source p'" "same_expr (ex_sql V) p p'"
    using assms transform_fold by (auto simp: transform_expressions_def bind_ro_Ok)
  then show ?thesis using Filter by (simp add: exec_filter_def [abs_def] filter_row_same)
next
  case (Insert table cols rows)
  then obtain rows' where n': "n' = Insert table cols rows'"
    and rows': "collect_ro (collect_ro (transform (fold_rule (ex_sql V)) Ok)) rows = Some (Ok rows')"
    using assms by (auto simp: transform_expressions_def bind_ro_Ok)
  have "map (evaluate (ex_sql V) None) es' = map (evaluate (ex_sql V) None) es"
    if "collect_ro (transform (fold_rule (ex_sql V)) Ok) es = Some (Ok es')" for es es'
    by (rule map_list_all2, rule collect_fold [OF that], rule same_exprD, rule transform_fold)
  then have same: "list_all2 (\<lambda>es es'. insert_row V T t cols es' = insert_row V T t cols es) rows rows'" for t
    by (intro collect_fold [OF rows']) (simp add: insert_row_def)
  then show ?thesis
    using Insert n' list_all2_lengthD [OF same] for_each_list_all2 [OF same] by (simp add: exec_insert_def)
next
  case (Order source orders)
  then obtain orders' where n': "n' = Order source orders'"
    and c: "collect_ro (\<lambda>(e, d). bind_ro (transform (fold_rule (ex_sql V)) Ok e) (\<lambda>e. Some (Ok (e, d)))) orders = Some (Ok orders')"
    using assms by (auto simp: transform_expressions_def bind_ro_Ok)
  have o: "list_all2 (\<lambda>(e, d) (e', d'). d' = d \<and> same_expr (ex_sql V) e e') orders orders'"
    by (rule collect_fold [OF c]) (auto simp: bind_ro_Ok transform_fold)
  from o have "map (\<lambda>(e, _). evaluate (ex_sql V) (Some row) e) orders' = map (\<lambda>(e, _). evaluate (ex_sql V) (Some row) e) orders" for row
    by (intro map_list_all2, elim list_all2_mono) (auto simp: same_exprD)
  then have "order_item (ex_sql V) orders' = order_item (ex_sql V) orders"
    by (simp add: order_item_def [abs_def])
  then have "order_items (ex_sql V) orders' rows = order_items (ex_sql V) orders rows" for rows
    by (cases rows) simp
  moreover from o have "map snd orders' = map snd orders"
    by (intro map_list_all2, elim list_all2_mono) auto
  ultimately show ?thesis using Order n' by (simp add: exec_order_def [abs_def])
next
  case (NestedLoopJoin left n right predicate outer)
  show ?thesis
  proof (cases predicate)
    case None
    then show ?thesis using NestedLoopJoin assms by (simp add: transform_expressions_def)
  next
    case (Some p)
    then obtain p' where p': "n' = NestedLoopJoin left n right (Some p') outer" "same_expr (ex_sql V) p p'"
      using NestedLoopJoin assms transform_fold by (auto simp: transform_expressions_def bind_ro_Ok)
    have "nl_rows (ex_sql V) (nl_new rows rs w (Some p') outer) = nl_rows (ex_sql V) (nl_new rows rs w (Some p) outer)" for rows rs w
      using nl_rows_same [OF p'(2), of "nl_new rows rs w (Some p) outer"] by (cases "rows_next rows") (simp add: nl_new_def)
    then show ?thesis using NestedLoopJoin Some p'(1) by (simp add: exec_nested_loop_join_def [abs_def])
  qed
next
  case (Projection source es)
  then obtain es' where n': "n' = Projection source es'"
    and c: "collect_ro (\<lambda>(e, l). bind_ro (transform (fold_rule (ex_sql V)) Ok e) (\<lambda>e. Some (Ok (e, l)))) es = Some (Ok es')"
    using assms by (auto simp: transform_expressions_def bind_ro_Ok)
  have o: "list_all2 (\<lambda>(e, l) (e', l'). l' = l \<and> same_expr (ex_sql V) e e') es es'"
    by (rule collect_fold [OF c]) (auto simp: bind_ro_Ok transform_fold)
  from o have "map (\<lambda>(e, _). evaluate (ex_sql V) (Some row) e) es' = map (\<lambda>(e, _). evaluate (ex_sql V) (Some row) e) es" for row
    by (intro map_list_all2, elim list_all2_mono) (auto simp: same_exprD)
  moreover from o have "map (projected_column cols) es' = map (projected_column cols) es" for cols
    by (intro map_list_all2, elim list_all2_mono)
      (auto simp: projected_column_def same_expr_def is_field_def split: option.splits expr.splits)
  ultimately show ?thesis using Projection n' by (simp add: exec_projection_def [abs_def])
next
  case (Scan table al flt)
  show ?thesis
  proof (cases flt)
    case None
    then show ?thesis using Scan assms by (simp add: transform_expressions_def)
  next
    case (Some f)
    then obtain f' where f': "n' = Scan table al (Some f')" "same_expr (ex_sql V) f f'"
      using Scan assms transform_fold by (auto simp: transform_expressions_def bind_ro_Ok)
    have "tx_scan T t (Some f') = tx_scan T t (Some f)" for t
      by (rule scan_filter) (rule same_exprD [OF f'(2)])
    then show ?thesis using Scan Some f'(1) by (simp add: exec_scan_def)
  qed
next
  case (Update table source es)
  then obtain es' where n': "n' = Update table source es'"
    and c: "collect_ro (\<lambda>(i, l, e). bind_ro (transform (fold_rule (ex_sql V)) Ok e) (\<lambda>e. Some (Ok (i, l, e)))) es = Some (Ok es')"
    using assms by (auto simp: transform_expressions_def bind_ro_Ok)
  have o: "list_all2 (\<lambda>(i, l, e) (j, k, e'). i = j \<and> same_expr (ex_sql V) e e') es es'"
    by (rule collect_fold [OF c]) (auto simp: bind_ro_Ok transform_fold)
  show ?thesis using Update n' by (simp add: exec_update_def [abs_def] update_loop_same [OF o])
qed (use assms in \<open>auto simp: transform_expressions_def\<close>)

end

sublocale filtered_scans \<subseteq> folding: plan_rewriting V T "transform_expressions (fold_rule (ex_sql V)) Ok"
  by unfold_locales (rule transform_expressions_keeps)

context filtered_scans
begin

lemma constant_folder_keeps: "constant_folder (ex_sql V) n = Some (Ok n') \<Longrightarrow> execute V T n' = execute V T n"
  unfolding constant_folder_def by (rule folding.node_transform_keeps)

end

lemma fixed_scan_filter:
  assumes "\<And>row. evaluate X row f' = evaluate X row f"
  shows "tx_scan (fixed_txn X db) t (Some f') = tx_scan (fixed_txn X db) t (Some f)"
proof -
  have "filter_row X f' = filter_row X f" using assms by (simp add: filter_row_def [abs_def])
  then show ?thesis by (auto simp: fixed_txn_def split: option.split)
qed

text \<open>(C29) Constant folding.  On every transaction whose scans depend only on what their filter evaluates to,
  a plan with its constant expressions folded does what the plan does: the same result, errors included,
  and the same change of the state.\<close>

theorem sql_constant_folding_sound:
  assumes scan: "\<And>t f f'. (\<And>row. evaluate (ex_sql V) row f' = evaluate (ex_sql V) row f) \<Longrightarrow>
      tx_scan T t (Some f') = tx_scan T t (Some f)"
    and folded: "constant_folder (ex_sql V) n = Some (Ok n')"
  shows "execute V T n' s = execute V T n s"
proof -
  have "filtered_scans V T" by unfold_locales (rule scan)
  from filtered_scans.constant_folder_keeps [OF this folded] show ?thesis by simp
qed

lemma bind_ro_weak_cong: "m = m' \<Longrightarrow> bind_ro m f = bind_ro m' f"
  by simp

lemmas run_transforms = node_transform.simps transform.simps sources_def with_sources_def with_children_def
  transform_expressions_def

definition sample_fold :: node where
  "sample_fold = Filter (scan_of sample_a) (Equal (Field 0 None) (Add (Constant (Integer 1)) (Constant (Integer 1))))"

lemmas contains_simps = expr_contains_def walk.simps [of _ "Constant _"] walk.simps [of _ "Field _ _"]
  walk.simps [of _ "Equal _ _"] walk.simps [of _ "Add _ _"] walk.simps [of _ "And _ _"] walk.simps [of _ "Not _"]
  walk.simps [of _ "IsNull _"]

lemma sample_fold_run:
  "constant_folder plain_env sample_fold = Some (Ok (Filter (scan_of sample_a) (Equal (Field 0 None) (Constant (Integer 2)))))"
  by (simp add: constant_folder_def sample_fold_def run_transforms fold_rule_def contains_simps is_field_def eval2_def
      checked_i64_def fits_i64_def cong: bind_ro_weak_cong)

theorem sql_constant_folding_sound_witness:
  "\<exists>n'. constant_folder (ex_sql plain_exec) sample_fold = Some (Ok n') \<and> n' \<noteq> sample_fold \<and>
     execute plain_exec (fixed_txn plain_env (sample_db [])) n' () = execute plain_exec (fixed_txn plain_env (sample_db [])) sample_fold ()"
proof -
  let ?n = "Filter (scan_of sample_a) (Equal (Field 0 None) (Constant (Integer 2)))"
  have run: "constant_folder (ex_sql plain_exec) sample_fold = Some (Ok ?n)"
    using sample_fold_run by (simp add: plain_exec_def)
  have "execute plain_exec (fixed_txn plain_env (sample_db [])) ?n () = execute plain_exec (fixed_txn plain_env (sample_db [])) sample_fold ()"
    by (rule sql_constant_folding_sound [OF _ run]) (rule fixed_scan_filter, simp add: plain_exec_def)
  then show ?thesis using run by (auto simp: sample_fold_def)
qed

section \<open>Rewrites that change results\<close>

definition sample_catalog :: "bytes \<Rightarrow> table result" where
  "sample_catalog t = ok_or (map_option fst (sample_db [] t)) (Value ''Table {} does not exist'')"

definition join_plan :: node where
  "join_plan = NestedLoopJoin (scan_of sample_a) 1 (scan_of sample_b) (Some sample_equi) False"

definition null_plan :: node where
  "null_plan = Filter (scan_of sample_a) (Not (And (Constant Null) (Equal (Field 0 None) (Field 0 None))))"

definition outer_plan :: node where
  "outer_plan = Filter (NestedLoopJoin (scan_of sample_a) 1 (scan_of sample_b) (Some sample_equi) True) (IsNull (Field 1 None))"

lemma sample_catalog_simps: "sample_catalog (ta_name sample_a) = Ok sample_a" "sample_catalog (ta_name sample_b) = Ok sample_b"
  by (simp_all add: sample_catalog_def ok_or_def sample_tables)

lemma sample_columns:
  "ta_columns sample_a = [int_column ''id'' True]" "ta_columns sample_b = [int_column ''id'' True, int_column ''a'' False]"
  "co_primary_key (int_column c pk) = pk" "co_index (int_column c pk) = False"
  by (simp_all add: sample_a_def sample_b_def int_column_def)

lemmas optimize_simps = optimize_def constant_folder_def filter_pushdown_def index_lookup_def noop_cleaner_def join_type_def
  run_transforms fold_rule_def contains_simps is_field_def pushdown_rule_def pushdown_def pushdown_join_def
  into_cnf_vec_def into_cnf_def into_nnf_def nnf_rule_def cnf_rule_def refers_right_def refers_left_def push_into_def
  shift_rule_def lookup_rule_def wrap_cnf_def noop_rule_def drop_noop_filter_def join_rule_def false_or_null_def

lemma join_plan_optimized:
  "optimize plain_env sample_catalog join_plan = Some (Ok (HashJoin (scan_of sample_a) (0, None) (scan_of sample_b) (1, None) False))"
  by (simp add: join_plan_def sample_equi_def optimize_simps cong: bind_ro_weak_cong)

lemma null_plan_optimized:
  "optimize plain_env sample_catalog null_plan =
    Some (Ok (Scan (ta_name sample_a) None (Some (Not (Constant (Boolean False))))))"
  by (simp add: null_plan_def optimize_simps sample_catalog_simps sample_columns cong: bind_ro_weak_cong)

lemma outer_plan_optimized:
  "optimize plain_env sample_catalog outer_plan =
    Some (Ok (HashJoin (scan_of sample_a) (0, None) (KeyLookup (ta_name sample_b) None [Null]) (1, None) True))"
  by (simp add: outer_plan_def sample_equi_def optimize_simps sample_catalog_simps sample_columns cong: bind_ro_weak_cong)

definition sample_txn :: "unit sql_txn" where
  "sample_txn = fixed_txn plain_env (sample_db [[Integer 10, Integer 1], [Integer 20, Integer 1]])"

definition rows_of :: "node \<Rightarrow> row list result" where
  "rows_of n = bind_r (bind_r (fst (execute plain_exec sample_txn n ())) into_rows) collect_rows"

lemmas scan_sample_txn = scan_samples [where b = "[[Integer 10, Integer 1], [Integer 20, Integer 1]]", folded sample_txn_def]

lemma sample_lookup_null:
  "execute plain_exec sample_txn (KeyLookup (ta_name sample_b) None [Null]) () =
    (Ok (RS_Query (table_columns sample_b) (Rows [] None)), ())"
  by (simp add: exec_key_lookup_def must_read_table_def sample_txn_def fixed_txn_def sample_tables ok_or_def bind_op_def)

lemma sample_scan_all:
  "execute plain_exec sample_txn (Scan (ta_name sample_a) None (Some (Not (Constant (Boolean False))))) () =
    (Ok (RS_Query (table_columns sample_a) (Rows [Ok [Integer 1], Ok [Integer 2]] None)), ())"
  by (simp add: exec_scan_def must_read_table_def sample_txn_def fixed_txn_def sample_tables ok_or_def bind_op_def
      List.map_filter_simps filter_row_def eval1_def)

lemmas run_sources = scan_sample_txn [unfolded execute.simps] sample_lookup_null [unfolded execute.simps]
  sample_scan_all [unfolded execute.simps] bind_op_def

lemma hashable_Integer: "hashable (Integer i)"
  by (simp add: hashable_def hash_value.simps [of "Integer _"])

lemmas join_simps = exec_nested_loop_join_def exec_hash_join_def with_query_def nl_rows.simps try_next.simps nl_new_def
  hash_row_def hash_all_def hashable_Integer same_value_def hash_join_row_def hash_get_def hash_find_def List.map_filter_simps

lemma join_plan_rows:
  "rows_of join_plan = Ok [[Integer 1, Integer 10, Integer 1], [Integer 1, Integer 20, Integer 1]]"
  by (simp add: rows_of_def join_plan_def run_sources join_simps sample_equi_def eval2_def field_value_def)

lemma join_plan_rows_optimized:
  "rows_of (HashJoin (scan_of sample_a) (0, None) (scan_of sample_b) (1, None) False) = Ok [[Integer 1, Integer 20, Integer 1]]"
  by (simp add: rows_of_def run_sources join_simps)

lemma null_plan_rows:
  "rows_of null_plan = Ok []"
  "rows_of (Scan (ta_name sample_a) None (Some (Not (Constant (Boolean False))))) = Ok [[Integer 1], [Integer 2]]"
  by (simp_all add: rows_of_def null_plan_def run_sources exec_filter_def with_query_def List.map_filter_simps
      filter_row_def eval1_def eval2_def field_value_def)

lemma outer_plan_rows:
  "rows_of outer_plan = Ok [[Integer 2, Null, Null]]"
  "rows_of (HashJoin (scan_of sample_a) (0, None) (KeyLookup (ta_name sample_b) None [Null]) (1, None) True) =
    Ok [[Integer 1, Null, Null], [Integer 2, Null, Null]]"
  by (simp_all add: rows_of_def outer_plan_def run_sources join_simps sample_equi_def eval2_def eval1_def field_value_def
      exec_filter_def filter_row_def table_columns_def sample_columns)

text \<open>Three plans that the optimizer gives other results.  A hash join drops all but the last of the right rows with the same
  key; the negation of a conjunction with null is taken to be true; and the condition of a filter over
  an outer join is pushed below the join, where it no longer removes rows.\<close>

lemma optimizer_changes_results:
  "(\<exists>n. optimize plain_env sample_catalog join_plan = Some (Ok n) \<and>
     rows_of join_plan = Ok [[Integer 1, Integer 10, Integer 1], [Integer 1, Integer 20, Integer 1]] \<and>
     rows_of n = Ok [[Integer 1, Integer 20, Integer 1]]) \<and>
   (\<exists>n. optimize plain_env sample_catalog null_plan = Some (Ok n) \<and>
     rows_of null_plan = Ok [] \<and> rows_of n = Ok [[Integer 1], [Integer 2]]) \<and>
   (\<exists>n. optimize plain_env sample_catalog outer_plan = Some (Ok n) \<and>
     rows_of outer_plan = Ok [[Integer 2, Null, Null]] \<and>
     rows_of n = Ok [[Integer 1, Null, Null], [Integer 2, Null, Null]])"
  by (intro conjI exI) (rule join_plan_optimized join_plan_rows join_plan_rows_optimized null_plan_optimized null_plan_rows
      outer_plan_optimized outer_plan_rows)+

end
