(* ===== verification/Sql_Kv.thy ===== *)
theory Sql_Kv
  imports Sql_Execution Mvcc
begin

text \<open>
  The key/value SQL engine: \<^verbatim>\<open>src/src/sql/engine/kv.rs\<close>.  It keeps schemas, rows and index entries under
  keys encoded with Keycode, in an MVCC transaction.  \<open>kv_txn\<close> is what it uses of that transaction, and
  \<open>mvcc_kv\<close> provides it; \<^verbatim>\<open>bincode\<close> for schemas, rows and key sets is the parameter \<open>sql_bincode\<close>.  A hash
  set of keys is the list of its elements.
\<close>

section \<open>Keys\<close>

fun value_serde :: "sql_value \<Rightarrow> serde" where
  "value_serde Null = S_unit_variant 0"
| "value_serde (Boolean b) = S_newtype_variant 1 (S_bool b)"
| "value_serde (Integer i) = S_newtype_variant 2 (S_i64 i)"
| "value_serde (Float f) = S_newtype_variant 3 (S_f64 f)"
| "value_serde (String s) = S_newtype_variant 4 (S_str s)"

definition deserialize_value :: "(deserializer, sql_value) op" where
  "deserialize_value = bind_op (variant_seed 5) (\<lambda>i.
     if i = 0 then return_op Null
     else if i = 1 then bind_op deserialize_bool (\<lambda>b. return_op (Boolean b))
     else if i = 2 then bind_op deserialize_i64 (\<lambda>v. return_op (Integer v))
     else if i = 3 then bind_op deserialize_f64 (\<lambda>f. return_op (Float f))
     else bind_op deserialize_string (\<lambda>s. return_op (String s)))"

datatype skey =
    K_Table bytes
  | K_Index bytes bytes sql_value
  | K_Row bytes sql_value

fun skey_serde :: "skey \<Rightarrow> serde" where
  "skey_serde (K_Table t) = S_newtype_variant 0 (S_str t)"
| "skey_serde (K_Index t c v) = S_tuple_variant 1 [S_str t, S_str c, value_serde v]"
| "skey_serde (K_Row t v) = S_tuple_variant 2 [S_str t, value_serde v]"

definition skey_encode :: "skey \<Rightarrow> bytes result" where
  "skey_encode k = keycode_serialize (skey_serde k)"

definition deserialize_skey :: "(deserializer, skey) op" where
  "deserialize_skey = bind_op (variant_seed 3) (\<lambda>i.
     if i = 0 then bind_op deserialize_string (\<lambda>t. return_op (K_Table t))
     else if i = 1 then bind_op (next_field deserialize_string) (\<lambda>t.
       bind_op (next_field deserialize_string) (\<lambda>c.
       bind_op (next_field deserialize_value) (\<lambda>v. return_op (K_Index t c v))))
     else bind_op (next_field deserialize_string) (\<lambda>t.
       bind_op (next_field deserialize_value) (\<lambda>v. return_op (K_Row t v))))"

definition skey_decode :: "bytes \<Rightarrow> skey result" where
  "skey_decode b = keycode_deserialize deserialize_skey b"

datatype skey_prefix =
    KP_Table
  | KP_Index bytes bytes
  | KP_Row bytes

fun skey_prefix_serde :: "skey_prefix \<Rightarrow> serde" where
  "skey_prefix_serde KP_Table = S_unit_variant 0"
| "skey_prefix_serde (KP_Index t c) = S_tuple_variant 1 [S_str t, S_str c]"
| "skey_prefix_serde (KP_Row t) = S_newtype_variant 2 (S_str t)"

definition skey_prefix_encode :: "skey_prefix \<Rightarrow> bytes result" where
  "skey_prefix_encode p = keycode_serialize (skey_prefix_serde p)"

section \<open>The key/value transaction\<close>

record 'e kv_txn =
  kt_get :: "bytes \<Rightarrow> ('e, bytes option) op"
  kt_set :: "bytes \<Rightarrow> bytes \<Rightarrow> ('e, unit) op"
  kt_delete :: "bytes \<Rightarrow> ('e, unit) op"
  kt_scan_prefix :: "bytes \<Rightarrow> ('e, (bytes \<times> bytes) result list) op"

text \<open>The items of a scan iterator, errors included.\<close>

lemma scan_try_next_takes: "scan_try_next B it = (r, it') \<Longrightarrow> r \<noteq> Ok None \<Longrightarrow> items_left it' < items_left it"
proof (induction "items_left it" arbitrary: it rule: less_induct)
  case less
  obtain x it1 where n: "peekable_next it = (x, it1)" by (cases "peekable_next it")
  obtain q it2 where p: "peekable_peek it1 = (q, it2)" by (cases "peekable_peek it1")
  note run = less.prems(1) [unfolded scan_try_next.simps [of B it] n, simplified]
  show ?case
  proof (cases x)
    case None
    then show ?thesis using run less.prems(2) by simp
  next
    case (Some y)
    have "items_left it1 < items_left it" using n Some peekable_next_shrinks by blast
    moreover have "items_left it2 \<le> items_left it1" using p peekable_peek_shrinks by blast
    moreover have "it' = it1 \<or> it' = it2 \<or> scan_try_next B it2 = (r, it')"
      using run Some by (auto simp: p split: result.splits option.splits if_splits)
    ultimately show ?thesis using less.hyps [of it2] less.prems(2) by auto
  qed
qed

function scan_items :: "bincode \<Rightarrow> scan_iterator \<Rightarrow> (bytes \<times> bytes) result list" where
  "scan_items B it = (case scan_try_next B it of
      (Ok None, _) \<Rightarrow> []
    | (Ok (Some x), it') \<Rightarrow> Ok x # scan_items B it'
    | (Err e, it') \<Rightarrow> Err e # scan_items B it'
    | (Panic p, _) \<Rightarrow> [Panic p])"
  by pat_completeness auto
termination
  by (relation "measure (\<lambda>(B, it). items_left it)") (auto dest!: sym [THEN scan_try_next_takes])

declare scan_items.simps [simp del]

definition mvcc_kv :: "'e engine \<Rightarrow> bincode \<Rightarrow> transaction_state \<Rightarrow> 'e kv_txn" where
  "mvcc_kv E B st = \<lparr>kt_get = txn_get E B st, kt_set = txn_set E B st, kt_delete = txn_delete E B st,
     kt_scan_prefix = (\<lambda>p. bind_op (lift_op (txn_scan_prefix p)) (\<lambda>param.
       bind_op (scan_iter E st param) (\<lambda>it. return_op (scan_items B it))))\<rparr>"

section \<open>Serialization\<close>

record sql_bincode =
  sb_ser_table :: "table \<Rightarrow> bytes result"
  sb_de_table :: "bytes \<Rightarrow> table result"
  sb_ser_row :: "row \<Rightarrow> bytes result"
  sb_de_row :: "bytes \<Rightarrow> row result"
  sb_ser_keys :: "sql_value list \<Rightarrow> bytes result"
  sb_de_keys :: "bytes \<Rightarrow> sql_value list result"

section \<open>Index entries\<close>

text \<open>Deserializing a hash set hashes its elements.\<close>

definition index_load :: "'e kv_txn \<Rightarrow> sql_bincode \<Rightarrow> bytes \<Rightarrow> bytes \<Rightarrow> sql_value \<Rightarrow> ('e, sql_value list) op" where
  "index_load K S table col v = bind_op (lift_op (skey_encode (K_Index table col v))) (\<lambda>k.
     bind_op (kt_get K k) (\<lambda>found. lift_op (case found of
        None \<Rightarrow> Ok []
      | Some b \<Rightarrow> bind_r (sb_de_keys S b) (\<lambda>ks. bind_r (hash_all ks) (\<lambda>_. Ok ks)))))"

definition index_save :: "'e kv_txn \<Rightarrow> sql_bincode \<Rightarrow> bytes \<Rightarrow> bytes \<Rightarrow> sql_value \<Rightarrow> sql_value list \<Rightarrow> ('e, unit) op" where
  "index_save K S table col v index = bind_op (lift_op (skey_encode (K_Index table col v))) (\<lambda>k.
     if index = [] then kt_delete K k
     else bind_op (lift_op (sb_ser_keys S index)) (kt_set K k))"

definition value_at :: "row \<Rightarrow> nat \<Rightarrow> sql_value result" where
  "value_at row i = (if i < length row then Ok (row ! i)
     else Panic ''index out of bounds: the len is {} but the index is {}'')"

definition indexed_columns :: "table \<Rightarrow> (nat \<times> column) list" where
  "indexed_columns t = filter (\<lambda>(_, c). co_index c) (enumerate 0 (ta_columns t))"

definition index_insert :: "'e kv_txn \<Rightarrow> sql_bincode \<Rightarrow> table \<Rightarrow> sql_value \<Rightarrow> column \<Rightarrow> sql_value \<Rightarrow> ('e, unit) op" where
  "index_insert K S t pk c v = bind_op (index_load K S (ta_name t) (co_name c) v) (\<lambda>index.
     bind_op (lift_op (hash_all [pk])) (\<lambda>_.
     index_save K S (ta_name t) (co_name c) v (set_extend index [pk])))"

definition index_remove :: "'e kv_txn \<Rightarrow> sql_bincode \<Rightarrow> table \<Rightarrow> sql_value \<Rightarrow> column \<Rightarrow> sql_value \<Rightarrow> ('e, unit) op" where
  "index_remove K S t pk c v = bind_op (index_load K S (ta_name t) (co_name c) v) (\<lambda>index.
     bind_op (lift_op (hash_all [pk])) (\<lambda>_.
     index_save K S (ta_name t) (co_name c) v (filter (\<lambda>k. \<not> same_value pk k) index)))"

section \<open>Reading\<close>

definition kv_read_table :: "'e kv_txn \<Rightarrow> sql_bincode \<Rightarrow> bytes \<Rightarrow> ('e, table option) op" where
  "kv_read_table K S name = bind_op (lift_op (skey_encode (K_Table name))) (\<lambda>k. bind_op (kt_get K k) (\<lambda>found.
     lift_op (case found of None \<Rightarrow> Ok None | Some b \<Rightarrow> map_result Some (sb_de_table S b))))"

definition kv_scan_tables :: "'e kv_txn \<Rightarrow> sql_bincode \<Rightarrow> ('e, table list) op" where
  "kv_scan_tables K S = bind_op (lift_op (skey_prefix_encode KP_Table)) (\<lambda>p. bind_op (kt_scan_prefix K p) (\<lambda>items.
     lift_op (collect_results (map (\<lambda>item. bind_r item (\<lambda>(_, v). sb_de_table S v)) items))))"

definition kv_read :: "'e kv_txn \<Rightarrow> sql_bincode \<Rightarrow> bytes \<Rightarrow> sql_value \<Rightarrow> ('e, row option) op" where
  "kv_read K S name pk = bind_op (lift_op (skey_encode (K_Row name pk))) (\<lambda>k. bind_op (kt_get K k) (\<lambda>found.
     lift_op (case found of None \<Rightarrow> Ok None | Some b \<Rightarrow> map_result Some (sb_de_row S b))))"

definition kv_read_index :: "'e kv_txn \<Rightarrow> sql_bincode \<Rightarrow> bytes \<Rightarrow> bytes \<Rightarrow> sql_value \<Rightarrow> ('e, sql_value list) op" where
  "kv_read_index K S name col v = bind_op (must_read_table (kv_read_table K S name)) (\<lambda>t.
     bind_op (lift_op (get_column t col)) (\<lambda>c.
     if \<not> co_index c then lift_op (Err (Value ''No index on {}.{}'')) else index_load K S name col v))"

text \<open>Collecting the items into a vector keeps errors as items, but a panic ends it.\<close>

definition collect_items :: "'a result list \<Rightarrow> 'a result list result" where
  "collect_items items = (case find is_panic items of Some (Panic m) \<Rightarrow> Panic m | _ \<Rightarrow> Ok items)"

definition scan_filter :: "sql_env \<Rightarrow> expr option \<Rightarrow> row result \<Rightarrow> row result option" where
  "scan_filter X flt item = (case item of
      Ok row \<Rightarrow> (case flt of None \<Rightarrow> Some (Ok row) | Some f \<Rightarrow> filter_row X f row)
    | err \<Rightarrow> Some err)"

definition kv_scan :: "sql_env \<Rightarrow> 'e kv_txn \<Rightarrow> sql_bincode \<Rightarrow> bytes \<Rightarrow> expr option \<Rightarrow> ('e, row result list) op" where
  "kv_scan X K S name flt = bind_op (must_read_table (kv_read_table K S name)) (\<lambda>t.
     bind_op (lift_op (skey_prefix_encode (KP_Row (ta_name t)))) (\<lambda>p. bind_op (kt_scan_prefix K p) (\<lambda>items.
     lift_op (collect_items (List.map_filter (scan_filter X flt)
       (map (\<lambda>item. bind_r item (\<lambda>(_, v). sb_de_row S v)) items))))))"

definition index_item :: "sql_bincode \<Rightarrow> bytes \<times> bytes \<Rightarrow> (sql_value \<times> sql_value list) result" where
  "index_item S = (\<lambda>(k, v). bind_r (skey_decode k) (\<lambda>key. case key of
      K_Index _ _ iv \<Rightarrow> bind_r (sb_de_keys S v) (\<lambda>ks. bind_r (hash_all ks) (\<lambda>_. Ok (iv, ks)))
    | _ \<Rightarrow> Err (Internal ''Invalid index key'')))"

definition kv_scan_index :: "'e kv_txn \<Rightarrow> sql_bincode \<Rightarrow> bytes \<Rightarrow> bytes \<Rightarrow> ('e, (sql_value \<times> sql_value list) result list) op" where
  "kv_scan_index K S name col = bind_op (must_read_table (kv_read_table K S name)) (\<lambda>t.
     bind_op (lift_op (get_column t col)) (\<lambda>c.
     if \<not> co_index c then lift_op (Err (Value ''No index for {}.{}''))
     else bind_op (lift_op (skey_prefix_encode (KP_Index (ta_name t) (co_name c)))) (\<lambda>p. bind_op (kt_scan_prefix K p) (\<lambda>items.
       lift_op (collect_items (map (\<lambda>item. bind_r item (index_item S)) items))))))"

section \<open>Writing rows\<close>

definition kv_create :: "sql_env \<Rightarrow> 'e kv_txn \<Rightarrow> sql_bincode \<Rightarrow> bytes \<Rightarrow> row \<Rightarrow> ('e, unit) op" where
  "kv_create X K S name row = bind_op (must_read_table (kv_read_table K S name)) (\<lambda>t.
     bind_op (validate_row (kv_read K S) (kv_scan X K S) t row) (\<lambda>_.
     bind_op (lift_op (get_row_key t row)) (\<lambda>pk.
     bind_op (kv_read K S (ta_name t) pk) (\<lambda>found.
     if found \<noteq> None then lift_op (Err (Value ''Primary key {} already exists for table {}''))
     else bind_op (lift_op (skey_encode (K_Row (ta_name t) pk))) (\<lambda>k.
       bind_op (lift_op (sb_ser_row S row)) (\<lambda>b.
       bind_op (kt_set K k b) (\<lambda>_.
       for_each (\<lambda>(i, c). bind_op (lift_op (value_at row i)) (index_insert K S t pk c)) (indexed_columns t))))))))"

text \<open>The check of the references to a row that is to be deleted: the columns of one row, and all rows.\<close>

fun referencing_columns :: "table \<Rightarrow> table \<Rightarrow> sql_value \<Rightarrow> row \<Rightarrow> nat list \<Rightarrow> unit result" where
  "referencing_columns t t' pk row [] = Ok ()"
| "referencing_columns t t' pk row (i # cs) = bind_r (value_at row i) (\<lambda>v.
     bind_r (if value_eq v pk
         then if ta_name t \<noteq> ta_name t' then Ok True else map_result (\<lambda>key. \<not> value_eq pk key) (get_row_key t row)
         else Ok False) (\<lambda>referenced.
     if referenced then Err (Value ''Primary key {} is referenced by table {} column {}'')
     else referencing_columns t t' pk row cs))"

fun reference_loop :: "table \<Rightarrow> table \<Rightarrow> sql_value \<Rightarrow> nat list \<Rightarrow> row result list \<Rightarrow> unit result" where
  "reference_loop t t' pk cs [] = Ok ()"
| "reference_loop t t' pk cs (item # items) = bind_r item (\<lambda>row.
     bind_r (referencing_columns t t' pk row cs) (\<lambda>_. reference_loop t t' pk cs items))"

definition check_references :: "sql_env \<Rightarrow> 'e kv_txn \<Rightarrow> sql_bincode \<Rightarrow> table \<Rightarrow> sql_value \<Rightarrow> bytes \<times> bytes list \<Rightarrow> ('e, unit) op" where
  "check_references X K S t pk = (\<lambda>(name, cs). bind_op (must_read_table (kv_read_table K S name)) (\<lambda>t'.
     bind_op (lift_op (collect_results (map (get_column_index t') cs))) (\<lambda>cis.
     bind_op (kv_scan X K S (ta_name t') None) (\<lambda>items. lift_op (reference_loop t t' pk cis items)))))"

definition kv_delete :: "sql_env \<Rightarrow> 'e kv_txn \<Rightarrow> sql_bincode \<Rightarrow> bytes \<Rightarrow> sql_value \<Rightarrow> ('e, unit) op" where
  "kv_delete X K S name pk = bind_op (must_read_table (kv_read_table K S name)) (\<lambda>t.
     bind_op (table_references (kv_scan_tables K S) (ta_name t) True) (\<lambda>refs.
     bind_op (for_each (check_references X K S t pk) refs) (\<lambda>_.
     bind_op (if indexed_columns t = [] then return_op ()
       else bind_op (kv_read K S (ta_name t) pk) (\<lambda>found. case found of
           None \<Rightarrow> return_op ()
         | Some row \<Rightarrow> for_each (\<lambda>(i, c). bind_op (lift_op (value_at row i)) (index_remove K S t pk c)) (indexed_columns t))) (\<lambda>_.
     bind_op (lift_op (skey_encode (K_Row (ta_name t) pk))) (kt_delete K)))))"

definition update_index :: "'e kv_txn \<Rightarrow> sql_bincode \<Rightarrow> table \<Rightarrow> sql_value \<Rightarrow> row \<Rightarrow> row \<Rightarrow> nat \<times> column \<Rightarrow> ('e, unit) op" where
  "update_index K S t pk old row = (\<lambda>(i, c).
     bind_op (lift_op (value_at old i)) (\<lambda>v. bind_op (lift_op (value_at row i)) (\<lambda>v'.
     if value_eq v v' then return_op ()
     else bind_op (index_remove K S t pk c v) (\<lambda>_. index_insert K S t pk c v'))))"

definition kv_update :: "sql_env \<Rightarrow> 'e kv_txn \<Rightarrow> sql_bincode \<Rightarrow> bytes \<Rightarrow> sql_value \<Rightarrow> row \<Rightarrow> ('e, unit) op" where
  "kv_update X K S name pk row = bind_op (must_read_table (kv_read_table K S name)) (\<lambda>t.
     bind_op (lift_op (get_row_key t row)) (\<lambda>key.
     if \<not> value_eq pk key
     then bind_op (kv_delete X K S (ta_name t) pk) (\<lambda>_. kv_create X K S (ta_name t) row)
     else bind_op (if indexed_columns t = [] then return_op ()
         else bind_op (kv_read K S (ta_name t) pk) (\<lambda>found. case found of
             None \<Rightarrow> lift_op (Panic ''called `Option::unwrap()` on a `None` value'')
           | Some old \<Rightarrow> for_each (update_index K S t pk old row) (indexed_columns t))) (\<lambda>_.
       bind_op (validate_row (kv_read K S) (kv_scan X K S) t row) (\<lambda>_.
       bind_op (lift_op (skey_encode (K_Row (ta_name t) pk))) (\<lambda>k.
       bind_op (lift_op (sb_ser_row S row)) (kt_set K k))))))"

section \<open>Schemas\<close>

definition kv_create_table :: "'e kv_txn \<Rightarrow> sql_bincode \<Rightarrow> table \<Rightarrow> ('e, unit) op" where
  "kv_create_table K S t = bind_op (kv_read_table K S (ta_name t)) (\<lambda>found.
     if found \<noteq> None then lift_op (Err (Value ''Table {} already exists''))
     else bind_op (table_validate (kv_read_table K S) t) (\<lambda>_.
       bind_op (lift_op (skey_encode (K_Table (ta_name t)))) (\<lambda>k.
       bind_op (lift_op (sb_ser_table S t)) (kt_set K k))))"

definition delete_scanned :: "sql_env \<Rightarrow> 'e kv_txn \<Rightarrow> sql_bincode \<Rightarrow> table \<Rightarrow> row result \<Rightarrow> ('e, unit) op" where
  "delete_scanned X K S t item = bind_op (lift_op item) (\<lambda>row. bind_op (lift_op (get_row_key t row)) (kv_delete X K S (ta_name t)))"

definition kv_delete_table :: "sql_env \<Rightarrow> 'e kv_txn \<Rightarrow> sql_bincode \<Rightarrow> bytes \<Rightarrow> ('e, unit) op" where
  "kv_delete_table X K S name = bind_op (must_read_table (kv_read_table K S name)) (\<lambda>t.
     bind_op (table_references (kv_scan_tables K S) (ta_name t) False) (\<lambda>refs.
     if refs \<noteq> [] then lift_op (Err (Value ''Table {} is referenced by table {} column {}''))
     else bind_op (kv_scan X K S (ta_name t) None) (\<lambda>items.
       bind_op (for_each (delete_scanned X K S t) items) (\<lambda>_.
       bind_op (lift_op (skey_encode (K_Table (ta_name t)))) (kt_delete K)))))"

definition kv_transaction :: "sql_env \<Rightarrow> 'e kv_txn \<Rightarrow> sql_bincode \<Rightarrow> 'e sql_txn" where
  "kv_transaction X K S = \<lparr>tx_create_table = kv_create_table K S, tx_delete_table = kv_delete_table X K S,
     tx_read_table = kv_read_table K S, tx_scan_tables = kv_scan_tables K S,
     tx_create = kv_create X K S, tx_delete = kv_delete X K S, tx_read = kv_read K S,
     tx_read_index = kv_read_index K S, tx_scan = kv_scan X K S, tx_scan_index = kv_scan_index K S,
     tx_update = kv_update X K S\<rparr>"

end
