(* ===== verification/Sql_Kv_Store.thy ===== *)
theory Sql_Kv_Store
  imports Sql_Kv Mvcc_Scan
begin

text \<open>
  The database that a key/value transaction holds.  \<open>sql_store\<close> is the contract of the transaction that
  the SQL engine relies on; a state of it represents a database \<open>db\<close>: schemas by name, rows by
  table and primary key, and sets of primary keys by table, column and value.  Every operation of
  the engine that succeeds does to the database what its name says.
\<close>

section \<open>Encoded keys\<close>

fun enc_value :: "sql_value \<Rightarrow> bytes" where
  "enc_value Null = [0]"
| "enc_value (Boolean b) = 1 # encoded serialize_bool b"
| "enc_value (Integer i) = 2 # encoded serialize_i64 i"
| "enc_value (Float f) = 3 # encoded serialize_f64 f"
| "enc_value (String s) = 4 # encoded serialize_str s"

fun skey_bytes :: "skey \<Rightarrow> bytes" where
  "skey_bytes (K_Table t) = 0 # encoded serialize_str t"
| "skey_bytes (K_Index t c v) = 1 # encoded serialize_str t @ encoded serialize_str c @ enc_value v"
| "skey_bytes (K_Row t v) = 2 # encoded serialize_str t @ enc_value v"

lemma value_serde_appends: "serialize_into (value_serde v) out = (Ok (), out @ enc_value v)"
  by (cases v) (simp_all add: bind_op_def serialize_unit_variant_def bool_codec.appends i64_codec.appends f64_codec.appends
      str_codec.appends)

lemma skey_encode_bytes [simp]: "skey_encode k = Ok (skey_bytes k)"
  by (cases k) (simp_all add: skey_encode_def keycode_serialize_def bind_op_def serialize_unit_variant_def str_codec.appends
      value_serde_appends return_op_def)

lemma skey_prefix_encode_bytes [simp]:
  "skey_prefix_encode KP_Table = Ok [0]"
  "skey_prefix_encode (KP_Index t c) = Ok (1 # encoded serialize_str t @ encoded serialize_str c)"
  "skey_prefix_encode (KP_Row t) = Ok (2 # encoded serialize_str t)"
  by (simp_all add: skey_prefix_encode_def keycode_serialize_def bind_op_def serialize_unit_variant_def str_codec.appends return_op_def)

lemma enc_value_inject: "enc_value v = enc_value w \<longleftrightarrow> v = w"
  using bool_codec.enc_inject [of _ "[]" _ "[]"] i64_codec.enc_inject [of _ "[]" _ "[]"]
    f64_codec.enc_inject [of _ "[]" _ "[]"] str_codec.enc_inject [of _ "[]" _ "[]"]
  by (cases v; cases w) simp_all

lemma enc_str_inject: "encoded serialize_str s = encoded serialize_str t \<longleftrightarrow> s = t"
  using str_codec.enc_inject [of s "[]" t "[]"] by simp

lemma skey_bytes_inject [simp]: "skey_bytes k = skey_bytes l \<longleftrightarrow> k = l"
  by (cases k; cases l) (simp_all add: str_codec.enc_inject enc_value_inject enc_str_inject)

lemma prefix_Table: "prefix [0] (skey_bytes k) \<longleftrightarrow> (\<exists>t. k = K_Table t)"
  by (cases k) auto

lemma prefix_enc_str: "prefix (encoded serialize_str s) (encoded serialize_str t @ r) \<longleftrightarrow> s = t"
proof
  assume "prefix (encoded serialize_str s) (encoded serialize_str t @ r)"
  then obtain q where "encoded serialize_str t @ r = encoded serialize_str s @ q" by (auto elim: prefixE)
  then show "s = t" by (simp add: str_codec.enc_inject)
qed simp

lemma prefix_Row: "prefix (2 # encoded serialize_str t) (skey_bytes k) \<longleftrightarrow> (\<exists>v. k = K_Row t v)"
  by (cases k) (auto simp: prefix_enc_str)

section \<open>The database\<close>

record db =
  d_tables :: "bytes \<Rightarrow> table option"
  d_rows :: "bytes \<times> sql_value \<Rightarrow> row option"
  d_index :: "bytes \<times> bytes \<times> sql_value \<Rightarrow> sql_value set"

definition sb_ok :: "sql_bincode \<Rightarrow> bool" where
  "sb_ok S \<longleftrightarrow> (\<forall>t. \<exists>b. sb_ser_table S t = Ok b \<and> sb_de_table S b = Ok t) \<and>
     (\<forall>row. \<exists>b. sb_ser_row S row = Ok b \<and> sb_de_row S b = Ok row) \<and>
     (\<forall>ks. \<exists>b ks'. sb_ser_keys S ks = Ok b \<and> sb_de_keys S b = Ok ks' \<and> set ks' = set ks)"

definition stored :: "(bytes \<Rightarrow> 'a result) \<Rightarrow> bytes option \<Rightarrow> 'a option \<Rightarrow> bool" where
  "stored de b x \<longleftrightarrow> (case x of None \<Rightarrow> b = None | Some a \<Rightarrow> \<exists>c. b = Some c \<and> de c = Ok a)"

definition stored_keys :: "(bytes \<Rightarrow> sql_value list result) \<Rightarrow> bytes option \<Rightarrow> sql_value set \<Rightarrow> bool" where
  "stored_keys de b ks \<longleftrightarrow> (case b of
      None \<Rightarrow> ks = {}
    | Some c \<Rightarrow> \<exists>l. de c = Ok l \<and> list_all hashable l \<and> set l = ks)"

definition holds_db :: "sql_bincode \<Rightarrow> (bytes \<Rightarrow> bytes option) \<Rightarrow> db \<Rightarrow> bool" where
  "holds_db S m D \<longleftrightarrow> (\<forall>k. m k \<noteq> None \<longrightarrow> (\<exists>s. k = skey_bytes s)) \<and>
     (\<forall>t. stored (sb_de_table S) (m (skey_bytes (K_Table t))) (d_tables D t)) \<and>
     (\<forall>t v. stored (sb_de_row S) (m (skey_bytes (K_Row t v))) (d_rows D (t, v))) \<and>
     (\<forall>t c v. stored_keys (sb_de_keys S) (m (skey_bytes (K_Index t c v))) (d_index D (t, c, v)))"

lemma holds_empty: "holds_db S (\<lambda>_. None) \<lparr>d_tables = \<lambda>_. None, d_rows = \<lambda>_. None, d_index = \<lambda>_. {}\<rparr>"
  by (simp add: holds_db_def stored_def stored_keys_def)

lemma holds_updates:
  assumes "holds_db S m D"
  shows "sb_de_table S b = Ok T \<Longrightarrow> holds_db S (m(skey_bytes (K_Table t) \<mapsto> b)) (D\<lparr>d_tables := (d_tables D)(t \<mapsto> T)\<rparr>)"
    and "holds_db S (m(skey_bytes (K_Table t) := None)) (D\<lparr>d_tables := (d_tables D)(t := None)\<rparr>)"
    and "sb_de_row S b = Ok row \<Longrightarrow> holds_db S (m(skey_bytes (K_Row t v) \<mapsto> b)) (D\<lparr>d_rows := (d_rows D)((t, v) \<mapsto> row)\<rparr>)"
    and "holds_db S (m(skey_bytes (K_Row t v) := None)) (D\<lparr>d_rows := (d_rows D)((t, v) := None)\<rparr>)"
    and "sb_de_keys S b = Ok ks \<Longrightarrow> list_all hashable ks \<Longrightarrow>
      holds_db S (m(skey_bytes (K_Index t c v) \<mapsto> b)) (D\<lparr>d_index := (d_index D)((t, c, v) := set ks)\<rparr>)"
    and "holds_db S (m(skey_bytes (K_Index t c v) := None)) (D\<lparr>d_index := (d_index D)((t, c, v) := {})\<rparr>)"
  using assms by (auto simp: holds_db_def stored_def stored_keys_def simp del: skey_bytes.simps)

section \<open>Steps of index maintenance\<close>

text \<open>What one step does to the sets of keys: for one column with its position, and for a list of them.\<close>

type_synonym index_map = "bytes \<times> bytes \<times> sql_value \<Rightarrow> sql_value set"

definition ix_insert :: "bytes \<Rightarrow> sql_value \<Rightarrow> row \<Rightarrow> nat \<times> column \<Rightarrow> index_map \<Rightarrow> index_map" where
  "ix_insert t k row = (\<lambda>(i, c) I. I((t, co_name c, row ! i) := insert k (I (t, co_name c, row ! i))))"

definition ix_remove :: "bytes \<Rightarrow> sql_value \<Rightarrow> row \<Rightarrow> nat \<times> column \<Rightarrow> index_map \<Rightarrow> index_map" where
  "ix_remove t k row = (\<lambda>(i, c) I. I((t, co_name c, row ! i) := I (t, co_name c, row ! i) - {k}))"

definition ix_update :: "bytes \<Rightarrow> sql_value \<Rightarrow> row \<Rightarrow> row \<Rightarrow> nat \<times> column \<Rightarrow> index_map \<Rightarrow> index_map" where
  "ix_update t k old row ic I = (if old ! fst ic = row ! fst ic then I else ix_insert t k row ic (ix_remove t k old ic I))"

lemma fold_other: "(\<And>ic I. ic \<in> set cs \<Longrightarrow> f ic I x = I x) \<Longrightarrow> fold f cs I x = I x"
  by (induction cs arbitrary: I) auto

definition local_steps :: "bytes \<Rightarrow> (nat \<times> column \<Rightarrow> index_map \<Rightarrow> index_map) \<Rightarrow> bool" where
  "local_steps t f \<longleftrightarrow> (\<forall>i c I x. (\<forall>v. x \<noteq> (t, co_name c, v)) \<longrightarrow> f (i, c) I x = I x) \<and>
     (\<forall>i c I J. (\<forall>v. I (t, co_name c, v) = J (t, co_name c, v)) \<longrightarrow> (\<forall>v. f (i, c) I (t, co_name c, v) = f (i, c) J (t, co_name c, v)))"

lemma local_ix: "local_steps t (ix_insert t k row)" "local_steps t (ix_remove t k row)" "local_steps t (ix_update t k old row)"
  by (auto simp: local_steps_def ix_insert_def ix_remove_def ix_update_def)

lemma local_other: "local_steps t f \<Longrightarrow> (\<And>v. x \<noteq> (t, co_name c, v)) \<Longrightarrow> f (i, c) I x = I x"
  unfolding local_steps_def by blast

lemma local_same:
  assumes "local_steps t f" "\<And>v. I (t, co_name c, v) = J (t, co_name c, v)"
  shows "f (i, c) I (t, co_name c, v) = f (i, c) J (t, co_name c, v)"
  by (rule assms(1) [unfolded local_steps_def, THEN conjunct2, rule_format]) (rule assms(2))

lemma fold_local:
  assumes local: "local_steps t f" and "distinct (map (co_name \<circ> snd) cs)" "(i, c) \<in> set cs"
  shows "fold f cs I (t, co_name c, v) = f (i, c) I (t, co_name c, v)"
  using assms(2,3)
proof (induction cs arbitrary: I)
  case (Cons ic cs)
  obtain j d where ic: "ic = (j, d)" by fastforce
  show ?case
  proof (cases "(i, c) = ic")
    case True
    have "fold f cs (f ic I) (t, co_name c, v) = f ic I (t, co_name c, v)"
    proof (rule fold_other)
      fix jd J
      assume jd: "jd \<in> set cs"
      then have "co_name (snd jd) \<noteq> co_name c" using Cons.prems(1) True ic by force
      then show "f jd J (t, co_name c, v) = J (t, co_name c, v)"
        using local_other [OF local, of "(t, co_name c, v)" "snd jd" "fst jd"] by simp
    qed
    then show ?thesis using True by simp
  next
    case False
    then have c: "(i, c) \<in> set cs" using Cons.prems by auto
    then have "co_name d \<noteq> co_name c" using Cons.prems(1) ic by force
    then have "f ic I (t, co_name c, v) = I (t, co_name c, v)" for v
      using local_other [OF local, of "(t, co_name c, v)" d j] ic by simp
    then have "f (i, c) (f ic I) (t, co_name c, v) = f (i, c) I (t, co_name c, v)"
      by (rule local_same [OF local])
    then show ?thesis using Cons.IH [OF _ c, of "f ic I"] Cons.prems(1) by simp
  qed
qed simp

lemma fold_outside:
  assumes "local_steps t f" "\<And>i c v. (i, c) \<in> set cs \<Longrightarrow> x \<noteq> (t, co_name c, v)"
  shows "fold f cs I x = I x"
proof (rule fold_other)
  fix ic J
  assume "ic \<in> set cs"
  then show "f ic J x = J x" using local_other [OF assms(1), of x "snd ic" "fst ic"] assms(2) [of "fst ic" "snd ic"] by simp
qed

section \<open>The contract\<close>

definition db_state :: "('e \<Rightarrow> bool) \<Rightarrow> ('e \<Rightarrow> bytes \<Rightarrow> bytes option) \<Rightarrow> sql_bincode \<Rightarrow> 'e \<Rightarrow> db \<Rightarrow> bool" where
  "db_state ok view S e D \<longleftrightarrow> ok e \<and> holds_db S (view e) D"

locale sql_store =
  fixes K :: "'e kv_txn" and ok :: "'e \<Rightarrow> bool" and view :: "'e \<Rightarrow> bytes \<Rightarrow> bytes option" and S :: sql_bincode
  assumes get_law: "ok e \<Longrightarrow> kt_get K k e = (Ok (view e k), e)"
    and set_law: "ok e \<Longrightarrow> kt_set K k b e = (Ok (), e') \<Longrightarrow> ok e' \<and> view e' = (view e)(k \<mapsto> b)"
    and delete_law: "ok e \<Longrightarrow> kt_delete K k e = (Ok (), e') \<Longrightarrow> ok e' \<and> view e' = (view e)(k := None)"
    and scan_law: "ok e \<Longrightarrow> \<exists>kvs. kt_scan_prefix K p e = (Ok (map Ok kvs), e) \<and> ordered kvs \<and>
      (\<forall>k x. (k, x) \<in> set kvs \<longleftrightarrow> prefix p k \<and> view e k = Some x)"
    and bincode_law: "sb_ok S"
begin

lemma stateD:
  assumes "db_state ok view S e D"
  shows "ok e" "stored (sb_de_table S) (view e (skey_bytes (K_Table t))) (d_tables D t)"
    "stored (sb_de_row S) (view e (skey_bytes (K_Row t v))) (d_rows D (t, v))"
    "stored_keys (sb_de_keys S) (view e (skey_bytes (K_Index t c v))) (d_index D (t, c, v))"
    "view e k = Some b \<Longrightarrow> \<exists>s. k = skey_bytes s"
  using assms unfolding db_state_def holds_db_def by blast+

lemma read_table_run:
  assumes "db_state ok view S e D"
  shows "kv_read_table K S t e = (Ok (d_tables D t), e)"
  using stateD(2) [OF assms, of t] get_law [OF stateD(1) [OF assms]]
  by (auto simp: kv_read_table_def bind_op_def stored_def split: option.splits simp del: skey_bytes.simps)

lemma must_read_run:
  assumes "db_state ok view S e D"
  shows "must_read_table (kv_read_table K S t) e = (case d_tables D t of
      Some T \<Rightarrow> (Ok T, e) | None \<Rightarrow> (Err (Value ''Table {} does not exist''), e))"
  using read_table_run [OF assms, of t] by (simp add: must_read_table_def bind_op_def ok_or_def split: option.splits)

lemma read_run:
  assumes "db_state ok view S e D"
  shows "kv_read K S t v e = (Ok (d_rows D (t, v)), e)"
  using stateD(3) [OF assms, of t v] get_law [OF stateD(1) [OF assms]]
  by (auto simp: kv_read_def bind_op_def stored_def split: option.splits simp del: skey_bytes.simps)

lemma index_load_run:
  assumes "db_state ok view S e D"
  shows "\<exists>ks. index_load K S t c v e = (Ok ks, e) \<and> list_all hashable ks \<and> set ks = d_index D (t, c, v)"
  using stateD(4) [OF assms, of t c v] get_law [OF stateD(1) [OF assms]]
  by (auto simp: index_load_def bind_op_def stored_keys_def hash_all_def split: option.splits simp del: skey_bytes.simps)

lemma index_save_run:
  assumes D: "db_state ok view S e D" and run: "index_save K S t c v ks e = (Ok (), e')" and ks: "list_all hashable ks"
  shows "db_state ok view S e' (D\<lparr>d_index := (d_index D)((t, c, v) := set ks)\<rparr>)"
proof (cases "ks = []")
  case True
  with run have "kt_delete K (skey_bytes (K_Index t c v)) e = (Ok (), e')"
    by (simp add: index_save_def bind_op_def del: skey_bytes.simps)
  from delete_law [OF stateD(1) [OF D] this] show ?thesis
    using D True holds_updates(6) [of S "view e" D t c v] by (simp add: db_state_def del: skey_bytes.simps)
next
  case False
  obtain b ks' where b: "sb_ser_keys S ks = Ok b" "sb_de_keys S b = Ok ks'" "set ks' = set ks"
    using bincode_law unfolding sb_ok_def by metis
  with run False have "kt_set K (skey_bytes (K_Index t c v)) b e = (Ok (), e')"
    by (simp add: index_save_def bind_op_def del: skey_bytes.simps)
  from set_law [OF stateD(1) [OF D] this] show ?thesis
    using D ks b(3) holds_updates(5) [OF _ b(2), of "view e" D t c v]
    by (simp add: db_state_def list_all_iff del: skey_bytes.simps)
qed

lemma index_insert_run:
  assumes D: "db_state ok view S e D" and run: "index_insert K S T k c v e = (Ok (), e')"
  shows "db_state ok view S e' (D\<lparr>d_index := (d_index D)((ta_name T, co_name c, v) := insert k (d_index D (ta_name T, co_name c, v)))\<rparr>)"
proof -
  obtain ks where ks: "index_load K S (ta_name T) (co_name c) v e = (Ok ks, e)" "list_all hashable ks"
      "set ks = d_index D (ta_name T, co_name c, v)"
    using index_load_run [OF D] by blast
  with run have hk: "hashable k" and save: "index_save K S (ta_name T) (co_name c) v (set_extend ks [k]) e = (Ok (), e')"
    by (auto simp: index_insert_def bind_op_def hash_all_def split: if_splits)
  have "list_all hashable (set_extend ks [k])" "set (set_extend ks [k]) = insert k (set ks)"
    using ks(2) hk by (auto simp: list_ex_iff same_value_def)
  then show ?thesis using index_save_run [OF D save] ks(3) by simp
qed

lemma index_remove_run:
  assumes D: "db_state ok view S e D" and run: "index_remove K S T k c v e = (Ok (), e')" and k: "\<And>x. same_value k x \<longleftrightarrow> k = x"
  shows "db_state ok view S e' (D\<lparr>d_index := (d_index D)((ta_name T, co_name c, v) := d_index D (ta_name T, co_name c, v) - {k})\<rparr>)"
proof -
  obtain ks where ks: "index_load K S (ta_name T) (co_name c) v e = (Ok ks, e)" "list_all hashable ks"
      "set ks = d_index D (ta_name T, co_name c, v)"
    using index_load_run [OF D] by blast
  with run have save: "index_save K S (ta_name T) (co_name c) v (filter (\<lambda>x. \<not> same_value k x) ks) e = (Ok (), e')"
    by (auto simp: index_remove_def bind_op_def hash_all_def split: if_splits)
  have "list_all hashable (filter (\<lambda>x. \<not> same_value k x) ks)" "set (filter (\<lambda>x. \<not> same_value k x) ks) = set ks - {k}"
    using ks(2) by (auto simp: list_all_iff k)
  then show ?thesis using index_save_run [OF D save] ks(3) by simp
qed

lemma loop_run:
  assumes "db_state ok view S e D" "for_each f cs e = (Ok (), e')"
    and "\<And>ic e e' D. ic \<in> set cs \<Longrightarrow> db_state ok view S e D \<Longrightarrow> f ic e = (Ok (), e') \<Longrightarrow> db_state ok view S e' (D\<lparr>d_index := g ic (d_index D)\<rparr>)"
  shows "db_state ok view S e' (D\<lparr>d_index := fold g cs (d_index D)\<rparr>)"
  using assms
proof (induction cs arbitrary: e D)
  case (Cons ic cs)
  from Cons.prems(2) obtain e1 where e1: "f ic e = (Ok (), e1)" "for_each f cs e1 = (Ok (), e')"
    by (auto simp: bind_op_eq_Ok)
  have "db_state ok view S e1 (D\<lparr>d_index := g ic (d_index D)\<rparr>)" using Cons.prems(1,3) e1(1) by simp
  from Cons.IH [OF this e1(2)] Cons.prems(3) show ?case by simp
qed (simp)

end

end
