(* ===== verification/Sql_Kv_Run.thy ===== *)
theory Sql_Kv_Run
  imports Sql_Kv_Store
begin

text \<open>
  What the operations of the key/value SQL engine do to the database when they succeed, and the
  integrity of the database that they keep.
\<close>

section \<open>Values that compare as they are\<close>

definition exact :: "sql_value \<Rightarrow> bool" where
  "exact v \<longleftrightarrow> (case v of Float _ \<Rightarrow> False | _ \<Rightarrow> True)"

lemma exact_value_eq: "exact a \<Longrightarrow> value_eq a b \<longleftrightarrow> a = b"
  by (cases a; cases b) (auto simp: exact_def)

lemma exact_same: "exact a \<Longrightarrow> same_value a b \<longleftrightarrow> a = b"
  by (auto simp: same_value_def exact_value_eq)

lemma cell_ok_exact: "cell_ok c v \<Longrightarrow> co_datatype c \<noteq> T_Float \<Longrightarrow> exact v"
  by (cases v) (auto simp: cell_ok_def exact_def)

lemma row_ok_nth: "row_ok T row \<Longrightarrow> i < length (ta_columns T) \<Longrightarrow> cell_ok (ta_columns T ! i) (row ! i)"
  by (simp add: row_ok_def list_all2_conv_all_nth)

lemma row_ok_length: "row_ok T row \<Longrightarrow> length row = length (ta_columns T)"
  by (simp add: row_ok_def list_all2_lengthD)

lemma indexed_columnsD: "(i, c) \<in> set (indexed_columns T) \<Longrightarrow> i < length (ta_columns T) \<and> c = ta_columns T ! i \<and> co_index c"
  by (auto simp: indexed_columns_def in_set_enumerate_eq)

lemma indexed_columnsI: "i < length (ta_columns T) \<Longrightarrow> co_index (ta_columns T ! i) \<Longrightarrow> (i, ta_columns T ! i) \<in> set (indexed_columns T)"
  by (auto simp: indexed_columns_def in_set_enumerate_eq)

lemma distinct_indexed:
  assumes "distinct (map co_name (ta_columns T))"
  shows "distinct (map (co_name \<circ> snd) (indexed_columns T))"
proof -
  have "map snd (indexed_columns T) = filter co_index (ta_columns T)"
    using filter_map [of co_index snd "enumerate 0 (ta_columns T)"]
    by (simp add: indexed_columns_def comp_def case_prod_beta')
  then have "map (co_name \<circ> snd) (indexed_columns T) = map co_name (filter co_index (ta_columns T))"
    by (simp flip: map_map)
  then show ?thesis using assms by (simp add: distinct_map_filter)
qed

lemma for_each_keeps:
  assumes "\<And>x. snd (f x e) = e"
  shows "snd (for_each f xs e) = e"
proof (induction xs)
  case (Cons x xs)
  obtain r where "f x e = (r, e)" using assms [of x] by (metis prod.collapse)
  with Cons show ?case by (cases r) (simp_all add: bind_op_def)
qed simp

lemma db_swap: "D\<lparr>d_index := I, d_rows := R\<rparr> = D\<lparr>d_rows := R, d_index := I\<rparr>" for D :: db
  by simp

section \<open>Scans\<close>

context sql_store
begin

lemma scanned_run:
  assumes D: "db_state ok view S e D"
    and pfx: "\<And>s. prefix p (skey_bytes s) \<longleftrightarrow> (\<exists>x. s = key x)"
    and st: "\<And>x. stored de (view e (skey_bytes (key x))) (f x)"
  shows "\<exists>xs items. kt_scan_prefix K p e = (Ok items, e) \<and> map (\<lambda>item. bind_r item (\<lambda>(_, v). de v)) items = map Ok xs \<and>
    set xs = {a. \<exists>x. f x = Some a}"
proof -
  obtain kvs where kvs: "kt_scan_prefix K p e = (Ok (map Ok kvs), e)"
      "\<And>k b. (k, b) \<in> set kvs \<longleftrightarrow> prefix p k \<and> view e k = Some b"
    using scan_law [OF stateD(1) [OF D], of p] by blast
  have dec: "\<exists>x a. k = skey_bytes (key x) \<and> f x = Some a \<and> de b = Ok a" if "(k, b) \<in> set kvs" for k b
  proof -
    from that have k: "prefix p k" "view e k = Some b" using kvs(2) by blast+
    then obtain s where "k = skey_bytes s" using stateD(5) [OF D] by blast
    with k(1) obtain x where x: "k = skey_bytes (key x)" using pfx [of s] by auto
    with k(2) st [of x] show ?thesis by (auto simp: stored_def split: option.splits)
  qed
  let ?xs = "map (\<lambda>(_, b). from_ok (de b)) kvs"
  have "map (\<lambda>item. bind_r item (\<lambda>(_, v). de v)) (map Ok kvs) = map Ok ?xs"
    using dec by fastforce
  moreover have "set ?xs = {a. \<exists>x. f x = Some a}"
  proof (intro equalityI subsetI)
    fix a assume "a \<in> set ?xs"
    then show "a \<in> {a. \<exists>x. f x = Some a}" using dec by fastforce
  next
    fix a assume "a \<in> {a. \<exists>x. f x = Some a}"
    then obtain x where x: "f x = Some a" by blast
    with st [of x] obtain b where b: "view e (skey_bytes (key x)) = Some b" "de b = Ok a" by (auto simp: stored_def)
    then have "(skey_bytes (key x), b) \<in> set kvs" using kvs(2) pfx by blast
    with b(2) show "a \<in> set ?xs" by force
  qed
  ultimately show ?thesis using kvs(1) by blast
qed

lemma scan_tables_run:
  assumes D: "db_state ok view S e D"
  shows "\<exists>ts. kv_scan_tables K S e = (Ok ts, e) \<and> set ts = {T. \<exists>n. d_tables D n = Some T}"
  using scanned_run [OF D prefix_Table stateD(2) [OF D]]
  by (auto simp: kv_scan_tables_def bind_op_def)

lemma collect_Ok: "collect_items (map Ok xs) = Ok (map Ok xs)"
proof -
  have "find is_panic (map Ok xs) = None" by (simp add: find_None_iff is_panic_def)
  then show ?thesis by (simp add: collect_items_def)
qed

lemma scan_run:
  assumes D: "db_state ok view S e D" and T: "d_tables D n = Some T"
  shows "\<exists>rows. kv_scan X K S n None e = (Ok (map Ok rows), e) \<and> set rows = {row. \<exists>k. d_rows D (ta_name T, k) = Some row}"
proof -
  obtain rows items where r: "kt_scan_prefix K (2 # encoded serialize_str (ta_name T)) e = (Ok items, e)"
      "map (\<lambda>item. bind_r item (\<lambda>(_, v). sb_de_row S v)) items = map Ok rows"
      "set rows = {row. \<exists>k. d_rows D (ta_name T, k) = Some row}"
    using scanned_run [OF D prefix_Row stateD(3) [OF D], of "ta_name T"] by blast
  have "List.map_filter (scan_filter X None) (map Ok rows) = map Ok rows"
    by (simp add: List.map_filter_def scan_filter_def comp_def)
  with r show ?thesis
    using must_read_run [OF D, of n] T by (auto simp: kv_scan_def bind_op_def collect_Ok)
qed

lemma scan_keeps:
  assumes D: "db_state ok view S e D"
  shows "snd (kv_scan X K S n flt e) = e"
proof -
  have "snd (kt_scan_prefix K p e) = e" for p using scan_law [OF stateD(1) [OF D], of p] by auto
  then show ?thesis
    using must_read_run [OF D, of n]
    by (auto simp: kv_scan_def bind_op_def split: option.splits prod.splits result.splits)
       (metis snd_conv)+
qed

lemma validate_value_keeps:
  assumes D: "db_state ok view S e D"
  shows "snd (validate_value (kv_read K S) (kv_scan X K S) T pk c v e) = e"
  using read_run [OF D] scan_keeps [OF D, of X]
  by (auto simp: validate_value_def bind_op_def split: option.splits prod.splits result.splits)
    (metis snd_conv)+

lemma validate_row_keeps:
  assumes D: "db_state ok view S e D"
  shows "snd (validate_row (kv_read K S) (kv_scan X K S) T row e) = e"
proof -
  have "snd (for_each (\<lambda>(c, v). validate_value (kv_read K S) (kv_scan X K S) T pk c v) xs e) = e" for xs pk
    by (rule for_each_keeps) (simp add: validate_value_keeps [OF D] split: prod.split)
  then show ?thesis by (auto simp: validate_row_def bind_op_def split: result.splits)
qed

section \<open>Effects\<close>

lemma validate_row_Ok:
  assumes D: "db_state ok view S e D" and run: "validate_row (kv_read K S) (kv_scan X K S) T row e = (Ok (), e')"
  shows "e' = e" "row_ok T row"
  using validate_row_keeps [OF D, of X T row] validate_row_ok [OF run] run by simp_all

lemma set_row_run:
  assumes D: "db_state ok view S e D" and b: "sb_ser_row S row = Ok b"
    and run: "kt_set K (skey_bytes (K_Row t k)) b e = (Ok (), e')"
  shows "db_state ok view S e' (D\<lparr>d_rows := (d_rows D)((t, k) \<mapsto> row)\<rparr>)"
proof -
  have "sb_de_row S b = Ok row"
    using bincode_law b unfolding sb_ok_def by (metis result.inject(1))
  then show ?thesis
    using set_law [OF stateD(1) [OF D] run] D holds_updates(3) [of S "view e" D b row t k]
    by (simp add: db_state_def del: skey_bytes.simps)
qed

lemma delete_row_run:
  assumes D: "db_state ok view S e D" and run: "kt_delete K (skey_bytes (K_Row t k)) e = (Ok (), e')"
  shows "db_state ok view S e' (D\<lparr>d_rows := (d_rows D)((t, k) := None)\<rparr>)"
  using delete_law [OF stateD(1) [OF D] run] D holds_updates(4) [of S "view e" D t k]
  by (simp add: db_state_def del: skey_bytes.simps)

lemma create_run:
  assumes D: "db_state ok view S e D" and run: "kv_create X K S n row e = (Ok (), e')"
  obtains T k where "d_tables D n = Some T" "get_row_key T row = Ok k" "d_rows D (ta_name T, k) = None"
    "validate_row (kv_read K S) (kv_scan X K S) T row e = (Ok (), e)"
    "db_state ok view S e' (D\<lparr>d_rows := (d_rows D)((ta_name T, k) \<mapsto> row),
      d_index := fold (ix_insert (ta_name T) k row) (indexed_columns T) (d_index D)\<rparr>)"
proof -
  from run must_read_run [OF D, of n] obtain T where T: "d_tables D n = Some T"
    by (auto simp: kv_create_def bind_op_def split: option.splits)
  with run must_read_run [OF D, of n] obtain k e1 where
      v: "validate_row (kv_read K S) (kv_scan X K S) T row e = (Ok (), e1)" and k: "get_row_key T row = Ok k"
      and rest: "bind_op (kv_read K S (ta_name T) k) (\<lambda>found.
         if found \<noteq> None then lift_op (Err (Value ''Primary key {} already exists for table {}''))
         else bind_op (lift_op (skey_encode (K_Row (ta_name T) k))) (\<lambda>k'.
           bind_op (lift_op (sb_ser_row S row)) (\<lambda>b. bind_op (kt_set K k' b) (\<lambda>_.
           for_each (\<lambda>(i, c). bind_op (lift_op (value_at row i)) (index_insert K S T k c)) (indexed_columns T))))) e1 = (Ok (), e')"
    by (auto simp: kv_create_def bind_op_eq_Ok simp del: skey_encode_bytes)
  have e1: "e1 = e" using validate_row_Ok [OF D v] by simp
  from rest read_run [OF D, of "ta_name T" k] have none: "d_rows D (ta_name T, k) = None"
    by (auto simp: e1 bind_op_def split: if_splits)
  with rest read_run [OF D, of "ta_name T" k] obtain b e2 where b: "sb_ser_row S row = Ok b"
      "kt_set K (skey_bytes (K_Row (ta_name T) k)) b e = (Ok (), e2)"
      "for_each (\<lambda>(i, c). bind_op (lift_op (value_at row i)) (index_insert K S T k c)) (indexed_columns T) e2 = (Ok (), e')"
    by (auto simp: e1 bind_op_eq_Ok simp del: skey_bytes.simps)
  let ?D = "D\<lparr>d_rows := (d_rows D)((ta_name T, k) \<mapsto> row)\<rparr>"
  have "db_state ok view S e' (?D\<lparr>d_index := fold (ix_insert (ta_name T) k row) (indexed_columns T) (d_index ?D)\<rparr>)"
  proof (rule loop_run [OF set_row_run [OF D b(1,2)] b(3)])
    fix ic a a' D
    assume "db_state ok view S a D" and "(case ic of (i, c) \<Rightarrow> bind_op (lift_op (value_at row i)) (index_insert K S T k c)) a = (Ok (), a')"
    then show "db_state ok view S a' (D\<lparr>d_index := ix_insert (ta_name T) k row ic (d_index D)\<rparr>)"
      using index_insert_run by (auto simp: ix_insert_def bind_op_eq_Ok value_at_def split: prod.splits if_splits)
  qed
  then show thesis using that T k none v e1 by simp
qed

lemma check_references_keeps:
  assumes D: "db_state ok view S e D"
  shows "snd (check_references X K S T k r e) = e"
  using must_read_run [OF D, of "fst r"] scan_keeps [OF D, of X]
  by (auto simp: check_references_def bind_op_def split: option.splits prod.splits result.splits) (metis snd_conv)+

lemma table_references_run:
  assumes D: "db_state ok view S e D"
  obtains refs where "table_references (kv_scan_tables K S) t self e = (Ok refs, e)"
    "\<And>n cs. (n, cs) \<in> set refs \<longleftrightarrow> cs \<noteq> [] \<and> (\<exists>m T. d_tables D m = Some T \<and> ta_name T = n \<and> (self \<or> n \<noteq> t) \<and>
      cs = map co_name (filter (\<lambda>c. co_references c = Some t) (ta_columns T)))"
proof -
  obtain ts where ts: "kv_scan_tables K S e = (Ok ts, e)" "set ts = {T. \<exists>n. d_tables D n = Some T}"
    using scan_tables_run [OF D] by blast
  show thesis
  proof (rule that)
    let ?cs = "\<lambda>T. map co_name (filter (\<lambda>c. co_references c = Some t) (ta_columns T))"
    show "table_references (kv_scan_tables K S) t self e =
        (Ok (filter (\<lambda>(_, cs). cs \<noteq> []) (map (\<lambda>T. (ta_name T, ?cs T)) (filter (\<lambda>T. self \<or> ta_name T \<noteq> t) ts))), e)"
      using ts(1) by (simp add: table_references_def bind_op_def)
    show "(n, cs) \<in> set (filter (\<lambda>(_, cs). cs \<noteq> []) (map (\<lambda>T. (ta_name T, ?cs T)) (filter (\<lambda>T. self \<or> ta_name T \<noteq> t) ts))) \<longleftrightarrow>
        cs \<noteq> [] \<and> (\<exists>m T. d_tables D m = Some T \<and> ta_name T = n \<and> (self \<or> n \<noteq> t) \<and> cs = ?cs T)" for n cs
      unfolding set_filter set_map ts(2) by blast
  qed
qed

lemma delete_run:
  assumes D: "db_state ok view S e D" and k: "exact k" and run: "kv_delete X K S n k e = (Ok (), e')"
  obtains T refs where "d_tables D n = Some T" "table_references (kv_scan_tables K S) (ta_name T) True e = (Ok refs, e)"
    "for_each (check_references X K S T k) refs e = (Ok (), e)"
    "db_state ok view S e' (D\<lparr>d_rows := (d_rows D)((ta_name T, k) := None), d_index := (case d_rows D (ta_name T, k) of
      None \<Rightarrow> d_index D | Some row \<Rightarrow> fold (ix_remove (ta_name T) k row) (indexed_columns T) (d_index D))\<rparr>)"
proof -
  from run must_read_run [OF D, of n] obtain T where T: "d_tables D n = Some T"
    by (auto simp: kv_delete_def bind_op_def split: option.splits)
  let ?t = "ta_name T"
  obtain refs where refs: "table_references (kv_scan_tables K S) ?t True e = (Ok refs, e)"
    using table_references_run [OF D] by metis
  with run must_read_run [OF D, of n] T obtain e1 e2 where
      check: "for_each (check_references X K S T k) refs e = (Ok (), e1)"
      and ix: "(if indexed_columns T = [] then return_op ()
       else bind_op (kv_read K S ?t k) (\<lambda>found. case found of
           None \<Rightarrow> return_op ()
         | Some row \<Rightarrow> for_each (\<lambda>(i, c). bind_op (lift_op (value_at row i)) (index_remove K S T k c)) (indexed_columns T))) e1 = (Ok (), e2)"
      and del: "kt_delete K (skey_bytes (K_Row ?t k)) e2 = (Ok (), e')"
    by (auto simp: kv_delete_def bind_op_eq_Ok simp del: skey_bytes.simps)
  have e1: "e1 = e" using for_each_keeps [of "check_references X K S T k" e refs] check_references_keeps [OF D] check by simp
  let ?D = "D\<lparr>d_index := (case d_rows D (?t, k) of
      None \<Rightarrow> d_index D | Some row \<Rightarrow> fold (ix_remove ?t k row) (indexed_columns T) (d_index D))\<rparr>"
  have "db_state ok view S e2 ?D"
  proof (cases "d_rows D (?t, k)")
    case None
    then show ?thesis using ix D read_run [OF D, of ?t k] by (auto simp: e1 bind_op_def split: if_splits)
  next
    case (Some row)
    then have "for_each (\<lambda>(i, c). bind_op (lift_op (value_at row i)) (index_remove K S T k c)) (indexed_columns T) e = (Ok (), e2)"
      using ix read_run [OF D, of ?t k] by (auto simp: e1 bind_op_def split: if_splits)
    from D this have "db_state ok view S e2 (D\<lparr>d_index := fold (ix_remove ?t k row) (indexed_columns T) (d_index D)\<rparr>)"
    proof (rule loop_run)
      fix ic a a' D
      assume "db_state ok view S a D" and "(case ic of (i, c) \<Rightarrow> bind_op (lift_op (value_at row i)) (index_remove K S T k c)) a = (Ok (), a')"
      then show "db_state ok view S a' (D\<lparr>d_index := ix_remove ?t k row ic (d_index D)\<rparr>)"
        using index_remove_run exact_same [OF k]
        by (auto simp: ix_remove_def bind_op_eq_Ok value_at_def split: prod.splits if_splits)
    qed
    then show ?thesis using Some by simp
  qed
  from delete_row_run [OF this del] show thesis
    using that [OF T refs] check e1 by (simp add: db_swap)
qed

lemma update_run:
  assumes D: "db_state ok view S e D" and run: "kv_update X K S n k row e = (Ok (), e')"
    and T: "d_tables D n = Some T" and key: "get_row_key T row = Ok k" "exact k"
    and old: "\<And>old i c. d_rows D (ta_name T, k) = Some old \<Longrightarrow> (i, c) \<in> set (indexed_columns T) \<Longrightarrow> exact (old ! i)"
  obtains D1 e1 where "D1 = D\<lparr>d_index := (case d_rows D (ta_name T, k) of
        None \<Rightarrow> d_index D | Some old \<Rightarrow> fold (ix_update (ta_name T) k old row) (indexed_columns T) (d_index D))\<rparr>"
    "db_state ok view S e1 D1" "validate_row (kv_read K S) (kv_scan X K S) T row e1 = (Ok (), e1)"
    "indexed_columns T \<noteq> [] \<Longrightarrow> d_rows D (ta_name T, k) \<noteq> None"
    "db_state ok view S e' (D1\<lparr>d_rows := (d_rows D1)((ta_name T, k) \<mapsto> row)\<rparr>)"
proof -
  let ?t = "ta_name T"
  obtain e1 e2 b where
      ix: "(if indexed_columns T = [] then return_op ()
         else bind_op (kv_read K S ?t k) (\<lambda>found. case found of
             None \<Rightarrow> lift_op (Panic ''called `Option::unwrap()` on a `None` value'')
           | Some old \<Rightarrow> for_each (update_index K S T k old row) (indexed_columns T))) e = (Ok (), e1)"
      and v: "validate_row (kv_read K S) (kv_scan X K S) T row e1 = (Ok (), e2)"
      and b: "sb_ser_row S row = Ok b" "kt_set K (skey_bytes (K_Row ?t k)) b e2 = (Ok (), e')"
    using run must_read_run [OF D, of n] T key exact_value_eq [OF key(2)]
    by (auto simp: kv_update_def bind_op_eq_Ok simp del: skey_bytes.simps)
  let ?D = "D\<lparr>d_index := (case d_rows D (?t, k) of
      None \<Rightarrow> d_index D | Some old \<Rightarrow> fold (ix_update ?t k old row) (indexed_columns T) (d_index D))\<rparr>"
  have D1: "db_state ok view S e1 ?D"
  proof (cases "d_rows D (?t, k)")
    case None
    then show ?thesis using ix D read_run [OF D, of ?t k] by (auto simp: bind_op_def split: if_splits)
  next
    case (Some o')
    then have "for_each (update_index K S T k o' row) (indexed_columns T) e = (Ok (), e1)"
      using ix read_run [OF D, of ?t k] by (auto simp: bind_op_def split: if_splits)
    from D this have "db_state ok view S e1 (D\<lparr>d_index := fold (ix_update ?t k o' row) (indexed_columns T) (d_index D)\<rparr>)"
    proof (rule loop_run)
      fix ic a a' D
      assume ic: "ic \<in> set (indexed_columns T)" and a: "db_state ok view S a D" and r: "update_index K S T k o' row ic a = (Ok (), a')"
      obtain i c where ic': "ic = (i, c)" by fastforce
      have ex: "value_eq (o' ! i) x \<longleftrightarrow> o' ! i = x" for x using old [OF Some] ic ic' exact_value_eq by blast
      show "db_state ok view S a' (D\<lparr>d_index := ix_update ?t k o' row ic (d_index D)\<rparr>)"
      proof (cases "o' ! i = row ! i")
        case True
        then show ?thesis using a r ic' ex
          by (auto simp: update_index_def ix_update_def bind_op_eq_Ok value_at_def split: if_splits)
      next
        case False
        then obtain a1 where "index_remove K S T k c (o' ! i) a = (Ok (), a1)" "index_insert K S T k c (row ! i) a1 = (Ok (), a')"
          using r ic' ex by (auto simp: update_index_def bind_op_eq_Ok value_at_def split: if_splits)
        from index_insert_run [OF index_remove_run [OF a this(1) exact_same [OF key(2)]] this(2)] False
        show ?thesis by (simp add: ic' ix_update_def ix_insert_def ix_remove_def)
      qed
    qed
    then show ?thesis using Some by simp
  qed
  have e2: "e2 = e1" using validate_row_Ok [OF D1 v] by simp
  have "d_rows D (?t, k) \<noteq> None" if "indexed_columns T \<noteq> []"
    using ix that read_run [OF D, of ?t k] by (auto simp: bind_op_def split: option.splits)
  then show thesis
    using that [OF refl D1] v e2 set_row_run [OF D1 b(1)] b(2) by simp
qed

end

end
