(* ===== verification/Sql_Integrity.thy ===== *)
theory Sql_Integrity
  imports Sql_Kv_Run
begin

text \<open>
  Integrity of the database: rows fit their schema and are stored under their key, an index entry
  holds exactly the keys of the rows with its value, references point to rows that exist, and unique columns
  have no value twice.  All this is kept by every operation of the engine that succeeds, for
  tables whose columns have distinct names and whose key, indexed, unique and referencing columns are not
  floats.
\<close>

section \<open>Integrity\<close>

definition special :: "column \<Rightarrow> bool" where
  "special c \<longleftrightarrow> co_primary_key c \<or> co_index c \<or> co_unique c \<or> co_references c \<noteq> None"

definition table_shape :: "table \<Rightarrow> bool" where
  "table_shape T \<longleftrightarrow> distinct (map co_name (ta_columns T)) \<and> (\<forall>c \<in> set (ta_columns T). special c \<longrightarrow> co_datatype c \<noteq> T_Float) \<and>
     length (filter co_primary_key (ta_columns T)) = 1"

definition tables_ok :: "db \<Rightarrow> bool" where
  "tables_ok D \<longleftrightarrow> (\<forall>n T. d_tables D n = Some T \<longrightarrow> ta_name T = n \<and> table_shape T)"

definition rows_ok :: "db \<Rightarrow> bool" where
  "rows_ok D \<longleftrightarrow> (\<forall>n k row. d_rows D (n, k) = Some row \<longrightarrow>
     (\<exists>T. d_tables D n = Some T \<and> row_ok T row \<and> get_row_key T row = Ok k))"

definition has_value :: "db \<Rightarrow> bytes \<Rightarrow> bytes \<Rightarrow> sql_value \<Rightarrow> sql_value \<Rightarrow> bool" where
  "has_value D n c v k \<longleftrightarrow> (\<exists>T i col row. d_tables D n = Some T \<and> (i, col) \<in> set (indexed_columns T) \<and>
     co_name col = c \<and> d_rows D (n, k) = Some row \<and> row ! i = v)"

definition index_ok :: "db \<Rightarrow> bool" where
  "index_ok D \<longleftrightarrow> (\<forall>n c v. d_index D (n, c, v) = {k. has_value D n c v k})"

definition refs_ok :: "db \<Rightarrow> bool" where
  "refs_ok D \<longleftrightarrow> (\<forall>n T i m k row. d_tables D n = Some T \<longrightarrow> i < length (ta_columns T) \<longrightarrow>
     co_references (ta_columns T ! i) = Some m \<longrightarrow> d_rows D (n, k) = Some row \<longrightarrow>
     row ! i = Null \<or> d_rows D (m, row ! i) \<noteq> None)"

definition unique_ok :: "db \<Rightarrow> bool" where
  "unique_ok D \<longleftrightarrow> (\<forall>n T i k row k' row'. d_tables D n = Some T \<longrightarrow> i < length (ta_columns T) \<longrightarrow>
     co_unique (ta_columns T ! i) \<longrightarrow> d_rows D (n, k) = Some row \<longrightarrow> d_rows D (n, k') = Some row' \<longrightarrow>
     row ! i = row' ! i \<longrightarrow> row ! i \<noteq> Null \<longrightarrow> k = k')"

definition db_ok :: "db \<Rightarrow> bool" where
  "db_ok D \<longleftrightarrow> tables_ok D \<and> rows_ok D \<and> index_ok D \<and> refs_ok D \<and> unique_ok D"

lemma tables_okD: "db_ok D \<Longrightarrow> d_tables D n = Some T \<Longrightarrow> ta_name T = n \<and> table_shape T"
  by (simp add: db_ok_def tables_ok_def)

lemma rows_okD: "db_ok D \<Longrightarrow> d_rows D (n, k) = Some row \<Longrightarrow> \<exists>T. d_tables D n = Some T \<and> row_ok T row \<and> get_row_key T row = Ok k"
  by (simp add: db_ok_def rows_ok_def)

lemma rows_ok_at: "rows_ok D \<Longrightarrow> d_tables D n = Some T \<Longrightarrow> d_rows D (n, k) = Some row \<Longrightarrow> row_ok T row \<and> get_row_key T row = Ok k"
  unfolding rows_ok_def by (metis option.inject)

lemma index_okD: "db_ok D \<Longrightarrow> d_index D (n, c, v) = {k. has_value D n c v k}"
  by (simp add: db_ok_def index_ok_def)

lemma refs_okD: "db_ok D \<Longrightarrow> d_tables D n = Some T \<Longrightarrow> i < length (ta_columns T) \<Longrightarrow> co_references (ta_columns T ! i) = Some m \<Longrightarrow>
    d_rows D (n, k) = Some row \<Longrightarrow> row ! i = Null \<or> d_rows D (m, row ! i) \<noteq> None"
  unfolding db_ok_def refs_ok_def by blast

lemma unique_okD: "db_ok D \<Longrightarrow> d_tables D n = Some T \<Longrightarrow> i < length (ta_columns T) \<Longrightarrow> co_unique (ta_columns T ! i) \<Longrightarrow>
    d_rows D (n, k) = Some row \<Longrightarrow> d_rows D (n, k') = Some row' \<Longrightarrow> row ! i = row' ! i \<Longrightarrow> row ! i \<noteq> Null \<Longrightarrow> k = k'"
  unfolding db_ok_def unique_ok_def by blast

definition empty_db :: db where
  "empty_db = \<lparr>d_tables = \<lambda>_. None, d_rows = \<lambda>_. None, d_index = \<lambda>_. {}\<rparr>"

lemma db_ok_empty: "db_ok empty_db"
  by (simp add: db_ok_def empty_db_def tables_ok_def rows_ok_def index_ok_def has_value_def refs_ok_def unique_ok_def)

lemma column_of_name:
  assumes "table_shape T" "(i, c) \<in> set (indexed_columns T)" "(j, d) \<in> set (indexed_columns T)" "co_name c = co_name d"
  shows "i = j \<and> c = d"
  using assms indexed_columnsD [OF assms(2)] indexed_columnsD [OF assms(3)]
  by (auto simp: table_shape_def distinct_conv_nth)

lemma has_value_at:
  assumes "table_shape T" "d_tables D n = Some T" "(i, c) \<in> set (indexed_columns T)"
  shows "has_value D n (co_name c) v k \<longleftrightarrow> (\<exists>row. d_rows D (n, k) = Some row \<and> row ! i = v)"
proof
  assume "has_value D n (co_name c) v k"
  then obtain j d row where h: "(j, d) \<in> set (indexed_columns T)" "co_name d = co_name c" "d_rows D (n, k) = Some row" "row ! j = v"
    using assms(2) unfolding has_value_def by auto
  then have "i = j" using column_of_name [OF assms(1,3) h(1)] by simp
  then show "\<exists>row. d_rows D (n, k) = Some row \<and> row ! i = v" using h by blast
next
  assume "\<exists>row. d_rows D (n, k) = Some row \<and> row ! i = v"
  then show "has_value D n (co_name c) v k" using assms(2,3) unfolding has_value_def by blast
qed

lemma special_exact:
  assumes "table_shape T" "row_ok T row" "i < length (ta_columns T)" "special (ta_columns T ! i)"
  shows "exact (row ! i)"
  using assms row_ok_nth [OF assms(2,3)] cell_ok_exact by (force simp: table_shape_def)

text \<open>What a row needs to take its place under a key: validation checks it.\<close>

definition fits_db :: "db \<Rightarrow> table \<Rightarrow> sql_value \<Rightarrow> row \<Rightarrow> bool" where
  "fits_db D T k row \<longleftrightarrow> row_ok T row \<and>
     (\<forall>i < length (ta_columns T). \<forall>m. co_references (ta_columns T ! i) = Some m \<longrightarrow>
        row ! i = Null \<or> m = ta_name T \<and> row ! i = k \<or> d_rows D (m, row ! i) \<noteq> None) \<and>
     (\<forall>i < length (ta_columns T). co_unique (ta_columns T ! i) \<longrightarrow> row ! i \<noteq> Null \<longrightarrow>
        (\<forall>k' row'. d_rows D (ta_name T, k') = Some row' \<longrightarrow> row' ! i = row ! i \<longrightarrow> k' = k))"

section \<open>Changes that keep it\<close>

text \<open>Storing a row that fits, with the index sets changed to match.\<close>

lemma index_ok_store:
  assumes D: "db_ok D" and T: "d_tables D n = Some T"
    and same: "\<And>m c v. m \<noteq> n \<Longrightarrow> I (m, c, v) = d_index D (m, c, v)"
    and other: "\<And>c v. (\<And>i col. (i, col) \<in> set (indexed_columns T) \<Longrightarrow> co_name col \<noteq> c) \<Longrightarrow> I (n, c, v) = d_index D (n, c, v)"
    and index: "\<And>i col v. (i, col) \<in> set (indexed_columns T) \<Longrightarrow>
      I (n, co_name col, v) = {k'. k' \<noteq> k \<and> k' \<in> d_index D (n, co_name col, v) \<or> k' = k \<and> (\<exists>row. r = Some row \<and> row ! i = v)}"
  shows "index_ok (D\<lparr>d_rows := (d_rows D)((n, k) := r), d_index := I\<rparr>)" (is "index_ok ?D")
  unfolding index_ok_def
proof (intro allI)
  fix m c v
  consider "m \<noteq> n" | "m = n" "\<And>i col. (i, col) \<in> set (indexed_columns T) \<Longrightarrow> co_name col \<noteq> c"
    | i col where "m = n" "(i, col) \<in> set (indexed_columns T)" "co_name col = c" by blast
  then show "d_index ?D (m, c, v) = {k. has_value ?D m c v k}"
  proof cases
    case 1
    then show ?thesis using same [of m c v] index_okD [OF D, of m c v] by (auto simp: has_value_def)
  next
    case 2
    have "\<not> has_value X n c v k'" if "d_tables X n = Some T" for X k'
      using that 2(2) unfolding has_value_def by fastforce
    moreover have "I (n, c, v) = d_index D (n, c, v)" by (rule other) (rule 2(2))
    ultimately show ?thesis using 2(1) index_okD [OF D, of n c v] T by simp
  next
    case 3
    have shape: "table_shape T" using tables_okD [OF D T] by blast
    have "has_value ?D n c v k' \<longleftrightarrow> (\<exists>row. d_rows ?D (n, k') = Some row \<and> row ! i = v)" for k'
      using has_value_at [OF shape, of ?D n i col v k'] T 3 by simp
    moreover have "k' \<in> d_index D (n, c, v) \<longleftrightarrow> (\<exists>row. d_rows D (n, k') = Some row \<and> row ! i = v)" for k'
      using has_value_at [OF shape T, of i col v k'] 3 index_okD [OF D, of n c v] by simp
    ultimately show ?thesis using index [OF 3(2), of v] 3 by auto
  qed
qed

lemma index_ok_fold:
  assumes D: "db_ok D" and T: "d_tables D n = Some T" and f: "local_steps n f"
    and index: "\<And>i c v. (i, c) \<in> set (indexed_columns T) \<Longrightarrow> f (i, c) (d_index D) (n, co_name c, v) =
      {k'. k' \<noteq> k \<and> k' \<in> d_index D (n, co_name c, v) \<or> k' = k \<and> (\<exists>row. r = Some row \<and> row ! i = v)}"
  shows "index_ok (D\<lparr>d_rows := (d_rows D)((n, k) := r), d_index := fold f (indexed_columns T) (d_index D)\<rparr>)"
proof (rule index_ok_store [OF D T])
  have "distinct (map co_name (ta_columns T))" using tables_okD [OF D T] by (simp add: table_shape_def)
  then show "fold f (indexed_columns T) (d_index D) (n, co_name c, v) =
      {k'. k' \<noteq> k \<and> k' \<in> d_index D (n, co_name c, v) \<or> k' = k \<and> (\<exists>row. r = Some row \<and> row ! i = v)}"
    if "(i, c) \<in> set (indexed_columns T)" for i c v
    using fold_local [OF f distinct_indexed that] index [OF that] by simp
qed (rule fold_outside [OF f], blast)+

lemma index_of_row:
  assumes "db_ok D" "d_tables D n = Some T" "(i, c) \<in> set (indexed_columns T)"
  shows "k \<in> d_index D (n, co_name c, v) \<longleftrightarrow> (\<exists>row. d_rows D (n, k) = Some row \<and> row ! i = v)"
  using has_value_at [OF _ assms(2,3)] tables_okD [OF assms(1,2)] index_okD [OF assms(1)] by blast

lemma index_ok_insert:
  assumes "db_ok D" "d_tables D n = Some T" "d_rows D (n, k) = None"
  shows "index_ok (D\<lparr>d_rows := (d_rows D)((n, k) \<mapsto> row), d_index := fold (ix_insert n k row) (indexed_columns T) (d_index D)\<rparr>)"
  using index_of_row [OF assms(1,2)] assms(3) by (intro index_ok_fold [OF assms(1,2) local_ix(1)]) (auto simp: ix_insert_def)

lemma index_ok_remove:
  assumes "db_ok D" "d_tables D n = Some T" "d_rows D (n, k) = Some old"
  shows "index_ok (D\<lparr>d_rows := (d_rows D)((n, k) := None), d_index := fold (ix_remove n k old) (indexed_columns T) (d_index D)\<rparr>)"
  using index_of_row [OF assms(1,2)] assms(3) by (intro index_ok_fold [OF assms(1,2) local_ix(2)]) (auto simp: ix_remove_def)

lemma index_ok_update:
  assumes "db_ok D" "d_tables D n = Some T" "d_rows D (n, k) = Some old"
  shows "index_ok (D\<lparr>d_rows := (d_rows D)((n, k) \<mapsto> row), d_index := fold (ix_update n k old row) (indexed_columns T) (d_index D)\<rparr>)"
  using index_of_row [OF assms(1,2)] assms(3)
  by (intro index_ok_fold [OF assms(1,2) local_ix(3)]) (auto simp: ix_update_def ix_insert_def ix_remove_def)

lemma db_ok_store:
  assumes D: "db_ok D" and T: "d_tables D n = Some T" and key: "get_row_key T row = Ok k" and fits: "fits_db D T k row"
    and index: "index_ok (D\<lparr>d_rows := (d_rows D)((n, k) \<mapsto> row), d_index := I\<rparr>)" (is "index_ok ?D")
  shows "db_ok ?D"
proof -
  have name: "ta_name T = n" using tables_okD [OF D T] by blast
  have "tables_ok ?D" using D by (simp add: db_ok_def tables_ok_def)
  moreover have "rows_ok ?D" using D T key fits by (auto simp: db_ok_def rows_ok_def fits_db_def)
  moreover have "refs_ok ?D"
    unfolding refs_ok_def
  proof (intro allI impI)
    fix m T' i r k' row'
    assume a: "d_tables ?D m = Some T'" "i < length (ta_columns T')" "co_references (ta_columns T' ! i) = Some r" "d_rows ?D (m, k') = Some row'"
    show "row' ! i = Null \<or> d_rows ?D (r, row' ! i) \<noteq> None"
    proof (cases "(m, k') = (n, k)")
      case True
      then have "row' = row" "T' = T" using a T by auto
      then show ?thesis using a fits name unfolding fits_db_def by fastforce
    next
      case False
      then show ?thesis using a refs_okD [OF D, of m T' i r k' row'] by auto
    qed
  qed
  moreover have "unique_ok ?D"
    unfolding unique_ok_def
  proof (intro allI impI)
    fix m T' i k1 r1 k2 r2
    assume a: "d_tables ?D m = Some T'" "i < length (ta_columns T')" "co_unique (ta_columns T' ! i)" "d_rows ?D (m, k1) = Some r1"
      "d_rows ?D (m, k2) = Some r2" "r1 ! i = r2 ! i" "r1 ! i \<noteq> Null"
    have u: "k' = k" if "m = n" "d_rows D (n, k') = Some r'" "r' ! i = row ! i" "row ! i \<noteq> Null" for k' r'
      using fits that a T name unfolding fits_db_def by (simp; metis)
    consider "(m, k1) = (n, k)" "(m, k2) = (n, k)" | "(m, k1) = (n, k)" "(m, k2) \<noteq> (n, k)" | "(m, k1) \<noteq> (n, k)" "(m, k2) = (n, k)"
      | "(m, k1) \<noteq> (n, k)" "(m, k2) \<noteq> (n, k)" by blast
    then show "k1 = k2"
    proof cases
      case 2
      then show ?thesis using a u [of k2 r2] by auto
    next
      case 3
      then show ?thesis using a u [of k1 r1] by auto
    next
      case 4
      then show ?thesis using a unique_okD [OF D, of m T' i k1 r1 k2 r2] by auto
    qed simp
  qed
  ultimately show ?thesis using index by (simp add: db_ok_def)
qed

lemma db_ok_remove:
  assumes D: "db_ok D"
    and free: "\<And>m T i k' row. d_tables D m = Some T \<Longrightarrow> i < length (ta_columns T) \<Longrightarrow> co_references (ta_columns T ! i) = Some n \<Longrightarrow>
      d_rows D (m, k') = Some row \<Longrightarrow> row ! i = k \<Longrightarrow> row ! i \<noteq> Null \<Longrightarrow> (m, k') = (n, k)"
    and index: "index_ok (D\<lparr>d_rows := (d_rows D)((n, k) := None), d_index := I\<rparr>)" (is "index_ok ?D")
  shows "db_ok ?D"
proof -
  have "tables_ok ?D" using D by (simp add: db_ok_def tables_ok_def)
  moreover have "rows_ok ?D" using D by (auto simp: db_ok_def rows_ok_def)
  moreover have "refs_ok ?D"
    unfolding refs_ok_def
  proof (intro allI impI)
    fix m T i r k' row
    assume a: "d_tables ?D m = Some T" "i < length (ta_columns T)" "co_references (ta_columns T ! i) = Some r" "d_rows ?D (m, k') = Some row"
    then have a': "d_tables D m = Some T" "d_rows D (m, k') = Some row" "(m, k') \<noteq> (n, k)" by (auto split: if_splits)
    show "row ! i = Null \<or> d_rows ?D (r, row ! i) \<noteq> None"
      using refs_okD [OF D a'(1) a(2,3) a'(2)] free [OF a'(1) a(2) _ a'(2)] a(3) a'(3) by auto
  qed
  moreover have "unique_ok ?D"
    unfolding unique_ok_def
  proof (intro allI impI)
    fix m T i k1 r1 k2 r2
    assume a: "d_tables ?D m = Some T" "i < length (ta_columns T)" "co_unique (ta_columns T ! i)" "d_rows ?D (m, k1) = Some r1"
      "d_rows ?D (m, k2) = Some r2" "r1 ! i = r2 ! i" "r1 ! i \<noteq> Null"
    then have "d_tables D m = Some T" "d_rows D (m, k1) = Some r1" "d_rows D (m, k2) = Some r2" by (auto split: if_splits)
    from unique_okD [OF D this(1) a(2,3) this(2,3) a(6,7)] show "k1 = k2" .
  qed
  ultimately show ?thesis using index by (simp add: db_ok_def)
qed

lemma db_ok_new_table:
  assumes D: "db_ok D" and T: "table_shape T" and new: "d_tables D (ta_name T) = None"
  shows "db_ok (D\<lparr>d_tables := (d_tables D)(ta_name T \<mapsto> T)\<rparr>)" (is "db_ok ?D")
proof -
  have none: "d_rows D (ta_name T, k) = None" for k using rows_okD [OF D, of "ta_name T" k] new by (cases "d_rows D (ta_name T, k)") auto
  have "tables_ok ?D" using D T by (simp add: db_ok_def tables_ok_def)
  moreover have "rows_ok ?D" using D none by (auto simp: db_ok_def rows_ok_def)
  moreover have "has_value ?D n c v k = has_value D n c v k" for n c v k using none new by (cases "n = ta_name T") (auto simp: has_value_def)
  then have "index_ok ?D" using D by (simp add: db_ok_def index_ok_def)
  moreover have "refs_ok ?D" using D none unfolding db_ok_def refs_ok_def by auto
  moreover have "unique_ok ?D" using D none unfolding db_ok_def unique_ok_def by (simp; metis option.distinct(1))
  ultimately show ?thesis by (simp add: db_ok_def)
qed

lemma db_ok_drop_table:
  assumes D: "db_ok D" and none: "\<And>k. d_rows D (n, k) = None"
  shows "db_ok (D\<lparr>d_tables := (d_tables D)(n := None)\<rparr>)" (is "db_ok ?D")
proof -
  have "tables_ok ?D" using D by (simp add: db_ok_def tables_ok_def)
  moreover have "rows_ok ?D" using D none by (auto simp: db_ok_def rows_ok_def)
  moreover have "has_value ?D m c v k = has_value D m c v k" for m c v k using none by (cases "n = m") (auto simp: has_value_def)
  then have "index_ok ?D" using D by (simp add: db_ok_def index_ok_def)
  moreover have "refs_ok ?D" using D unfolding db_ok_def refs_ok_def by (auto split: if_splits)
  moreover have "unique_ok ?D" using D unfolding db_ok_def unique_ok_def by (simp; metis)
  ultimately show ?thesis by (simp add: db_ok_def)
qed

section \<open>Columns by position\<close>

lemma position_unique:
  assumes "i < length xs" "p (xs ! i)" "\<And>j. j < length xs \<Longrightarrow> p (xs ! j) \<Longrightarrow> j = i"
  shows "position p xs = Some i"
  using assms
proof (induction xs arbitrary: i)
  case (Cons x xs)
  show ?case
  proof (cases i)
    case 0
    then show ?thesis using Cons.prems(2) by simp
  next
    case (Suc j)
    then have "\<not> p x" using Cons.prems(3) [of 0] by auto
    moreover have "position p xs = Some j"
      using Cons.prems Suc by (intro Cons.IH) (auto dest: Cons.prems(3) [of "Suc _", simplified])
    ultimately show ?thesis using Suc by simp
  qed
qed simp

lemma one_filtered:
  assumes "length (filter p xs) = 1" "i < length xs" "p (xs ! i)" "j < length xs" "p (xs ! j)"
  shows "i = j"
proof (rule ccontr)
  assume "i \<noteq> j"
  then have "2 \<le> card {k. k < length xs \<and> p (xs ! k)}"
    using assms card_mono [of "{k. k < length xs \<and> p (xs ! k)}" "{i, j}"] by auto
  then show False using assms(1) by (simp add: length_filter_conv_card)
qed

lemma key_at:
  assumes "table_shape T" "i < length (ta_columns T)" "co_primary_key (ta_columns T ! i)" "length row = length (ta_columns T)"
  shows "get_row_key T row = Ok (row ! i)"
proof -
  have "position co_primary_key (ta_columns T) = Some i"
    using assms one_filtered [of co_primary_key "ta_columns T"] by (intro position_unique) (auto simp: table_shape_def)
  then show ?thesis using assms(2,4) by (simp add: get_row_key_def ok_or_def)
qed

lemma key_column:
  assumes "table_shape T"
  obtains i where "i < length (ta_columns T)" "co_primary_key (ta_columns T ! i)"
  using assms by (metis (no_types, lifting) One_nat_def filter_empty_conv in_set_conv_nth length_0_conv nat.distinct(1) table_shape_def)

lemma index_at:
  assumes "table_shape T" "i < length (ta_columns T)"
  shows "get_column_index T (co_name (ta_columns T ! i)) = Ok i"
proof -
  have "position (\<lambda>c. co_name c = co_name (ta_columns T ! i)) (ta_columns T) = Some i"
    using assms by (intro position_unique) (auto simp: table_shape_def distinct_conv_nth)
  then show ?thesis by (simp add: get_column_index_def ok_or_def)
qed

lemma key_exact:
  assumes "db_ok D" "d_tables D n = Some T" "row_ok T row" "get_row_key T row = Ok k"
  shows "exact k"
proof -
  have T: "table_shape T" using tables_okD [OF assms(1,2)] by blast
  then obtain i where i: "i < length (ta_columns T)" "co_primary_key (ta_columns T ! i)" by (rule key_column)
  then show ?thesis
    using special_exact [OF T assms(3) i(1)] key_at [OF T i row_ok_length [OF assms(3)]] assms(4) by (simp add: special_def)
qed

section \<open>What the checks establish\<close>

lemma for_each_still:
  assumes "\<And>x. snd (f x e) = e" "for_each f xs e = (Ok (), e')" "x \<in> set xs"
  shows "f x e = (Ok (), e)"
  using assms(2,3)
proof (induction xs)
  case (Cons y ys)
  obtain e1 where "f y e = (Ok (), e1)" "for_each f ys e1 = (Ok (), e')" using Cons.prems(1) by (auto simp: bind_op_eq_Ok)
  moreover have "e1 = e" using calculation(1) assms(1) [of y] by simp
  ultimately show ?case using Cons by auto
qed simp

lemma unique_loop_Ok:
  assumes "unique_loop T i pk v (map Ok rows) = Ok ()" "row \<in> set rows" "i < length row" "value_eq (row ! i) v" "get_row_key T row = Ok k"
  shows "value_eq k pk"
  using assms by (induction rows) (auto simp: bind_r_eq_Ok split: if_splits)

lemma reference_loop_Ok:
  assumes "reference_loop T T' pk cs (map Ok rows) = Ok ()" "row \<in> set rows"
  shows "referencing_columns T T' pk row cs = Ok ()"
  using assms by (induction rows) (auto simp: bind_r_eq_Ok)

lemma referencing_columns_Ok:
  assumes "referencing_columns T T' pk row cs = Ok ()" "i \<in> set cs" "value_eq (row ! i) pk"
  shows "ta_name T = ta_name T' \<and> (\<forall>k. get_row_key T row = Ok k \<longrightarrow> value_eq pk k)"
  using assms by (induction cs) (auto simp: bind_r_eq_Ok value_at_def split: if_splits)

lemma collected:
  assumes "collect_results (map f xs) = Ok ys" "x \<in> set xs" "f x = Ok y"
  shows "y \<in> set ys"
  using assms by (induction xs arbitrary: ys) (auto simp: bind_r_eq_Ok)

context sql_store
begin

lemma validated_value:
  assumes D: "db_state ok view S e D" and T: "d_tables D (ta_name T) = Some T" "table_shape T"
    and v: "validate_value (kv_read K S) (kv_scan X K S) T k (ta_columns T ! i) v e = (Ok (), e')"
    and i: "i < length (ta_columns T)" and ex: "special (ta_columns T ! i) \<Longrightarrow> exact v"
  shows "co_references (ta_columns T ! i) = Some m \<Longrightarrow> v = Null \<or> m = ta_name T \<and> v = k \<or> d_rows D (m, v) \<noteq> None"
    and "co_unique (ta_columns T ! i) \<Longrightarrow> \<not> co_primary_key (ta_columns T ! i) \<Longrightarrow> v \<noteq> Null \<Longrightarrow>
      d_rows D (ta_name T, k') = Some row \<Longrightarrow> i < length row \<Longrightarrow> row ! i = v \<Longrightarrow> get_row_key T row = Ok k' \<Longrightarrow> value_eq k' k"
proof -
  assume r: "co_references (ta_columns T ! i) = Some m"
  then have "exact v" using ex by (simp add: special_def)
  then show "v = Null \<or> m = ta_name T \<and> v = k \<or> d_rows D (m, v) \<noteq> None"
    using v r read_run [OF D, of m v] exact_value_eq [of v k]
    by (cases v) (auto simp: validate_value_def bind_op_eq_Ok exact_def split: if_splits option.splits)
next
  assume u: "co_unique (ta_columns T ! i)" "\<not> co_primary_key (ta_columns T ! i)" "v \<noteq> Null"
    and r: "d_rows D (ta_name T, k') = Some row" "i < length row" "row ! i = v" "get_row_key T row = Ok k'"
  have exv: "exact v" using ex u(1) by (simp add: special_def)
  obtain rows where rows: "kv_scan X K S (ta_name T) None e = (Ok (map Ok rows), e)" "set rows = {row. \<exists>k. d_rows D (ta_name T, k) = Some row}"
    using scan_run [OF D T(1)] by blast
  have ref: "snd ((case co_references (ta_columns T ! i) of None \<Rightarrow> return_op ()
      | Some target \<Rightarrow> if v = Null \<or> (case v of Float f \<Rightarrow> f64_is_nan f | _ \<Rightarrow> False) \<or> target = ta_name T \<and> value_eq v k
          then return_op ()
          else bind_op (kv_read K S target v) (\<lambda>found. case found of
              None \<Rightarrow> lift_op (Err (Value ''Referenced primary key {} in table {} does not exist'')) | Some _ \<Rightarrow> return_op ())) e) = e"
    using read_run [OF D] by (auto simp: bind_op_def split: option.splits)
  have "unique_loop T i k v (map Ok rows) = Ok ()"
    using v u exv index_at [OF T(2) i] rows(1) ref exact_value_eq [OF exv, of Null]
    by (auto simp: validate_value_def bind_op_eq_Ok)
  moreover have "row \<in> set rows" using rows(2) r(1) by blast
  ultimately show "value_eq k' k" using unique_loop_Ok r(2-4) exact_value_eq [OF exv] by metis
qed

lemma validate_fits:
  assumes D: "db_state ok view S e D" and ok: "tables_ok D" "rows_ok D" and T: "d_tables D n = Some T"
    and key: "get_row_key T row = Ok k" and v: "validate_row (kv_read K S) (kv_scan X K S) T row e = (Ok (), e)"
  shows "fits_db D T k row"
  unfolding fits_db_def
proof (intro conjI allI impI)
  have shape: "table_shape T" and name: "ta_name T = n" using ok(1) T by (auto simp: tables_ok_def)
  show row: "row_ok T row" using validate_row_Ok [OF D v] by simp
  have val: "validate_value (kv_read K S) (kv_scan X K S) T k (ta_columns T ! i) (row ! i) e = (Ok (), e)" if i: "i < length (ta_columns T)" for i
  proof -
    let ?f = "\<lambda>(c, v). validate_value (kv_read K S) (kv_scan X K S) T k c v"
    have "for_each ?f (zip (ta_columns T) row) e = (Ok (), e)"
      using v key row_ok_length [OF row] by (simp add: validate_row_def bind_op_eq_Ok)
    moreover have "(ta_columns T ! i, row ! i) \<in> set (zip (ta_columns T) row)"
      using i row_ok_length [OF row] by (auto simp: set_zip)
    moreover have "snd (?f x e) = e" for x by (simp add: validate_value_keeps [OF D] split: prod.split)
    ultimately show ?thesis using for_each_still [of ?f e] by fastforce
  qed
  have ex: "special (ta_columns T ! i) \<Longrightarrow> exact (row ! i)" if "i < length (ta_columns T)" for i
    using special_exact [OF shape row that] by blast
  show "row ! i = Null \<or> m = ta_name T \<and> row ! i = k \<or> d_rows D (m, row ! i) \<noteq> None"
    if "i < length (ta_columns T)" "co_references (ta_columns T ! i) = Some m" for i m
    using validated_value(1) [OF D _ shape val [OF that(1)] that(1) ex [OF that(1)] that(2)] T name by simp
  show "k' = k" if i: "i < length (ta_columns T)" and u: "co_unique (ta_columns T ! i)" "row ! i \<noteq> Null"
      and r: "d_rows D (ta_name T, k') = Some row'" "row' ! i = row ! i" for i k' row'
  proof -
    have r': "row_ok T row'" "get_row_key T row' = Ok k'" using rows_ok_at [OF ok(2), of n T k' row'] r(1) T name by simp_all
    show ?thesis
    proof (cases "co_primary_key (ta_columns T ! i)")
      case True
      then show ?thesis using key_at [OF shape i True row_ok_length] row r' key r(2) by fastforce
    next
      case False
      obtain j where j: "j < length (ta_columns T)" "co_primary_key (ta_columns T ! j)" using shape by (rule key_column)
      then have "exact k'" using special_exact [OF shape r'(1) j(1)] key_at [OF shape j row_ok_length [OF r'(1)]] r'(2)
        by (simp add: special_def)
      moreover have "value_eq k' k"
        using validated_value(2) [OF D _ shape val [OF i] i ex [OF i] u(1) False u(2) r(1) _ r(2) r'(2)] T name
          row_ok_length [OF r'(1)] i by simp
      ultimately show ?thesis using exact_value_eq by blast
    qed
  qed
qed

lemma unreferenced:
  assumes D: "db_state ok view S e D" "db_ok D" and T: "d_tables D n = Some T" and k: "exact k"
    and refs: "table_references (kv_scan_tables K S) (ta_name T) True e = (Ok refs, e)"
    and check: "for_each (check_references X K S T k) refs e = (Ok (), e)"
    and m: "d_tables D m = Some T'" "i < length (ta_columns T')" "co_references (ta_columns T' ! i) = Some n"
      "d_rows D (m, k') = Some row" "row ! i = k"
  shows "(m, k') = (n, k)"
proof -
  have n: "ta_name T = n" and m': "ta_name T' = m" and shape: "table_shape T'"
    using tables_okD [OF D(2) T] tables_okD [OF D(2) m(1)] by blast+
  let ?cs = "map co_name (filter (\<lambda>c. co_references c = Some n) (ta_columns T'))"
  have c: "co_name (ta_columns T' ! i) \<in> set ?cs" using m(2,3) by force
  have "?cs \<noteq> []" using c by (metis empty_iff list.set(1))
  have "(m, ?cs) \<in> set refs"
  proof (rule table_references_run [OF D(1), of "ta_name T" True])
    fix refs'
    assume r: "table_references (kv_scan_tables K S) (ta_name T) True e = (Ok refs', e)"
      and in_refs: "\<And>n cs. (n, cs) \<in> set refs' \<longleftrightarrow> cs \<noteq> [] \<and> (\<exists>m T'. d_tables D m = Some T' \<and> ta_name T' = n \<and> (True \<or> n \<noteq> ta_name T) \<and>
        cs = map co_name (filter (\<lambda>c. co_references c = Some (ta_name T)) (ta_columns T')))"
    have "(m, ?cs) \<in> set refs'" unfolding in_refs using \<open>?cs \<noteq> []\<close> m(1) m' n by blast
    then show ?thesis using r refs by simp
  qed
  then have "check_references X K S T k (m, ?cs) e = (Ok (), e)"
    using for_each_still [of "check_references X K S T k"] check_references_keeps [OF D(1)] check by blast
  moreover obtain rows where rows: "kv_scan X K S m None e = (Ok (map Ok rows), e)" "set rows = {row. \<exists>k. d_rows D (m, k) = Some row}"
    using scan_run [OF D(1) m(1)] m' by blast
  ultimately obtain cis where cis: "collect_results (map (get_column_index T') ?cs) = Ok cis" "reference_loop T T' k cis (map Ok rows) = Ok ()"
    using must_read_run [OF D(1), of m] m(1) m' by (auto simp: check_references_def bind_op_eq_Ok)
  have "i \<in> set cis" using collected [OF cis(1) c index_at [OF shape m(2)]] .
  moreover have "row \<in> set rows" using rows(2) m(4) by blast
  ultimately have "ta_name T = ta_name T' \<and> (\<forall>x. get_row_key T row = Ok x \<longrightarrow> value_eq k x)"
    using referencing_columns_Ok [OF reference_loop_Ok [OF cis(2)]] exact_value_eq [OF k] m(5) by blast
  moreover have "T' = T" using calculation n m' T m(1) by simp
  moreover have "get_row_key T' row = Ok k'" using rows_okD [OF D(2) m(4)] m(1) by auto
  ultimately show ?thesis using n m' exact_value_eq [OF k] by auto
qed

section \<open>Operations keep it\<close>

lemma create_keeps:
  assumes D: "db_state ok view S e D" "db_ok D" and run: "kv_create X K S n row e = (Ok (), e')"
  shows "\<exists>D'. db_state ok view S e' D' \<and> db_ok D'"
proof (rule create_run [OF D(1) run])
  fix T k
  assume T: "d_tables D n = Some T" and k: "get_row_key T row = Ok k" and new: "d_rows D (ta_name T, k) = None"
    and v: "validate_row (kv_read K S) (kv_scan X K S) T row e = (Ok (), e)"
    and D': "db_state ok view S e' (D\<lparr>d_rows := (d_rows D)((ta_name T, k) \<mapsto> row),
      d_index := fold (ix_insert (ta_name T) k row) (indexed_columns T) (d_index D)\<rparr>)"
  have n: "ta_name T = n" using tables_okD [OF D(2) T] by blast
  have "fits_db D T k row" using validate_fits [OF D(1) _ _ T k v] D(2) by (simp add: db_ok_def)
  from db_ok_store [OF D(2) T k this index_ok_insert [OF D(2) T]] D' new n show ?thesis by auto
qed

lemma delete_keeps:
  assumes D: "db_state ok view S e D" "db_ok D" and k: "exact k" and run: "kv_delete X K S n k e = (Ok (), e')"
  shows "\<exists>I. db_state ok view S e' (D\<lparr>d_rows := (d_rows D)((n, k) := None), d_index := I\<rparr>) \<and>
    db_ok (D\<lparr>d_rows := (d_rows D)((n, k) := None), d_index := I\<rparr>)"
proof (rule delete_run [OF D(1) k run])
  fix T refs
  assume T: "d_tables D n = Some T" and refs: "table_references (kv_scan_tables K S) (ta_name T) True e = (Ok refs, e)"
    "for_each (check_references X K S T k) refs e = (Ok (), e)"
    and D': "db_state ok view S e' (D\<lparr>d_rows := (d_rows D)((ta_name T, k) := None), d_index := (case d_rows D (ta_name T, k) of
      None \<Rightarrow> d_index D | Some row \<Rightarrow> fold (ix_remove (ta_name T) k row) (indexed_columns T) (d_index D))\<rparr>)"
  have n: "ta_name T = n" using tables_okD [OF D(2) T] by blast
  show ?thesis
  proof (cases "d_rows D (n, k)")
    case None
    then have "(d_rows D)((n, k) := None) = d_rows D" by (simp add: fun_upd_idem)
    then show ?thesis using D' D(2) n None by (intro exI [of _ "d_index D"]) simp
  next
    case (Some old)
    have "db_ok (D\<lparr>d_rows := (d_rows D)((n, k) := None), d_index := fold (ix_remove n k old) (indexed_columns T) (d_index D)\<rparr>)"
      using unreferenced [OF D T k refs] by (intro db_ok_remove [OF D(2) _ index_ok_remove [OF D(2) T Some]]) blast
    then show ?thesis using D' n Some by auto
  qed
qed

lemma update_same_keeps:
  assumes D: "db_state ok view S e D" "db_ok D" and T: "d_tables D n = Some T" and k: "get_row_key T row = Ok k" "exact k"
    and run: "kv_update X K S n k row e = (Ok (), e')"
  shows "\<exists>D'. db_state ok view S e' D' \<and> db_ok D'"
proof -
  have n: "ta_name T = n" and shape: "table_shape T" using tables_okD [OF D(2) T] by blast+
  have old: "exact (old ! i)" if "d_rows D (ta_name T, k) = Some old" "(i, c) \<in> set (indexed_columns T)" for old i c
    using that special_exact [OF shape, of old i] rows_okD [OF D(2), of n k old] T n indexed_columnsD [OF that(2)]
    by (auto simp: special_def)
  show ?thesis
  proof (rule update_run [OF D(1) run T k old])
    fix D1 e1
    assume D1: "D1 = D\<lparr>d_index := (case d_rows D (ta_name T, k) of
        None \<Rightarrow> d_index D | Some old \<Rightarrow> fold (ix_update (ta_name T) k old row) (indexed_columns T) (d_index D))\<rparr>"
      and st: "db_state ok view S e1 D1" and v: "validate_row (kv_read K S) (kv_scan X K S) T row e1 = (Ok (), e1)"
      and unwrap: "indexed_columns T \<noteq> [] \<Longrightarrow> d_rows D (ta_name T, k) \<noteq> None"
      and D': "db_state ok view S e' (D1\<lparr>d_rows := (d_rows D1)((ta_name T, k) \<mapsto> row)\<rparr>)"
    have "tables_ok D1" "rows_ok D1" using D(2) D1 by (simp_all add: db_ok_def tables_ok_def rows_ok_def)
    then have "fits_db D1 T k row" using validate_fits [OF st _ _ _ k(1) v] T D1 by simp
    then have fits: "fits_db D T k row" using D1 by (simp add: fits_db_def)
    have "index_ok (D\<lparr>d_rows := (d_rows D)((n, k) \<mapsto> row), d_index := d_index D1\<rparr>)"
    proof (cases "d_rows D (n, k)")
      case None
      then have "indexed_columns T = []" using unwrap n by auto
      then show ?thesis using index_ok_insert [OF D(2) T None, of row] n D1 None by simp
    next
      case (Some old)
      then show ?thesis using index_ok_update [OF D(2) T Some, of row] n D1 by simp
    qed
    from db_ok_store [OF D(2) T k(1) fits this] D' show ?thesis by (auto simp: D1 db_swap n)
  qed
qed

lemma update_keeps:
  assumes D: "db_state ok view S e D" "db_ok D" and k: "exact k" and run: "kv_update X K S n k row e = (Ok (), e')"
  shows "\<exists>D'. db_state ok view S e' D' \<and> db_ok D'"
proof -
  from run must_read_run [OF D(1), of n] obtain T key where T: "d_tables D n = Some T" and key: "get_row_key T row = Ok key"
    by (auto simp: kv_update_def bind_op_eq_Ok split: option.splits)
  show ?thesis
  proof (cases "key = k")
    case True
    then show ?thesis using update_same_keeps [OF D T _ k run] key by simp
  next
    case False
    have n: "ta_name T = n" using tables_okD [OF D(2) T] by blast
    from run must_read_run [OF D(1), of n] T key False n exact_value_eq [OF k] obtain e1 where
        "kv_delete X K S n k e = (Ok (), e1)" "kv_create X K S n row e1 = (Ok (), e')"
      by (auto simp: kv_update_def bind_op_eq_Ok)
    then show ?thesis using delete_keeps [OF D k] create_keeps by blast
  qed
qed

lemma create_table_keeps:
  assumes D: "db_state ok view S e D" "db_ok D" and run: "kv_create_table K S T e = (Ok (), e')"
    and plain: "distinct (map co_name (ta_columns T))" "\<forall>c \<in> set (ta_columns T). special c \<longrightarrow> co_datatype c \<noteq> T_Float"
  shows "\<exists>D'. db_state ok view S e' D' \<and> db_ok D'"
proof -
  have keep: "snd (column_validate (kv_read_table K S) T c e) = e" for c
    using read_table_run [OF D(1)] by (auto simp: column_validate_def bind_op_def split: option.splits result.splits)
  have "snd (table_validate (kv_read_table K S) T e) = e"
    using for_each_keeps [of "column_validate (kv_read_table K S) T" e, OF keep] by (simp add: table_validate_def Let_def)
  with run read_table_run [OF D(1)] obtain b where new: "d_tables D (ta_name T) = None"
      and v: "table_validate (kv_read_table K S) T e = (Ok (), e)" and b: "sb_ser_table S T = Ok b"
      and set: "kt_set K (skey_bytes (K_Table (ta_name T))) b e = (Ok (), e')"
    by (auto simp: kv_create_table_def bind_op_eq_Ok simp del: skey_bytes.simps split: if_splits)
  have "table_shape T" using v plain by (auto simp: table_shape_def table_validate_def Let_def split: if_splits)
  from db_ok_new_table [OF D(2) this new] have "db_ok (D\<lparr>d_tables := (d_tables D)(ta_name T \<mapsto> T)\<rparr>)" .
  moreover have "sb_de_table S b = Ok T" using bincode_law b unfolding sb_ok_def by (metis result.inject(1))
  then have "db_state ok view S e' (D\<lparr>d_tables := (d_tables D)(ta_name T \<mapsto> T)\<rparr>)"
    using set_law [OF stateD(1) [OF D(1)] set] D(1) holds_updates(1) [of S "view e" D b T "ta_name T"]
    by (simp add: db_state_def del: skey_bytes.simps)
  ultimately show ?thesis by blast
qed

lemma delete_scanned_loop:
  assumes "db_state ok view S e D" "db_ok D" "d_tables D n = Some T" "\<forall>row \<in> set rows. row_ok T row"
    and "for_each (delete_scanned X K S T) (map Ok rows) e = (Ok (), e')"
  shows "\<exists>D'. db_state ok view S e' D' \<and> db_ok D' \<and> d_tables D' = d_tables D \<and> (\<forall>x. d_rows D' x = None \<or> d_rows D' x = d_rows D x) \<and>
    (\<forall>row \<in> set rows. \<forall>k. get_row_key T row = Ok k \<longrightarrow> d_rows D' (n, k) = None)"
  using assms
proof (induction rows arbitrary: e D)
  case (Cons row rows)
  have n: "ta_name T = n" using tables_okD [OF Cons.prems(2,3)] by blast
  from Cons.prems(5) n obtain k e1 where k: "get_row_key T row = Ok k" and del: "kv_delete X K S n k e = (Ok (), e1)"
      and rest: "for_each (delete_scanned X K S T) (map Ok rows) e1 = (Ok (), e')"
    by (auto simp: delete_scanned_def [of X K S T "Ok row"] bind_op_eq_Ok)
  have "exact k" using key_exact [OF Cons.prems(2,3) _ k] Cons.prems(4) by simp
  from delete_keeps [OF Cons.prems(1,2) this del] obtain I where
      D1: "db_state ok view S e1 (D\<lparr>d_rows := (d_rows D)((n, k) := None), d_index := I\<rparr>)"
      "db_ok (D\<lparr>d_rows := (d_rows D)((n, k) := None), d_index := I\<rparr>)" by blast
  let ?D = "D\<lparr>d_rows := (d_rows D)((n, k) := None), d_index := I\<rparr>"
  have "d_tables ?D n = Some T" "\<forall>row \<in> set rows. row_ok T row" using Cons.prems(3,4) by simp_all
  from Cons.IH [OF D1 this rest] obtain D' where D': "db_state ok view S e' D'" "db_ok D'" "d_tables D' = d_tables D"
      "\<And>x. d_rows D' x = None \<or> d_rows D' x = d_rows ?D x"
      "\<And>row k. row \<in> set rows \<Longrightarrow> get_row_key T row = Ok k \<Longrightarrow> d_rows D' (n, k) = None" by auto
  have "d_rows D' x = None \<or> d_rows D' x = d_rows D x" for x using D'(4) [of x] by (auto split: if_splits)
  moreover have "d_rows D' (n, k) = None" using D'(4) [of "(n, k)"] by simp
  ultimately show ?case using D' k by (intro exI [of _ D']) auto
qed auto

lemma delete_table_keeps:
  assumes D: "db_state ok view S e D" "db_ok D" and run: "kv_delete_table X K S n e = (Ok (), e')"
  shows "\<exists>D'. db_state ok view S e' D' \<and> db_ok D'"
proof -
  from run must_read_run [OF D(1), of n] obtain T where T: "d_tables D n = Some T"
    by (auto simp: kv_delete_table_def bind_op_def split: option.splits)
  have n: "ta_name T = n" using tables_okD [OF D(2) T] by blast
  obtain refs where refs: "table_references (kv_scan_tables K S) n False e = (Ok refs, e)"
    using table_references_run [OF D(1)] by metis
  obtain rows where rows: "kv_scan X K S n None e = (Ok (map Ok rows), e)" "set rows = {row. \<exists>k. d_rows D (n, k) = Some row}"
    using scan_run [OF D(1) T] n by blast
  from run must_read_run [OF D(1), of n] T n refs rows(1) obtain e1 where
      loop: "for_each (delete_scanned X K S T) (map Ok rows) e = (Ok (), e1)"
      and del: "kt_delete K (skey_bytes (K_Table n)) e1 = (Ok (), e')"
    by (auto simp: kv_delete_table_def bind_op_eq_Ok simp del: skey_bytes.simps split: if_splits)
  have at: "row_ok T row \<and> get_row_key T row = Ok k" if "d_rows D (n, k) = Some row" for k row
    using rows_okD [OF D(2) that] T by auto
  have "\<forall>row \<in> set rows. row_ok T row" using at rows(2) by blast
  from delete_scanned_loop [OF D T this loop] obtain D1 where D1: "db_state ok view S e1 D1" "db_ok D1"
      "\<And>x. d_rows D1 x = None \<or> d_rows D1 x = d_rows D x"
      "\<And>row k. row \<in> set rows \<Longrightarrow> get_row_key T row = Ok k \<Longrightarrow> d_rows D1 (n, k) = None" by auto
  have "d_rows D1 (n, k) = None" for k
  proof (cases "d_rows D (n, k)")
    case None
    then show ?thesis using D1(3) [of "(n, k)"] by auto
  next
    case (Some row)
    then show ?thesis using D1(4) [of row k] at [OF Some] rows(2) by blast
  qed
  from db_ok_drop_table [OF D1(2) this] have "db_ok (D1\<lparr>d_tables := (d_tables D1)(n := None)\<rparr>)" .
  moreover have "db_state ok view S e' (D1\<lparr>d_tables := (d_tables D1)(n := None)\<rparr>)"
    using delete_law [OF stateD(1) [OF D1(1)] del] D1(1) holds_updates(2) [of S "view e1" D1 n]
    by (simp add: db_state_def del: skey_bytes.simps)
  ultimately show ?thesis by blast
qed

end

section \<open>Sequences of writes\<close>

text \<open>The writes of a transaction, and those the invariant is about: tables with distinct column names and no
  floats in columns with a constraint or an index, and keys that are not floats.\<close>

datatype sql_write =
    W_Create_Table table
  | W_Delete_Table bytes
  | W_Create bytes row
  | W_Delete bytes sql_value
  | W_Update bytes sql_value row

fun run_write :: "'e sql_txn \<Rightarrow> sql_write \<Rightarrow> ('e, unit) op" where
  "run_write X (W_Create_Table t) = tx_create_table X t"
| "run_write X (W_Delete_Table n) = tx_delete_table X n"
| "run_write X (W_Create n row) = tx_create X n row"
| "run_write X (W_Delete n k) = tx_delete X n k"
| "run_write X (W_Update n k row) = tx_update X n k row"

fun plain_write :: "sql_write \<Rightarrow> bool" where
  "plain_write (W_Create_Table t) \<longleftrightarrow> distinct (map co_name (ta_columns t)) \<and>
     list_all (\<lambda>c. special c \<longrightarrow> co_datatype c \<noteq> T_Float) (ta_columns t)"
| "plain_write (W_Delete n k) \<longleftrightarrow> exact k"
| "plain_write (W_Update n k row) \<longleftrightarrow> exact k"
| "plain_write _ \<longleftrightarrow> True"

context sql_store
begin

lemma write_keeps:
  assumes "db_state ok view S e D" "db_ok D" "plain_write w" "run_write (kv_transaction X K S) w e = (Ok (), e')"
  shows "\<exists>D'. db_state ok view S e' D' \<and> db_ok D'"
  using assms(3,4)
  by (cases w) (auto simp: kv_transaction_def list_all_iff intro: create_table_keeps [OF assms(1,2)] delete_table_keeps [OF assms(1,2)]
      create_keeps [OF assms(1,2)] update_keeps [OF assms(1,2)] dest: delete_keeps [OF assms(1,2)])

lemma writes_keep:
  assumes "db_state ok view S e D" "db_ok D" "list_all plain_write ws"
    "for_each (run_write (kv_transaction X K S)) ws e = (Ok (), e')"
  shows "\<exists>D'. db_state ok view S e' D' \<and> db_ok D'"
  using assms
proof (induction ws arbitrary: e D)
  case (Cons w ws)
  from Cons.prems(4) obtain e1 where e1: "run_write (kv_transaction X K S) w e = (Ok (), e1)"
      "for_each (run_write (kv_transaction X K S)) ws e1 = (Ok (), e')" by (auto simp: bind_op_eq_Ok)
  have "plain_write w" "list_all plain_write ws" using Cons.prems(3) by simp_all
  from write_keeps [OF Cons.prems(1,2) this(1) e1(1)] Cons.IH [OF _ _ this(2) e1(2)] show ?case by blast
qed auto

lemma read_index_run:
  assumes D: "db_state ok view S e D" "db_ok D" and T: "d_tables D n = Some T" and c: "(i, c) \<in> set (indexed_columns T)"
  shows "\<exists>ks. kv_read_index K S n (co_name c) v e = (Ok ks, e) \<and>
    (\<forall>k. k \<in> set ks \<longleftrightarrow> (\<exists>row. kv_read K S n k e = (Ok (Some row), e) \<and> row ! i = v))"
proof -
  have shape: "table_shape T" using tables_okD [OF D(2) T] by blast
  have i: "i < length (ta_columns T)" "c = ta_columns T ! i" "co_index c" using indexed_columnsD [OF c] by auto
  have "find (\<lambda>d. co_name d = co_name c) (ta_columns T) = Some c"
    unfolding find_Some_iff using i shape by (auto simp: table_shape_def distinct_conv_nth intro!: exI [of _ i])
  then have "get_column T (co_name c) = Ok c" by (simp add: get_column_def ok_or_def)
  moreover obtain ks where ks: "index_load K S n (co_name c) v e = (Ok ks, e)" "set ks = d_index D (n, co_name c, v)"
    using index_load_run [OF D(1)] by blast
  ultimately have "kv_read_index K S n (co_name c) v e = (Ok ks, e)"
    using must_read_run [OF D(1), of n] T i(3) by (simp add: kv_read_index_def bind_op_def)
  then show ?thesis using ks(2) index_of_row [OF D(2) T c] read_run [OF D(1)] by auto
qed

end

end
