(* ===== verification/Sql_Mvcc.thy ===== *)
theory Sql_Mvcc
  imports Sql_Integrity "HOL-Library.Countable"
begin

text \<open>
  The SQL engine on MVCC transactions: an open transaction of \<^verbatim>\<open>src/src/storage/mvcc.rs\<close> meets the contract
  that the engine of \<^verbatim>\<open>src/src/sql/engine/kv.rs\<close> relies on, so what was shown for the engine holds for
  a database in MVCC on any storage engine.
\<close>

section \<open>Transactions as stores\<close>

lemma a_read_write:
  assumes "\<not> ts_read_only st" "ts_version st \<notin> ts_active st"
  shows "a_read st (a_write st k x a) = (a_read st a)(k := x)"
proof
  fix j
  show "a_read st (a_write st k x a) j = ((a_read st a)(k := x)) j"
    using a_read_own_write [OF assms] by (cases "j = k") (auto intro!: a_read_cong simp: a_write_def)
qed

lemma scan_items_collected: "collect_next B it = Ok kvs \<Longrightarrow> scan_items B it = map Ok kvs"
proof (induction B it arbitrary: kvs rule: collect_next.induct)
  case (1 B it)
  obtain r it' where r: "scan_try_next B it = (r, it')" by fastforce
  show ?case
  proof (cases r)
    case (Ok x)
    show ?thesis
    proof (cases x)
      case None
      then show ?thesis using 1(2) r Ok by (simp add: collect_next.simps [of B it] scan_items.simps [of B it])
    next
      case (Some y)
      then obtain ys where "collect_next B it' = Ok ys" "kvs = y # ys"
        using 1(2) r Ok by (cases "collect_next B it'") (auto simp: collect_next.simps [of B it])
      then show ?thesis using 1(1) [OF r [symmetric]] r Ok Some by (simp add: scan_items.simps [of B it])
    qed
  qed (use 1(2) r in \<open>simp_all add: collect_next.simps [of B it]\<close>)
qed

text \<open>The states of a store with an open transaction, and what the transaction reads in them.\<close>

definition txn_open :: "'e engine \<Rightarrow> bincode \<Rightarrow> ('e \<Rightarrow> bool) \<Rightarrow> ('e \<Rightarrow> (bytes \<times> bytes) list) \<Rightarrow> transaction_state \<Rightarrow> 'e \<Rightarrow> bool" where
  "txn_open E B einv view st e \<longleftrightarrow> (\<exists>T. st \<in> T \<and> mvcc_reachable E B (\<lambda>_ _. True) einv view (e, T))"

definition txn_view :: "bincode \<Rightarrow> ('e \<Rightarrow> (bytes \<times> bytes) list) \<Rightarrow> transaction_state \<Rightarrow> 'e \<Rightarrow> bytes \<Rightarrow> bytes option" where
  "txn_view B view st e = a_read st (mvcc_state view B e)"

lemma open_write:
  assumes M: "mvcc_store E einv view (\<lambda>_ _. True) B" and e: "txn_open E B einv view st e"
    and run: "txn_write_version E B st k x e = (Ok (), e')"
  shows "txn_open E B einv view st e' \<and> txn_view B view st e' = (txn_view B view st e)(k := x)"
proof -
  obtain T where T: "st \<in> T" "mvcc_reachable E B (\<lambda>_ _. True) einv view (e, T)" using e by (auto simp: txn_open_def)
  note sim = mvcc_store.reachable_sim [OF M T(2)]
  have fits: "write_fits B (\<lambda>_ _. True) st k x" by (simp add: write_fits_def)
  have "mvcc_reachable E B (\<lambda>_ _. True) einv view (e', T)"
    using reachable_step [OF T(2) step_write [OF T(1) run fits]] .
  moreover note w = mvcc_store.sim_write_Ok [OF M sim T(1) fits run]
  moreover have "ts_version st \<notin> ts_active st" using open_own_visible [OF simD(2) [OF sim] simD(3) [OF sim T(1)] w(1)] .
  ultimately show ?thesis using T(1) a_read_write by (auto simp: txn_open_def txn_view_def)
qed

lemma open_scan:
  assumes E: "storage_engine E einv view (\<lambda>_ _. True)" "bincode_ok B" and e: "txn_open E B einv view st e"
  shows "\<exists>kvs. kt_scan_prefix (mvcc_kv E B st) p e = (Ok (map Ok kvs), e) \<and> ordered kvs \<and>
    (\<forall>k x. (k, x) \<in> set kvs \<longleftrightarrow> prefix p k \<and> txn_view B view st e k = Some x)"
proof -
  note M = mvcc_storeI [OF E]
  obtain T where T: "st \<in> T" "mvcc_reachable E B (\<lambda>_ _. True) einv view (e, T)" using e by (auto simp: txn_open_def)
  note ok = simD(1) [OF mvcc_store.reachable_sim [OF M T(2)]]
  let ?p = "4 # concat (map escape p)"
  have "scan_prefix E ?p e = (Ok (raw (stored_items (view e) (prefix p))), e)"
    using storage_engine.scan_prefix_law [OF E(1) mvcc_okD(1) [OF ok], of ?p]
      mvcc_store.scan_stored [OF M ok prefix_Version] by simp
  then obtain kvs it where kvs: "scan_to_vec E B st (Prefix ?p) e = (Ok kvs, e)" "ordered kvs"
      "\<And>k x. (k, x) \<in> set kvs \<longleftrightarrow> prefix p k \<and> txn_get E B st k e = (Ok (Some x), e)"
      "scan_iter E st (Prefix ?p) e = (Ok it, e)"
    using mvcc_store.scan_to_vec_ok [OF M ok, of "Prefix ?p" "prefix p" st] by auto
  then have "collect_next B it = Ok kvs" by (simp add: scan_to_vec_def bind_op_def)
  then have "kt_scan_prefix (mvcc_kv E B st) p e = (Ok (map Ok kvs), e)"
    using kvs(4) enc_bytes_truncated [of p] scan_items_collected by (simp add: mvcc_kv_def txn_scan_prefix_def bind_op_def)
  then show ?thesis using kvs(2,3) mvcc_store.get_ok [OF M ok] by (auto simp: txn_view_def)
qed

lemma mvcc_sql_store:
  assumes E: "storage_engine E einv view (\<lambda>_ _. True)" "bincode_ok B" and S: "sb_ok S"
  shows "sql_store (mvcc_kv E B st) (txn_open E B einv view st) (txn_view B view st) S"
proof
  note M = mvcc_storeI [OF E]
  show "kt_get (mvcc_kv E B st) k e = (Ok (txn_view B view st e k), e)" if "txn_open E B einv view st e" for e k
    using that mvcc_store.get_ok [OF M simD(1) [OF mvcc_store.reachable_sim [OF M]]]
    by (auto simp: mvcc_kv_def txn_view_def txn_open_def)
  show "txn_open E B einv view st e' \<and> txn_view B view st e' = (txn_view B view st e)(k \<mapsto> b)"
    if "txn_open E B einv view st e" "kt_set (mvcc_kv E B st) k b e = (Ok (), e')" for e k b e'
    using open_write [OF M that(1)] that(2) by (simp add: mvcc_kv_def txn_set_def)
  show "txn_open E B einv view st e' \<and> txn_view B view st e' = (txn_view B view st e)(k := None)"
    if "txn_open E B einv view st e" "kt_delete (mvcc_kv E B st) k e = (Ok (), e')" for e k e'
    using open_write [OF M that(1)] that(2) by (simp add: mvcc_kv_def txn_delete_def)
qed (use open_scan [OF E] S in blast)+

section \<open>A serialization\<close>

text \<open>A serialization that meets the contract: the number of a value, as that many bytes.\<close>

instance data_type :: countable
  by countable_datatype

instance sql_value :: countable
  by countable_datatype

definition column_code :: "column \<Rightarrow> nat" where
  "column_code c = to_nat (co_name c, co_datatype c, co_primary_key c, co_nullable c, co_default c, co_unique c, co_references c, co_index c)"

definition column_of :: "nat \<Rightarrow> column" where
  "column_of n = (case from_nat n of (name, dt, pk, nullable, dflt, uniq, refs, ix) \<Rightarrow>
     \<lparr>co_name = name, co_datatype = dt, co_primary_key = pk, co_nullable = nullable, co_default = dflt, co_unique = uniq,
      co_references = refs, co_index = ix\<rparr>)"

lemma column_of_code [simp]: "column_of (column_code c) = c"
  by (simp add: column_of_def column_code_def)

definition counted_bincode :: sql_bincode where
  "counted_bincode = \<lparr>
     sb_ser_table = (\<lambda>t. Ok (replicate (to_nat (ta_name t, map column_code (ta_columns t))) 0)),
     sb_de_table = (\<lambda>b. case from_nat (length b) of (n, cs) \<Rightarrow> Ok \<lparr>ta_name = n, ta_columns = map column_of cs\<rparr>),
     sb_ser_row = (\<lambda>row. Ok (replicate (to_nat row) 0)), sb_de_row = (\<lambda>b. Ok (from_nat (length b))),
     sb_ser_keys = (\<lambda>ks. Ok (replicate (to_nat ks) 0)), sb_de_keys = (\<lambda>b. Ok (from_nat (length b)))\<rparr>"

lemma counted_bincode_ok: "sb_ok counted_bincode"
  by (simp add: sb_ok_def counted_bincode_def comp_def)

interpretation memory_sql: sql_store "mvcc_kv memory_engine fixed_bincode st"
  "txn_open memory_engine fixed_bincode memory_inv mem_data st" "txn_view fixed_bincode mem_data st" counted_bincode for st
  by (rule mvcc_sql_store [OF mem_contract counted_bincode_ok])

section \<open>Progress\<close>

text \<open>Where every write of the store succeeds, a row that passes validation and has a free key is created.\<close>

context sql_store
begin

lemma index_insert_total:
  assumes total: "\<And>e k b. ok e \<Longrightarrow> \<exists>e'. kt_set K k b e = (Ok (), e')"
    and D: "db_state ok view S e D" and k: "hashable k"
  shows "\<exists>e'. index_insert K S T k c v e = (Ok (), e')"
proof -
  obtain ks where ks: "index_load K S (ta_name T) (co_name c) v e = (Ok ks, e)" using index_load_run [OF D] by blast
  obtain b where b: "sb_ser_keys S (set_extend ks [k]) = Ok b" using bincode_law unfolding sb_ok_def by metis
  have "set_extend ks [k] \<noteq> []" by (cases ks) simp_all
  then show ?thesis
    using ks b k total [OF stateD(1) [OF D]] by (simp add: index_insert_def bind_op_def hash_all_def index_save_def del: skey_bytes.simps)
qed

lemma index_loop_total:
  assumes total: "\<And>e k b. ok e \<Longrightarrow> \<exists>e'. kt_set K k b e = (Ok (), e')"
    and "db_state ok view S e D" "hashable k" "\<forall>(i, c) \<in> set cs. i < length row"
  shows "\<exists>e'. for_each (\<lambda>(i, c). bind_op (lift_op (value_at row i)) (index_insert K S T k c)) cs e = (Ok (), e')"
  using assms(2-)
proof (induction cs arbitrary: e D)
  case (Cons ic cs)
  obtain i c where ic: "ic = (i, c)" by fastforce
  with Cons.prems have i: "value_at row i = Ok (row ! i)" by (simp add: value_at_def)
  obtain e1 where e1: "index_insert K S T k c (row ! i) e = (Ok (), e1)"
    using index_insert_total [OF total Cons.prems(1,2)] by blast
  from Cons.IH [OF index_insert_run [OF Cons.prems(1) e1] Cons.prems(2)] Cons.prems(3) ic i e1 show ?case
    by (auto simp: bind_op_def)
qed simp

lemma create_total:
  assumes total: "\<And>e k b. ok e \<Longrightarrow> \<exists>e'. kt_set K k b e = (Ok (), e')"
    and D: "db_state ok view S e D" and T: "d_tables D n = Some T" "ta_name T = n"
    and v: "validate_row (kv_read K S) (kv_scan X K S) T row e = (Ok (), e)"
    and k: "get_row_key T row = Ok k" "hashable k" "d_rows D (n, k) = None"
  shows "\<exists>e'. kv_create X K S n row e = (Ok (), e') \<and> db_state ok view S e' (D\<lparr>d_rows := (d_rows D)((n, k) \<mapsto> row),
      d_index := fold (ix_insert n k row) (indexed_columns T) (d_index D)\<rparr>)"
proof -
  obtain b where b: "sb_ser_row S row = Ok b" using bincode_law unfolding sb_ok_def by metis
  obtain e1 where e1: "kt_set K (skey_bytes (K_Row n k)) b e = (Ok (), e1)" using total [OF stateD(1) [OF D]] by blast
  have "\<forall>(i, c) \<in> set (indexed_columns T). i < length row"
    using row_ok_length [OF validate_row_Ok(2) [OF D v]] indexed_columnsD by fastforce
  then obtain e2 where "for_each (\<lambda>(i, c). bind_op (lift_op (value_at row i)) (index_insert K S T k c)) (indexed_columns T) e1 = (Ok (), e2)"
    using index_loop_total [OF total set_row_run [OF D b e1] k(2)] by blast
  then have run: "kv_create X K S n row e = (Ok (), e2)"
    using must_read_run [OF D, of n] T v k read_run [OF D, of n k] b e1
    by (simp add: kv_create_def bind_op_def del: skey_bytes.simps)
  show ?thesis
  proof (rule create_run [OF D run])
    fix T' k'
    assume "d_tables D n = Some T'" "get_row_key T' row = Ok k'"
      and D': "db_state ok view S e2 (D\<lparr>d_rows := (d_rows D)((ta_name T', k') \<mapsto> row),
        d_index := fold (ix_insert (ta_name T') k' row) (indexed_columns T') (d_index D)\<rparr>)"
    then have "T' = T" "k' = k" using T(1) k(1) by simp_all
    then show ?thesis using run D' T(2) by blast
  qed
qed

lemma create_table_total:
  assumes total: "\<And>e k b. ok e \<Longrightarrow> \<exists>e'. kt_set K k b e = (Ok (), e')"
    and D: "db_state ok view S e D" and T: "d_tables D (ta_name T) = None"
    and v: "table_validate (kv_read_table K S) T e = (Ok (), e)"
  shows "\<exists>e'. kv_create_table K S T e = (Ok (), e') \<and> db_state ok view S e' (D\<lparr>d_tables := (d_tables D)(ta_name T \<mapsto> T)\<rparr>)"
proof -
  obtain b where b: "sb_ser_table S T = Ok b" "sb_de_table S b = Ok T" using bincode_law unfolding sb_ok_def by metis
  obtain e1 where e1: "kt_set K (skey_bytes (K_Table (ta_name T))) b e = (Ok (), e1)" using total [OF stateD(1) [OF D]] by blast
  then have "kv_create_table K S T e = (Ok (), e1)"
    using read_table_run [OF D] T v b by (simp add: kv_create_table_def bind_op_def del: skey_bytes.simps)
  moreover have "db_state ok view S e1 (D\<lparr>d_tables := (d_tables D)(ta_name T \<mapsto> T)\<rparr>)"
    using set_law [OF stateD(1) [OF D] e1] D holds_updates(1) [of S "view e" D b T "ta_name T"] b(2)
    by (simp add: db_state_def del: skey_bytes.simps)
  ultimately show ?thesis by blast
qed

end

lemma empty_state:
  assumes "ok e" "\<And>k. view e k = None"
  shows "db_state ok view S e empty_db"
proof -
  have "view e = (\<lambda>_. None)" using assms(2) by auto
  then show ?thesis using assms(1) holds_empty by (simp add: db_state_def empty_db_def)
qed

section \<open>A small database\<close>

text \<open>A transaction alone on an empty memory engine creates a table of people with a boss among them and an
  indexed tag, and two rows, the second of which refers to the first.\<close>

abbreviation (input) demo_kv :: "memory kv_txn" where
  "demo_kv \<equiv> mvcc_kv memory_engine fixed_bincode demo_st1"

abbreviation (input) demo_view :: "memory \<Rightarrow> bytes \<Rightarrow> bytes option" where
  "demo_view \<equiv> txn_view fixed_bincode mem_data demo_st1"

definition solo :: "memory \<Rightarrow> bool" where
  "solo e \<longleftrightarrow> txn_open memory_engine fixed_bincode memory_inv mem_data demo_st1 e \<and>
     (\<forall>k v. a_vers (mvcc_state mem_data fixed_bincode e) k v \<noteq> None \<longrightarrow> v = 1)"

lemma solo_write: "solo e \<Longrightarrow> \<exists>e'. txn_write_version memory_engine fixed_bincode demo_st1 k x e = (Ok (), e') \<and> solo e'"
proof -
  assume e: "solo e"
  then obtain T where T: "demo_st1 \<in> T" "mem_reachable (e, T)" by (auto simp: solo_def txn_open_def)
  note sim = memory_mvcc.reachable_sim [OF T(2)]
  have "is_visible demo_st1 v" if "a_vers (mvcc_state mem_data fixed_bincode e) k v \<noteq> None" for v
    using e that by (auto simp: solo_def is_visible_def demo_st1_def)
  then have "\<not> a_conflict demo_st1 k (mvcc_state mem_data fixed_bincode e)"
    using conflict_iff [OF simD(2) [OF sim] simD(3) [OF sim T(1)], of k] by (auto simp: demo_st1_def)
  then obtain e' where e': "txn_write_version memory_engine fixed_bincode demo_st1 k x e = (Ok (), e')"
      "mvcc_state mem_data fixed_bincode e' = a_write demo_st1 k x (mvcc_state mem_data fixed_bincode e)"
    using memory_mvcc.sim_write(2) [OF sim T(1), of k x] by (auto simp: write_fits_def demo_st1_def)
  moreover have "txn_open memory_engine fixed_bincode memory_inv mem_data demo_st1 e'"
    using open_write [OF memory_mvcc.mvcc_store_axioms _ e'(1)] e by (simp add: solo_def)
  ultimately show ?thesis using e by (auto simp: solo_def a_write_def demo_st1_def) (metis not_Some_eq)
qed

lemma solo_store: "sql_store demo_kv solo demo_view counted_bincode"
proof
  fix e e' k b
  assume e: "solo e"
  then have op: "txn_open memory_engine fixed_bincode memory_inv mem_data demo_st1 e" by (simp add: solo_def)
  show "kt_get demo_kv k e = (Ok (demo_view e k), e)" using memory_sql.get_law [OF op] .
  show "kt_set demo_kv k b e = (Ok (), e') \<Longrightarrow> solo e' \<and> demo_view e' = (demo_view e)(k \<mapsto> b)"
    using memory_sql.set_law [OF op] solo_write [OF e, of k "Some b"] by (auto simp: mvcc_kv_def txn_set_def)
  show "kt_delete demo_kv k e = (Ok (), e') \<Longrightarrow> solo e' \<and> demo_view e' = (demo_view e)(k := None)"
    using memory_sql.delete_law [OF op] solo_write [OF e, of k None] by (auto simp: mvcc_kv_def txn_delete_def)
  show "\<exists>kvs. kt_scan_prefix demo_kv k e = (Ok (map Ok kvs), e) \<and> ordered kvs \<and>
      (\<forall>j x. (j, x) \<in> set kvs \<longleftrightarrow> prefix k j \<and> demo_view e j = Some x)"
    using memory_sql.scan_law [OF op] .
qed (rule counted_bincode_ok)

lemma solo_total: "solo e \<Longrightarrow> \<exists>e'. kt_set demo_kv k b e = (Ok (), e')"
  using solo_write [of e k "Some b"] by (auto simp: mvcc_kv_def txn_set_def)

definition people :: table where
  "people = \<lparr>ta_name = [112], ta_columns = [
     \<lparr>co_name = [105], co_datatype = T_Integer, co_primary_key = True, co_nullable = False, co_default = None, co_unique = True,
      co_references = None, co_index = False\<rparr>,
     \<lparr>co_name = [98], co_datatype = T_Integer, co_primary_key = False, co_nullable = True, co_default = Some Null, co_unique = False,
      co_references = Some [112], co_index = False\<rparr>,
     \<lparr>co_name = [116], co_datatype = T_Integer, co_primary_key = False, co_nullable = False, co_default = None, co_unique = False,
      co_references = None, co_index = True\<rparr>]\<rparr>"

definition people_writes :: "sql_write list" where
  "people_writes = [W_Create_Table people, W_Create [112] [Integer 1, Null, Integer 5], W_Create [112] [Integer 2, Integer 1, Integer 5]]"

lemma people_plain: "list_all plain_write people_writes"
  by (simp add: people_writes_def people_def special_def)

lemma Integer_hashable: "hashable (Integer i)"
  by (simp add: hashable_def hash_value.simps [of "Integer _"])

lemma people_run:
  assumes M: "sql_store K ok view S" and total: "\<And>e k b. ok e \<Longrightarrow> \<exists>e'. kt_set K k b e = (Ok (), e')"
    and D0: "db_state ok view S e empty_db"
  shows "\<exists>e' D'. for_each (run_write (kv_transaction X K S)) people_writes e = (Ok (), e') \<and> db_state ok view S e' D' \<and>
    d_tables D' [112] = Some people \<and> d_rows D' = [([112], Integer 1) \<mapsto> [Integer 1, Null, Integer 5],
      ([112], Integer 2) \<mapsto> [Integer 2, Integer 1, Integer 5]] \<and> d_index D' ([112], [116], Integer 5) = {Integer 1, Integer 2}"
proof -
  note rt = sql_store.read_table_run [OF M] and rr = sql_store.read_run [OF M]
  have name: "ta_name people = [112]" by (simp add: people_def)
  have "table_validate (kv_read_table K S) people e = (Ok (), e)"
    by (simp add: table_validate_def column_validate_def people_def bind_op_def get_primary_key_def ok_or_def)
  then obtain e1 where e1: "kv_create_table K S people e = (Ok (), e1)"
      and D1: "db_state ok view S e1 (empty_db\<lparr>d_tables := [[112] \<mapsto> people]\<rparr>)"
    using sql_store.create_table_total [OF M total D0, of people] by (auto simp: empty_db_def name)
  have "validate_row (kv_read K S) (kv_scan X K S) people [Integer 1, Null, Integer 5] e1 = (Ok (), e1)"
    by (simp add: validate_row_def validate_value_def people_def bind_op_def get_row_key_def ok_or_def)
  then obtain e2 D2 where e2: "kv_create X K S [112] [Integer 1, Null, Integer 5] e1 = (Ok (), e2)" and D2: "db_state ok view S e2 D2"
      "d_tables D2 [112] = Some people" "d_rows D2 = [([112], Integer 1) \<mapsto> [Integer 1, Null, Integer 5]]"
      "d_index D2 ([112], [116], Integer 5) = {Integer 1}"
    using sql_store.create_total [OF M total D1 _ name, of X "[Integer 1, Null, Integer 5]" "Integer 1"] Integer_hashable [of 1]
    by (auto simp: empty_db_def people_def get_row_key_def ok_or_def indexed_columns_def ix_insert_def)
  have v2: "validate_row (kv_read K S) (kv_scan X K S) people [Integer 2, Integer 1, Integer 5] e2 = (Ok (), e2)"
    by (simp add: validate_row_def validate_value_def people_def bind_op_def get_row_key_def ok_or_def rr [OF D2(1)] D2(3))
  have k2: "get_row_key people [Integer 2, Integer 1, Integer 5] = Ok (Integer 2)" "d_rows D2 ([112], Integer 2) = None"
    by (simp_all add: people_def get_row_key_def ok_or_def D2(3))
  let ?D3 = "D2\<lparr>d_rows := (d_rows D2)(([112], Integer 2) \<mapsto> [Integer 2, Integer 1, Integer 5]),
      d_index := fold (ix_insert [112] (Integer 2) [Integer 2, Integer 1, Integer 5]) (indexed_columns people) (d_index D2)\<rparr>"
  obtain e3 where e3: "kv_create X K S [112] [Integer 2, Integer 1, Integer 5] e2 = (Ok (), e3)" "db_state ok view S e3 ?D3"
    using sql_store.create_total [OF M total D2(1,2) name v2 k2(1) Integer_hashable k2(2)] by blast
  have D3: "d_tables ?D3 [112] = Some people" "d_rows ?D3 = [([112], Integer 1) \<mapsto> [Integer 1, Null, Integer 5],
      ([112], Integer 2) \<mapsto> [Integer 2, Integer 1, Integer 5]]"
    by (simp_all add: D2(2,3))
  have ix3: "d_index ?D3 ([112], [116], Integer 5) = {Integer 1, Integer 2}"
    by (auto simp: D2(4) people_def indexed_columns_def ix_insert_def)
  have "for_each (run_write (kv_transaction X K S)) people_writes e = (Ok (), e3)"
    using e1 e2 e3(1) by (simp add: people_writes_def kv_transaction_def bind_op_def)
  with e3(2) D3 ix3 show ?thesis by blast
qed

lemma demo_people:
  obtains e e' D' where "mem_reachable (e, {demo_st1})" "\<And>k. txn_get memory_engine fixed_bincode demo_st1 k e = (Ok None, e)"
    "for_each (run_write (kv_transaction X demo_kv counted_bincode)) people_writes e = (Ok (), e')"
    "kv_read_table demo_kv counted_bincode [112] e' = (Ok (Some people), e')"
    "kv_read demo_kv counted_bincode [112] (Integer 2) e' = (Ok (Some [Integer 2, Integer 1, Integer 5]), e')"
    "db_state solo demo_view counted_bincode e' D'" "d_tables D' [112] = Some people"
    "d_rows D' = [([112], Integer 1) \<mapsto> [Integer 1, Null, Integer 5], ([112], Integer 2) \<mapsto> [Integer 2, Integer 1, Integer 5]]"
    "d_index D' ([112], [116], Integer 5) = {Integer 1, Integer 2}"
proof -
  let ?st = "mvcc_state mem_data fixed_bincode"
  have r0: "mem_reachable (memory_new, {})" using demo_run by metis
  note ok0 = simD(1) [OF memory_mvcc.reachable_sim [OF r0]]
  have s0: "?st memory_new = \<lparr>a_next = 1, a_active = {}, a_snap = (\<lambda>_. {}), a_writes = {}, a_vers = (\<lambda>_ _. None), a_unv = (\<lambda>_. None)\<rparr>"
    by (simp add: mvcc_state_def mvcc_abs_of_def kv_of_def fun_eq_iff)
  then have "begin_state (?st memory_new) = demo_st1" by (simp add: begin_state_def demo_st1_def)
  then obtain e where e: "mem_step (Begin demo_st1) (memory_new, {}) (e, {demo_st1})" "?st e = a_begin (?st memory_new)"
    using mem_begin_step [OF ok0, of "{}"] s0 by auto
  have r: "mem_reachable (e, {demo_st1})" by (rule reachable_step [OF r0 e(1)])
  have none: "a_vers (?st e) k v = None" for k v by (simp add: e(2) s0)
  then have view: "demo_view e k = None" for k by (simp add: txn_view_def a_read_def visible_versions_def)
  have solo: "solo e" using r none by (auto simp: solo_def txn_open_def)
  have "db_state solo demo_view counted_bincode e empty_db" using solo view by (intro empty_state)
  from people_run [OF solo_store solo_total this, of X] obtain e' D' where
      run: "for_each (run_write (kv_transaction X demo_kv counted_bincode)) people_writes e = (Ok (), e')"
      and D': "db_state solo demo_view counted_bincode e' D'" "d_tables D' [112] = Some people"
        "d_rows D' = [([112], Integer 1) \<mapsto> [Integer 1, Null, Integer 5], ([112], Integer 2) \<mapsto> [Integer 2, Integer 1, Integer 5]]"
        "d_index D' ([112], [116], Integer 5) = {Integer 1, Integer 2}" by blast
  have "txn_get memory_engine fixed_bincode demo_st1 k e = (Ok None, e)" for k
    using sql_store.get_law [OF solo_store solo] view by (simp add: mvcc_kv_def)
  from that [OF r this run] sql_store.read_table_run [OF solo_store D'(1)] sql_store.read_run [OF solo_store D'(1)] D'
  show thesis by simp
qed

section \<open>The database stays consistent\<close>

lemma open_empty:
  assumes E: "storage_engine E einv view (\<lambda>_ _. True)" "bincode_ok B" and r: "mvcc_reachable E B (\<lambda>_ _. True) einv view (e, T)" "st \<in> T"
    and none: "\<And>k. txn_get E B st k e = (Ok None, e)"
  shows "db_state (txn_open E B einv view st) (txn_view B view st) S e empty_db"
proof -
  have "txn_view B view st e k = None" for k
    using none [of k] mvcc_store.get_ok [OF mvcc_storeI [OF E] simD(1) [OF mvcc_store.reachable_sim [OF mvcc_storeI [OF E] r(1)]]]
    by (simp add: txn_view_def)
  moreover have "txn_open E B einv view st e" using r by (auto simp: txn_open_def)
  ultimately show ?thesis by (intro empty_state)
qed

text \<open>(C10) Integrity of the database.  Take any list of writes of a transaction - creating and dropping tables,
  creating, updating and deleting rows - that all succeed, over a storage engine that accepts entries of any
  size, and with these limits on the writes: a table that is created has distinct column names and no float
  column that is its primary key, indexed, unique or referencing, and updates and deletes name their row by a
  key that is not a float.  If the database the transaction works on is consistent - rows fit their schema and
  are stored under their key, index entries hold exactly the keys of the rows with their value, references
  point to rows, and unique columns have no value twice - then so is the database it leaves.  Without the
  limits this is false: 0.0 and -0.0 are equal but have different keys, NaN is not equal to itself, and of
  two columns with the same name only the first is found.\<close>

theorem sql_integrity:
  assumes "storage_engine E einv view (\<lambda>_ _. True)" and "bincode_ok B" and "sb_ok S"
    and "db_state (txn_open E B einv view st) (txn_view B view st) S e D" and "db_ok D"
    and "list_all plain_write ws" and "for_each (run_write (kv_transaction X (mvcc_kv E B st) S)) ws e = (Ok (), e')"
  shows "\<exists>D'. db_state (txn_open E B einv view st) (txn_view B view st) S e' D' \<and> db_ok D'"
  by (rule sql_store.writes_keep [OF mvcc_sql_store [OF assms(1-3)] assms(4-7)])

theorem sql_integrity_witness:
  "\<forall>X. \<exists>e e' D'. for_each (run_write (kv_transaction X demo_kv counted_bincode)) people_writes e = (Ok (), e') \<and>
     db_state (txn_open memory_engine fixed_bincode memory_inv mem_data demo_st1) demo_view counted_bincode e' D' \<and> db_ok D'"
proof
  fix X
  obtain e e' where r: "mem_reachable (e, {demo_st1})" "\<And>k. txn_get memory_engine fixed_bincode demo_st1 k e = (Ok None, e)"
    and run: "for_each (run_write (kv_transaction X demo_kv counted_bincode)) people_writes e = (Ok (), e')"
    using demo_people [of X] by metis
  from sql_integrity [OF mem_contract counted_bincode_ok open_empty [OF mem_contract r(1) _ r(2)] db_ok_empty people_plain run] run
  show "\<exists>e e' D'. for_each (run_write (kv_transaction X demo_kv counted_bincode)) people_writes e = (Ok (), e') \<and>
     db_state (txn_open memory_engine fixed_bincode memory_inv mem_data demo_st1) demo_view counted_bincode e' D' \<and> db_ok D'" by blast
qed

text \<open>(C11) Indexes agree with the rows.  Take a transaction that sees an empty database, over a storage engine
  that accepts entries of any size, and any list of its writes that all succeed, where created tables have
  distinct column names and no float column that is the primary key, indexed, unique or referencing, and
  updates and deletes name their row by a key that is not a float.  Then reading an index for a value gives
  exactly the keys under which rows are stored that have this value in the column.\<close>

theorem sql_index_exact:
  assumes "storage_engine E einv view (\<lambda>_ _. True)" and "bincode_ok B" and "sb_ok S"
    and "mvcc_reachable E B (\<lambda>_ _. True) einv view (e, txns)" and "st \<in> txns" and "\<And>k. txn_get E B st k e = (Ok None, e)"
    and "list_all plain_write ws" and "for_each (run_write (kv_transaction X (mvcc_kv E B st) S)) ws e = (Ok (), e')"
    and "kv_read_table (mvcc_kv E B st) S n e' = (Ok (Some T), e')" and "(i, c) \<in> set (indexed_columns T)"
  shows "\<exists>ks. kv_read_index (mvcc_kv E B st) S n (co_name c) v e' = (Ok ks, e') \<and>
    (\<forall>k. k \<in> set ks \<longleftrightarrow> (\<exists>row. kv_read (mvcc_kv E B st) S n k e' = (Ok (Some row), e') \<and> row ! i = v))"
proof -
  note K = mvcc_sql_store [OF assms(1-3), of st]
  obtain D where D: "db_state (txn_open E B einv view st) (txn_view B view st) S e' D" "db_ok D"
    using sql_store.writes_keep [OF K open_empty [OF assms(1,2,4-6)] db_ok_empty assms(7,8)] by blast
  then show ?thesis
    using sql_store.read_index_run [OF K D _ assms(10)] sql_store.read_table_run [OF K D(1), of n] assms(9) by simp
qed

theorem sql_index_exact_witness:
  "\<forall>X. \<exists>e e' ks. for_each (run_write (kv_transaction X demo_kv counted_bincode)) people_writes e = (Ok (), e') \<and>
     kv_read_index demo_kv counted_bincode [112] [116] (Integer 5) e' = (Ok ks, e') \<and> Integer 2 \<in> set ks"
proof
  fix X
  obtain e e' where r: "mem_reachable (e, {demo_st1})" "\<And>k. txn_get memory_engine fixed_bincode demo_st1 k e = (Ok None, e)"
    and run: "for_each (run_write (kv_transaction X demo_kv counted_bincode)) people_writes e = (Ok (), e')"
    and rd: "kv_read_table demo_kv counted_bincode [112] e' = (Ok (Some people), e')"
      "kv_read demo_kv counted_bincode [112] (Integer 2) e' = (Ok (Some [Integer 2, Integer 1, Integer 5]), e')"
    using demo_people [of X] by metis
  have "(2, ta_columns people ! 2) \<in> set (indexed_columns people)" "co_name (ta_columns people ! 2) = [116]"
    by (simp_all add: indexed_columns_def people_def)
  from sql_index_exact [OF mem_contract counted_bincode_ok r(1) _ r(2) people_plain run rd(1) this(1), of "Integer 5"] this(2) rd(2) run
  show "\<exists>e e' ks. for_each (run_write (kv_transaction X demo_kv counted_bincode)) people_writes e = (Ok (), e') \<and>
     kv_read_index demo_kv counted_bincode [112] [116] (Integer 5) e' = (Ok ks, e') \<and> Integer 2 \<in> set ks"
    by fastforce
qed

text \<open>(C26) Constraints hold for every stored row.  Take a transaction that sees an empty database, over a storage
  engine that accepts entries of any size, and any list of its writes that all succeed, where created tables
  have distinct column names and no float column that is the primary key, indexed, unique or referencing, and
  updates and deletes name their row by a key that is not a float.  Then every row of a table has values of the columns' types, nulls only where they are
  allowed, and is stored under its primary key; a value in a referencing column is the key of a row of the
  referenced table; and no other row has the same value in a unique column.\<close>

theorem sql_constraints_hold:
  assumes "storage_engine E einv view (\<lambda>_ _. True)" and "bincode_ok B" and "sb_ok S"
    and "mvcc_reachable E B (\<lambda>_ _. True) einv view (e, txns)" and "st \<in> txns" and "\<And>k. txn_get E B st k e = (Ok None, e)"
    and "list_all plain_write ws" and "for_each (run_write (kv_transaction X (mvcc_kv E B st) S)) ws e = (Ok (), e')"
    and "kv_read_table (mvcc_kv E B st) S n e' = (Ok (Some T), e')" and "kv_read (mvcc_kv E B st) S n k e' = (Ok (Some row), e')"
  shows "row_ok T row \<and> get_row_key T row = Ok k \<and>
    (\<forall>i < length (ta_columns T). row ! i \<noteq> Null \<longrightarrow>
      (\<forall>m. co_references (ta_columns T ! i) = Some m \<longrightarrow> (\<exists>row'. kv_read (mvcc_kv E B st) S m (row ! i) e' = (Ok (Some row'), e'))) \<and>
      (co_unique (ta_columns T ! i) \<longrightarrow>
        (\<forall>k' row'. kv_read (mvcc_kv E B st) S n k' e' = (Ok (Some row'), e') \<longrightarrow> row' ! i = row ! i \<longrightarrow> k' = k)))"
proof -
  note K = mvcc_sql_store [OF assms(1-3), of st]
  obtain D where D: "db_state (txn_open E B einv view st) (txn_view B view st) S e' D" "db_ok D"
    using sql_store.writes_keep [OF K open_empty [OF assms(1,2,4-6)] db_ok_empty assms(7,8)] by blast
  note read = sql_store.read_run [OF K D(1)]
  have T: "d_tables D n = Some T" using sql_store.read_table_run [OF K D(1), of n] assms(9) by simp
  have row: "d_rows D (n, k) = Some row" using read [of n k] assms(10) by simp
  show ?thesis
  proof (intro conjI allI impI)
    show "row_ok T row" "get_row_key T row = Ok k" using rows_okD [OF D(2) row] T by auto
    fix i
    assume i: "i < length (ta_columns T)" "row ! i \<noteq> Null"
    show "\<exists>row'. kv_read (mvcc_kv E B st) S m (row ! i) e' = (Ok (Some row'), e')" if "co_references (ta_columns T ! i) = Some m" for m
      using refs_okD [OF D(2) T i(1) that row] i(2) read by auto
    show "k' = k" if "co_unique (ta_columns T ! i)" "kv_read (mvcc_kv E B st) S n k' e' = (Ok (Some row'), e')" "row' ! i = row ! i" for k' row'
      using unique_okD [OF D(2) T i(1) that(1) row, of k' row'] that(2,3) i(2) read by simp
  qed
qed

theorem sql_constraints_hold_witness:
  "\<forall>X. \<exists>e e' row'. for_each (run_write (kv_transaction X demo_kv counted_bincode)) people_writes e = (Ok (), e') \<and>
     kv_read demo_kv counted_bincode [112] (Integer 2) e' = (Ok (Some [Integer 2, Integer 1, Integer 5]), e') \<and>
     kv_read demo_kv counted_bincode [112] (Integer 1) e' = (Ok (Some row'), e')"
proof
  fix X
  obtain e e' where r: "mem_reachable (e, {demo_st1})" "\<And>k. txn_get memory_engine fixed_bincode demo_st1 k e = (Ok None, e)"
    and run: "for_each (run_write (kv_transaction X demo_kv counted_bincode)) people_writes e = (Ok (), e')"
    and rd: "kv_read_table demo_kv counted_bincode [112] e' = (Ok (Some people), e')"
      "kv_read demo_kv counted_bincode [112] (Integer 2) e' = (Ok (Some [Integer 2, Integer 1, Integer 5]), e')"
    using demo_people [of X] by metis
  have "\<exists>row'. kv_read demo_kv counted_bincode [112] ([Integer 2, Integer 1, Integer 5] ! 1) e' = (Ok (Some row'), e')"
    by (rule sql_constraints_hold [OF mem_contract counted_bincode_ok r(1) insertI1 r(2) people_plain run rd,
          THEN conjunct2, THEN conjunct2, THEN spec, THEN mp, THEN mp, THEN conjunct1, THEN spec, THEN mp])
       (simp_all add: people_def)
  then obtain row' where "kv_read demo_kv counted_bincode [112] (Integer 1) e' = (Ok (Some row'), e')" by auto
  with run rd(2) show "\<exists>e e' row'. for_each (run_write (kv_transaction X demo_kv counted_bincode)) people_writes e = (Ok (), e') \<and>
     kv_read demo_kv counted_bincode [112] (Integer 2) e' = (Ok (Some [Integer 2, Integer 1, Integer 5]), e') \<and>
     kv_read demo_kv counted_bincode [112] (Integer 1) e' = (Ok (Some row'), e')"
    by blast
qed

section \<open>A statement that fails halfway\<close>

text \<open>An update that changes the tag of the first row and gives it a boss that does not exist.\<close>

lemma bad_update_run:
  assumes M: "sql_store K ok view S" and total: "\<And>e k b. ok e \<Longrightarrow> \<exists>e'. kt_set K k b e = (Ok (), e')"
    and D: "db_state ok view S e D" "d_tables D [112] = Some people"
      "d_rows D = [([112], Integer 1) \<mapsto> [Integer 1, Null, Integer 5], ([112], Integer 2) \<mapsto> [Integer 2, Integer 1, Integer 5]]"
      "d_index D ([112], [116], Integer 5) = {Integer 1, Integer 2}"
  shows "\<exists>e' D'. kv_update X K S [112] (Integer 1) [Integer 1, Integer 9, Integer 7] e =
      (Err (Value ''Referenced primary key {} in table {} does not exist''), e') \<and> db_state ok view S e' D' \<and>
    d_tables D' = d_tables D \<and> d_rows D' = d_rows D \<and> Integer 1 \<in> d_index D' ([112], [116], Integer 7)"
proof -
  let ?c = "ta_columns people ! 2"
  have c: "indexed_columns people = [(2, ?c)]" "co_name ?c = [116]" "ta_name people = [112]" by (simp_all add: indexed_columns_def people_def)
  have key: "get_row_key people [Integer 1, Integer 9, Integer 7] = Ok (Integer 1)" by (simp add: get_row_key_def ok_or_def people_def)
  obtain ks where ks: "index_load K S [112] [116] (Integer 5) e = (Ok ks, e)" "set ks = {Integer 1, Integer 2}"
    using sql_store.index_load_run [OF M D(1)] D(4) by metis
  let ?ks = "filter (\<lambda>k. \<not> same_value (Integer 1) k) ks"
  have "Integer 2 \<in> set ?ks" using ks(2) by (simp add: exact_same exact_def)
  then have "?ks \<noteq> []" by (metis empty_iff list.set(1))
  moreover obtain b where "sb_ser_keys S ?ks = Ok b" using sql_store.bincode_law [OF M] unfolding sb_ok_def by metis
  ultimately obtain e1 where e1: "index_remove K S people (Integer 1) ?c (Integer 5) e = (Ok (), e1)"
    using ks(1) total [OF sql_store.stateD(1) [OF M D(1)]] Integer_hashable [of 1]
    by (simp add: index_remove_def bind_op_def hash_all_def index_save_def c del: skey_bytes.simps) metis
  note D1 = sql_store.index_remove_run [OF M D(1) e1 exact_same, simplified exact_def sql_value.case, OF TrueI]
  obtain e2 where e2: "index_insert K S people (Integer 1) ?c (Integer 7) e1 = (Ok (), e2)"
    using sql_store.index_insert_total [OF M total D1 Integer_hashable] by blast
  note D2 = sql_store.index_insert_run [OF M D1 e2]
  have "validate_row (kv_read K S) (kv_scan X K S) people [Integer 1, Integer 9, Integer 7] e2 =
      (Err (Value ''Referenced primary key {} in table {} does not exist''), e2)"
    by (simp add: validate_row_def validate_value_def people_def bind_op_def get_row_key_def ok_or_def
        sql_store.read_run [OF M D2] D(3))
  then have "kv_update X K S [112] (Integer 1) [Integer 1, Integer 9, Integer 7] e =
      (Err (Value ''Referenced primary key {} in table {} does not exist''), e2)"
    using sql_store.must_read_run [OF M D(1), of "[112]"] sql_store.read_run [OF M D(1)] key D(2,3) e1 e2 c
    by (simp add: kv_update_def bind_op_def update_index_def value_at_def)
  with D2 show ?thesis by (auto simp: c)
qed

text \<open>A failed update can leave an index wrong.  An update changes the indexes before it validates the row;
  when validation fails, here because a reference has no row, the row stays as it was, but the index has it
  under its new value.  In an explicit transaction, that goes on after an error, this can be committed.\<close>

lemma failed_update_breaks_index:
  "\<forall>X. \<exists>e e' e'' ks. for_each (run_write (kv_transaction X demo_kv counted_bincode)) people_writes e = (Ok (), e') \<and>
     kv_update X demo_kv counted_bincode [112] (Integer 1) [Integer 1, Integer 9, Integer 7] e' =
       (Err (Value ''Referenced primary key {} in table {} does not exist''), e'') \<and>
     kv_read demo_kv counted_bincode [112] (Integer 1) e'' = (Ok (Some [Integer 1, Null, Integer 5]), e'') \<and>
     kv_read_index demo_kv counted_bincode [112] [116] (Integer 7) e'' = (Ok ks, e'') \<and> Integer 1 \<in> set ks"
proof
  fix X
  obtain e e' D' where run: "for_each (run_write (kv_transaction X demo_kv counted_bincode)) people_writes e = (Ok (), e')"
    and D': "db_state solo demo_view counted_bincode e' D'" "d_tables D' [112] = Some people"
      "d_rows D' = [([112], Integer 1) \<mapsto> [Integer 1, Null, Integer 5], ([112], Integer 2) \<mapsto> [Integer 2, Integer 1, Integer 5]]"
      "d_index D' ([112], [116], Integer 5) = {Integer 1, Integer 2}"
    using demo_people [of X] by metis
  from bad_update_run [OF solo_store solo_total D', of X] obtain e'' D'' where
      upd: "kv_update X demo_kv counted_bincode [112] (Integer 1) [Integer 1, Integer 9, Integer 7] e' =
        (Err (Value ''Referenced primary key {} in table {} does not exist''), e'')"
      and D'': "db_state solo demo_view counted_bincode e'' D''" "d_tables D'' = d_tables D'" "d_rows D'' = d_rows D'"
        "Integer 1 \<in> d_index D'' ([112], [116], Integer 7)" by blast
  obtain ks where "index_load demo_kv counted_bincode [112] [116] (Integer 7) e'' = (Ok ks, e'')" "Integer 1 \<in> set ks"
    using sql_store.index_load_run [OF solo_store D''(1)] D''(4) by metis
  moreover have "kv_read_index demo_kv counted_bincode [112] [116] (Integer 7) e'' = index_load demo_kv counted_bincode [112] [116] (Integer 7) e''"
    using sql_store.must_read_run [OF solo_store D''(1), of "[112]"] D''(2) D'(2)
    by (simp add: kv_read_index_def bind_op_def get_column_def ok_or_def people_def)
  moreover have "kv_read demo_kv counted_bincode [112] (Integer 1) e'' = (Ok (Some [Integer 1, Null, Integer 5]), e'')"
    using sql_store.read_run [OF solo_store D''(1)] D''(3) D'(3) by simp
  ultimately show "\<exists>e e' e'' ks. for_each (run_write (kv_transaction X demo_kv counted_bincode)) people_writes e = (Ok (), e') \<and>
     kv_update X demo_kv counted_bincode [112] (Integer 1) [Integer 1, Integer 9, Integer 7] e' =
       (Err (Value ''Referenced primary key {} in table {} does not exist''), e'') \<and>
     kv_read demo_kv counted_bincode [112] (Integer 1) e'' = (Ok (Some [Integer 1, Null, Integer 5]), e'') \<and>
     kv_read_index demo_kv counted_bincode [112] [116] (Integer 7) e'' = (Ok ks, e'') \<and> Integer 1 \<in> set ks"
    using run upd by (metis (no_types))
qed

end
