(* ===== verification/Sql_Database.thy ===== *)
theory Sql_Database
  imports Sql_Optimizer Sql_Mvcc
begin

text \<open>
  The executor on the key/value engine: its scans depend on a filter only through what the filter
  evaluates to, so plans can be rewritten as in \<open>filtered_scans\<close>.
\<close>

lemma kv_scan_filter:
  assumes "\<And>row. evaluate X row f' = evaluate X row f"
  shows "tx_scan (kv_transaction X K S) t (Some f') = tx_scan (kv_transaction X K S) t (Some f)"
proof -
  have "filter_row X f' = filter_row X f" using assms by (simp add: filter_row_def [abs_def])
  then have "scan_filter X (Some f') = scan_filter X (Some f)" by (simp add: scan_filter_def [abs_def])
  then show ?thesis by (simp add: kv_transaction_def kv_scan_def)
qed

interpretation kv_scans: filtered_scans V "kv_transaction (ex_sql V) K S" for V K S
  by unfold_locales (rule kv_scan_filter)

end
