(* ===== verification/Sql_Lexer.thy ===== *)
theory Sql_Lexer
  imports Sql_Types
begin

text \<open>
  The SQL lexer: \<^verbatim>\<open>src/src/sql/parser/lexer.rs\<close>.  The input is the list of its characters, Unicode scalar values;
  the text of a token is a string, that is its UTF-8 bytes.  The character classes and the case
  conversion of Unicode are tables of the standard library and passed in, as is the conversion of decimal
  notation to floats; nothing that is proved assumes anything of them.
\<close>

unbundle bit_operations_syntax

section \<open>Characters\<close>

type_synonym uchar = "32 word"

definition chars :: "string \<Rightarrow> uchar list" where
  "chars s = map of_char s"

definition utf8 :: "uchar \<Rightarrow> bytes" where
  "utf8 c = (if c < 0x80 then [ucast c]
     else if c < 0x800 then [0xC0 OR ucast (drop_bit 6 c), 0x80 OR (ucast c AND 0x3F)]
     else if c < 0x10000 then [0xE0 OR ucast (drop_bit 12 c), 0x80 OR (ucast (drop_bit 6 c) AND 0x3F), 0x80 OR (ucast c AND 0x3F)]
     else [0xF0 OR ucast (drop_bit 18 c), 0x80 OR (ucast (drop_bit 12 c) AND 0x3F), 0x80 OR (ucast (drop_bit 6 c) AND 0x3F),
       0x80 OR (ucast c AND 0x3F)])"

definition string_of :: "uchar list \<Rightarrow> bytes" where
  "string_of cs = concat (map utf8 cs)"

record text_env =
  uc_whitespace :: "uchar \<Rightarrow> bool"
  uc_alphabetic :: "uchar \<Rightarrow> bool"
  uc_alphanumeric :: "uchar \<Rightarrow> bool"
  uc_upper :: "uchar list \<Rightarrow> uchar list"
  uc_lower :: "uchar list \<Rightarrow> uchar list"
  parse_f64 :: "bytes \<Rightarrow> u64 option"

definition is_ascii_digit :: "uchar \<Rightarrow> bool" where
  "is_ascii_digit c \<longleftrightarrow> 48 \<le> c \<and> c \<le> 57"

section \<open>Tokens\<close>

datatype (plugins only: code) keyword =
    KwAnd | KwAs | KwAsc | KwBegin | KwBool | KwBoolean | KwBy | KwChar | KwCommit | KwCreate | KwCross | KwDefault
  | KwDelete | KwDesc | KwDouble | KwDrop | KwExists | KwExplain | KwFalse | KwFloat | KwFrom | KwGroup | KwHaving | KwIf
  | KwIndex | KwInfinity | KwInner | KwInsert | KwInt | KwInteger | KwInto | KwIs | KwJoin | KwKey | KwLeft | KwLike
  | KwLimit | KwNaN | KwNot | KwNull | KwOf | KwOffset | KwOn | KwOnly | KwOr | KwOrder | KwOuter | KwPrimary
  | KwRead | KwReferences | KwRight | KwRollback | KwSelect | KwSet | KwString | KwSystem | KwTable | KwText | KwTime
  | KwTransaction | KwTrue | KwUnique | KwUpdate | KwValues | KwVarchar | KwWhere | KwWrite

datatype token =
    TkNumber bytes
  | TkString bytes
  | TkIdent bytes
  | TkKeyword keyword
  | TkPeriod
  | TkEqual
  | TkGreaterThan
  | TkGreaterThanOrEqual
  | TkLessThan
  | TkLessThanOrEqual
  | TkLessOrGreaterThan
  | TkPlus
  | TkMinus
  | TkAsterisk
  | TkSlash
  | TkCaret
  | TkPercent
  | TkExclamation
  | TkNotEqual
  | TkQuestion
  | TkOpenParen
  | TkCloseParen
  | TkComma
  | TkSemicolon

definition keyword_table :: "(string \<times> keyword) list" where
  "keyword_table = [
     (''AS'', KwAs), (''ASC'', KwAsc), (''AND'', KwAnd), (''BEGIN'', KwBegin), (''BOOL'', KwBool), (''BOOLEAN'', KwBoolean),
     (''BY'', KwBy), (''CHAR'', KwChar), (''COMMIT'', KwCommit), (''CREATE'', KwCreate), (''CROSS'', KwCross),
     (''DEFAULT'', KwDefault), (''DELETE'', KwDelete), (''DESC'', KwDesc), (''DOUBLE'', KwDouble), (''DROP'', KwDrop),
     (''EXISTS'', KwExists), (''EXPLAIN'', KwExplain), (''FALSE'', KwFalse), (''FLOAT'', KwFloat), (''FROM'', KwFrom),
     (''GROUP'', KwGroup), (''HAVING'', KwHaving), (''IF'', KwIf), (''INDEX'', KwIndex), (''INFINITY'', KwInfinity),
     (''INNER'', KwInner), (''INSERT'', KwInsert), (''INT'', KwInt), (''INTEGER'', KwInteger), (''INTO'', KwInto),
     (''IS'', KwIs), (''JOIN'', KwJoin), (''KEY'', KwKey), (''LEFT'', KwLeft), (''LIKE'', KwLike), (''LIMIT'', KwLimit),
     (''NAN'', KwNaN), (''NOT'', KwNot), (''NULL'', KwNull), (''OF'', KwOf), (''OFFSET'', KwOffset), (''ON'', KwOn),
     (''ONLY'', KwOnly), (''OR'', KwOr), (''ORDER'', KwOrder), (''OUTER'', KwOuter), (''PRIMARY'', KwPrimary),
     (''READ'', KwRead), (''REFERENCES'', KwReferences), (''RIGHT'', KwRight), (''ROLLBACK'', KwRollback),
     (''SELECT'', KwSelect), (''SET'', KwSet), (''STRING'', KwString), (''SYSTEM'', KwSystem), (''TABLE'', KwTable),
     (''TEXT'', KwText), (''TIME'', KwTime), (''TRANSACTION'', KwTransaction), (''TRUE'', KwTrue), (''UNIQUE'', KwUnique),
     (''UPDATE'', KwUpdate), (''VALUES'', KwValues), (''VARCHAR'', KwVarchar), (''WHERE'', KwWhere), (''WRITE'', KwWrite)]"

definition keyword_from_str :: "text_env \<Rightarrow> uchar list \<Rightarrow> keyword option" where
  "keyword_from_str U ident = map_of (map (\<lambda>(s, k). (chars s, k)) keyword_table) (uc_upper U ident)"

primrec keyword_to_str :: "keyword \<Rightarrow> string" where
  "keyword_to_str KwAs = ''AS''"
| "keyword_to_str KwAsc = ''ASC''"
| "keyword_to_str KwAnd = ''AND''"
| "keyword_to_str KwBegin = ''BEGIN''"
| "keyword_to_str KwBool = ''BOOL''"
| "keyword_to_str KwBoolean = ''BOOLEAN''"
| "keyword_to_str KwBy = ''BY''"
| "keyword_to_str KwChar = ''CHAR''"
| "keyword_to_str KwCommit = ''COMMIT''"
| "keyword_to_str KwCreate = ''CREATE''"
| "keyword_to_str KwCross = ''CROSS''"
| "keyword_to_str KwDefault = ''DEFAULT''"
| "keyword_to_str KwDelete = ''DELETE''"
| "keyword_to_str KwDesc = ''DESC''"
| "keyword_to_str KwDouble = ''DOUBLE''"
| "keyword_to_str KwDrop = ''DROP''"
| "keyword_to_str KwExists = ''EXISTS''"
| "keyword_to_str KwExplain = ''EXPLAIN''"
| "keyword_to_str KwFalse = ''FALSE''"
| "keyword_to_str KwFloat = ''FLOAT''"
| "keyword_to_str KwFrom = ''FROM''"
| "keyword_to_str KwGroup = ''GROUP''"
| "keyword_to_str KwHaving = ''HAVING''"
| "keyword_to_str KwIf = ''IF''"
| "keyword_to_str KwIndex = ''INDEX''"
| "keyword_to_str KwInfinity = ''INFINITY''"
| "keyword_to_str KwInner = ''INNER''"
| "keyword_to_str KwInsert = ''INSERT''"
| "keyword_to_str KwInt = ''INT''"
| "keyword_to_str KwInteger = ''INTEGER''"
| "keyword_to_str KwInto = ''INTO''"
| "keyword_to_str KwIs = ''IS''"
| "keyword_to_str KwJoin = ''JOIN''"
| "keyword_to_str KwKey = ''KEY''"
| "keyword_to_str KwLeft = ''LEFT''"
| "keyword_to_str KwLike = ''LIKE''"
| "keyword_to_str KwLimit = ''LIMIT''"
| "keyword_to_str KwNaN = ''NAN''"
| "keyword_to_str KwNot = ''NOT''"
| "keyword_to_str KwNull = ''NULL''"
| "keyword_to_str KwOf = ''OF''"
| "keyword_to_str KwOffset = ''OFFSET''"
| "keyword_to_str KwOn = ''ON''"
| "keyword_to_str KwOnly = ''ONLY''"
| "keyword_to_str KwOuter = ''OUTER''"
| "keyword_to_str KwOr = ''OR''"
| "keyword_to_str KwOrder = ''ORDER''"
| "keyword_to_str KwPrimary = ''PRIMARY''"
| "keyword_to_str KwRead = ''READ''"
| "keyword_to_str KwReferences = ''REFERENCES''"
| "keyword_to_str KwRight = ''RIGHT''"
| "keyword_to_str KwRollback = ''ROLLBACK''"
| "keyword_to_str KwSelect = ''SELECT''"
| "keyword_to_str KwSet = ''SET''"
| "keyword_to_str KwString = ''STRING''"
| "keyword_to_str KwSystem = ''SYSTEM''"
| "keyword_to_str KwTable = ''TABLE''"
| "keyword_to_str KwText = ''TEXT''"
| "keyword_to_str KwTime = ''TIME''"
| "keyword_to_str KwTransaction = ''TRANSACTION''"
| "keyword_to_str KwTrue = ''TRUE''"
| "keyword_to_str KwUnique = ''UNIQUE''"
| "keyword_to_str KwUpdate = ''UPDATE''"
| "keyword_to_str KwValues = ''VALUES''"
| "keyword_to_str KwVarchar = ''VARCHAR''"
| "keyword_to_str KwWhere = ''WHERE''"
| "keyword_to_str KwWrite = ''WRITE''"

primrec show_token :: "token \<Rightarrow> bytes" where
  "show_token (TkNumber n) = n"
| "show_token (TkString s) = s"
| "show_token (TkIdent s) = s"
| "show_token (TkKeyword k) = string_of (chars (keyword_to_str k))"
| "show_token TkPeriod = string_of (chars ''.'')"
| "show_token TkEqual = string_of (chars ''='')"
| "show_token TkGreaterThan = string_of (chars ''>'')"
| "show_token TkGreaterThanOrEqual = string_of (chars ''>='')"
| "show_token TkLessThan = string_of (chars ''<'')"
| "show_token TkLessThanOrEqual = string_of (chars ''<='')"
| "show_token TkLessOrGreaterThan = string_of (chars ''<>'')"
| "show_token TkPlus = string_of (chars ''+'')"
| "show_token TkMinus = string_of (chars ''-'')"
| "show_token TkAsterisk = string_of (chars ''*'')"
| "show_token TkSlash = string_of (chars ''/'')"
| "show_token TkCaret = string_of (chars ''^'')"
| "show_token TkPercent = string_of (chars ''%'')"
| "show_token TkExclamation = string_of (chars ''!'')"
| "show_token TkNotEqual = string_of (chars ''!='')"
| "show_token TkQuestion = string_of (chars ''?'')"
| "show_token TkOpenParen = string_of (chars ''('')"
| "show_token TkCloseParen = string_of (chars '')'')"
| "show_token TkComma = string_of (chars '','')"
| "show_token TkSemicolon = string_of (chars '';'')"

section \<open>Scanning\<close>

fun next_char_if :: "(uchar \<Rightarrow> bool) \<Rightarrow> uchar list \<Rightarrow> uchar option \<times> uchar list" where
  "next_char_if p [] = (None, [])"
| "next_char_if p (c # cs) = (if p c then (Some c, cs) else (None, c # cs))"

fun next_char_if_token :: "(uchar \<Rightarrow> token option) \<Rightarrow> uchar list \<Rightarrow> token option \<times> uchar list" where
  "next_char_if_token f [] = (None, [])"
| "next_char_if_token f (c # cs) = (case f c of Some t \<Rightarrow> (Some t, cs) | None \<Rightarrow> (None, c # cs))"

text \<open>The loop of characters that are pushed to a string.\<close>

fun push_while :: "(uchar \<Rightarrow> bool) \<Rightarrow> uchar list \<Rightarrow> uchar list \<times> uchar list" where
  "push_while p [] = ([], [])"
| "push_while p (c # cs) = (if p c then (case push_while p cs of (s, cs') \<Rightarrow> (c # s, cs')) else ([], c # cs))"

definition next_while :: "(uchar \<Rightarrow> bool) \<Rightarrow> uchar list \<Rightarrow> uchar list option \<times> uchar list" where
  "next_while p cs = (case push_while p cs of (s, cs') \<Rightarrow> (if s = [] then None else Some s, cs'))"

definition consume_whitespace :: "text_env \<Rightarrow> uchar list \<Rightarrow> uchar list" where
  "consume_whitespace U cs = snd (next_while (uc_whitespace U) cs)"

definition scan_ident :: "text_env \<Rightarrow> uchar list \<Rightarrow> token option \<times> uchar list" where
  "scan_ident U cs = (case next_char_if (uc_alphabetic U) cs of
      (None, cs1) \<Rightarrow> (None, cs1)
    | (Some c, cs1) \<Rightarrow> (case push_while (\<lambda>c. uc_alphanumeric U c \<or> c = 95) cs1 of (s, cs2) \<Rightarrow>
        (case keyword_from_str U (c # s) of
            Some k \<Rightarrow> (Some (TkKeyword k), cs2)
          | None \<Rightarrow> (Some (TkIdent (string_of (uc_lower U (c # s)))), cs2))))"

text \<open>The loop to the closing quote, where a doubled quote stands for one.\<close>

fun quoted :: "uchar \<Rightarrow> string \<Rightarrow> uchar list \<Rightarrow> uchar list result \<times> uchar list" where
  "quoted q msg [] = (Err (Parse msg), [])"
| "quoted q msg (c # cs) = (if c = q
     then (case next_char_if (\<lambda>c. c = q) cs of
         (Some _, cs') \<Rightarrow> (case quoted q msg (tl cs) of (r, cs'') \<Rightarrow> (map_result (\<lambda>s. q # s) r, cs''))
       | (None, cs') \<Rightarrow> (Ok [], cs'))
     else (case quoted q msg cs of (r, cs') \<Rightarrow> (map_result (\<lambda>s. c # s) r, cs')))"

definition scan_ident_quoted :: "uchar list \<Rightarrow> token option result \<times> uchar list" where
  "scan_ident_quoted cs = (case next_char_if (\<lambda>c. c = 34) cs of
      (None, cs1) \<Rightarrow> (Ok None, cs1)
    | (Some _, cs1) \<Rightarrow> (case quoted 34 ''Unexpected end of quoted identifier'' cs1 of
        (r, cs2) \<Rightarrow> (map_result (\<lambda>s. Some (TkIdent (string_of s))) r, cs2)))"

definition scan_number :: "uchar list \<Rightarrow> token option \<times> uchar list" where
  "scan_number cs = (case next_while is_ascii_digit cs of
      (None, cs1) \<Rightarrow> (None, cs1)
    | (Some num, cs1) \<Rightarrow>
        (case (case next_char_if (\<lambda>c. c = 46) cs1 of
            (None, cs2) \<Rightarrow> (num, cs2)
          | (Some sep, cs2) \<Rightarrow> (case push_while is_ascii_digit cs2 of (ds, cs3) \<Rightarrow> (num @ sep # ds, cs3))) of
          (num, cs4) \<Rightarrow>
        (case next_char_if (\<lambda>c. c = 101 \<or> c = 69) cs4 of
            (None, cs5) \<Rightarrow> (Some (TkNumber (string_of num)), cs5)
          | (Some e, cs5) \<Rightarrow> (case next_char_if (\<lambda>c. c = 43 \<or> c = 45) cs5 of
              (sign, cs6) \<Rightarrow> (case push_while is_ascii_digit cs6 of
                (ds, cs7) \<Rightarrow> (Some (TkNumber (string_of (num @ e # (case sign of None \<Rightarrow> [] | Some s \<Rightarrow> [s]) @ ds))), cs7))))))"

definition scan_string :: "uchar list \<Rightarrow> token option result \<times> uchar list" where
  "scan_string cs = (case next_char_if (\<lambda>c. c = 39) cs of
      (None, cs1) \<Rightarrow> (Ok None, cs1)
    | (Some _, cs1) \<Rightarrow> (case quoted 39 ''Unexpected end of string literal'' cs1 of
        (r, cs2) \<Rightarrow> (map_result (\<lambda>s. Some (TkString (string_of s))) r, cs2)))"

definition symbol_token :: "uchar \<Rightarrow> token option" where
  "symbol_token c = map_of [(46, TkPeriod), (61, TkEqual), (62, TkGreaterThan), (60, TkLessThan), (43, TkPlus), (45, TkMinus),
     (42, TkAsterisk), (47, TkSlash), (94, TkCaret), (37, TkPercent), (33, TkExclamation), (63, TkQuestion),
     (40, TkOpenParen), (41, TkCloseParen), (44, TkComma), (59, TkSemicolon)] c"

definition scan_symbol :: "uchar list \<Rightarrow> token option \<times> uchar list" where
  "scan_symbol cs = (case next_char_if_token symbol_token cs of
      (None, cs1) \<Rightarrow> (None, cs1)
    | (Some TkExclamation, cs1) \<Rightarrow> (case next_char_if (\<lambda>c. c = 61) cs1 of
          (Some _, cs2) \<Rightarrow> (Some TkNotEqual, cs2)
        | (None, cs2) \<Rightarrow> (Some TkExclamation, cs2))
    | (Some TkLessThan, cs1) \<Rightarrow> (case next_char_if (\<lambda>c. c = 62) cs1 of
          (Some _, cs2) \<Rightarrow> (Some TkLessOrGreaterThan, cs2)
        | (None, cs2) \<Rightarrow> (case next_char_if (\<lambda>c. c = 61) cs2 of
            (Some _, cs3) \<Rightarrow> (Some TkLessThanOrEqual, cs3)
          | (None, cs3) \<Rightarrow> (Some TkLessThan, cs3)))
    | (Some TkGreaterThan, cs1) \<Rightarrow> (case next_char_if (\<lambda>c. c = 61) cs1 of
          (Some _, cs2) \<Rightarrow> (Some TkGreaterThanOrEqual, cs2)
        | (None, cs2) \<Rightarrow> (Some TkGreaterThan, cs2))
    | (Some t, cs1) \<Rightarrow> (Some t, cs1))"

definition scan :: "text_env \<Rightarrow> uchar list \<Rightarrow> token option result \<times> uchar list" where
  "scan U cs = (let cs1 = consume_whitespace U cs in case cs1 of
      [] \<Rightarrow> (Ok None, cs1)
    | c # _ \<Rightarrow>
        if c = 39 then scan_string cs1
        else if c = 34 then scan_ident_quoted cs1
        else if is_ascii_digit c then (case scan_number cs1 of (t, cs2) \<Rightarrow> (Ok t, cs2))
        else if uc_alphabetic U c then (case scan_ident U cs1 of (t, cs2) \<Rightarrow> (Ok t, cs2))
        else (case scan_symbol cs1 of (t, cs2) \<Rightarrow> (Ok t, cs2)))"

definition lexer_next :: "text_env \<Rightarrow> uchar list \<Rightarrow> token result option \<times> uchar list" where
  "lexer_next U cs = (case scan U cs of
      (Ok (Some t), cs1) \<Rightarrow> (Some (Ok t), cs1)
    | (Ok None, cs1) \<Rightarrow> ((case cs1 of [] \<Rightarrow> None | _ # _ \<Rightarrow> Some (Err (Parse ''Unexpected character {}''))), cs1)
    | (Err e, cs1) \<Rightarrow> (Some (Err e), cs1)
    | (Panic p, cs1) \<Rightarrow> (Some (Panic p), cs1))"

end
