(* ===== verification/Sql_Ast.thy ===== *)
theory Sql_Ast
  imports Sql_Types
begin

text \<open>
  The syntax tree of SQL statements: \<^verbatim>\<open>src/src/sql/parser/ast.rs\<close>.  A map from columns to expressions is the list of
  its entries in the order of the columns.
\<close>

datatype literal =
    L_Null
  | L_Boolean bool
  | L_Integer u64
  | L_Float u64
  | L_String bytes

datatype expression =
    E_Field "bytes option" bytes
  | E_Column nat
  | E_Literal literal
  | E_Function bytes "expression list"
  | E_Operation operation
and operation =
    O_And expression expression
  | O_Not expression
  | O_Or expression expression
  | O_Equal expression expression
  | O_GreaterThan expression expression
  | O_GreaterThanOrEqual expression expression
  | O_IsNull expression
  | O_LessThan expression expression
  | O_LessThanOrEqual expression expression
  | O_NotEqual expression expression
  | O_Add expression expression
  | O_Assert expression
  | O_Divide expression expression
  | O_Exponentiate expression expression
  | O_Factorial expression
  | O_Modulo expression expression
  | O_Multiply expression expression
  | O_Negate expression
  | O_Subtract expression expression
  | O_Like expression expression

datatype sort_order = Ascending | Descending

datatype join_kind = J_Cross | J_Inner | J_Left | J_Right

datatype from_item =
    From_Table bytes "bytes option"
  | From_Join from_item from_item join_kind "expression option"

record ast_column =
  ac_name :: bytes
  ac_datatype :: data_type
  ac_primary_key :: bool
  ac_nullable :: "bool option"
  ac_default :: "expression option"
  ac_unique :: bool
  ac_index :: bool
  ac_references :: "bytes option"

record select_stmt =
  sel_select :: "(expression \<times> bytes option) list"
  sel_from :: "from_item list"
  sel_where :: "expression option"
  sel_group_by :: "expression list"
  sel_having :: "expression option"
  sel_order :: "(expression \<times> sort_order) list"
  sel_offset :: "expression option"
  sel_limit :: "expression option"

datatype statement =
    St_Begin bool "u64 option"
  | St_Commit
  | St_Rollback
  | St_Explain statement
  | St_CreateTable bytes "ast_column list"
  | St_DropTable bytes bool
  | St_Delete bytes "expression option"
  | St_Insert bytes "bytes list option" "expression list list"
  | St_Update bytes "(bytes \<times> expression) list" "expression option"
  | St_Select select_stmt

text \<open>The operands of an operation.\<close>

fun operands :: "operation \<Rightarrow> expression list" where
  "operands (O_And l r) = [l, r]"
| "operands (O_Not e) = [e]"
| "operands (O_Or l r) = [l, r]"
| "operands (O_Equal l r) = [l, r]"
| "operands (O_GreaterThan l r) = [l, r]"
| "operands (O_GreaterThanOrEqual l r) = [l, r]"
| "operands (O_IsNull e) = [e]"
| "operands (O_LessThan l r) = [l, r]"
| "operands (O_LessThanOrEqual l r) = [l, r]"
| "operands (O_NotEqual l r) = [l, r]"
| "operands (O_Add l r) = [l, r]"
| "operands (O_Assert e) = [e]"
| "operands (O_Divide l r) = [l, r]"
| "operands (O_Exponentiate l r) = [l, r]"
| "operands (O_Factorial e) = [e]"
| "operands (O_Modulo l r) = [l, r]"
| "operands (O_Multiply l r) = [l, r]"
| "operands (O_Negate e) = [e]"
| "operands (O_Subtract l r) = [l, r]"
| "operands (O_Like l r) = [l, r]"

lemma operands_size [termination_simp]: "e \<in> set (operands oper) \<Longrightarrow> size e < Suc (size oper)"
  by (cases oper) auto

fun expression_walk :: "(expression \<Rightarrow> bool) \<Rightarrow> expression \<Rightarrow> bool" where
  "expression_walk visitor (E_Operation oper) \<longleftrightarrow> visitor (E_Operation oper) \<and> (\<forall>e \<in> set (operands oper). expression_walk visitor e)"
| "expression_walk visitor (E_Function f es) \<longleftrightarrow> visitor (E_Function f es) \<and> (\<forall>e \<in> set es. expression_walk visitor e)"
| "expression_walk visitor e \<longleftrightarrow> visitor e"

definition expression_contains :: "(expression \<Rightarrow> bool) \<Rightarrow> expression \<Rightarrow> bool" where
  "expression_contains visitor e \<longleftrightarrow> \<not> expression_walk (\<lambda>e. \<not> visitor e) e"

end
