(* ===== verification/Sql_Parser.thy ===== *)
theory Sql_Parser
  imports Sql_Lexer Sql_Ast Ordered_Map
begin

text \<open>
  The SQL parser: \<^verbatim>\<open>src/src/sql/parser/mod.rs\<close>.  Its state is the lexer behind a peeking iterator: the item that was peeked
  and the characters that are left.  Every loop and recursion of the parser takes fuel; \<open>parse\<close> gives as much as the input
  has characters and a little more, which is shown to be enough.
\<close>

section \<open>Tokens\<close>

record parser =
  pa_peeked :: "token result option option"
  pa_chars :: "uchar list"

definition parser_new :: "uchar list \<Rightarrow> parser" where
  "parser_new query = \<lparr>pa_peeked = None, pa_chars = query\<rparr>"

definition token_next :: "text_env \<Rightarrow> parser \<Rightarrow> token result option \<times> parser" where
  "token_next U p = (case pa_peeked p of
      Some item \<Rightarrow> (item, p\<lparr>pa_peeked := None\<rparr>)
    | None \<Rightarrow> (case lexer_next U (pa_chars p) of (item, cs) \<Rightarrow> (item, p\<lparr>pa_chars := cs\<rparr>)))"

definition token_peek :: "text_env \<Rightarrow> parser \<Rightarrow> token result option \<times> parser" where
  "token_peek U p = (case pa_peeked p of
      Some item \<Rightarrow> (item, p)
    | None \<Rightarrow> (case lexer_next U (pa_chars p) of (item, cs) \<Rightarrow> (item, p\<lparr>pa_peeked := Some item, pa_chars := cs\<rparr>)))"

definition parser_next :: "text_env \<Rightarrow> (parser, token) op" where
  "parser_next U p = (case token_next U p of
      (None, p') \<Rightarrow> (Err (Parse ''Unexpected end of input''), p')
    | (Some r, p') \<Rightarrow> (r, p'))"

definition parser_peek :: "text_env \<Rightarrow> (parser, token option) op" where
  "parser_peek U p = (case token_peek U p of
      (None, p') \<Rightarrow> (Ok None, p')
    | (Some r, p') \<Rightarrow> (map_result Some r, p'))"

definition next_expect :: "text_env \<Rightarrow> token option \<Rightarrow> (parser, token option) op" where
  "next_expect U expect = (case expect of
      Some t \<Rightarrow> bind_op (parser_next U) (\<lambda>token.
        if token = t then return_op (Some token) else lift_op (Err (Parse ''Expected token {}, found {}'')))
    | None \<Rightarrow> bind_op (parser_peek U) (\<lambda>found. case found of
        Some token \<Rightarrow> lift_op (Err (Parse ''Unexpected token {}''))
      | None \<Rightarrow> return_op None))"

definition next_ident :: "text_env \<Rightarrow> (parser, bytes) op" where
  "next_ident U = bind_op (parser_next U) (\<lambda>token. case token of
      TkIdent ident \<Rightarrow> return_op ident
    | _ \<Rightarrow> lift_op (Err (Parse ''Expected identifier, got {}'')))"

text \<open>The peeked token if there is one and no error.\<close>

definition peek_or_none :: "text_env \<Rightarrow> (parser, token option) op" where
  "peek_or_none U p = (case parser_peek U p of (Err _, p') \<Rightarrow> (Ok None, p') | (r, p') \<Rightarrow> (r, p'))"

definition next_if :: "text_env \<Rightarrow> (token \<Rightarrow> bool) \<Rightarrow> (parser, token option) op" where
  "next_if U predicate = bind_op (peek_or_none U) (\<lambda>found. case found of
      None \<Rightarrow> return_op None
    | Some t \<Rightarrow> if predicate t
        then (\<lambda>p. case parser_next U p of
            (Ok t, p') \<Rightarrow> (Ok (Some t), p') | (Err _, p') \<Rightarrow> (Ok None, p') | (Panic m, p') \<Rightarrow> (Panic m, p'))
        else return_op None)"

definition next_if_keyword :: "text_env \<Rightarrow> (parser, token option) op" where
  "next_if_keyword U = next_if U (\<lambda>t. case t of TkKeyword _ \<Rightarrow> True | _ \<Rightarrow> False)"

definition next_if_token :: "text_env \<Rightarrow> token \<Rightarrow> (parser, token option) op" where
  "next_if_token U token = next_if U (\<lambda>t. t = token)"

section \<open>Operators\<close>

datatype prefix_operator = Prefix_Minus | Prefix_Not | Prefix_Plus

primrec prefix_build :: "prefix_operator \<Rightarrow> expression \<Rightarrow> expression" where
  "prefix_build Prefix_Plus rhs = E_Operation (O_Assert rhs)"
| "prefix_build Prefix_Minus rhs = E_Operation (O_Negate rhs)"
| "prefix_build Prefix_Not rhs = E_Operation (O_Not rhs)"

definition prefix_from :: "token \<Rightarrow> prefix_operator option" where
  "prefix_from token = (if token = TkKeyword KwNot then Some Prefix_Not
     else if token = TkMinus then Some Prefix_Minus else if token = TkPlus then Some Prefix_Plus else None)"

definition prefix_assoc :: nat where
  "prefix_assoc = 0"

definition prefix_prec :: nat where
  "prefix_prec = 9"

datatype infix_operator =
    Infix_Add | Infix_And | Infix_Divide | Infix_Equal | Infix_Exponentiate | Infix_GreaterThan | Infix_GreaterThanOrEqual
  | Infix_LessThan | Infix_LessThanOrEqual | Infix_Like | Infix_Modulo | Infix_Multiply | Infix_NotEqual | Infix_Or | Infix_Subtract

primrec infix_build :: "infix_operator \<Rightarrow> expression \<Rightarrow> expression \<Rightarrow> expression" where
  "infix_build Infix_Add l r = E_Operation (O_Add l r)"
| "infix_build Infix_And l r = E_Operation (O_And l r)"
| "infix_build Infix_Divide l r = E_Operation (O_Divide l r)"
| "infix_build Infix_Equal l r = E_Operation (O_Equal l r)"
| "infix_build Infix_Exponentiate l r = E_Operation (O_Exponentiate l r)"
| "infix_build Infix_GreaterThan l r = E_Operation (O_GreaterThan l r)"
| "infix_build Infix_GreaterThanOrEqual l r = E_Operation (O_GreaterThanOrEqual l r)"
| "infix_build Infix_LessThan l r = E_Operation (O_LessThan l r)"
| "infix_build Infix_LessThanOrEqual l r = E_Operation (O_LessThanOrEqual l r)"
| "infix_build Infix_Like l r = E_Operation (O_Like l r)"
| "infix_build Infix_Modulo l r = E_Operation (O_Modulo l r)"
| "infix_build Infix_Multiply l r = E_Operation (O_Multiply l r)"
| "infix_build Infix_NotEqual l r = E_Operation (O_NotEqual l r)"
| "infix_build Infix_Or l r = E_Operation (O_Or l r)"
| "infix_build Infix_Subtract l r = E_Operation (O_Subtract l r)"

definition infix_from :: "token \<Rightarrow> infix_operator option" where
  "infix_from token = (case token of
      TkAsterisk \<Rightarrow> Some Infix_Multiply
    | TkCaret \<Rightarrow> Some Infix_Exponentiate
    | TkEqual \<Rightarrow> Some Infix_Equal
    | TkGreaterThan \<Rightarrow> Some Infix_GreaterThan
    | TkGreaterThanOrEqual \<Rightarrow> Some Infix_GreaterThanOrEqual
    | TkKeyword k \<Rightarrow> if k = KwAnd then Some Infix_And else if k = KwLike then Some Infix_Like else if k = KwOr then Some Infix_Or else None
    | TkLessOrGreaterThan \<Rightarrow> Some Infix_NotEqual
    | TkLessThan \<Rightarrow> Some Infix_LessThan
    | TkLessThanOrEqual \<Rightarrow> Some Infix_LessThanOrEqual
    | TkMinus \<Rightarrow> Some Infix_Subtract
    | TkNotEqual \<Rightarrow> Some Infix_NotEqual
    | TkPercent \<Rightarrow> Some Infix_Modulo
    | TkPlus \<Rightarrow> Some Infix_Add
    | TkSlash \<Rightarrow> Some Infix_Divide
    | _ \<Rightarrow> None)"

fun infix_assoc :: "infix_operator \<Rightarrow> nat" where
  "infix_assoc Infix_Exponentiate = 0"
| "infix_assoc _ = 1"

primrec infix_prec :: "infix_operator \<Rightarrow> nat" where
  "infix_prec Infix_Or = 1"
| "infix_prec Infix_And = 2"
| "infix_prec Infix_Equal = 3"
| "infix_prec Infix_NotEqual = 3"
| "infix_prec Infix_Like = 3"
| "infix_prec Infix_GreaterThan = 4"
| "infix_prec Infix_GreaterThanOrEqual = 4"
| "infix_prec Infix_LessThan = 4"
| "infix_prec Infix_LessThanOrEqual = 4"
| "infix_prec Infix_Add = 5"
| "infix_prec Infix_Subtract = 5"
| "infix_prec Infix_Multiply = 6"
| "infix_prec Infix_Divide = 6"
| "infix_prec Infix_Modulo = 6"
| "infix_prec Infix_Exponentiate = 7"

datatype postfix_operator = Postfix_Factorial | Postfix_IsNull bool

fun postfix_build :: "postfix_operator \<Rightarrow> expression \<Rightarrow> expression" where
  "postfix_build (Postfix_IsNull True) lhs = E_Operation (O_Not (E_Operation (O_IsNull lhs)))"
| "postfix_build (Postfix_IsNull False) lhs = E_Operation (O_IsNull lhs)"
| "postfix_build Postfix_Factorial lhs = E_Operation (O_Factorial lhs)"

definition postfix_from :: "token \<Rightarrow> postfix_operator option" where
  "postfix_from token = (if token = TkExclamation then Some Postfix_Factorial
     else if token = TkKeyword KwIs then Some (Postfix_IsNull False) else None)"

definition postfix_augment :: "text_env \<Rightarrow> postfix_operator \<Rightarrow> (parser, postfix_operator) op" where
  "postfix_augment U oper = (case oper of
      Postfix_IsNull neg \<Rightarrow> bind_op (next_if_token U (TkKeyword KwNot)) (\<lambda>found.
        bind_op (next_expect U (Some (TkKeyword KwNull))) (\<lambda>_. return_op (Postfix_IsNull (if found \<noteq> None then True else neg))))
    | _ \<Rightarrow> return_op oper)"

definition postfix_prec :: nat where
  "postfix_prec = 8"

definition next_if_operator :: "text_env \<Rightarrow> (token \<Rightarrow> 'o option) \<Rightarrow> ('o \<Rightarrow> nat) \<Rightarrow> ('o \<Rightarrow> (parser, 'o) op) \<Rightarrow> nat \<Rightarrow> (parser, 'o option) op" where
  "next_if_operator U of_token prec augment min_prec = bind_op (peek_or_none U) (\<lambda>found.
     case (case found of None \<Rightarrow> None | Some token \<Rightarrow> (case of_token token of
         None \<Rightarrow> None | Some oper \<Rightarrow> if min_prec \<le> prec oper then Some oper else None)) of
       None \<Rightarrow> return_op None
     | Some oper \<Rightarrow> bind_op (parser_next U) (\<lambda>_. bind_op (augment oper) (\<lambda>oper. return_op (Some oper))))"

definition next_prefix :: "text_env \<Rightarrow> nat \<Rightarrow> (parser, prefix_operator option) op" where
  "next_prefix U = next_if_operator U prefix_from (\<lambda>_. prefix_prec) return_op"

definition next_infix :: "text_env \<Rightarrow> nat \<Rightarrow> (parser, infix_operator option) op" where
  "next_infix U = next_if_operator U infix_from infix_prec return_op"

definition next_postfix :: "text_env \<Rightarrow> nat \<Rightarrow> (parser, postfix_operator option) op" where
  "next_postfix U = next_if_operator U postfix_from (\<lambda>_. postfix_prec) (postfix_augment U)"

section \<open>Numbers\<close>

text \<open>The integer parser of the standard library, on the text of a number token: at least one digit, nothing else, and
  below the limit.\<close>

definition is_digit_byte :: "u8 \<Rightarrow> bool" where
  "is_digit_byte b \<longleftrightarrow> 48 \<le> b \<and> b \<le> 57"

fun parse_digits :: "nat \<Rightarrow> nat \<Rightarrow> bytes \<Rightarrow> u64 result" where
  "parse_digits limit n [] = Ok (of_nat n)"
| "parse_digits limit n (d # ds) =
     (if \<not> is_digit_byte d then Err (Parse ''invalid digit found in string'')
      else let m = 10 * n + (unat d - 48) in
        if m < limit then parse_digits limit m ds else Err (Parse ''number too large to fit in target type''))"

definition parse_unsigned :: "nat \<Rightarrow> bytes \<Rightarrow> u64 result" where
  "parse_unsigned limit ds = (if ds = [] then Err (Parse ''cannot parse integer from empty string'') else parse_digits limit 0 ds)"

definition parse_u64 :: "bytes \<Rightarrow> u64 result" where
  "parse_u64 = parse_unsigned (2 ^ 64)"

definition parse_i64 :: "bytes \<Rightarrow> u64 result" where
  "parse_i64 = parse_unsigned (2 ^ 63)"

definition parse_float :: "text_env \<Rightarrow> bytes \<Rightarrow> u64 result" where
  "parse_float U n = (case parse_f64 U n of Some f \<Rightarrow> Ok f | None \<Rightarrow> Err (Parse ''invalid float literal''))"

section \<open>Expressions\<close>

definition out_of_fuel :: "('s, 'a) op" where
  "out_of_fuel = lift_op (Panic ''out of fuel'')"

definition number_literal :: "text_env \<Rightarrow> bytes \<Rightarrow> expression result" where
  "number_literal U n = (if list_all is_digit_byte n
     then map_result (\<lambda>i. E_Literal (L_Integer i)) (parse_i64 n)
     else map_result (\<lambda>f. E_Literal (L_Float f)) (parse_float U n))"

definition keyword_literal :: "keyword \<Rightarrow> expression result" where
  "keyword_literal k = (if k = KwFalse then Ok (E_Literal (L_Boolean False))
     else if k = KwInfinity then Ok (E_Literal (L_Float 0x7FF0000000000000))
     else if k = KwNaN then Ok (E_Literal (L_Float 0x7FF8000000000000))
     else if k = KwNull then Ok (E_Literal L_Null)
     else if k = KwTrue then Ok (E_Literal (L_Boolean True))
     else Err (Parse ''Expected expression atom, found {}''))"

definition count_name :: bytes where
  "count_name = string_of (chars ''count'')"

text \<open>The loops and the atom of an expression, on a parser \<open>rec\<close> for the expressions inside.\<close>

primrec parse_arguments :: "nat \<Rightarrow> (nat \<Rightarrow> (parser, expression) op) \<Rightarrow> text_env \<Rightarrow> bytes \<Rightarrow> expression list \<Rightarrow> (parser, expression list) op" where
  "parse_arguments 0 rec U i args = out_of_fuel"
| "parse_arguments (Suc n) rec U i args = bind_op (next_if_token U TkCloseParen) (\<lambda>found.
     if found \<noteq> None then return_op args
     else bind_op (if args \<noteq> [] then next_expect U (Some TkComma) else return_op None) (\<lambda>_.
       bind_op (if i = count_name then next_if_token U TkAsterisk else return_op None) (\<lambda>found.
       if found \<noteq> None then parse_arguments n rec U i (args @ [E_Literal (L_Boolean True)])
       else bind_op (rec 0) (\<lambda>e. parse_arguments n rec U i (args @ [e])))))"

definition parse_expression_atom :: "nat \<Rightarrow> (nat \<Rightarrow> (parser, expression) op) \<Rightarrow> text_env \<Rightarrow> (parser, expression) op" where
  "parse_expression_atom n rec U = bind_op (parser_next U) (\<lambda>token. case token of
      TkIdent i \<Rightarrow> bind_op (next_if_token U TkOpenParen) (\<lambda>found.
        if found \<noteq> None then bind_op (parse_arguments n rec U i []) (\<lambda>args. return_op (E_Function i args))
        else bind_op (next_if_token U TkPeriod) (\<lambda>found.
          if found \<noteq> None then bind_op (next_ident U) (\<lambda>field. return_op (E_Field (Some i) field))
          else return_op (E_Field None i)))
    | TkNumber num \<Rightarrow> lift_op (number_literal U num)
    | TkOpenParen \<Rightarrow> bind_op (rec 0) (\<lambda>e. bind_op (next_expect U (Some TkCloseParen)) (\<lambda>_. return_op e))
    | TkString s \<Rightarrow> return_op (E_Literal (L_String s))
    | TkKeyword k \<Rightarrow> lift_op (keyword_literal k)
    | _ \<Rightarrow> lift_op (Err (Parse ''Expected expression atom, found {}'')))"

primrec postfix_loop :: "nat \<Rightarrow> text_env \<Rightarrow> nat \<Rightarrow> expression \<Rightarrow> (parser, expression) op" where
  "postfix_loop 0 U min_prec lhs = out_of_fuel"
| "postfix_loop (Suc n) U min_prec lhs = bind_op (next_postfix U min_prec) (\<lambda>found. case found of
      Some post \<Rightarrow> postfix_loop n U min_prec (postfix_build post lhs)
    | None \<Rightarrow> return_op lhs)"

primrec infix_loop :: "nat \<Rightarrow> (nat \<Rightarrow> (parser, expression) op) \<Rightarrow> text_env \<Rightarrow> nat \<Rightarrow> expression \<Rightarrow> (parser, expression) op" where
  "infix_loop 0 rec U min_prec lhs = out_of_fuel"
| "infix_loop (Suc n) rec U min_prec lhs = bind_op (next_infix U min_prec) (\<lambda>found. case found of
      Some oper \<Rightarrow> bind_op (rec (infix_prec oper + infix_assoc oper)) (\<lambda>rhs.
        infix_loop n rec U min_prec (infix_build oper lhs rhs))
    | None \<Rightarrow> return_op lhs)"

primrec parse_expression :: "nat \<Rightarrow> text_env \<Rightarrow> nat \<Rightarrow> (parser, expression) op" where
  "parse_expression 0 U min_prec = out_of_fuel"
| "parse_expression (Suc n) U min_prec =
     bind_op (bind_op (next_prefix U min_prec) (\<lambda>found. case found of
         Some pre \<Rightarrow> bind_op (parse_expression n U (prefix_prec + prefix_assoc)) (\<lambda>e. return_op (prefix_build pre e))
       | None \<Rightarrow> parse_expression_atom n (parse_expression n U) U)) (\<lambda>lhs.
     bind_op (postfix_loop n U min_prec lhs) (\<lambda>lhs.
     infix_loop n (parse_expression n U) U min_prec lhs))"

section \<open>Clauses\<close>

text \<open>In what follows \<open>ex\<close> parses an expression: it is \<open>parse_expression\<close> with the fuel of the whole input.\<close>

definition parse_clause_where :: "(parser, expression) op \<Rightarrow> text_env \<Rightarrow> (parser, expression option) op" where
  "parse_clause_where ex U = bind_op (next_if_token U (TkKeyword KwWhere)) (\<lambda>found.
     if found = None then return_op None else bind_op ex (\<lambda>e. return_op (Some e)))"

definition parse_clause_from_table :: "text_env \<Rightarrow> (parser, from_item) op" where
  "parse_clause_from_table U = bind_op (next_ident U) (\<lambda>name.
     bind_op (next_if_token U (TkKeyword KwAs)) (\<lambda>found.
     bind_op (if found \<noteq> None then bind_op (next_ident U) (\<lambda>a. return_op (Some a))
       else bind_op (parser_peek U) (\<lambda>token. case token of
           Some (TkIdent _) \<Rightarrow> bind_op (next_ident U) (\<lambda>a. return_op (Some a))
         | _ \<Rightarrow> return_op None)) (\<lambda>al.
     return_op (From_Table name al))))"

definition parse_clause_from_item :: "text_env \<Rightarrow> (parser, from_item) op" where
  "parse_clause_from_item U = parse_clause_from_table U"

definition parse_clause_from_jointype :: "text_env \<Rightarrow> (parser, join_kind option) op" where
  "parse_clause_from_jointype U =
     bind_op (next_if_token U (TkKeyword KwCross)) (\<lambda>found. if found \<noteq> None
       then bind_op (next_expect U (Some (TkKeyword KwJoin))) (\<lambda>_. return_op (Some J_Cross))
     else bind_op (next_if_token U (TkKeyword KwInner)) (\<lambda>found. if found \<noteq> None
       then bind_op (next_expect U (Some (TkKeyword KwJoin))) (\<lambda>_. return_op (Some J_Inner))
     else bind_op (next_if_token U (TkKeyword KwJoin)) (\<lambda>found. if found \<noteq> None
       then return_op (Some J_Inner)
     else bind_op (next_if_token U (TkKeyword KwLeft)) (\<lambda>found. if found \<noteq> None
       then bind_op (next_if_token U (TkKeyword KwOuter)) (\<lambda>_.
         bind_op (next_expect U (Some (TkKeyword KwJoin))) (\<lambda>_. return_op (Some J_Left)))
     else bind_op (next_if_token U (TkKeyword KwRight)) (\<lambda>found. if found \<noteq> None
       then bind_op (next_if_token U (TkKeyword KwOuter)) (\<lambda>_.
         bind_op (next_expect U (Some (TkKeyword KwJoin))) (\<lambda>_. return_op (Some J_Right)))
     else return_op None)))))"

primrec join_loop :: "nat \<Rightarrow> (parser, expression) op \<Rightarrow> text_env \<Rightarrow> from_item \<Rightarrow> (parser, from_item) op" where
  "join_loop 0 ex U item = out_of_fuel"
| "join_loop (Suc n) ex U item = bind_op (parse_clause_from_jointype U) (\<lambda>jointype. case jointype of
      None \<Rightarrow> return_op item
    | Some jt \<Rightarrow> bind_op (parse_clause_from_item U) (\<lambda>right.
        bind_op (case jt of
            J_Cross \<Rightarrow> return_op None
          | _ \<Rightarrow> bind_op (next_expect U (Some (TkKeyword KwOn))) (\<lambda>_. bind_op ex (\<lambda>e. return_op (Some e)))) (\<lambda>predicate.
        join_loop n ex U (From_Join item right jt predicate))))"

primrec from_loop :: "nat \<Rightarrow> (parser, expression) op \<Rightarrow> text_env \<Rightarrow> from_item list \<Rightarrow> (parser, from_item list) op" where
  "from_loop 0 ex U items = out_of_fuel"
| "from_loop (Suc n) ex U items = bind_op (parse_clause_from_item U) (\<lambda>item.
     bind_op (join_loop n ex U item) (\<lambda>item.
     bind_op (next_if_token U TkComma) (\<lambda>found.
     if found = None then return_op (items @ [item]) else from_loop n ex U (items @ [item]))))"

definition parse_clause_from :: "nat \<Rightarrow> (parser, expression) op \<Rightarrow> text_env \<Rightarrow> (parser, from_item list) op" where
  "parse_clause_from n ex U = bind_op (next_if_token U (TkKeyword KwFrom)) (\<lambda>found.
     if found = None then return_op [] else from_loop n ex U [])"

primrec group_loop :: "nat \<Rightarrow> (parser, expression) op \<Rightarrow> text_env \<Rightarrow> expression list \<Rightarrow> (parser, expression list) op" where
  "group_loop 0 ex U exprs = out_of_fuel"
| "group_loop (Suc n) ex U exprs = bind_op ex (\<lambda>e. bind_op (next_if_token U TkComma) (\<lambda>found.
     if found = None then return_op (exprs @ [e]) else group_loop n ex U (exprs @ [e])))"

definition parse_clause_group_by :: "nat \<Rightarrow> (parser, expression) op \<Rightarrow> text_env \<Rightarrow> (parser, expression list) op" where
  "parse_clause_group_by n ex U = bind_op (next_if_token U (TkKeyword KwGroup)) (\<lambda>found.
     if found = None then return_op []
     else bind_op (next_expect U (Some (TkKeyword KwBy))) (\<lambda>_. group_loop n ex U []))"

definition parse_clause_having :: "(parser, expression) op \<Rightarrow> text_env \<Rightarrow> (parser, expression option) op" where
  "parse_clause_having ex U = bind_op (next_if_token U (TkKeyword KwHaving)) (\<lambda>found.
     if found = None then return_op None else bind_op ex (\<lambda>e. return_op (Some e)))"

primrec order_loop :: "nat \<Rightarrow> (parser, expression) op \<Rightarrow> text_env \<Rightarrow> (expression \<times> sort_order) list \<Rightarrow> (parser, (expression \<times> sort_order) list) op" where
  "order_loop 0 ex U orders = out_of_fuel"
| "order_loop (Suc n) ex U orders = bind_op ex (\<lambda>e.
     bind_op (bind_op (next_if_token U (TkKeyword KwAsc)) (\<lambda>found. if found \<noteq> None then return_op Ascending
       else bind_op (next_if_token U (TkKeyword KwDesc)) (\<lambda>found. return_op (if found \<noteq> None then Descending else Ascending)))) (\<lambda>dir.
     bind_op (next_if_token U TkComma) (\<lambda>found.
     if found = None then return_op (orders @ [(e, dir)]) else order_loop n ex U (orders @ [(e, dir)]))))"

definition parse_clause_order :: "nat \<Rightarrow> (parser, expression) op \<Rightarrow> text_env \<Rightarrow> (parser, (expression \<times> sort_order) list) op" where
  "parse_clause_order n ex U = bind_op (next_if_token U (TkKeyword KwOrder)) (\<lambda>found.
     if found = None then return_op []
     else bind_op (next_expect U (Some (TkKeyword KwBy))) (\<lambda>_. order_loop n ex U []))"

primrec select_loop :: "nat \<Rightarrow> (parser, expression) op \<Rightarrow> text_env \<Rightarrow> (expression \<times> bytes option) list \<Rightarrow> (parser, (expression \<times> bytes option) list) op" where
  "select_loop 0 ex U items = out_of_fuel"
| "select_loop (Suc n) ex U items = bind_op (next_if_token U TkAsterisk) (\<lambda>found.
     if found \<noteq> None \<and> items = [] then return_op items
     else bind_op ex (\<lambda>e.
       bind_op (bind_op (parser_peek U) (\<lambda>token. case token of
           Some (TkKeyword k) \<Rightarrow> if k = KwAs
             then bind_op (parser_next U) (\<lambda>_. bind_op (next_ident U) (\<lambda>label. return_op (Some label)))
             else return_op None
         | Some (TkIdent _) \<Rightarrow> bind_op (next_ident U) (\<lambda>label. return_op (Some label))
         | _ \<Rightarrow> return_op None)) (\<lambda>label.
       bind_op (next_if_token U TkComma) (\<lambda>found.
       if found = None then return_op (items @ [(e, label)]) else select_loop n ex U (items @ [(e, label)])))))"

definition parse_clause_select :: "nat \<Rightarrow> (parser, expression) op \<Rightarrow> text_env \<Rightarrow> (parser, (expression \<times> bytes option) list) op" where
  "parse_clause_select n ex U = bind_op (next_if_token U (TkKeyword KwSelect)) (\<lambda>found.
     if found = None then return_op [] else select_loop n ex U [])"

definition parse_optional :: "keyword \<Rightarrow> (parser, expression) op \<Rightarrow> text_env \<Rightarrow> (parser, expression option) op" where
  "parse_optional k ex U = bind_op (next_if_token U (TkKeyword k)) (\<lambda>found.
     if found \<noteq> None then bind_op ex (\<lambda>e. return_op (Some e)) else return_op None)"

section \<open>Statements\<close>

definition parse_datatype :: "token \<Rightarrow> data_type result" where
  "parse_datatype token = (case token of
      TkKeyword k \<Rightarrow>
        if k = KwBool \<or> k = KwBoolean then Ok T_Boolean
        else if k = KwChar \<or> k = KwString \<or> k = KwText \<or> k = KwVarchar then Ok T_String
        else if k = KwDouble \<or> k = KwFloat then Ok T_Float
        else if k = KwInt \<or> k = KwInteger then Ok T_Integer
        else Err (Parse ''Unexpected token {}'')
    | _ \<Rightarrow> Err (Parse ''Unexpected token {}''))"

definition parse_attribute :: "keyword \<Rightarrow> (parser, expression) op \<Rightarrow> text_env \<Rightarrow> ast_column \<Rightarrow> (parser, ast_column) op" where
  "parse_attribute k ex U col =
     (if k = KwPrimary then bind_op (next_expect U (Some (TkKeyword KwKey))) (\<lambda>_. return_op (col\<lparr>ac_primary_key := True\<rparr>))
      else if k = KwNull then
        (if ac_nullable col = Some False then lift_op (Err (Value ''Column {} can't be both not nullable and nullable''))
         else return_op (col\<lparr>ac_nullable := Some True\<rparr>))
      else if k = KwNot then bind_op (next_expect U (Some (TkKeyword KwNull))) (\<lambda>_.
         if ac_nullable col = Some True then lift_op (Err (Value ''Column {} can't be both not nullable and nullable''))
         else return_op (col\<lparr>ac_nullable := Some False\<rparr>))
      else if k = KwDefault then bind_op ex (\<lambda>e. return_op (col\<lparr>ac_default := Some e\<rparr>))
      else if k = KwUnique then return_op (col\<lparr>ac_unique := True\<rparr>)
      else if k = KwIndex then return_op (col\<lparr>ac_index := True\<rparr>)
      else if k = KwReferences then bind_op (next_ident U) (\<lambda>t. return_op (col\<lparr>ac_references := Some t\<rparr>))
      else lift_op (Err (Parse ''Unexpected keyword {}'')))"

primrec attribute_loop :: "nat \<Rightarrow> (parser, expression) op \<Rightarrow> text_env \<Rightarrow> ast_column \<Rightarrow> (parser, ast_column) op" where
  "attribute_loop 0 ex U col = out_of_fuel"
| "attribute_loop (Suc n) ex U col = bind_op (next_if_keyword U) (\<lambda>found. case found of
      Some (TkKeyword k) \<Rightarrow> bind_op (parse_attribute k ex U col) (\<lambda>col. attribute_loop n ex U col)
    | _ \<Rightarrow> return_op col)"

definition parse_ddl_columnspec :: "nat \<Rightarrow> (parser, expression) op \<Rightarrow> text_env \<Rightarrow> (parser, ast_column) op" where
  "parse_ddl_columnspec n ex U = bind_op (next_ident U) (\<lambda>name. bind_op (parser_next U) (\<lambda>token.
     bind_op (lift_op (parse_datatype token)) (\<lambda>datatype.
     attribute_loop n ex U \<lparr>ac_name = name, ac_datatype = datatype, ac_primary_key = False, ac_nullable = None, ac_default = None,
       ac_unique = False, ac_index = False, ac_references = None\<rparr>)))"

primrec column_loop :: "nat \<Rightarrow> (parser, expression) op \<Rightarrow> text_env \<Rightarrow> ast_column list \<Rightarrow> (parser, ast_column list) op" where
  "column_loop 0 ex U cols = out_of_fuel"
| "column_loop (Suc n) ex U cols = bind_op (parse_ddl_columnspec n ex U) (\<lambda>col. bind_op (next_if_token U TkComma) (\<lambda>found.
     if found = None then return_op (cols @ [col]) else column_loop n ex U (cols @ [col])))"

definition parse_ddl_create_table :: "nat \<Rightarrow> (parser, expression) op \<Rightarrow> text_env \<Rightarrow> (parser, statement) op" where
  "parse_ddl_create_table n ex U = bind_op (next_ident U) (\<lambda>name. bind_op (next_expect U (Some TkOpenParen)) (\<lambda>_.
     bind_op (column_loop n ex U []) (\<lambda>cols. bind_op (next_expect U (Some TkCloseParen)) (\<lambda>_.
     return_op (St_CreateTable name cols)))))"

definition parse_ddl_drop_table :: "text_env \<Rightarrow> (parser, statement) op" where
  "parse_ddl_drop_table U = bind_op (next_if_keyword U) (\<lambda>found.
     bind_op (if found = Some (TkKeyword KwIf) then bind_op (next_expect U (Some (TkKeyword KwExists))) (\<lambda>_. return_op True)
       else return_op False) (\<lambda>if_exists.
     bind_op (next_ident U) (\<lambda>name. return_op (St_DropTable name if_exists))))"

definition parse_ddl :: "nat \<Rightarrow> (parser, expression) op \<Rightarrow> text_env \<Rightarrow> (parser, statement) op" where
  "parse_ddl n ex U = bind_op (parser_next U) (\<lambda>token.
     if token = TkKeyword KwCreate then bind_op (parser_next U) (\<lambda>token.
       if token = TkKeyword KwTable then parse_ddl_create_table n ex U else lift_op (Err (Parse ''Unexpected token {}'')))
     else if token = TkKeyword KwDrop then bind_op (parser_next U) (\<lambda>token.
       if token = TkKeyword KwTable then parse_ddl_drop_table U else lift_op (Err (Parse ''Unexpected token {}'')))
     else lift_op (Err (Parse ''Unexpected token {}'')))"

definition parse_statement_delete :: "(parser, expression) op \<Rightarrow> text_env \<Rightarrow> (parser, statement) op" where
  "parse_statement_delete ex U = bind_op (next_expect U (Some (TkKeyword KwDelete))) (\<lambda>_.
     bind_op (next_expect U (Some (TkKeyword KwFrom))) (\<lambda>_. bind_op (next_ident U) (\<lambda>table.
     bind_op (parse_clause_where ex U) (\<lambda>cond. return_op (St_Delete table cond)))))"

primrec ident_loop :: "nat \<Rightarrow> text_env \<Rightarrow> bytes list \<Rightarrow> (parser, bytes list) op" where
  "ident_loop 0 U cols = out_of_fuel"
| "ident_loop (Suc n) U cols = bind_op (next_ident U) (\<lambda>col. bind_op (parser_next U) (\<lambda>token.
     if token = TkCloseParen then return_op (cols @ [col])
     else if token = TkComma then ident_loop n U (cols @ [col])
     else lift_op (Err (Parse ''Unexpected token {}''))))"

primrec exprs_loop :: "nat \<Rightarrow> (parser, expression) op \<Rightarrow> text_env \<Rightarrow> expression list \<Rightarrow> (parser, expression list) op" where
  "exprs_loop 0 ex U exprs = out_of_fuel"
| "exprs_loop (Suc n) ex U exprs = bind_op ex (\<lambda>e. bind_op (parser_next U) (\<lambda>token.
     if token = TkCloseParen then return_op (exprs @ [e])
     else if token = TkComma then exprs_loop n ex U (exprs @ [e])
     else lift_op (Err (Parse ''Unexpected token {}''))))"

primrec values_loop :: "nat \<Rightarrow> (parser, expression) op \<Rightarrow> text_env \<Rightarrow> expression list list \<Rightarrow> (parser, expression list list) op" where
  "values_loop 0 ex U rows = out_of_fuel"
| "values_loop (Suc n) ex U rows = bind_op (next_expect U (Some TkOpenParen)) (\<lambda>_. bind_op (exprs_loop n ex U []) (\<lambda>exprs.
     bind_op (next_if_token U TkComma) (\<lambda>found.
     if found = None then return_op (rows @ [exprs]) else values_loop n ex U (rows @ [exprs]))))"

definition parse_statement_insert :: "nat \<Rightarrow> (parser, expression) op \<Rightarrow> text_env \<Rightarrow> (parser, statement) op" where
  "parse_statement_insert n ex U = bind_op (next_expect U (Some (TkKeyword KwInsert))) (\<lambda>_.
     bind_op (next_expect U (Some (TkKeyword KwInto))) (\<lambda>_. bind_op (next_ident U) (\<lambda>table.
     bind_op (next_if_token U TkOpenParen) (\<lambda>found.
     bind_op (if found \<noteq> None then bind_op (ident_loop n U []) (\<lambda>cols. return_op (Some cols)) else return_op None) (\<lambda>cols.
     bind_op (next_expect U (Some (TkKeyword KwValues))) (\<lambda>_.
     bind_op (values_loop n ex U []) (\<lambda>rows. return_op (St_Insert table cols rows))))))))"

definition parse_statement_select :: "nat \<Rightarrow> (parser, expression) op \<Rightarrow> text_env \<Rightarrow> (parser, statement) op" where
  "parse_statement_select n ex U = bind_op (parse_clause_select n ex U) (\<lambda>sel. bind_op (parse_clause_from n ex U) (\<lambda>fr.
     bind_op (parse_clause_where ex U) (\<lambda>wh. bind_op (parse_clause_group_by n ex U) (\<lambda>gr.
     bind_op (parse_clause_having ex U) (\<lambda>hv. bind_op (parse_clause_order n ex U) (\<lambda>ord.
     bind_op (parse_optional KwLimit ex U) (\<lambda>lim. bind_op (parse_optional KwOffset ex U) (\<lambda>off.
     return_op (St_Select \<lparr>sel_select = sel, sel_from = fr, sel_where = wh, sel_group_by = gr, sel_having = hv, sel_order = ord,
       sel_offset = off, sel_limit = lim\<rparr>)))))))))"

primrec set_loop :: "nat \<Rightarrow> (parser, expression) op \<Rightarrow> text_env \<Rightarrow> (bytes \<times> expression) list \<Rightarrow> (parser, (bytes \<times> expression) list) op" where
  "set_loop 0 ex U acc = out_of_fuel"
| "set_loop (Suc n) ex U acc = bind_op (next_ident U) (\<lambda>col. bind_op (next_expect U (Some TkEqual)) (\<lambda>_. bind_op ex (\<lambda>e.
     if map_of acc col \<noteq> None then lift_op (Err (Value ''Duplicate values given for column {}''))
     else bind_op (next_if_token U TkComma) (\<lambda>found.
       if found = None then return_op (btree_insert col e acc) else set_loop n ex U (btree_insert col e acc)))))"

definition parse_statement_update :: "nat \<Rightarrow> (parser, expression) op \<Rightarrow> text_env \<Rightarrow> (parser, statement) op" where
  "parse_statement_update n ex U = bind_op (next_expect U (Some (TkKeyword KwUpdate))) (\<lambda>_. bind_op (next_ident U) (\<lambda>table.
     bind_op (next_expect U (Some (TkKeyword KwSet))) (\<lambda>_. bind_op (set_loop n ex U []) (\<lambda>acc.
     bind_op (parse_clause_where ex U) (\<lambda>cond. return_op (St_Update table acc cond))))))"

definition parse_mode :: "text_env \<Rightarrow> (parser, bool) op" where
  "parse_mode U = bind_op (next_if_token U (TkKeyword KwRead)) (\<lambda>found.
     if found = None then return_op False
     else bind_op (parser_next U) (\<lambda>token.
       if token = TkKeyword KwOnly then return_op True
       else if token = TkKeyword KwWrite then return_op False
       else lift_op (Err (Parse ''Unexpected token {}''))))"

definition parse_as_of :: "text_env \<Rightarrow> (parser, u64 option) op" where
  "parse_as_of U = bind_op (next_if_token U (TkKeyword KwAs)) (\<lambda>found.
     if found = None then return_op None
     else bind_op (next_expect U (Some (TkKeyword KwOf))) (\<lambda>_. bind_op (next_expect U (Some (TkKeyword KwSystem))) (\<lambda>_.
       bind_op (next_expect U (Some (TkKeyword KwTime))) (\<lambda>_. bind_op (parser_next U) (\<lambda>token. case token of
           TkNumber num \<Rightarrow> bind_op (lift_op (parse_u64 num)) (\<lambda>v. return_op (Some v))
         | _ \<Rightarrow> lift_op (Err (Parse ''Unexpected token {}, wanted number'')))))))"

definition parse_transaction :: "text_env \<Rightarrow> (parser, statement) op" where
  "parse_transaction U = bind_op (parser_next U) (\<lambda>token.
     if token = TkKeyword KwBegin then bind_op (next_if_token U (TkKeyword KwTransaction)) (\<lambda>_.
       bind_op (parse_mode U) (\<lambda>read_only. bind_op (parse_as_of U) (\<lambda>version. return_op (St_Begin read_only version))))
     else if token = TkKeyword KwCommit then return_op St_Commit
     else if token = TkKeyword KwRollback then return_op St_Rollback
     else lift_op (Err (Parse ''Unexpected token {}'')))"

definition parse_statement_explain :: "(parser, statement) op \<Rightarrow> text_env \<Rightarrow> (parser, statement) op" where
  "parse_statement_explain stmt U = bind_op (next_expect U (Some (TkKeyword KwExplain))) (\<lambda>_. bind_op (parser_peek U) (\<lambda>token.
     if token = Some (TkKeyword KwExplain) then lift_op (Err (Parse ''Cannot nest EXPLAIN statements''))
     else bind_op stmt (\<lambda>s. return_op (St_Explain s))))"

primrec parse_statement :: "nat \<Rightarrow> nat \<Rightarrow> text_env \<Rightarrow> (parser, statement) op" where
  "parse_statement 0 n U = out_of_fuel"
| "parse_statement (Suc d) n U = (let ex = parse_expression n U 0 in bind_op (parser_peek U) (\<lambda>found. case found of
      Some token \<Rightarrow>
        if token = TkKeyword KwBegin \<or> token = TkKeyword KwCommit \<or> token = TkKeyword KwRollback then parse_transaction U
        else if token = TkKeyword KwCreate \<or> token = TkKeyword KwDrop then parse_ddl n ex U
        else if token = TkKeyword KwDelete then parse_statement_delete ex U
        else if token = TkKeyword KwInsert then parse_statement_insert n ex U
        else if token = TkKeyword KwSelect then parse_statement_select n ex U
        else if token = TkKeyword KwUpdate then parse_statement_update n ex U
        else if token = TkKeyword KwExplain then parse_statement_explain (parse_statement d n U) U
        else lift_op (Err (Parse ''Unexpected token {}''))
    | None \<Rightarrow> lift_op (Err (Parse ''Unexpected end of input''))))"

definition parse_with :: "nat \<Rightarrow> text_env \<Rightarrow> (parser, statement) op" where
  "parse_with n U = bind_op (parse_statement n n U) (\<lambda>s. bind_op (next_if_token U TkSemicolon) (\<lambda>_.
     bind_op (next_expect U None) (\<lambda>_. return_op s)))"

definition parse :: "text_env \<Rightarrow> uchar list \<Rightarrow> statement result" where
  "parse U query = fst (parse_with (length query + 2) U (parser_new query))"

section \<open>Identifiers\<close>

text \<open>The regular expression \<^verbatim>\<open>^\w[\w_]*$\<close> is a parameter, as the other regular expressions are.\<close>

definition quote_ident :: "uchar list \<Rightarrow> uchar list" where
  "quote_ident ident = 34 # concat (map (\<lambda>c. if c = 34 then [34, 34] else [c]) ident) @ [34]"

definition format_ident :: "text_env \<Rightarrow> (uchar list \<Rightarrow> bool) \<Rightarrow> uchar list \<Rightarrow> uchar list" where
  "format_ident U re_ident ident = (if re_ident ident \<and> keyword_from_str U ident = None then ident else quote_ident ident)"

end
