(* ===== verification/Sql_Parser_Total.thy ===== *)
theory Sql_Parser_Total
  imports Sql_Parser
begin

text \<open>
  The parser ends.  Every step of it takes characters from the input, so fuel for as many steps as there are characters
  is enough for every loop and recursion: \<open>parse\<close> always gives a statement or an error.
\<close>

section \<open>The lexer takes characters\<close>

lemma push_while_eq: "push_while p cs = (takeWhile p cs, dropWhile p cs)"
  by (induction cs) auto

lemma next_while_eq: "next_while p cs = (if takeWhile p cs = [] then None else Some (takeWhile p cs), dropWhile p cs)"
  by (simp add: next_while_def push_while_eq)

lemma next_char_if_length:
  "length (snd (next_char_if p cs)) \<le> length cs"
  "next_char_if p cs = (Some c, cs') \<Longrightarrow> length cs' < length cs"
  by (cases cs; auto split: if_splits)+

lemma quoted_length: "quoted q msg cs = (r, cs') \<Longrightarrow> length cs' \<le> length cs \<and> (\<forall>p. r \<noteq> Panic p)"
proof (induction q msg cs arbitrary: r cs' rule: quoted.induct)
  case (2 q msg c cs)
  show ?case
  proof (cases "c = q")
    case False
    obtain r1 cs1 where r1: "quoted q msg cs = (r1, cs1)" by fastforce
    then show ?thesis using 2(2) [OF False r1] 2(3) False by (cases r1) auto
  next
    case c: True
    show ?thesis
    proof (cases "next_char_if (\<lambda>c. c = q) cs")
      case (Pair x cs1)
      show ?thesis
      proof (cases x)
        case None
        then show ?thesis using 2(3) c Pair next_char_if_length(1) [of "\<lambda>c. c = q" cs] by auto
      next
        case (Some d)
        obtain r1 cs2 where r1: "quoted q msg (tl cs) = (r1, cs2)" by fastforce
        then have "length cs2 \<le> length (tl cs) \<and> (\<forall>p. r1 \<noteq> Panic p)" using 2(1) [OF c Pair [symmetric] Some] r1 by blast
        then show ?thesis using 2(3) c Pair Some r1 by (cases r1) auto
      qed
    qed
  qed
qed auto

definition takes :: "uchar list \<Rightarrow> token option result \<times> uchar list \<Rightarrow> bool" where
  "takes cs x \<longleftrightarrow> (case x of (Ok (Some _), cs') \<Rightarrow> length cs' < length cs | (Panic _, _) \<Rightarrow> False | (_, cs') \<Rightarrow> length cs' \<le> length cs)"

lemma dropWhile_length: "length (dropWhile p cs) \<le> length cs"
  by (induction cs) auto

lemma quoted_takes: "takes (c # cs) (case quoted q msg cs of (r, cs2) \<Rightarrow> (map_result (\<lambda>s. Some (f s)) r, cs2))"
proof -
  obtain r cs2 where r: "quoted q msg cs = (r, cs2)" by fastforce
  with quoted_length [OF this] show ?thesis by (cases r) (simp_all add: takes_def)
qed

lemma scan_string_takes: "takes cs (scan_string cs)"
  using quoted_takes by (cases cs) (simp_all add: scan_string_def, simp_all add: takes_def)

lemma scan_ident_quoted_takes: "takes cs (scan_ident_quoted cs)"
  using quoted_takes by (cases cs) (simp_all add: scan_ident_quoted_def, simp_all add: takes_def)

lemma takesI:
  assumes "length (snd x) \<le> length cs" "fst x \<noteq> None \<Longrightarrow> length (snd x) < length cs"
  shows "takes cs (case x of (t, cs') \<Rightarrow> (Ok t, cs'))"
  using assms by (auto simp: takes_def split: prod.splits option.splits)

lemma scan_number_takes: "is_ascii_digit c \<Longrightarrow> takes (c # cs) (case scan_number (c # cs) of (t, cs') \<Rightarrow> (Ok t, cs'))"
proof (rule takesI)
  assume c: "is_ascii_digit c"
  obtain num cs1 where n: "next_while is_ascii_digit (c # cs) = (Some num, cs1)" "length cs1 \<le> length cs"
    using c dropWhile_length [of is_ascii_digit cs] by (auto simp: next_while_eq)
  obtain num2 cs4 where n2: "(case next_char_if (\<lambda>c. c = 46) cs1 of (None, cs2) \<Rightarrow> (num, cs2)
      | (Some sep, cs2) \<Rightarrow> (case push_while is_ascii_digit cs2 of (ds, cs3) \<Rightarrow> (num @ sep # ds, cs3))) = (num2, cs4)" by fastforce
  have "length cs4 \<le> length cs1"
    using n2 next_char_if_length [of "\<lambda>c. c = 46" cs1] dropWhile_length [of is_ascii_digit]
    by (auto simp: push_while_eq split: prod.splits option.splits) (meson le_trans less_imp_le_nat)+
  moreover have "length (snd (scan_number (c # cs))) \<le> length cs4"
  proof -
    obtain e cs5 where e: "next_char_if (\<lambda>c. c = 101 \<or> c = 69) cs4 = (e, cs5)" by fastforce
    have l5: "length cs5 \<le> length cs4" using next_char_if_length(1) [of "\<lambda>c. c = 101 \<or> c = 69" cs4] e by simp
    obtain sg cs6 where sg: "next_char_if (\<lambda>c. c = 43 \<or> c = 45) cs5 = (sg, cs6)" by fastforce
    have l6: "length cs6 \<le> length cs5" using next_char_if_length(1) [of "\<lambda>c. c = 43 \<or> c = 45" cs5] sg by simp
    show ?thesis
      using n(1) n2 e sg l5 l6 dropWhile_length [of is_ascii_digit cs6]
      by (simp add: scan_number_def push_while_eq split: option.splits)
  qed
  ultimately show "length (snd (scan_number (c # cs))) \<le> length (c # cs)" "length (snd (scan_number (c # cs))) < length (c # cs)"
    using n(2) by simp_all
qed

lemma scan_ident_takes: "takes cs (case scan_ident U cs of (t, cs') \<Rightarrow> (Ok t, cs'))"
proof (cases cs)
  case (Cons c r)
  have l: "length (dropWhile (\<lambda>c. uc_alphanumeric U c \<or> c = 95) r) \<le> length r" by (rule dropWhile_length)
  show ?thesis
  proof (rule takesI)
    show "length (snd (scan_ident U cs)) \<le> length cs"
      using l Cons by (simp add: scan_ident_def push_while_eq split: option.split)
    show "fst (scan_ident U cs) \<noteq> None \<Longrightarrow> length (snd (scan_ident U cs)) < length cs"
      using l Cons by (simp add: scan_ident_def push_while_eq less_Suc_eq_le split: option.split if_splits)
  qed
qed (simp add: scan_ident_def takes_def)

lemma scan_symbol_takes: "takes cs (case scan_symbol cs of (t, cs') \<Rightarrow> (Ok t, cs'))"
proof (cases "next_char_if_token symbol_token cs")
  case (Pair t cs1)
  show ?thesis
  proof (cases t)
    case None
    then have "scan_symbol cs = (None, cs)" using Pair by (cases cs) (auto simp: scan_symbol_def split: option.splits)
    then show ?thesis by (simp add: takes_def)
  next
    case (Some s)
    have l: "length cs1 < length cs" using Pair Some by (cases cs) (auto split: option.splits)
    have n: "length (snd (next_char_if p xs)) \<le> length xs" for p xs by (rule next_char_if_length(1))
    have "length (snd (scan_symbol cs)) \<le> length cs1"
    proof (cases "s = TkExclamation \<or> s = TkLessThan \<or> s = TkGreaterThan")
      case True
      then show ?thesis
        using Pair Some n [of "\<lambda>c. c = 61" cs1] n [of "\<lambda>c. c = 62" cs1] n [of "\<lambda>c. c = 61" "snd (next_char_if (\<lambda>c. c = 62) cs1)"]
        by (elim disjE) (simp_all add: scan_symbol_def split_beta split: option.split)
    next
      case False
      then show ?thesis using Pair Some by (cases s) (simp_all add: scan_symbol_def)
    qed
    then show ?thesis using l by (intro takesI) simp_all
  qed
qed

lemma scan_takes: "takes cs (scan U cs)"
proof -
  have w: "length (consume_whitespace U cs) \<le> length cs" by (simp add: consume_whitespace_def next_while_eq dropWhile_length)
  have mono: "takes (consume_whitespace U cs) x \<Longrightarrow> takes cs x" for x using w by (auto simp: takes_def split: prod.splits result.splits option.splits)
  show ?thesis
  proof (cases "consume_whitespace U cs")
    case Nil
    then show ?thesis by (simp add: scan_def takes_def)
  next
    case (Cons c r)
    then show ?thesis
      using mono scan_string_takes scan_ident_quoted_takes scan_number_takes scan_ident_takes scan_symbol_takes
      by (simp add: scan_def Let_def)
  qed
qed

lemma lexer_next_takes:
  assumes "lexer_next U cs = (item, cs')"
  shows "length cs' \<le> length cs" "item = Some (Ok t) \<Longrightarrow> length cs' < length cs" "item \<noteq> Some (Panic m)"
  using assms scan_takes [of cs U]
  by (auto simp: lexer_next_def takes_def split: prod.splits result.splits option.splits list.splits)

section \<open>The parser takes tokens\<close>

definition good :: "parser \<Rightarrow> bool" where
  "good p \<longleftrightarrow> (\<forall>m. pa_peeked p \<noteq> Some (Some (Panic m)))"

definition left :: "parser \<Rightarrow> nat" where
  "left p = length (pa_chars p) + (case pa_peeked p of Some (Some (Ok _)) \<Rightarrow> 1 | _ \<Rightarrow> 0)"

text \<open>An operation that, on at most \<open>n\<close> characters, does not panic, and where it succeeds has taken as many as its
  result says.\<close>

definition eats :: "nat \<Rightarrow> (parser, 'a) op \<Rightarrow> ('a \<Rightarrow> nat) \<Rightarrow> bool" where
  "eats n m k \<longleftrightarrow> (\<forall>p r p'. good p \<longrightarrow> left p \<le> n \<longrightarrow> m p = (r, p') \<longrightarrow>
     good p' \<and> (\<forall>s. r \<noteq> Panic s) \<and> left p' \<le> left p \<and> (\<forall>a. r = Ok a \<longrightarrow> left p' + k a \<le> left p))"

lemma eats_bind:
  assumes "eats n m k" "\<And>a. k a \<le> n \<Longrightarrow> eats (n - k a) (f a) (\<lambda>b. j b - k a)"
  shows "eats n (bind_op m f) j"
  unfolding eats_def
proof (intro allI impI)
  fix p r p'
  assume p: "good p" "left p \<le> n" and run: "bind_op m f p = (r, p')"
  obtain r1 p1 where m: "m p = (r1, p1)" by fastforce
  have p1: "good p1" "\<And>s. r1 \<noteq> Panic s" "left p1 \<le> left p" "\<And>a. r1 = Ok a \<Longrightarrow> left p1 + k a \<le> left p"
    using assms(1) p m unfolding eats_def by blast+
  show "good p' \<and> (\<forall>s. r \<noteq> Panic s) \<and> left p' \<le> left p \<and> (\<forall>a. r = Ok a \<longrightarrow> left p' + j a \<le> left p)"
  proof (cases r1)
    case (Ok a)
    have "f a p1 = (r, p')" using run m Ok by (simp add: bind_op_def)
    moreover have "left p1 \<le> n - k a" "k a \<le> n" using p1(4) [OF Ok] p(2) by linarith+
    ultimately have q: "good p'" "\<forall>s. r \<noteq> Panic s" "left p' \<le> left p1" "\<And>b. r = Ok b \<Longrightarrow> left p' + (j b - k a) \<le> left p1"
      using assms(2) [of a] p1(1) unfolding eats_def by blast+
    have "left p' + j b \<le> left p" if "r = Ok b" for b using q(4) [OF that] p1(4) [OF Ok] by linarith
    then show ?thesis using q p1(3) by auto
  qed (use run m p1 in \<open>auto simp: bind_op_def\<close>)
qed

lemma eats_mono:
  assumes "eats n m k" "n' \<le> n" "\<And>a. k' a \<le> k a"
  shows "eats n' m k'"
  unfolding eats_def
proof (intro allI impI)
  fix p r p'
  assume "good p" "left p \<le> n'" "m p = (r, p')"
  then have "good p'" "\<forall>s. r \<noteq> Panic s" "left p' \<le> left p" "\<And>a. r = Ok a \<Longrightarrow> left p' + k a \<le> left p"
    using assms(1,2) unfolding eats_def by (metis le_trans)+
  then show "good p' \<and> (\<forall>s. r \<noteq> Panic s) \<and> left p' \<le> left p \<and> (\<forall>a. r = Ok a \<longrightarrow> left p' + k' a \<le> left p)"
    using assms(3) by (metis add_le_mono le_refl le_trans)
qed

lemma eats_return [intro]: "k a = 0 \<Longrightarrow> eats n (return_op a) k"
  by (simp add: eats_def)

lemma eats_lift: "(\<And>s. r \<noteq> Panic s) \<Longrightarrow> (\<And>a. r = Ok a \<Longrightarrow> k a = 0) \<Longrightarrow> eats n (lift_op r) k"
  by (auto simp: eats_def)

lemma eats_Err [intro, simp]: "eats n (lift_op (Err e)) k"
  by (rule eats_lift) simp_all

lemma token_next_left:
  assumes "good p" "token_next U p = (item, p')"
  shows "good p' \<and> item \<noteq> Some (Panic m) \<and> left p' \<le> left p \<and> (\<forall>t. item = Some (Ok t) \<longrightarrow> left p' < left p)"
proof (cases "pa_peeked p")
  case None
  then obtain cs where "lexer_next U (pa_chars p) = (item, cs)" "p' = p\<lparr>pa_chars := cs\<rparr>"
    using assms(2) by (auto simp: token_next_def split: prod.splits)
  then show ?thesis using lexer_next_takes [of U "pa_chars p" item cs] assms(1) None by (auto simp: left_def good_def)
next
  case (Some x)
  then show ?thesis using assms by (auto simp: token_next_def left_def good_def split: option.splits result.splits)
qed

lemma token_peek_left:
  assumes "good p" "token_peek U p = (item, p')"
  shows "good p' \<and> item \<noteq> Some (Panic m) \<and> left p' \<le> left p"
proof (cases "pa_peeked p")
  case None
  then obtain cs where cs: "lexer_next U (pa_chars p) = (item, cs)" "p' = p\<lparr>pa_peeked := Some item, pa_chars := cs\<rparr>"
    using assms(2) by (auto simp: token_peek_def split: prod.splits)
  have "length cs + (case item of Some (Ok _) \<Rightarrow> 1 | _ \<Rightarrow> 0) \<le> length (pa_chars p)"
    using lexer_next_takes [OF cs(1)] by (auto split: option.split result.split simp: Suc_le_eq)
  moreover have "item \<noteq> Some (Panic m)" for m using lexer_next_takes(3) [OF cs(1)] .
  ultimately show ?thesis using cs(2) None by (auto simp: left_def good_def)
next
  case (Some x)
  then show ?thesis using assms by (auto simp: token_peek_def left_def good_def)
qed

lemma eats_next [intro]: "eats n (parser_next U) (\<lambda>_. Suc 0)"
proof -
  have "good p' \<and> (\<forall>s. r \<noteq> Panic s) \<and> left p' \<le> left p \<and> (\<forall>a. r = Ok a \<longrightarrow> left p' + Suc 0 \<le> left p)"
    if "good p" "parser_next U p = (r, p')" for p r p'
  proof -
    obtain item p1 where i: "token_next U p = (item, p1)" by fastforce
    with that(2) token_next_left [OF that(1) i] show ?thesis by (auto simp: parser_next_def split: option.splits)
  qed
  then show ?thesis by (auto simp: eats_def)
qed

lemma eats_peek [intro]: "eats n (parser_peek U) (\<lambda>_. 0)"
proof -
  have "good p' \<and> (\<forall>s. r \<noteq> Panic s) \<and> left p' \<le> left p" if "good p" "parser_peek U p = (r, p')" for p r p'
  proof -
    obtain item p1 where i: "token_peek U p = (item, p1)" by fastforce
    with that(2) token_peek_left [OF that(1) i] show ?thesis
      by (cases item; cases "the item") (auto simp: parser_peek_def)
  qed
  then show ?thesis by (auto simp: eats_def)
qed

lemma eats_peek_or_none: "eats n (peek_or_none U) (\<lambda>_. 0)"
proof -
  have "good p' \<and> (\<forall>s. r \<noteq> Panic s) \<and> left p' \<le> left p" if "good p" "peek_or_none U p = (r, p')" for p r p'
  proof -
    obtain r1 p1 where r1: "parser_peek U p = (r1, p1)" by fastforce
    have "good p1" "left p1 \<le> left p" "\<And>s. r1 \<noteq> Panic s"
      using eats_peek [of "left p" U] that(1) r1 unfolding eats_def by blast+
    then show ?thesis using that(2) r1 by (cases r1) (auto simp: peek_or_none_def)
  qed
  then show ?thesis by (auto simp: eats_def)
qed

section \<open>Rules\<close>

abbreviation (input) some_one :: "'a option \<Rightarrow> nat" where
  "some_one r \<equiv> (if r = None then 0 else Suc 0)"

lemma eats_bind0:
  assumes "eats n m (\<lambda>_. 0)" "\<And>a. eats n (f a) k"
  shows "eats n (bind_op m f) k"
  by (rule eats_bind [OF assms(1)]) (simp add: assms(2))

lemma eats_bind1:
  assumes "eats n m (\<lambda>_. Suc 0)" "\<And>a. 0 < n \<Longrightarrow> eats (n - Suc 0) (f a) (\<lambda>_. 0)"
  shows "eats n (bind_op m f) (\<lambda>_. Suc 0)"
  by (rule eats_bind [OF assms(1)]) (use assms(2) in simp)

lemma eats_weaken: "eats n m (\<lambda>_. Suc 0) \<Longrightarrow> eats n m (\<lambda>_. 0)"
  by (erule eats_mono) simp_all

lemma eats_bind1_0:
  assumes "eats n m (\<lambda>_. Suc 0)" "\<And>a. 0 < n \<Longrightarrow> eats (n - Suc 0) (f a) (\<lambda>_. 0)"
  shows "eats n (bind_op m f) (\<lambda>_. 0)"
  by (rule eats_weaken [OF eats_bind1 [OF assms]])

lemma eats_bind_opt:
  fixes m :: "(parser, 'a option) op"
  assumes "eats n m some_one" "eats n (f None) (\<lambda>_. 0)" "\<And>a. 0 < n \<Longrightarrow> eats (n - Suc 0) (f (Some a)) (\<lambda>_. 0)"
  shows "eats n (bind_op m f) (\<lambda>_. 0)"
proof (rule eats_bind [OF assms(1)])
  fix a :: "'a option"
  assume "some_one a \<le> n"
  then show "eats (n - some_one a) (f a) (\<lambda>b. 0 - some_one a)" using assms(2,3) by (cases a) simp_all
qed

lemma eats_bind_opt1:
  fixes m :: "(parser, 'a option) op"
  assumes "eats n m some_one" "eats n (f None) (\<lambda>_. Suc 0)" "\<And>a. 0 < n \<Longrightarrow> eats (n - Suc 0) (f (Some a)) (\<lambda>_. 0)"
  shows "eats n (bind_op m f) (\<lambda>_. Suc 0)"
proof (rule eats_bind [OF assms(1)])
  fix a :: "'a option"
  assume "some_one a \<le> n"
  then show "eats (n - some_one a) (f a) (\<lambda>b. Suc 0 - some_one a)" using assms(2,3) by (cases a) simp_all
qed

lemma eats_if: "(c \<Longrightarrow> eats n a k) \<Longrightarrow> (\<not> c \<Longrightarrow> eats n b k) \<Longrightarrow> eats n (if c then a else b) k"
  by simp

lemma eats_option: "eats n a k \<Longrightarrow> (\<And>x. eats n (f x) k) \<Longrightarrow> eats n (case r of None \<Rightarrow> a | Some x \<Rightarrow> f x) k"
  by (simp split: option.split)

lemma eats_less: "eats n m k \<Longrightarrow> eats (n - Suc 0) m k"
  by (erule eats_mono) simp_all

lemma eats_next_if: "eats n (next_if U P) some_one"
proof -
  have next1: "eats n (\<lambda>p. case parser_next U p of (Ok t, p') \<Rightarrow> (Ok (Some t), p') | (Err _, p') \<Rightarrow> (Ok None, p') | (Panic m, p') \<Rightarrow> (Panic m, p')) some_one" for n
  proof -
    have "good p' \<and> (\<forall>s. r \<noteq> Panic s) \<and> left p' \<le> left p \<and> (\<forall>a. r = Ok a \<longrightarrow> left p' + some_one a \<le> left p)"
      if "good p" "(case parser_next U p of (Ok t, p') \<Rightarrow> (Ok (Some t), p') | (Err _, p') \<Rightarrow> (Ok None, p') | (Panic m, p') \<Rightarrow> (Panic m, p')) = (r, p')" for p r p'
    proof -
      obtain r1 p1 where r1: "parser_next U p = (r1, p1)" by fastforce
      have "good p1" "left p1 \<le> left p" "\<And>s. r1 \<noteq> Panic s" "\<And>a. r1 = Ok a \<Longrightarrow> left p1 + Suc 0 \<le> left p"
        using eats_next [of "left p" U] that(1) r1 unfolding eats_def by blast+
      then show ?thesis using that(2) r1 by (cases r1) auto
    qed
    then show ?thesis by (auto simp: eats_def)
  qed
  show ?thesis
    unfolding next_if_def
    by (rule eats_bind0 [OF eats_peek_or_none]) (auto intro!: eats_option eats_if next1)
qed

lemma eats_next_if_token: "eats n (next_if_token U t) some_one"
  unfolding next_if_token_def by (rule eats_next_if)

lemma eats_next_if_keyword: "eats n (next_if_keyword U) some_one"
  unfolding next_if_keyword_def by (rule eats_next_if)

lemma eats_expect: "eats n (next_expect U (Some t)) (\<lambda>_. Suc 0)"
  unfolding next_expect_def by (simp, intro eats_bind1 eats_next eats_if) auto

lemma eats_expect_end: "eats n (next_expect U None) (\<lambda>_. 0)"
  unfolding next_expect_def by (simp, rule eats_bind0 [OF eats_peek]) (auto intro!: eats_option)

lemma eats_ident: "eats n (next_ident U) (\<lambda>_. Suc 0)"
  unfolding next_ident_def by (rule eats_bind1 [OF eats_next]) (auto split: token.split)

lemma eats_operator:
  assumes "\<And>oper. eats (n - Suc 0) (aug oper) (\<lambda>_. 0)"
  shows "eats n (next_if_operator U of_token prec aug m) some_one"
proof -
  have some: "eats n (bind_op (parser_next U) (\<lambda>_. bind_op (aug oper) (\<lambda>oper. return_op (Some oper)))) some_one" for oper
  proof (rule eats_bind [OF eats_next])
    fix t
    show "eats (n - Suc 0) (bind_op (aug oper) (\<lambda>oper. return_op (Some oper))) (\<lambda>b. some_one b - Suc 0)"
      by (rule eats_bind0 [OF assms]) auto
  qed
  show ?thesis
    unfolding next_if_operator_def by (rule eats_bind0 [OF eats_peek_or_none]) (auto intro!: eats_option some)
qed

lemma eats_augment: "eats n (postfix_augment U oper) (\<lambda>_. 0)"
proof -
  have "eats n (bind_op (next_if_token U (TkKeyword KwNot)) (\<lambda>found. bind_op (next_expect U (Some (TkKeyword KwNull)))
      (\<lambda>_. return_op (Postfix_IsNull (if found \<noteq> None then True else neg))))) (\<lambda>_. 0)" for n neg
    by (rule eats_bind_opt [OF eats_next_if_token]) (auto intro!: eats_bind1_0 [OF eats_expect])
  then show ?thesis by (auto simp: postfix_augment_def split: postfix_operator.split)
qed

lemma eats_operators: "eats n (next_prefix U m) some_one" "eats n (next_infix U m) some_one" "eats n (next_postfix U m) some_one"
  unfolding next_prefix_def next_infix_def next_postfix_def by (auto intro!: eats_operator eats_augment)

section \<open>Expressions\<close>

lemma eats_postfix_loop: "n < f \<Longrightarrow> eats n (postfix_loop f U m e) (\<lambda>_. 0)"
proof (induction f arbitrary: n e)
  case (Suc f)
  have more: "eats (n - Suc 0) (postfix_loop f U m e) (\<lambda>_. 0)" if "0 < n" for e using Suc that by simp
  show ?case
    unfolding postfix_loop.simps
  proof (rule eats_bind [OF eats_operators(3)])
    fix a :: "postfix_operator option"
    assume "some_one a \<le> n"
    then show "eats (n - some_one a) (case a of None \<Rightarrow> return_op e | Some post \<Rightarrow> postfix_loop f U m (postfix_build post e)) (\<lambda>b. 0 - some_one a)"
      using more by (cases a) auto
  qed
qed simp

lemma eats_infix_loop:
  assumes "\<And>m. eats n0 (rec m) (\<lambda>_. Suc 0)" "n < f" "n \<le> Suc n0"
  shows "eats n (infix_loop f rec U m e) (\<lambda>_. 0)"
  using assms(2,3)
proof (induction f arbitrary: n e)
  case (Suc f)
  show ?case
    unfolding infix_loop.simps
  proof (rule eats_bind [OF eats_operators(2)])
    fix a :: "infix_operator option"
    assume a: "some_one a \<le> n"
    have "eats (n - Suc 0) (bind_op (rec m') (\<lambda>rhs. infix_loop f rec U m (g rhs))) (\<lambda>_. 0)" if "0 < n" for m' g
      using that Suc.prems by (intro eats_bind1_0 [OF eats_mono [OF assms(1)]] Suc.IH) auto
    then show "eats (n - some_one a) (case a of None \<Rightarrow> return_op e | Some oper \<Rightarrow>
        bind_op (rec (infix_prec oper + infix_assoc oper)) (\<lambda>rhs. infix_loop f rec U m (infix_build oper e rhs))) (\<lambda>b. 0 - some_one a)"
      using a by (cases a) auto
  qed
qed simp

lemma eats_arguments:
  assumes "\<And>m. eats n0 (rec m) (\<lambda>_. Suc 0)" "n < f" "n \<le> n0"
  shows "eats n (parse_arguments f rec U i args) (\<lambda>_. 0)"
  using assms(2,3)
proof (induction f arbitrary: n args)
  case (Suc f)
  have IH: "eats (n - Suc 0) (parse_arguments f rec U i args) (\<lambda>_. 0)" if "0 < n" for args using Suc that by simp
  have more: "eats n' (bind_op (if i = count_name then next_if_token U TkAsterisk else return_op None) (\<lambda>found.
       if found \<noteq> None then parse_arguments f rec U i (args @ [E_Literal (L_Boolean True)])
       else bind_op (rec 0) (\<lambda>e. parse_arguments f rec U i (args @ [e])))) (\<lambda>_. 0)" if "n' = n \<or> n' = n - Suc 0" for n'
  proof (rule eats_bind_opt)
    show "eats n' (if i = count_name then next_if_token U TkAsterisk else return_op None) some_one"
      by (auto intro: eats_next_if_token)
    have IH': "eats (n' - Suc 0) (parse_arguments f rec U i args) (\<lambda>_. 0)" if "0 < n'" for args
      using IH [THEN eats_less] IH that \<open>n' = n \<or> n' = n - Suc 0\<close> by (cases "0 < n") auto
    show "eats (n' - Suc 0) (if Some a \<noteq> None then parse_arguments f rec U i (args @ [E_Literal (L_Boolean True)])
       else bind_op (rec 0) (\<lambda>e. parse_arguments f rec U i (args @ [e]))) (\<lambda>_. 0)" if "0 < n'" for a
      using IH' [OF that] by simp
    have "eats n' (rec 0) (\<lambda>_. Suc 0)" using that Suc.prems by (intro eats_mono [OF assms(1)]) auto
    then show "eats n' (if None \<noteq> None then parse_arguments f rec U i (args @ [E_Literal (L_Boolean True)])
       else bind_op (rec 0) (\<lambda>e. parse_arguments f rec U i (args @ [e]))) (\<lambda>_. 0)"
      using IH' by (simp, intro eats_bind1_0) auto
  qed
  show ?case
    unfolding parse_arguments.simps
  proof (rule eats_bind_opt [OF eats_next_if_token], goal_cases)
    case 1
    show ?case
    proof (cases "args = []")
      case True
      then show ?thesis using more by (simp add: eats_bind0)
    next
      case False
      have "eats n (bind_op (next_expect U (Some TkComma)) (\<lambda>_.
         bind_op (if i = count_name then next_if_token U TkAsterisk else return_op None) (\<lambda>found.
           if found \<noteq> None then parse_arguments f rec U i (args @ [E_Literal (L_Boolean True)])
           else bind_op (rec 0) (\<lambda>e. parse_arguments f rec U i (args @ [e]))))) (\<lambda>_. 0)"
        by (rule eats_bind1_0 [OF eats_expect], rule more) simp
      then show ?thesis using False by (simp del: One_nat_def)
    qed
  qed auto
qed simp

lemma number_literal_total: "number_literal U num \<noteq> Panic s"
proof -
  have "parse_digits limit n ds \<noteq> Panic s" for limit n ds s by (induction ds arbitrary: n) (auto simp: Let_def)
  then have "parse_i64 num \<noteq> Panic s" "parse_float U num \<noteq> Panic s" for s
    by (auto simp: parse_i64_def parse_unsigned_def parse_float_def split: option.split)
  then show ?thesis by (cases "parse_i64 num"; cases "parse_float U num") (auto simp: number_literal_def)
qed

lemma keyword_literal_total: "keyword_literal k \<noteq> Panic s"
  by (simp add: keyword_literal_def)

lemma eats_atom:
  assumes "\<And>m. eats n0 (rec m) (\<lambda>_. Suc 0)" "n \<le> f" "n \<le> Suc n0"
  shows "eats n (parse_expression_atom f rec U) (\<lambda>_. Suc 0)"
  unfolding parse_expression_atom_def
proof (rule eats_bind1 [OF eats_next])
  fix token
  assume n: "0 < n"
  have period: "eats k (bind_op (next_if_token U TkPeriod) (\<lambda>found.
      if found \<noteq> None then bind_op (next_ident U) (\<lambda>field. return_op (E_Field (Some i) field))
      else return_op (E_Field None i))) (\<lambda>_. 0)" for i k
    by (rule eats_bind_opt [OF eats_next_if_token]) (auto intro!: eats_bind1_0 [OF eats_ident])
  have args: "eats (n - Suc 0 - Suc 0) (bind_op (parse_arguments f rec U i []) (\<lambda>args. return_op (E_Function i args))) (\<lambda>_. 0)" for i
    using assms n by (intro eats_bind0 [OF eats_arguments [where rec = rec, OF assms(1)]]) auto
  have fn: "eats (n - Suc 0) (bind_op (next_if_token U TkOpenParen) (\<lambda>found.
        if found \<noteq> None then bind_op (parse_arguments f rec U i []) (\<lambda>args. return_op (E_Function i args))
        else bind_op (next_if_token U TkPeriod) (\<lambda>found.
          if found \<noteq> None then bind_op (next_ident U) (\<lambda>field. return_op (E_Field (Some i) field))
          else return_op (E_Field None i)))) (\<lambda>_. 0)" for i
    by (rule eats_bind_opt [OF eats_next_if_token]) (use period args in simp_all)
  have paren: "eats (n - Suc 0) (bind_op (rec 0) (\<lambda>e. bind_op (next_expect U (Some TkCloseParen)) (\<lambda>_. return_op e))) (\<lambda>_. 0)"
    using assms(3) by (intro eats_bind1_0 [OF eats_mono [OF assms(1)]] eats_bind1_0 [OF eats_expect]) auto
  show "eats (n - Suc 0) (case token of
      TkIdent i \<Rightarrow> bind_op (next_if_token U TkOpenParen) (\<lambda>found.
        if found \<noteq> None then bind_op (parse_arguments f rec U i []) (\<lambda>args. return_op (E_Function i args))
        else bind_op (next_if_token U TkPeriod) (\<lambda>found.
          if found \<noteq> None then bind_op (next_ident U) (\<lambda>field. return_op (E_Field (Some i) field))
          else return_op (E_Field None i)))
    | TkNumber num \<Rightarrow> lift_op (number_literal U num)
    | TkOpenParen \<Rightarrow> bind_op (rec 0) (\<lambda>e. bind_op (next_expect U (Some TkCloseParen)) (\<lambda>_. return_op e))
    | TkString s \<Rightarrow> return_op (E_Literal (L_String s))
    | TkKeyword k \<Rightarrow> lift_op (keyword_literal k)
    | _ \<Rightarrow> lift_op (Err (Parse ''Expected expression atom, found {}''))) (\<lambda>_. 0)"
    using fn paren by (cases token) (simp_all add: eats_lift number_literal_total keyword_literal_total eats_return)
qed

lemma eats_expression: "n < f \<Longrightarrow> eats n (parse_expression f U m) (\<lambda>_. Suc 0)"
proof (induction f arbitrary: n m)
  case (Suc f)
  have rec0: "eats (n - Suc 0) (parse_expression f U m) (\<lambda>_. Suc 0)" if "0 < n" for m using Suc that by simp
  have rec: "eats (f - Suc 0) (parse_expression f U m) (\<lambda>_. Suc 0)" if "0 < f" for m using Suc.IH that by simp
  have start: "eats n (bind_op (next_prefix U m) (\<lambda>found. case found of
         Some pre \<Rightarrow> bind_op (parse_expression f U (prefix_prec + prefix_assoc)) (\<lambda>e. return_op (prefix_build pre e))
       | None \<Rightarrow> parse_expression_atom f (parse_expression f U) U)) (\<lambda>_. Suc 0)"
  proof (rule eats_bind_opt1 [OF eats_operators(1)])
    show "eats n (case None of Some pre \<Rightarrow> bind_op (parse_expression f U (prefix_prec + prefix_assoc)) (\<lambda>e. return_op (prefix_build pre e))
        | None \<Rightarrow> parse_expression_atom f (parse_expression f U) U) (\<lambda>_. Suc 0)"
    proof (cases "f = 0")
      case True
      then have "n = 0" using Suc.prems by simp
      then show ?thesis by (simp add: parse_expression_atom_def, intro eats_bind1 [OF eats_next]) simp
    next
      case False
      then show ?thesis using eats_atom [of "f - Suc 0" "parse_expression f U" n f U] rec Suc.prems by simp
    qed
    show "eats (n - Suc 0) (case Some a of Some pre \<Rightarrow> bind_op (parse_expression f U (prefix_prec + prefix_assoc)) (\<lambda>e. return_op (prefix_build pre e))
        | None \<Rightarrow> parse_expression_atom f (parse_expression f U) U) (\<lambda>_. 0)" if "0 < n" for a
      using rec0 [OF that] by (simp, intro eats_bind1_0) auto
  qed
  show ?case
    unfolding parse_expression.simps
  proof (rule eats_bind1 [OF start])
    fix lhs
    assume n: "0 < n"
    then have f: "n - Suc 0 < f" "0 < f" using Suc.prems by auto
    show "eats (n - Suc 0) (bind_op (postfix_loop f U m lhs) (\<lambda>lhs. infix_loop f (parse_expression f U) U m lhs)) (\<lambda>_. 0)"
      using f eats_infix_loop [where rec = "parse_expression f U" and n = "n - Suc 0" and f = f, OF rec [OF f(2)]] by (intro eats_bind0 [OF eats_postfix_loop]) auto
  qed
qed simp

section \<open>Clauses and statements\<close>

lemma eats_opt_0: "eats n m some_one \<Longrightarrow> eats n m (\<lambda>_. 0)"
  by (erule eats_mono) simp_all

lemma eats_ret0: "eats n (return_op a) (\<lambda>_. 0)"
  by (rule eats_return) (rule refl)

lemmas eats0 = eats_weaken [OF eats_ident] eats_weaken [OF eats_expect] eats_weaken [OF eats_next] eats_peek eats_expect_end
  eats_opt_0 [OF eats_next_if_token] eats_opt_0 [OF eats_next_if_keyword] eats_ret0 eats_Err

lemmas eats_rules = eats_bind0 eats_if eats_option eats0

lemma eats_at: "eats N ex (\<lambda>_. Suc 0) \<Longrightarrow> n \<le> N \<Longrightarrow> eats n ex (\<lambda>_. Suc 0)"
  by (erule eats_mono) simp_all

lemma eats_clause:
  assumes "eats n ex (\<lambda>_. 0)"
  shows "eats n (parse_clause_where ex U) (\<lambda>_. 0)" "eats n (parse_clause_having ex U) (\<lambda>_. 0)" "eats n (parse_optional k ex U) (\<lambda>_. 0)"
  unfolding parse_clause_where_def parse_clause_having_def parse_optional_def by (intro eats_rules assms)+

lemma eats_from_table: "eats n (parse_clause_from_item U) (\<lambda>_. Suc 0)"
proof -
  have "eats n (case token of TkIdent _ \<Rightarrow> bind_op (next_ident U) (\<lambda>a. return_op (Some a)) | _ \<Rightarrow> return_op None) (\<lambda>_. 0)" for n token
    by (auto split: token.split intro!: eats_rules)
  then show ?thesis
    unfolding parse_clause_from_item_def parse_clause_from_table_def by (intro eats_bind1 [OF eats_ident] eats_rules)
qed

lemma eats_jointype: "eats n (parse_clause_from_jointype U) (\<lambda>_. 0)"
  unfolding parse_clause_from_jointype_def by (intro eats_rules)

lemma eats_join_loop:
  assumes "eats N ex (\<lambda>_. 0)"
  shows "n < f \<Longrightarrow> n \<le> N \<Longrightarrow> eats n (join_loop f ex U item) (\<lambda>_. 0)"
proof (induction f arbitrary: n item)
  case (Suc f)
  have ex: "eats (n - Suc 0) ex (\<lambda>_. 0)" using assms Suc.prems by (auto elim: eats_mono)
  have pred: "eats (n - Suc 0) (case jt of J_Cross \<Rightarrow> return_op None
      | _ \<Rightarrow> bind_op (next_expect U (Some (TkKeyword KwOn))) (\<lambda>_. bind_op ex (\<lambda>e. return_op (Some e)))) (\<lambda>_. 0)" for jt
    by (auto split: join_kind.split intro!: eats_rules ex)
  have "eats n (bind_op (parse_clause_from_item U) (\<lambda>right. bind_op (case jt of J_Cross \<Rightarrow> return_op None
      | _ \<Rightarrow> bind_op (next_expect U (Some (TkKeyword KwOn))) (\<lambda>_. bind_op ex (\<lambda>e. return_op (Some e)))) (\<lambda>predicate.
        join_loop f ex U (From_Join item right jt predicate)))) (\<lambda>_. 0)" for jt
    using Suc by (intro eats_bind1_0 [OF eats_from_table] eats_bind0 [OF pred]) simp_all
  then show ?case unfolding join_loop.simps by (intro eats_bind0 [OF eats_jointype] eats_option eats_ret0)
qed simp

lemma eats_from_loop:
  assumes "eats N ex (\<lambda>_. 0)"
  shows "n < f \<Longrightarrow> n \<le> N \<Longrightarrow> eats n (from_loop f ex U items) (\<lambda>_. 0)"
proof (induction f arbitrary: n items)
  case (Suc f)
  show ?case
    unfolding from_loop.simps using Suc
    by (intro eats_bind1_0 [OF eats_from_table] eats_bind0 [OF eats_join_loop [OF assms]] eats_rules) simp_all
qed simp

text \<open>A loop that begins with an expression and ends without a comma.\<close>

lemma eats_group_loop:
  assumes "eats N ex (\<lambda>_. Suc 0)"
  shows "n < f \<Longrightarrow> n \<le> N \<Longrightarrow> eats n (group_loop f ex U exprs) (\<lambda>_. 0)"
proof (induction f arbitrary: n exprs)
  case (Suc f)
  show ?case
    unfolding group_loop.simps using Suc by (intro eats_bind1_0 [OF eats_at [OF assms]] eats_rules) simp_all
qed simp

lemma eats_order_loop:
  assumes "eats N ex (\<lambda>_. Suc 0)"
  shows "n < f \<Longrightarrow> n \<le> N \<Longrightarrow> eats n (order_loop f ex U orders) (\<lambda>_. 0)"
proof (induction f arbitrary: n orders)
  case (Suc f)
  show ?case
    unfolding order_loop.simps using Suc by (intro eats_bind1_0 [OF eats_at [OF assms]] eats_rules) simp_all
qed simp

lemma eats_select_loop:
  assumes "eats N ex (\<lambda>_. Suc 0)"
  shows "n < f \<Longrightarrow> n \<le> N \<Longrightarrow> eats n (select_loop f ex U items) (\<lambda>_. 0)"
proof (induction f arbitrary: n items)
  case (Suc f)
  have label: "eats k (case token of
           Some (TkKeyword k) \<Rightarrow> if k = KwAs
             then bind_op (parser_next U) (\<lambda>_. bind_op (next_ident U) (\<lambda>label. return_op (Some label)))
             else return_op None
         | Some (TkIdent _) \<Rightarrow> bind_op (next_ident U) (\<lambda>label. return_op (Some label))
         | _ \<Rightarrow> return_op None) (\<lambda>_. 0)" for token k
    by (auto split: option.split token.split intro!: eats_rules)
  show ?case
    unfolding select_loop.simps using Suc
    by (intro eats_bind0 [OF eats_opt_0 [OF eats_next_if_token]] eats_if eats_ret0 eats_bind1_0 [OF eats_at [OF assms]] eats_rules label) simp_all
qed simp

lemma eats_attribute:
  assumes "eats n ex (\<lambda>_. 0)"
  shows "eats n (parse_attribute k ex U col) (\<lambda>_. 0)"
  unfolding parse_attribute_def by (intro eats_rules assms)

lemma eats_attribute_loop:
  assumes "eats N ex (\<lambda>_. 0)"
  shows "n < f \<Longrightarrow> n \<le> N \<Longrightarrow> eats n (attribute_loop f ex U col) (\<lambda>_. 0)"
proof (induction f arbitrary: n col)
  case (Suc f)
  have at: "eats (n - Suc 0) ex (\<lambda>_. 0)" using assms Suc.prems by (auto elim: eats_mono)
  have "eats (n - Suc 0) (case Some t of Some (TkKeyword k) \<Rightarrow> bind_op (parse_attribute k ex U col) (\<lambda>col. attribute_loop f ex U col)
      | _ \<Rightarrow> return_op col) (\<lambda>_. 0)" if "0 < n" for t
    using Suc that by (auto split: token.split intro!: eats_bind0 [OF eats_attribute [OF at]] eats_ret0)
  then show ?case unfolding attribute_loop.simps by (intro eats_bind_opt [OF eats_next_if_keyword]) (simp_all add: eats_ret0)
qed simp

lemma parse_datatype_total: "parse_datatype t \<noteq> Panic s"
  by (auto simp: parse_datatype_def split: token.split)

lemma eats_columnspec:
  assumes "eats N ex (\<lambda>_. 0)" "n \<le> f" "n \<le> N"
  shows "eats n (parse_ddl_columnspec f ex U) (\<lambda>_. Suc 0)"
  unfolding parse_ddl_columnspec_def using assms(2,3)
  by (intro eats_bind1 [OF eats_ident] eats_rules eats_lift eats_attribute_loop [OF assms(1)]) (simp_all add: parse_datatype_total)

lemma eats_column_loop:
  assumes "eats N ex (\<lambda>_. 0)"
  shows "n < f \<Longrightarrow> n \<le> N \<Longrightarrow> eats n (column_loop f ex U cols) (\<lambda>_. 0)"
proof (induction f arbitrary: n cols)
  case (Suc f)
  show ?case
    unfolding column_loop.simps using Suc
    by (intro eats_bind1_0 [OF eats_columnspec [OF assms]] eats_rules) simp_all
qed simp

lemma eats_ident_loop: "n < f \<Longrightarrow> eats n (ident_loop f U cols) (\<lambda>_. 0)"
proof (induction f arbitrary: n cols)
  case (Suc f)
  show ?case
    unfolding ident_loop.simps using Suc by (intro eats_bind1_0 [OF eats_ident] eats_rules) simp_all
qed simp

lemma eats_exprs_loop:
  assumes "eats N ex (\<lambda>_. Suc 0)"
  shows "n < f \<Longrightarrow> n \<le> N \<Longrightarrow> eats n (exprs_loop f ex U exprs) (\<lambda>_. 0)"
proof (induction f arbitrary: n exprs)
  case (Suc f)
  show ?case
    unfolding exprs_loop.simps using Suc by (intro eats_bind1_0 [OF eats_at [OF assms]] eats_rules) simp_all
qed simp

lemma eats_values_loop:
  assumes "eats N ex (\<lambda>_. Suc 0)"
  shows "n < f \<Longrightarrow> n \<le> N \<Longrightarrow> eats n (values_loop f ex U rows) (\<lambda>_. 0)"
proof (induction f arbitrary: n rows)
  case (Suc f)
  show ?case
    unfolding values_loop.simps using Suc
    by (intro eats_bind1_0 [OF eats_expect] eats_bind0 [OF eats_exprs_loop [OF assms]] eats_rules) simp_all
qed simp

lemma eats_set_loop:
  assumes "eats N ex (\<lambda>_. 0)"
  shows "n < f \<Longrightarrow> n \<le> N \<Longrightarrow> eats n (set_loop f ex U acc) (\<lambda>_. 0)"
proof (induction f arbitrary: n acc)
  case (Suc f)
  have ex: "eats (n - Suc 0) ex (\<lambda>_. 0)" using assms Suc.prems by (auto elim: eats_mono)
  show ?case
    unfolding set_loop.simps using Suc by (intro eats_bind1_0 [OF eats_ident] eats_bind0 [OF ex] eats_rules) simp_all
qed simp

lemma parse_u64_total: "parse_u64 ds \<noteq> Panic s"
proof -
  have "parse_digits limit n ds \<noteq> Panic s" for limit n ds by (induction ds arbitrary: n) (auto simp: Let_def)
  then show ?thesis by (simp add: parse_u64_def parse_unsigned_def)
qed

lemma eats_transaction: "eats n (parse_transaction U) (\<lambda>_. 0)"
proof -
  have number: "eats n (case token of TkNumber num \<Rightarrow> bind_op (lift_op (parse_u64 num)) (\<lambda>v. return_op (Some v))
      | _ \<Rightarrow> lift_op (Err (Parse ''Unexpected token {}, wanted number''))) (\<lambda>_. 0)" for n token
    by (auto split: token.split intro!: eats_rules eats_lift simp: parse_u64_total)
  have "eats n (parse_mode U) (\<lambda>_. 0)" "eats n (parse_as_of U) (\<lambda>_. 0)" for n
    unfolding parse_mode_def parse_as_of_def by (intro eats_rules number)+
  then show ?thesis unfolding parse_transaction_def by (intro eats_rules)
qed

lemma eats_parts:
  assumes "n < f"
  shows "eats n (parse_ddl f (parse_expression f U 0) U) (\<lambda>_. 0)" "eats n (parse_statement_delete (parse_expression f U 0) U) (\<lambda>_. 0)"
    "eats n (parse_statement_insert f (parse_expression f U 0) U) (\<lambda>_. 0)" "eats n (parse_statement_select f (parse_expression f U 0) U) (\<lambda>_. 0)"
    "eats n (parse_statement_update f (parse_expression f U 0) U) (\<lambda>_. 0)"
proof -
  have ex: "eats n (parse_expression f U 0) (\<lambda>_. Suc 0)" using eats_expression [OF assms] .
  note ex0 = eats_weaken [OF ex]
  show "eats n (parse_ddl f (parse_expression f U 0) U) (\<lambda>_. 0)"
    unfolding parse_ddl_def parse_ddl_create_table_def parse_ddl_drop_table_def using assms
    by (intro eats_rules eats_column_loop [OF ex0]) simp_all
  show "eats n (parse_statement_delete (parse_expression f U 0) U) (\<lambda>_. 0)"
    unfolding parse_statement_delete_def by (intro eats_rules eats_clause ex0)
  show "eats n (parse_statement_insert f (parse_expression f U 0) U) (\<lambda>_. 0)"
    unfolding parse_statement_insert_def using assms by (intro eats_rules eats_ident_loop eats_values_loop [OF ex]) simp_all
  show "eats n (parse_statement_select f (parse_expression f U 0) U) (\<lambda>_. 0)"
    unfolding parse_statement_select_def parse_clause_select_def parse_clause_from_def parse_clause_group_by_def parse_clause_order_def
    using assms by (intro eats_rules eats_clause ex0 eats_select_loop [OF ex] eats_from_loop [OF ex0] eats_group_loop [OF ex]
        eats_order_loop [OF ex]) simp_all
  show "eats n (parse_statement_update f (parse_expression f U 0) U) (\<lambda>_. 0)"
    unfolding parse_statement_update_def using assms by (intro eats_rules eats_set_loop [OF ex0] eats_clause ex0) simp_all
qed

lemma eats_statement: "n < d \<Longrightarrow> n < f \<Longrightarrow> eats n (parse_statement d f U) (\<lambda>_. 0)"
proof (induction d arbitrary: n)
  case (Suc d)
  have explain: "eats n (parse_statement_explain (parse_statement d f U) U) (\<lambda>_. 0)"
    unfolding parse_statement_explain_def using Suc by (intro eats_bind1_0 [OF eats_expect] eats_bind0 [OF eats_peek] eats_rules) simp_all
  show ?case
    unfolding parse_statement.simps Let_def using eats_parts [OF Suc.prems(2)]
    by (intro eats_rules eats_transaction explain)
qed simp

text \<open>(C32) The parser is total: every text, of whatever characters, gives a statement or an error.  The parser does not
  panic, and its loops and recursions end within the fuel \<open>parse\<close> gives them.\<close>

theorem sql_parser_total: "\<exists>x. parse U query = Ok x \<or> (\<exists>e. parse U query = Err e)"
proof -
  have "eats (length query) (parse_with (length query + 2) U) (\<lambda>_. 0)"
    unfolding parse_with_def by (intro eats_bind0 [OF eats_statement] eats_rules) simp_all
  moreover have "good (parser_new query)" "left (parser_new query) = length query"
    by (simp_all add: good_def left_def parser_new_def)
  ultimately have "fst (parse_with (length query + 2) U (parser_new query)) \<noteq> Panic s" for s
    unfolding eats_def by (metis fst_conv order_refl prod.exhaust_sel)
  then show ?thesis by (cases "parse U query") (auto simp: parse_def)
qed

end
