(* ===== verification/Spec2Isabelle.thy ===== *)
theory Spec2Isabelle
  imports Keycode Memory Bitcask Mvcc_Scan Raft_Log_Run Raft_Cluster Raft_Apply Raft_Commit Sql_Arithmetic Sql_Database Sql_Parser_Total
begin

text \<open>
  A verification library for RaDB, a distributed SQL database in Rust.

  \<^bold>\<open>The program.\<close>  RaDB is a stack of layers.  At the bottom a storage engine (\<^verbatim>\<open>src/src/storage\<close>)
  keeps byte strings under ordered byte-string keys, in memory or in an append-only log file.  Keys of all kinds are made
  by an order-preserving encoding (\<^verbatim>\<open>src/src/encoding/keycode.rs\<close>).  On the engine runs a multi-version
  transaction layer (\<^verbatim>\<open>storage/mvcc.rs\<close>), and separately the log of the Raft consensus protocol
  (\<^verbatim>\<open>src/src/raft\<close>), whose nodes elect a leader, replicate commands and apply the committed ones to a state
  machine.  The SQL layer (\<^verbatim>\<open>src/src/sql\<close>) parses a statement, plans, optimizes and executes it against
  a transaction interface, which \<^verbatim>\<open>sql/engine/kv.rs\<close> implements with rows, index entries and schemas in MVCC.

  \<^bold>\<open>Conventions.\<close>  \<open>Prelude\<close> has the machine integers as words, the error type of
  \<^verbatim>\<open>error.rs\<close>, and \<open>result\<close>, which is Rust's with a third case for panics.  A method is an operation
  \<open>('s, 'a) op\<close> from a state to a result and a state; \<open>bind_op\<close> is the question mark operator.  An error keeps the
  format string of its message, with the placeholders in it.  Plain integer arithmetic panics on overflow, as in a build
  with overflow checks; checked arithmetic and casts are as the source writes them.  \<open>Op_Logic\<close> is a Hoare logic
  over such operations in which every outcome has a postcondition, and \<open>Ordered_Map\<close> the B-tree map of the standard
  library.

  \<^bold>\<open>Storage.\<close>
  \<^item> \<open>Keycode\<close> (\<^verbatim>\<open>encoding/keycode.rs\<close>): serializer and decoders of every supported type.  The
    locale \<open>order_codec\<close> is what a key type needs: it round-trips, sorts as its values, and can stand in front of any
    suffix; it is interpreted for integers, floats, booleans, byte strings and strings, and for pairs.
  \<^item> \<open>Engine\<close>, \<open>Memory\<close>, \<open>Bitcask\<close> (\<^verbatim>\<open>storage/engine.rs\<close>,
    \<^verbatim>\<open>memory.rs\<close>, \<^verbatim>\<open>bitcask.rs\<close>): the \<^verbatim>\<open>Engine\<close> trait is a record of
    methods, and the locale \<open>storage_engine\<close> its contract, which both engines meet.  The log file of BitCask is its byte
    content; a torn last write is recovered from, and compaction keeps the content and leaves no garbage.
  \<^item> \<open>Typed_Store\<close> lifts the contract from byte strings to an enum of keys.  \<open>Mvcc_Key\<close> and
    \<open>Raft_Log\<close> interpret it.

  \<^bold>\<open>Transactions\<close> (\<^verbatim>\<open>storage/mvcc.rs\<close>).  \<open>Mvcc\<close> has every method, over any engine.
  \<open>Mvcc_Spec\<close> is an abstract state of versions, active transactions and snapshots, \<open>Mvcc_Store\<close> relates it to an
  engine, and \<open>Mvcc_Refine\<close> shows that each method implements its abstract operation.  \<open>Mvcc_Txn\<close> draws the
  consequences for every interleaving of transactions: snapshot isolation, time travel, conflicts exactly where an invisible
  version exists, no lost updates, commit and rollback.  \<open>Mvcc_Scan\<close> shows that scans return exactly what single reads
  would, in order.  The mutex of the source makes each method one step.

  \<^bold>\<open>Raft\<close> (\<^verbatim>\<open>raft\<close>).
  \<^item> \<open>Raft_Log\<close> (\<^verbatim>\<open>raft/log.rs\<close>) has every method of the log.  \<open>Raft_Log_Refine\<close>,
    \<open>Raft_Log_Splice\<close> and \<open>Raft_Log_Run\<close> show that it answers every sequence of calls as a list of entries does,
    also after it is reopened, what exactly a splice does, and when committed entries are stable.
  \<^item> \<open>Raft_Node\<close> and \<open>Raft_Roles\<close> (\<^verbatim>\<open>raft/message.rs\<close>, \<^verbatim>\<open>state.rs\<close>,
    \<^verbatim>\<open>node\<close>) have every method of the three roles.  The outgoing channel is the list of the envelopes sent, the
    random timeouts a sequence of draws.  The recursion of a follower's \<open>step\<close> has fuel 2; more changes nothing
    (\<open>raft_step_terminates\<close>).
  \<^item> \<open>Raft_Vote\<close>, \<open>Raft_Election\<close> and \<open>Raft_Cluster\<close> follow the persisted vote through every method and
    show that no term has two leaders in a cluster with message loss, delay, repetition and reordering and with crashes and
    restarts.  \<open>Raft_Apply\<close> shows what a node applies.  \<open>Raft_Commit\<close> shows that a follower acknowledges what it
    holds, and, over the same clusters, that a leader commits only entries of its term that a majority has acknowledged to it.
    \<open>Raft_Sample\<close> is an election on concrete nodes.  These theorems are for engines that accept entries of any size, as
    the memory engine does.  That committed logs of different nodes agree is not shown: a splice can cut off entries
    that were acknowledged or committed (\<open>raft_splice_exact\<close>), so a repeated old message can undo an acknowledgement.

  \<^bold>\<open>SQL.\<close>
  \<^item> \<open>Sql_Lexer\<close>, \<open>Sql_Ast\<close>, \<open>Sql_Parser\<close> (\<^verbatim>\<open>sql/parser\<close>): tokens, syntax trees
    and every parsing method.  \<open>Sql_Parser_Total\<close> shows that every text gives a statement or an error.  The loops and the
    recursion of the parser have fuel: two more than the input has characters, which is enough since every round takes a token.
  \<^item> \<open>Sql_Types\<close>, \<open>Sql_Expression\<close> (\<^verbatim>\<open>sql/types\<close>): values and the evaluation and rewriting
    of expressions.  \<open>Sql_Normal_Form\<close> shows that the normal forms end and keep the value, with a locale
    \<open>rewriting\<close> for the rules; \<open>Sql_Typing\<close> shows type soundness and lookups, \<open>Sql_Arithmetic\<close> that
    integer arithmetic is exact or fails.  \<open>transform\<close> takes any closure and may not end, so it is a partial function.
  \<^item> \<open>Sql_Schema\<close>, \<open>Sql_Plan\<close>, \<open>Sql_Execution\<close> (\<^verbatim>\<open>sql/schema.rs\<close>,
    \<^verbatim>\<open>sql/plan/mod.rs\<close>, \<^verbatim>\<open>optimizer.rs\<close>, \<^verbatim>\<open>sql/execution\<close>): tables and their
    validation, plans, the five optimizer passes, and the executor over any transaction.  An iterator of rows is the list of
    its items.  \<open>Sql_Join\<close> shows what the joins compute, \<open>Sql_Optimizer\<close> that constant folding is sound and, with
    three plans (\<open>optimizer_changes_results\<close>), that the other passes are not in general.
  \<^item> \<open>Sql_Kv\<close> (\<^verbatim>\<open>sql/engine/kv.rs\<close>): the engine of rows and indexes.  The locale
    \<open>sql_store\<close> of \<open>Sql_Kv_Store\<close> is what it needs of a key/value transaction; \<open>Sql_Kv_Run\<close> gives the
    effect of each method on an abstract database and \<open>Sql_Integrity\<close> the invariant: rows fit their schema, indexes are
    exact, references exist, unique values are unique.  \<open>Sql_Mvcc\<close> shows that an open MVCC transaction meets
    \<open>sql_store\<close>, on engines that store entries of any size, so the invariant holds for the whole stack below;
    \<open>Sql_Database\<close> does the same for the laws the optimizer needs.  The invariant is for statements that succeed, and
    for tables with distinct column names and no floats in key, indexed, unique and referencing columns; what goes wrong
    outside these conditions is in the findings, one case as the lemma \<open>failed_update_breaks_index\<close>.

  \<^bold>\<open>Parameters.\<close>  Third-party code and tables of the platform are arguments: \<^verbatim>\<open>bincode\<close>, with its
  round trip as hypothesis (\<open>bincode_ok\<close>, \<open>raft_bincode_ok\<close>, \<open>sb_ok\<close>, each met by a concrete encoding),
  regular expressions, the arithmetic and printing of floats, Unicode classes and case conversion, the reading of decimal
  floats, and the iteration order of hash maps.  Nothing is assumed of them but the round trips and, where a leader commits,
  that an iteration over a hash map meets every key once.

  \<^bold>\<open>Not modelled.\<close>
  \<^item> \<^verbatim>\<open>sql/plan/planner.rs\<close>, \<^verbatim>\<open>transform\<close> of \<^verbatim>\<open>sql/parser/ast.rs\<close>, which
    only it calls, and \<^verbatim>\<open>Session\<close> of \<^verbatim>\<open>sql/engine/mod.rs\<close>, which joins parser, planner and
    executor: a gap of this library.  The parser and the executor are therefore verified apart.
  \<^item> \<^verbatim>\<open>sql/engine/raft.rs\<close>: a client that waits for asynchronous answers, and the state machine that runs the
    serialized statements.  The Raft model is generic in the state machine.
  \<^item> \<^verbatim>\<open>server.rs\<close>, \<^verbatim>\<open>client.rs\<close> and \<^verbatim>\<open>bin\<close>: network and terminal I/O.
  \<^item> \<^verbatim>\<open>storage/debug.rs\<close> and the printing of schemas as SQL: output for people.  \<^verbatim>\<open>encoding/bincode.rs\<close>:
    calls of a third-party crate.
  \<^item> File paths, locks and the durability of \<^verbatim>\<open>sync_all\<close>; the drop handlers; time.
\<close>

end
